(* ===== verification/Prelude.thy ===== *)
theory Prelude
  imports Main "HOL-Library.Word" "HOL-Library.Monad_Syntax"
begin

text \<open>
  Shared vocabulary of the fedis development.

  A C function that only computes is a HOL function.  A C function that can run into behaviour
  the C standard leaves undefined (a read or write outside an allocation, the use of a null
  pointer or of an uninitialised value), that can fail an \<open>assert\<close> or that calls
  \<open>exit\<close> is a function into \<open>'a option\<close>: \<open>None\<close> says that the execution has no defined
  continuation, \<open>Some\<close> carries the value and the new state.  The error codes the program itself
  returns (\<open>DICT_ERR\<close>, \<open>-1\<close>, a null result) are ordinary values under the \<open>Some\<close>.

  Memory is a list of bytes per allocation: an allocation of n bytes is a list of length n, and
  the functions below are the loads, stores and block copies with their bounds checks.
\<close>

section \<open>Bytes and C strings\<close>

type_synonym byte = char
type_synonym bytes = "char list"

abbreviation NUL :: char where "NUL \<equiv> CHR 0x00"
abbreviation CR :: char where "CR \<equiv> CHR 0x0D"
abbreviation LF :: char where "LF \<equiv> CHR 0x0A"
abbreviation CRLF :: bytes where "CRLF \<equiv> [CR, LF]"

named_theorems mem_simps \<open>loads, stores and block copies inside their bounds\<close>
named_theorems mem_defs \<open>definitions of the memory primitives\<close>

definition assert_c :: "bool \<Rightarrow> unit option" where
  [mem_defs]: "assert_c b = (if b then Some () else None)"

definition load :: "'a list \<Rightarrow> int \<Rightarrow> 'a option" where
  [mem_defs]: "load b i = (if 0 \<le> i \<and> i < int (length b) then Some (b ! nat i) else None)"

definition store :: "'a list \<Rightarrow> int \<Rightarrow> 'a \<Rightarrow> 'a list option" where
  [mem_defs]: "store b i x = (if 0 \<le> i \<and> i < int (length b) then Some (b[nat i := x]) else None)"

definition load_block :: "'a list \<Rightarrow> int \<Rightarrow> int \<Rightarrow> 'a list option" where
  [mem_defs]: "load_block b i n =
     (if 0 \<le> i \<and> 0 \<le> n \<and> i + n \<le> int (length b) then Some (take (nat n) (drop (nat i) b)) else None)"

definition store_block :: "'a list \<Rightarrow> int \<Rightarrow> 'a list \<Rightarrow> 'a list option" where
  [mem_defs]: "store_block b i xs =
     (if 0 \<le> i \<and> i + int (length xs) \<le> int (length b)
      then Some (take (nat i) b @ xs @ drop (nat i + length xs) b) else None)"

text \<open>The C string that starts at index \<open>i\<close>: undefined when no terminator follows in the allocation.\<close>

definition cstring :: "bytes \<Rightarrow> int \<Rightarrow> bytes option" where
  [mem_defs]: "cstring b i =
     (if 0 \<le> i \<and> i \<le> int (length b) \<and> NUL \<in> set (drop (nat i) b)
      then Some (takeWhile (\<lambda>c. c \<noteq> NUL) (drop (nat i) b)) else None)"

text \<open>A byte list that can be a C string: it holds no terminator of its own.\<close>

definition nul_free :: "bytes \<Rightarrow> bool" where
  "nul_free s \<longleftrightarrow> NUL \<notin> set s"

section \<open>Facts about the primitives\<close>

lemmas bind_Some_iff [mem_simps] = Option.bind_eq_Some_conv

lemma assert_c_Some [simp]: "assert_c b = Some u \<longleftrightarrow> b"
  by (cases u) (simp add: assert_c_def)

lemma assert_c_True [simp]: "assert_c True = Some ()"
  by (simp add: assert_c_def)

lemma assert_c_False [simp]: "assert_c False = None"
  by (simp add: assert_c_def)

lemma load_Some [mem_simps]: "load b i = Some x \<longleftrightarrow> 0 \<le> i \<and> i < int (length b) \<and> x = b ! nat i"
  by (auto simp: load_def)

lemma load_nat [mem_simps]: "n < length b \<Longrightarrow> load b (int n) = Some (b ! n)"
  by (simp add: load_def)

lemma load_block_Some [mem_simps]:
  "load_block b i n = Some xs \<longleftrightarrow>
     0 \<le> i \<and> 0 \<le> n \<and> i + n \<le> int (length b) \<and> xs = take (nat n) (drop (nat i) b)"
  by (auto simp: load_block_def)

lemma store_block_Some [mem_simps]:
  "store_block b i xs = Some b' \<longleftrightarrow>
     0 \<le> i \<and> i + int (length xs) \<le> int (length b) \<and>
     b' = take (nat i) b @ xs @ drop (nat i + length xs) b"
  by (auto simp: store_block_def)

lemma store_Some [mem_simps]:
  "store b i x = Some b' \<longleftrightarrow> 0 \<le> i \<and> i < int (length b) \<and> b' = b[nat i := x]"
  by (auto simp: store_def)

lemma cstring_Some:
  "cstring b i = Some s \<longleftrightarrow>
     0 \<le> i \<and> i \<le> int (length b) \<and> NUL \<in> set (drop (nat i) b) \<and>
     s = takeWhile (\<lambda>c. c \<noteq> NUL) (drop (nat i) b)"
  by (auto simp: cstring_def)

lemma cstring_terminated [mem_simps]: "nul_free s \<Longrightarrow> cstring (s @ NUL # r) 0 = Some s"
  by (simp add: cstring_def nul_free_def takeWhile_append)

lemma length_store_block: "store_block b i xs = Some b' \<Longrightarrow> length b' = length b"
  by (auto simp: store_block_def split: if_splits)

lemma nul_free_append [simp]: "nul_free (xs @ ys) \<longleftrightarrow> nul_free xs \<and> nul_free ys"
  by (auto simp: nul_free_def)

lemma nul_free_Nil [simp]: "nul_free []"
  by (simp add: nul_free_def)

lemma nul_free_Cons [simp]: "nul_free (x # xs) \<longleftrightarrow> x \<noteq> NUL \<and> nul_free xs"
  by (auto simp: nul_free_def)

lemma nul_free_takeWhile: "nul_free (takeWhile (\<lambda>c. c \<noteq> NUL) s)"
  by (auto simp: nul_free_def dest: set_takeWhileD)

lemma cstring_nul_free: "cstring b i = Some s \<Longrightarrow> nul_free s"
  by (auto simp: cstring_Some nul_free_takeWhile)

lemma takeWhile_nul_free: "nul_free s \<Longrightarrow> takeWhile (\<lambda>c. c \<noteq> NUL) s = s"
  by (auto simp: nul_free_def)

end
