(* ===== verification/CText.thy ===== *)
theory CText
  imports Prelude
begin

text \<open>
  The text functions of the C library the program calls: the character classes of
  \<open>ctype.h\<close>, decimal printing (\<open>printf\<close> with \<open>%d\<close>, \<open>%ld\<close>, \<open>%lu\<close>), \<open>strtol\<close> and \<open>strtoll\<close> in base
  10 and 16, \<open>sscanf\<close> with \<open>%d%n\<close>, \<open>atoi\<close> and the case-insensitive comparisons.  They work on
  the bytes of a C string before its terminator.
\<close>

section \<open>Characters\<close>

definition char_code :: "char \<Rightarrow> nat" where
  "char_code c = of_char c"

lemma char_code_eq_iff [simp]: "char_code a = char_code b \<longleftrightarrow> a = b"
  by (simp add: char_code_def)

lemma char_code_0_iff [simp]: "char_code c = 0 \<longleftrightarrow> c = NUL"
  using char_code_eq_iff [of c NUL] by (simp add: char_code_def del: char_code_eq_iff of_char_eq_iff)

definition isdigit :: "char \<Rightarrow> bool" where
  "isdigit c \<longleftrightarrow> 48 \<le> char_code c \<and> char_code c \<le> 57"

definition isspace :: "char \<Rightarrow> bool" where
  "isspace c \<longleftrightarrow> char_code c = 32 \<or> (9 \<le> char_code c \<and> char_code c \<le> 13)"

definition tolower :: "char \<Rightarrow> char" where
  "tolower c = (if 65 \<le> char_code c \<and> char_code c \<le> 90 then char_of (char_code c + 32) else c)"

definition digit_val :: "char \<Rightarrow> nat" where
  "digit_val c = char_code c - 48"

text \<open>The value of a hexadecimal digit; \<open>None\<close> for any other character.\<close>

definition xdigit_val :: "char \<Rightarrow> nat option" where
  "xdigit_val c =
     (let n = char_code c in
      if 48 \<le> n \<and> n \<le> 57 then Some (n - 48)
      else if 97 \<le> n \<and> n \<le> 102 then Some (n - 87)
      else if 65 \<le> n \<and> n \<le> 70 then Some (n - 55) else None)"

definition strcasecmp_eq :: "string \<Rightarrow> string \<Rightarrow> bool" where
  "strcasecmp_eq s t \<longleftrightarrow> map tolower s = map tolower t"

text \<open>\<open>strncasecmp (s, t, n) == 0\<close>, on the bytes before the terminators.\<close>

definition strncasecmp_eq :: "string \<Rightarrow> string \<Rightarrow> nat \<Rightarrow> bool" where
  "strncasecmp_eq s t n \<longleftrightarrow> map tolower (take n s) = map tolower (take n t)"

definition digit_char :: "nat \<Rightarrow> char" where
  "digit_char d = char_of (48 + d)"

lemma isdigit_digit_char [simp]: "d < 10 \<Longrightarrow> isdigit (digit_char d)"
  by (simp add: isdigit_def digit_char_def char_code_def)

lemma digit_val_digit_char [simp]: "d < 10 \<Longrightarrow> digit_val (digit_char d) = d"
  by (simp add: digit_val_def digit_char_def char_code_def)

lemma isdigit_not_space: "isdigit c \<Longrightarrow> \<not> isspace c"
  by (auto simp: isdigit_def isspace_def)

lemma isdigit_neq [simp]:
  "isdigit c \<Longrightarrow> c \<noteq> NUL" "isdigit c \<Longrightarrow> c \<noteq> CR" "isdigit c \<Longrightarrow> c \<noteq> LF"
  "isdigit c \<Longrightarrow> c \<noteq> CHR ''-''" "isdigit c \<Longrightarrow> c \<noteq> CHR ''+''"
  by (auto simp: isdigit_def char_code_def)

lemma not_isdigit [simp]:
  "\<not> isdigit NUL" "\<not> isdigit CR" "\<not> isdigit LF" "\<not> isdigit (CHR ''-'')" "\<not> isdigit (CHR ''+'')"
  "\<not> isdigit (CHR ''$'')" "\<not> isdigit (CHR ''*'')" "\<not> isdigit (CHR '':'')"
  by (auto simp: isdigit_def char_code_def)

lemma not_isspace [simp]: "\<not> isspace (CHR ''-'')" "\<not> isspace (CHR ''+'')" "\<not> isspace (CHR ''$'')"
  by (auto simp: isspace_def char_code_def)

section \<open>Printing integers\<close>

fun dec_nat :: "nat \<Rightarrow> string" where
  "dec_nat n = (if n < 10 then [digit_char n] else dec_nat (n div 10) @ [digit_char (n mod 10)])"

declare dec_nat.simps [simp del]

definition dec_int :: "int \<Rightarrow> string" where
  "dec_int i = (if i < 0 then CHR ''-'' # dec_nat (nat (- i)) else dec_nat (nat i))"

definition digits_value :: "nat \<Rightarrow> string \<Rightarrow> nat" where
  "digits_value acc ds = foldl (\<lambda>a c. 10 * a + digit_val c) acc ds"

lemma dec_nat_digits: "list_all isdigit (dec_nat n)"
proof (induction n rule: dec_nat.induct)
  case (1 n)
  then show ?case by (subst dec_nat.simps) auto
qed

lemma dec_nat_nonempty [simp]: "dec_nat n \<noteq> []"
  by (subst dec_nat.simps) auto

lemma digits_value_dec_nat: "digits_value 0 (dec_nat n) = n"
proof (induction n rule: dec_nat.induct)
  case (1 n)
  then show ?case by (subst dec_nat.simps) (auto simp: digits_value_def)
qed

lemma dec_nat_hd_digit: "isdigit (hd (dec_nat n))"
  using dec_nat_digits [of n] by (cases "dec_nat n") auto

lemma nul_free_digits: "list_all isdigit ds \<Longrightarrow> nul_free ds"
  by (induction ds) auto

lemma nul_free_dec_nat [simp]: "nul_free (dec_nat n)"
  by (rule nul_free_digits [OF dec_nat_digits])

lemma nul_free_dec_int [simp]: "nul_free (dec_int i)"
  by (simp add: dec_int_def)

lemma dec_int_nonempty [simp]: "dec_int i \<noteq> []"
  by (simp add: dec_int_def)

lemma digits_no_CR: "list_all isdigit ds \<Longrightarrow> CR \<notin> set ds \<and> LF \<notin> set ds"
  by (induction ds) auto

lemma dec_int_no_CRLF [simp]: "CR \<notin> set (dec_int i)" "LF \<notin> set (dec_int i)"
  using digits_no_CR [OF dec_nat_digits] by (auto simp: dec_int_def)

lemma length_dec_nat_pos: "0 < length (dec_nat n)"
  by simp

lemma length_dec_nat_le: "n < 10 ^ k \<Longrightarrow> 0 < k \<Longrightarrow> length (dec_nat n) \<le> k"
proof (induction n arbitrary: k rule: dec_nat.induct)
  case (1 n)
  show ?case
  proof (cases "n < 10")
    case True
    with 1 show ?thesis by (subst dec_nat.simps) simp
  next
    case False
    with 1(2) have "k \<noteq> 1" by auto
    with 1(3) obtain k' where k: "k = Suc k'" "0 < k'" by (cases k) auto
    with 1(2) have "n div 10 < 10 ^ k'" by auto
    with 1(1) [OF False this k(2)] False k show ?thesis by (subst dec_nat.simps) simp
  qed
qed

section \<open>Reading integers\<close>

definition LONG_MAX :: int where "LONG_MAX = 9223372036854775807"
definition LONG_MIN :: int where "LONG_MIN = - 9223372036854775808"
definition INT_MAX :: int where "INT_MAX = 2147483647"
definition INT_MIN :: int where "INT_MIN = - 2147483648"

lemmas c_limits = LONG_MAX_def LONG_MIN_def INT_MAX_def INT_MIN_def

text \<open>
  The subject sequence of a decimal conversion: white space, an optional sign, digits.  The
  result is the sign, the digits and what follows them.
\<close>

definition split_sign :: "string \<Rightarrow> bool \<times> string" where
  "split_sign s = (case s of [] \<Rightarrow> (False, [])
     | c # r \<Rightarrow> if c = CHR ''-'' then (True, r) else if c = CHR ''+'' then (False, r) else (False, s))"

definition split_decimal :: "string \<Rightarrow> bool \<times> string \<times> string" where
  "split_decimal s = (let (neg, r) = split_sign (dropWhile isspace s)
                      in (neg, takeWhile isdigit r, dropWhile isdigit r))"

text \<open>
  \<open>strtol (s, &endptr, 10)\<close>: the value, what \<open>endptr\<close> points to and whether \<open>errno\<close> is set to
  \<open>ERANGE\<close>.  Without digits \<open>endptr\<close> is \<open>s\<close> itself and the value 0.
\<close>

definition clamp_long :: "int \<Rightarrow> int \<times> bool" where
  "clamp_long v = (if v > LONG_MAX then (LONG_MAX, True)
                   else if v < LONG_MIN then (LONG_MIN, True) else (v, False))"

definition strtol10 :: "string \<Rightarrow> int \<times> string \<times> bool" where
  "strtol10 s = (case split_decimal s of (neg, ds, r) \<Rightarrow>
     if ds = [] then (0, s, False)
     else let n = int (digits_value 0 ds); (v, e) = clamp_long (if neg then - n else n)
          in (v, r, e))"

text \<open>Base 16: after the sign an optional \<open>0x\<close> that a hexadecimal digit follows.\<close>

fun hex_value :: "nat \<Rightarrow> string \<Rightarrow> nat" where
  "hex_value acc [] = acc"
| "hex_value acc (c # cs) =
     (case xdigit_val c of None \<Rightarrow> acc | Some d \<Rightarrow> hex_value (16 * acc + d) cs)"

definition isxdigit :: "char \<Rightarrow> bool" where
  "isxdigit c \<longleftrightarrow> xdigit_val c \<noteq> None"

definition skip_0x :: "string \<Rightarrow> string" where
  "skip_0x s = (case s of a # b # c # r \<Rightarrow>
      if a = CHR ''0'' \<and> (b = CHR ''x'' \<or> b = CHR ''X'') \<and> isxdigit c then c # r else s
    | _ \<Rightarrow> s)"

definition strtol16 :: "string \<Rightarrow> int \<times> string \<times> bool" where
  "strtol16 s =
     (let (neg, r) = split_sign (dropWhile isspace s); r' = skip_0x r;
          ds = takeWhile isxdigit r'
      in if ds = [] then (0, s, False)
         else let n = int (hex_value 0 ds); (v, e) = clamp_long (if neg then - n else n)
              in (v, dropWhile isxdigit r', e))"

text \<open>
  \<open>sscanf (s, "%d%n", &v, &n)\<close>: no conversion, or the value and the number of characters read.
  A value outside \<open>int\<close> has no defined result.
\<close>

datatype scan = NoConv | Conv int nat

definition scan_d :: "string \<Rightarrow> scan option" where
  "scan_d s = (case split_decimal s of (neg, ds, r) \<Rightarrow>
     if ds = [] then Some NoConv
     else let n = int (digits_value 0 ds); v = (if neg then - n else n)
          in if INT_MIN \<le> v \<and> v \<le> INT_MAX then Some (Conv v (length s - length r)) else None)"

text \<open>\<open>atoi\<close>: 0 without digits, undefined outside \<open>int\<close>.\<close>

definition atoi :: "string \<Rightarrow> int option" where
  "atoi s = (case scan_d s of None \<Rightarrow> None | Some NoConv \<Rightarrow> Some 0 | Some (Conv v n) \<Rightarrow> Some v)"

section \<open>Reading what was printed\<close>

definition no_digit_start :: "string \<Rightarrow> bool" where
  "no_digit_start r \<longleftrightarrow> (case r of [] \<Rightarrow> True | c # _ \<Rightarrow> \<not> isdigit c)"

lemma no_digit_start_simps [simp]: "no_digit_start []" "no_digit_start (c # r) = (\<not> isdigit c)"
  by (simp_all add: no_digit_start_def)

lemma takeWhile_digits:
  "list_all isdigit ds \<Longrightarrow> no_digit_start r \<Longrightarrow>
     takeWhile isdigit (ds @ r) = ds \<and> dropWhile isdigit (ds @ r) = r"
  by (induction ds) (auto simp: no_digit_start_def split: list.splits)

lemma split_decimal_dec_int:
  assumes "no_digit_start r"
  shows "split_decimal (dec_int i @ r) = (i < 0, dec_nat (nat \<bar>i\<bar>), r)"
proof (cases "i < 0")
  case True
  then show ?thesis
    using takeWhile_digits [OF dec_nat_digits assms]
    by (simp add: dec_int_def split_decimal_def split_sign_def)
next
  case False
  obtain c cs where c: "dec_nat (nat i) = c # cs" "isdigit c"
    using dec_nat_hd_digit [of "nat i"] by (cases "dec_nat (nat i)") auto
  have "split_sign (dropWhile isspace (dec_nat (nat i) @ r)) = (False, dec_nat (nat i) @ r)"
    using c by (auto simp: split_sign_def dest: isdigit_not_space)
  with False show ?thesis
    using takeWhile_digits [OF dec_nat_digits assms, of "nat i"]
    by (simp add: dec_int_def split_decimal_def)
qed

lemma strtol10_dec_int:
  assumes "no_digit_start r" "LONG_MIN \<le> i" "i \<le> LONG_MAX"
  shows "strtol10 (dec_int i @ r) = (i, r, False)"
  using assms by (auto simp: strtol10_def split_decimal_dec_int digits_value_dec_nat clamp_long_def Let_def)

lemma scan_d_dec_int:
  assumes "no_digit_start r" "INT_MIN \<le> i" "i \<le> INT_MAX"
  shows "scan_d (dec_int i @ r) = Some (Conv i (length (dec_int i)))"
  using assms by (auto simp: scan_d_def split_decimal_dec_int digits_value_dec_nat Let_def)

lemma dec_int_of_nat: "dec_int (int n) = dec_nat n"
  by (simp add: dec_int_def)

lemma atoi_dec_int: "INT_MIN \<le> i \<Longrightarrow> i \<le> INT_MAX \<Longrightarrow> atoi (dec_int i) = Some i"
  using scan_d_dec_int [of "[]" i] by (simp add: atoi_def)

end
