(* ===== verification/Sds.thy ===== *)
theory Sds
  imports CText
begin

text \<open>
  The dynamic strings of \<open>src/sds.c\<close> (\<open>include/sds.h\<close>).

  An sds is its header (\<open>len\<close>, \<open>free\<close>) and the whole allocation \<open>buf\<close> points to, so that every
  copy is checked against the size really allocated and not against what the header claims.  A
  \<open>sds*\<close> that the code tests for null is a \<open>sds option\<close>; the functions that change their argument
  take the object, their null guard (\<open>if (ss == NULL) return\<close>) being \<open>null_guard\<close>.  Lengths are
  unbounded integers: the \<open>int\<close> range would be left only by a string of two gigabytes.

  The first group of lemmas gives the contents (the first \<open>len\<close> bytes) after each operation, the
  second says when an operation stays inside its allocation: \<open>sdscatlen\<close> and \<open>sdscat\<close> do not take
  what they append off \<open>free\<close> when no reallocation is needed, so \<open>free\<close> can promise room that is
  not there.
\<close>

section \<open>State and operations\<close>

record sds =
  slen :: int
  sfree :: int
  sbuf :: bytes

definition null_guard :: "(sds \<Rightarrow> sds option) \<Rightarrow> sds option \<Rightarrow> sds option option" where
  "null_guard f p = (case p of None \<Rightarrow> Some None | Some s \<Rightarrow> map_option Some (f s))"

text \<open>The size of the allocation for a string of length \<open>n\<close>.\<close>

definition sds_alloc :: "int \<Rightarrow> int" where
  "sds_alloc n = (if n < 1024 then n * 2 + 1 else n + 1024 + 1)"

definition sdsnewWithLen :: "bytes \<Rightarrow> int \<Rightarrow> sds option" where
  "sdsnewWithLen init len = do {
     let bufLen = sds_alloc len;
     src \<leftarrow> load_block init 0 len;
     buf \<leftarrow> store_block (replicate (nat bufLen) NUL) 0 src;
     Some \<lparr>slen = len, sfree = bufLen - len - 1, sbuf = buf\<rparr>
   }"

text \<open>The argument is the C string without its terminator; a null argument gives a null result.\<close>

definition sdsnew :: "bytes option \<Rightarrow> sds option option" where
  "sdsnew s = (case s of None \<Rightarrow> Some None
     | Some str \<Rightarrow> map_option Some (sdsnewWithLen (str @ [NUL]) (int (length str))))"

definition sdsempty :: "sds option" where
  "sdsempty = sdsnewWithLen [NUL] 0"

definition sdslen :: "sds option \<Rightarrow> int" where
  "sdslen ss = (case ss of None \<Rightarrow> 0 | Some s \<Rightarrow> slen s)"

definition sdsavail :: "sds option \<Rightarrow> int" where
  "sdsavail ss = (case ss of None \<Rightarrow> 0 | Some s \<Rightarrow> sfree s)"

text \<open>The copy reads \<open>len + free + 1\<close> bytes of the source.\<close>

definition sdsdump :: "sds option \<Rightarrow> sds option option" where
  "sdsdump ss = (case ss of None \<Rightarrow> Some None | Some s \<Rightarrow> do {
     src \<leftarrow> load_block (sbuf s) 0 (slen s + sfree s + 1);
     buf \<leftarrow> store_block (replicate (nat (slen s + sfree s + 1)) NUL) 0 src;
     Some (Some \<lparr>slen = slen s, sfree = sfree s, sbuf = buf\<rparr>)
   })"

definition sdsclear :: "sds \<Rightarrow> sds option" where
  "sdsclear s = do {
     buf \<leftarrow> store_block (sbuf s) 0 (replicate (nat (slen s)) NUL);
     Some \<lparr>slen = 0, sfree = slen s + sfree s, sbuf = buf\<rparr>
   }"

text \<open>
  The part \<open>sdscatlen\<close> and \<open>sdscat\<close> share: append \<open>src\<close>, growing the allocation when \<open>grow\<close>.  The
  allocation is zeroed behind the old contents after a \<open>realloc\<close>; without one only \<open>len\<close> moves.
\<close>

definition sds_append :: "bool \<Rightarrow> sds \<Rightarrow> bytes \<Rightarrow> sds option" where
  "sds_append grow dest src = (
     let len = slen dest; newlen = len + int (length src) in
     if grow then do {
       let newbuflen = sds_alloc newlen;
       old \<leftarrow> load_block (sbuf dest) 0 len;
       buf \<leftarrow> store_block (old @ replicate (nat (newbuflen - len)) NUL) len src;
       Some \<lparr>slen = newlen, sfree = newbuflen - newlen - 1, sbuf = buf\<rparr>
     } else do {
       buf \<leftarrow> store_block (sbuf dest) len src;
       Some (dest\<lparr>slen := newlen, sbuf := buf\<rparr>)
     })"

definition sdscatlen :: "sds \<Rightarrow> bytes \<Rightarrow> int \<Rightarrow> sds option" where
  "sdscatlen dest buf n = do {
     src \<leftarrow> load_block buf 0 n;
     sds_append (n > sdsavail (Some dest)) dest src
   }"

text \<open>\<open>strlen (s)\<close> is unsigned, so \<open>free\<close> is converted to \<open>size_t\<close> for the comparison.\<close>

definition sdscat :: "sds \<Rightarrow> bytes \<Rightarrow> sds option" where
  "sdscat dest s = sds_append (int (length s) > sdsavail (Some dest) mod 2 ^ 64) dest s"

text \<open>Both strings after \<open>sdscatsds (dest, src)\<close>: the source is emptied.\<close>

definition sdscatsds :: "sds \<Rightarrow> sds \<Rightarrow> (sds \<times> sds) option" where
  "sdscatsds dest src = do {
     dest' \<leftarrow> sdscatlen dest (sbuf src) (slen src);
     buf \<leftarrow> store (sbuf src) 0 NUL;
     Some (dest', \<lparr>slen = 0, sfree = slen src + sfree src + 1, sbuf = buf\<rparr>)
   }"

definition sdscpy :: "sds \<Rightarrow> bytes \<Rightarrow> sds option" where
  "sdscpy dest s = do { d \<leftarrow> sdsclear dest; sdscat d s }"

text \<open>
  The growing branch reallocates the header and not the buffer, so the \<open>memset\<close> goes into the old
  allocation.
\<close>

definition sdsgrowzero :: "sds \<Rightarrow> int \<Rightarrow> sds option" where
  "sdsgrowzero ss newlen = (
     let len = slen ss; n = newlen - len in
     if newlen \<le> len then Some ss
     else if sfree ss \<ge> n then do {
       buf \<leftarrow> store_block (sbuf ss) len (replicate (nat n) NUL);
       Some (ss\<lparr>sbuf := buf\<rparr>)
     } else do {
       let newbuflen = sds_alloc newlen;
       buf \<leftarrow> store_block (sbuf ss) len (replicate (nat n) NUL);
       Some \<lparr>slen = newlen, sfree = newbuflen - newlen - 1, sbuf = buf\<rparr>
     })"

definition sdsrange :: "sds \<Rightarrow> int \<Rightarrow> int \<Rightarrow> sds option" where
  "sdsrange ss start0 end0 = (
     let len = slen ss;
         start = (if start0 < 0 then len + start0 else start0);
         end = (if end0 < 0 then len + end0 else end0)
     in if start < 0 \<or> end \<ge> len then Some ss
        else do {
          let newLen = end - start + 1;
          buf \<leftarrow> (if newLen > 0 then do {
                    src \<leftarrow> load_block (sbuf ss) start newLen;
                    store_block (sbuf ss) 0 src
                  } else Some (sbuf ss));
          buf' \<leftarrow> store buf newLen NUL;
          assert_c (newLen \<ge> 0);
          Some \<lparr>slen = newLen, sfree = sfree ss + len - newLen, sbuf = buf'\<rparr>
        })"

text \<open>\<open>strchr (s, c)\<close> is not null: it finds the terminator of \<open>s\<close> as well.\<close>

definition strchr_hit :: "bytes \<Rightarrow> char \<Rightarrow> bool" where
  "strchr_hit s c \<longleftrightarrow> c = NUL \<or> c \<in> set s"

text \<open>The two loops of \<open>sdstrim\<close>: the first index kept and the last one.\<close>

function trim_start :: "bytes \<Rightarrow> bytes \<Rightarrow> int \<Rightarrow> int \<Rightarrow> int option" where
  "trim_start s buf start end =
     (if start < end then do {
        c \<leftarrow> load buf start;
        if strchr_hit s c then trim_start s buf (start + 1) end else Some start
      } else Some start)"
  by pat_completeness auto
termination by (relation "measure (\<lambda>(s, buf, start, end). nat (end - start))") auto

function trim_end :: "bytes \<Rightarrow> bytes \<Rightarrow> int \<Rightarrow> int \<Rightarrow> int option" where
  "trim_end s buf start end =
     (if start \<le> end then do {
        c \<leftarrow> load buf end;
        if strchr_hit s c then trim_end s buf start (end - 1) else Some end
      } else Some end)"
  by pat_completeness auto
termination by (relation "measure (\<lambda>(s, buf, start, end). nat (end - start + 1))") auto

declare trim_start.simps [simp del] trim_end.simps [simp del]

definition sdstrim :: "sds \<Rightarrow> bytes \<Rightarrow> sds option" where
  "sdstrim ss s = do {
     let len = slen ss;
     start \<leftarrow> trim_start s (sbuf ss) 0 (len - 1);
     end \<leftarrow> trim_end s (sbuf ss) start (len - 1);
     if start > 0 \<or> end < len - 1 then sdsrange ss start end else Some ss
   }"

text \<open>\<open>strcmp\<close> on the bytes before the terminators.\<close>

fun strcmp :: "bytes \<Rightarrow> bytes \<Rightarrow> int" where
  "strcmp [] [] = 0"
| "strcmp (a # s) [] = int (char_code a)"
| "strcmp [] (b # t) = - int (char_code b)"
| "strcmp (a # s) (b # t) =
     (if a = b then strcmp s t else int (char_code a) - int (char_code b))"

definition sdscmp :: "sds option \<Rightarrow> sds option \<Rightarrow> int option" where
  "sdscmp p q = (case (p, q) of
     (Some s1, Some s2) \<Rightarrow>
       if slen s1 \<noteq> slen s2 then Some (slen s1 - slen s2)
       else do { a \<leftarrow> cstring (sbuf s1) 0; b \<leftarrow> cstring (sbuf s2) 0; Some (strcmp a b) }
   | _ \<Rightarrow> Some (- 1))"

section \<open>Contents and well-formedness\<close>

definition content :: "sds \<Rightarrow> bytes" where
  "content s = take (nat (slen s)) (sbuf s)"

text \<open>The header describes a prefix of the allocation.\<close>

definition sds_ok :: "sds \<Rightarrow> bool" where
  "sds_ok s \<longleftrightarrow> 0 \<le> slen s \<and> 0 \<le> sfree s \<and> slen s < int (length (sbuf s))"

text \<open>The same without room for a terminator: a string that fills its allocation.\<close>

definition sds_fits :: "sds \<Rightarrow> bool" where
  "sds_fits s \<longleftrightarrow> 0 \<le> slen s \<and> 0 \<le> sfree s \<and> slen s \<le> int (length (sbuf s))"

text \<open>What \<open>free\<close> is meant to say: that many bytes and a terminator fit behind the contents.\<close>

definition room_honest :: "sds \<Rightarrow> bool" where
  "room_honest s \<longleftrightarrow> sds_ok s \<and> slen s + sfree s + 1 \<le> int (length (sbuf s))"

text \<open>Everything behind the contents is zero, so the buffer is also a C string.\<close>

definition zero_tail :: "sds \<Rightarrow> bool" where
  "zero_tail s \<longleftrightarrow> (\<forall>c \<in> set (drop (nat (slen s)) (sbuf s)). c = NUL)"

lemma sds_alloc_gt: "0 \<le> n \<Longrightarrow> n < sds_alloc n"
  by (simp add: sds_alloc_def)

lemma sds_ok_fits [simp, intro]: "sds_ok s \<Longrightarrow> sds_fits s"
  by (simp add: sds_ok_def sds_fits_def)

lemma length_content: "sds_fits s \<Longrightarrow> length (content s) = nat (slen s)"
  by (auto simp: content_def sds_fits_def)

lemma slen_content: "sds_fits s \<Longrightarrow> slen s = int (length (content s))"
  by (simp add: length_content) (simp add: sds_fits_def)

lemma room_honest_ok [simp, intro]: "room_honest s \<Longrightarrow> sds_ok s"
  by (simp add: room_honest_def)

lemma sds_bufE:
  assumes "sds_fits s"
  obtains t where "sbuf s = content s @ t" "slen s = int (length (content s))"
    "drop (nat (slen s)) (sbuf s) = t"
proof
  show "sbuf s = content s @ drop (nat (slen s)) (sbuf s)" by (simp add: content_def)
  show "slen s = int (length (content s))" using assms by (rule slen_content)
qed simp

section \<open>Contents of the results\<close>

lemma sdsnewWithLen_eq:
  "sdsnewWithLen (str @ [NUL]) (int (length str)) =
     Some \<lparr>slen = int (length str), sfree = sds_alloc (int (length str)) - int (length str) - 1,
           sbuf = str @ replicate (nat (sds_alloc (int (length str))) - length str) NUL\<rparr>"
  using sds_alloc_gt [of "int (length str)"]
  by (simp add: sdsnewWithLen_def load_block_def store_block_def Let_def)

lemma sdsnew_eq:
  "sdsnew (Some str) =
     Some (Some \<lparr>slen = int (length str), sfree = sds_alloc (int (length str)) - int (length str) - 1,
           sbuf = str @ replicate (nat (sds_alloc (int (length str))) - length str) NUL\<rparr>)"
  by (simp add: sdsnew_def sdsnewWithLen_eq)

lemma sdsnew_facts:
  assumes "sdsnew (Some str) = Some (Some s)"
  shows "content s = str" "room_honest s" "zero_tail s"
  using assms sds_alloc_gt [of "int (length str)"]
  by (auto simp: sdsnew_eq content_def room_honest_def sds_ok_def zero_tail_def)

lemma sds_append_grow:
  assumes "sds_fits s"
  shows "sds_append True s src = Some
    \<lparr>slen = slen s + int (length src),
     sfree = sds_alloc (slen s + int (length src)) - (slen s + int (length src)) - 1,
     sbuf = content s @ src @
       replicate (nat (sds_alloc (slen s + int (length src)) - (slen s + int (length src)))) NUL\<rparr>"
proof -
  obtain t where s: "sbuf s = content s @ t" "slen s = int (length (content s))"
    using assms by (rule sds_bufE)
  have "slen s + int (length src) < sds_alloc (slen s + int (length src))"
    by (rule sds_alloc_gt) (simp add: s(2))
  then show ?thesis
    unfolding sds_append_def Let_def s(2)
    by (subst s(1)) (auto simp: load_block_def store_block_def nat_diff_distrib nat_add_distrib)
qed

lemma sds_append_stay:
  assumes "sds_fits s"
  shows "sds_append False s src =
    (if slen s + int (length src) \<le> int (length (sbuf s))
     then Some (s\<lparr>slen := slen s + int (length src),
                  sbuf := content s @ src @ drop (nat (slen s) + length src) (sbuf s)\<rparr>)
     else None)"
  using assms by (simp add: sds_append_def Let_def store_block_def content_def sds_fits_def)

lemma sdscatlen_whole: "sdscatlen s src (int (length src)) = sds_append (int (length src) > sfree s) s src"
  by (simp add: sdscatlen_def sdsavail_def load_block_def)

lemma sds_append_facts:
  assumes "sds_fits s" "sds_append g s src = Some s'"
  shows "content s' = content s @ src" "sds_fits s'"
proof -
  have "content s' = content s @ src \<and> sds_fits s'"
  proof (cases g)
    case True
    with assms sds_alloc_gt [of "slen s + int (length src)"] show ?thesis
      by (auto simp: sds_append_grow content_def sds_fits_def nat_add_distrib)
  next
    case False
    with assms show ?thesis
      by (auto simp: sds_append_stay content_def sds_fits_def nat_add_distrib split: if_splits)
  qed
  then show "content s' = content s @ src" "sds_fits s'" by auto
qed

lemma sds_append_defined:
  assumes "sds_fits s"
  shows "sds_append g s src \<noteq> None \<longleftrightarrow> g \<or> slen s + int (length src) \<le> int (length (sbuf s))"
  using assms by (cases g) (simp_all add: sds_append_grow sds_append_stay)

lemma sdsclear_eq:
  assumes "sds_fits s"
  shows "sdsclear s = Some \<lparr>slen = 0, sfree = slen s + sfree s,
           sbuf = replicate (nat (slen s)) NUL @ drop (nat (slen s)) (sbuf s)\<rparr>"
  using assms by (simp add: sdsclear_def store_block_def sds_fits_def)

lemma sdsclear_facts:
  assumes "sds_fits s" "sdsclear s = Some s'"
  shows "content s' = []" "sds_fits s'" "room_honest s \<Longrightarrow> room_honest s'" "zero_tail s \<Longrightarrow> zero_tail s'"
proof -
  have s': "s' = \<lparr>slen = 0, sfree = slen s + sfree s,
      sbuf = replicate (nat (slen s)) NUL @ drop (nat (slen s)) (sbuf s)\<rparr>"
    using sdsclear_eq [OF assms(1)] assms(2) by simp
  show "content s' = []" by (simp add: s' content_def)
  show "sds_fits s'" using assms(1) by (auto simp: s' sds_fits_def)
  show "room_honest s'" if "room_honest s" using that by (auto simp: s' sds_ok_def room_honest_def)
  show "zero_tail s'" if "zero_tail s" using that by (simp add: s' zero_tail_def ball_Un)
qed

lemma sdsrange_facts:
  assumes ok: "sds_ok s" and r: "0 \<le> start" "start \<le> end + 1" "0 \<le> end" "end < slen s"
  obtains s' where "sdsrange s start end = Some s'"
    "content s' = take (nat (end - start + 1)) (drop (nat start) (content s))"
    "sds_ok s'" "slen s' + sfree s' = slen s + sfree s" "length (sbuf s') = length (sbuf s)"
proof -
  let ?n = "end - start + 1"
  let ?b = "if 0 < ?n then take (nat ?n) (drop (nat start) (sbuf s)) @ drop (nat ?n) (sbuf s) else sbuf s"
  let ?s' = "\<lparr>slen = ?n, sfree = sfree s + slen s - ?n, sbuf = ?b[nat ?n := NUL]\<rparr>"
  have len: "length ?b = length (sbuf s)" using ok r by (auto simp: sds_ok_def)
  have *: "min (length (sbuf s) - nat start) (nat ?n) = nat ?n" using ok r by (auto simp: sds_ok_def)
  have "sdsrange s start end = Some ?s'"
    using ok r len * by (auto simp: sdsrange_def Let_def load_block_def store_block_def store_def sds_ok_def)
  moreover have "content ?s' = take (nat ?n) (drop (nat start) (content s))"
  proof (cases "0 < ?n")
    case True
    have "take (nat ?n) (?b[nat ?n := NUL]) = take (nat ?n) (drop (nat start) (sbuf s))"
      using True ok r by (auto simp: sds_ok_def)
    also have "\<dots> = take (nat ?n) (drop (nat start) (take (nat (slen s)) (sbuf s)))"
      using True ok r by (auto simp: sds_ok_def drop_take)
    finally show ?thesis by (simp add: content_def)
  next
    case False
    with r have "nat ?n = 0" by simp
    then show ?thesis by (simp add: content_def)
  qed
  moreover have "sds_ok ?s'" using ok r len by (auto simp: sds_ok_def)
  ultimately show thesis using that len by (auto simp del: length_append split: if_splits)
qed

section \<open>Trimming\<close>

definition trim_both :: "('a \<Rightarrow> bool) \<Rightarrow> 'a list \<Rightarrow> 'a list" where
  "trim_both P xs = rev (dropWhile P (rev (dropWhile P xs)))"

lemma trim_both_parts:
  assumes "list_all P xs" "list_all P zs" "ys = [] \<or> (\<not> P (hd ys) \<and> \<not> P (last ys))"
  shows "trim_both P (xs @ ys @ zs) = ys"
proof -
  have all: "dropWhile P us = []" if "list_all P us" for us :: "'a list"
    using that by (simp add: list_all_iff)
  have pre: "dropWhile P (us @ vs) = dropWhile P vs" if "list_all P us" for us vs :: "'a list"
    using that by (induction us) auto
  show ?thesis
  proof (cases "ys = []")
    case True
    with assms(1,2) show ?thesis by (simp add: trim_both_def pre all)
  next
    case False
    then have "dropWhile P (ys @ zs) = ys @ zs" "dropWhile P (rev ys) = rev ys"
      using assms(3) by (cases ys, auto) (cases ys rule: rev_cases, auto)
    moreover have "list_all P (rev zs)" using assms(2) by (simp add: list_all_iff)
    ultimately show ?thesis using assms(1) by (simp add: trim_both_def pre)
  qed
qed

lemma trim_start_spec:
  assumes "0 \<le> st" "st \<le> e" "e < int (length buf)"
  shows "\<exists>k. trim_start s buf st e = Some k \<and> st \<le> k \<and> k \<le> e \<and>
    (\<forall>i. st \<le> i \<and> i < k \<longrightarrow> strchr_hit s (buf ! nat i)) \<and> (k < e \<longrightarrow> \<not> strchr_hit s (buf ! nat k))"
  using assms
proof (induction s buf st e rule: trim_start.induct)
  case (1 s buf st e)
  show ?case
  proof (cases "st < e \<and> strchr_hit s (buf ! nat st)")
    case True
    with 1 obtain k where k: "trim_start s buf (st + 1) e = Some k" "st + 1 \<le> k" "k \<le> e"
      "\<forall>i. st + 1 \<le> i \<and> i < k \<longrightarrow> strchr_hit s (buf ! nat i)" "k < e \<longrightarrow> \<not> strchr_hit s (buf ! nat k)"
      by (auto simp: load_def)
    have "strchr_hit s (buf ! nat i)" if "st \<le> i" "i < k" for i
      using that True k(4) by (cases "i = st") auto
    with True k 1(2-4) show ?thesis by (subst trim_start.simps) (auto simp: load_def)
  next
    case False
    with 1(2-4) show ?thesis by (subst trim_start.simps) (auto simp: load_def)
  qed
qed

lemma trim_end_spec:
  assumes "0 \<le> st" "st \<le> e + 1" "e < int (length buf)"
  shows "\<exists>k. trim_end s buf st e = Some k \<and> st \<le> k + 1 \<and> k \<le> e \<and>
    (\<forall>i. k < i \<and> i \<le> e \<longrightarrow> strchr_hit s (buf ! nat i)) \<and> (st \<le> k \<longrightarrow> \<not> strchr_hit s (buf ! nat k))"
  using assms
proof (induction s buf st e rule: trim_end.induct)
  case (1 s buf st e)
  show ?case
  proof (cases "st \<le> e \<and> strchr_hit s (buf ! nat e)")
    case True
    with 1 obtain k where k: "trim_end s buf st (e - 1) = Some k" "st \<le> k + 1" "k \<le> e - 1"
      "\<forall>i. k < i \<and> i \<le> e - 1 \<longrightarrow> strchr_hit s (buf ! nat i)" "st \<le> k \<longrightarrow> \<not> strchr_hit s (buf ! nat k)"
      by (auto simp: load_def)
    have "strchr_hit s (buf ! nat i)" if "k < i" "i \<le> e" for i
      using that True k(4) by (cases "i = e") auto
    with True k 1(2-4) show ?thesis by (subst trim_end.simps) (auto simp: load_def)
  next
    case False
    with 1(2-4) show ?thesis by (subst trim_end.simps) (auto simp: load_def)
  qed
qed

lemma content_nth: "0 \<le> i \<Longrightarrow> i < slen s \<Longrightarrow> content s ! nat i = sbuf s ! nat i"
  by (simp add: content_def)

lemma sdstrim_window:
  assumes ok: "sds_ok s" and ne: "content s \<noteq> []"
  obtains k1 k2 where
    "trim_start t (sbuf s) 0 (slen s - 1) = Some k1" "trim_end t (sbuf s) k1 (slen s - 1) = Some k2"
    "0 \<le> k1" "k1 \<le> slen s - 1" "k1 \<le> k2 + 1" "k2 \<le> slen s - 1" "k2 < 0 \<Longrightarrow> slen s = 1"
    "take (nat (k2 - k1 + 1)) (drop (nat k1) (content s)) = trim_both (strchr_hit t) (content s)"
proof -
  let ?c = "content s" and ?e = "slen s - 1" and ?P = "strchr_hit t"
  have L: "slen s = int (length ?c)" "0 < length ?c" "?e < int (length (sbuf s))"
    using slen_content [OF sds_ok_fits [OF ok]] ok ne by (auto simp: sds_ok_def)
  obtain k1 where k1: "trim_start t (sbuf s) 0 ?e = Some k1" "0 \<le> k1" "k1 \<le> ?e"
    "\<forall>i. 0 \<le> i \<and> i < k1 \<longrightarrow> ?P (sbuf s ! nat i)" "k1 < ?e \<longrightarrow> \<not> ?P (sbuf s ! nat k1)"
    using trim_start_spec [of 0 ?e "sbuf s" t] L by auto
  obtain k2 where k2: "trim_end t (sbuf s) k1 ?e = Some k2" "k1 \<le> k2 + 1" "k2 \<le> ?e"
    "\<forall>i. k2 < i \<and> i \<le> ?e \<longrightarrow> ?P (sbuf s ! nat i)" "k1 \<le> k2 \<longrightarrow> \<not> ?P (sbuf s ! nat k2)"
    using trim_end_spec [of k1 ?e "sbuf s" t] L k1 by auto
  have neg: "slen s = 1" if "k2 < 0"
  proof -
    from that k1 k2 have "k1 = 0" "?P (sbuf s ! nat 0)" by auto
    with k1(5) have "\<not> 0 < ?e" by auto
    with k1(3) \<open>k1 = 0\<close> show ?thesis by linarith
  qed
  let ?ys = "take (nat (k2 - k1 + 1)) (drop (nat k1) ?c)"
  have n: "nat k1 + nat (k2 - k1 + 1) = nat (k2 + 1)" using k1 k2 by simp
  have split: "?c = take (nat k1) ?c @ ?ys @ drop (nat (k2 + 1)) ?c"
    by (metis append_take_drop_id drop_drop add.commute n)
  have pre: "list_all ?P (take (nat k1) ?c)"
  proof (simp add: list_all_length, intro allI impI)
    fix m assume m: "m < length ?c \<and> m < nat k1"
    then have "?P (sbuf s ! nat (int m))" using k1(4) by (metis of_nat_0_le_iff zless_nat_eq_int_zless)
    with m show "?P (?c ! m)" using L content_nth [of "int m" s] by simp
  qed
  have post: "list_all ?P (drop (nat (k2 + 1)) ?c)"
  proof (simp add: list_all_length, intro allI impI)
    fix m assume m: "m < length ?c - nat (k2 + 1)"
    define j where "j = nat (k2 + 1) + m"
    have j: "j < length ?c" using m by (simp add: j_def)
    have "k2 < int j \<and> int j \<le> ?e" using m k2(2) k1(2) L by (auto simp: j_def)
    then have "?P (sbuf s ! j)" using k2(4) by force
    with j show "?P (?c ! (nat (k2 + 1) + m))" by (simp add: content_def flip: j_def)
  qed
  have mid: "?ys = [] \<or> (\<not> ?P (hd ?ys) \<and> \<not> ?P (last ?ys))"
  proof (cases "k1 \<le> k2")
    case True
    then have len: "length ?ys = nat (k2 - k1 + 1)" using k1 k2 L by auto
    have "hd ?ys = sbuf s ! nat k1" "last ?ys = sbuf s ! nat k2"
      using True len k1 k2 L content_nth [of k1 s] content_nth [of k2 s]
      by (auto simp: hd_drop_conv_nth last_conv_nth nat_diff_distrib nat_add_distrib)
    moreover have "k1 < ?e \<or> k1 = k2" using True k1(3) k2(3) by linarith
    then have "\<not> ?P (sbuf s ! nat k1)" using True k1(5) k2(5) by auto
    ultimately show ?thesis using True k2 by simp
  qed (use k2 in simp)
  have "?ys = trim_both ?P ?c" using trim_both_parts [OF pre post mid] split by simp
  with k1 k2 neg that show thesis by blast
qed

section \<open>The byte buffer interface\<close>

text \<open>
  What the clients of sds (read and write buffers, transaction queue, aof buffer) rely on: the
  contents after an append and after a clear.
\<close>

locale byte_buffer =
  fixes contents :: "'b \<Rightarrow> bytes"
    and append :: "'b \<Rightarrow> bytes \<Rightarrow> 'b option"
    and clear :: "'b \<Rightarrow> 'b option"
    and good :: "'b \<Rightarrow> bool"
  assumes contents_append: "good b \<Longrightarrow> append b s = Some b' \<Longrightarrow> contents b' = contents b @ s"
    and good_append: "good b \<Longrightarrow> append b s = Some b' \<Longrightarrow> good b'"
    and contents_clear: "good b \<Longrightarrow> clear b = Some b' \<Longrightarrow> contents b' = []"
    and good_clear: "good b \<Longrightarrow> clear b = Some b' \<Longrightarrow> good b'"
begin

text \<open>A run of appends writes their concatenation behind what was there.\<close>

primrec appends :: "'b \<Rightarrow> bytes list \<Rightarrow> 'b option" where
  "appends b [] = Some b"
| "appends b (s # ss) = do { b' \<leftarrow> append b s; appends b' ss }"

lemma contents_appends:
  "good b \<Longrightarrow> appends b ss = Some b' \<Longrightarrow> contents b' = contents b @ concat ss \<and> good b'"
proof (induction ss arbitrary: b)
  case (Cons s ss)
  then obtain b1 where "append b s = Some b1" "appends b1 ss = Some b'"
    by (auto simp: mem_simps)
  with Cons contents_append good_append show ?case by fastforce
qed simp

lemma contents_clear_appends:
  assumes "good b" "clear b = Some b0" "appends b0 ss = Some b'"
  shows "contents b' = concat ss"
  using contents_appends [OF good_clear [OF assms(1,2)] assms(3)] contents_clear [OF assms(1,2)] by simp

end

interpretation sdsbuf: byte_buffer content "\<lambda>b s. sdscatlen b s (int (length s))" sdsclear sds_fits
  by unfold_locales (auto simp: sdscatlen_whole dest: sds_append_facts sdsclear_facts)

lemma zero_tail_cstring:
  assumes "sds_ok s" "zero_tail s" "nul_free (content s)"
  shows "cstring (sbuf s) 0 = Some (content s)"
proof -
  obtain t where t: "sbuf s = content s @ t" "drop (nat (slen s)) (sbuf s) = t"
    using sds_bufE [OF sds_ok_fits [OF assms(1)]] by blast
  have "t \<noteq> []" using t(2) assms(1) by (auto simp: sds_ok_def)
  with t(2) assms(2) obtain r where "t = NUL # r" by (cases t) (auto simp: zero_tail_def)
  with t(1) assms(3) show ?thesis by (simp add: mem_simps)
qed

lemma strcmp_zero_iff: "nul_free a \<Longrightarrow> nul_free b \<Longrightarrow> strcmp a b = 0 \<longleftrightarrow> a = b"
  by (induction a b rule: strcmp.induct) auto

section \<open>Properties\<close>

text \<open>
  Appending to a dynamic string puts the new bytes behind the old contents whenever it
  returns; it stays inside the allocation exactly when the string is reallocated (more bytes than
  \<open>free\<close> claims) or the bytes really fit.
\<close>

theorem sdscatlen_appends:
  assumes "sds_fits s"
  shows "(sdscatlen s src (int (length src)) \<noteq> None \<longleftrightarrow>
            sfree s < int (length src) \<or> slen s + int (length src) \<le> int (length (sbuf s)))
       \<and> (\<forall>s'. sdscatlen s src (int (length src)) = Some s' \<longrightarrow> content s' = content s @ src \<and> sds_fits s')"
  using sds_append_defined [OF assms] sds_append_facts [OF assms] unfolding sdscatlen_whole by blast

theorem sdscatlen_appends_witness:
  "sds_fits \<lparr>slen = 2, sfree = 1, sbuf = ''ab'' @ [NUL, NUL]\<rparr> \<and>
   (\<exists>s'. sdscatlen \<lparr>slen = 2, sfree = 1, sbuf = ''ab'' @ [NUL, NUL]\<rparr> ''c'' 1 = Some s' \<and> content s' = ''abc'')"
proof -
  have f: "sds_fits \<lparr>slen = 2, sfree = 1, sbuf = ''ab'' @ [NUL, NUL]\<rparr>" by (simp add: sds_fits_def)
  from sdscatlen_appends [OF f, of "''c''"] f show ?thesis by (auto simp: content_def)
qed

text \<open>
  \<open>free\<close> goes stale: on a fresh string an append that reallocates, an append that fits and a
  third append that \<open>free\<close> still promises room for writes outside the allocation.
\<close>

theorem sds_third_append_overflows:
  "\<exists>s0 s1 s2. sdsempty = Some s0 \<and> sdscatlen s0 ''abc'' 3 = Some s1 \<and> sdscatlen s1 ''de'' 2 = Some s2
     \<and> sfree s2 = 3 \<and> slen s2 = 5 \<and> length (sbuf s2) = 7 \<and> sdscatlen s2 ''fgh'' 3 = None"
  by (simp add: sdsempty_def sdsnewWithLen_def sds_alloc_def sdscatlen_def sds_append_def sdsavail_def
      load_block_def store_block_def Let_def eval_nat_numeral)

text \<open>
  Cutting a string to an index range inside it keeps exactly that slice, and what is cut off
  becomes free room.
\<close>

theorem sdsrange_slices:
  assumes "sds_ok s" "0 \<le> start" "start \<le> end + 1" "0 \<le> end" "end < slen s"
  shows "\<exists>s'. sdsrange s start end = Some s' \<and> sds_ok s'
    \<and> content s' = take (nat (end - start + 1)) (drop (nat start) (content s))
    \<and> slen s' + sfree s' = slen s + sfree s"
  using sdsrange_facts [OF assms] by metis

theorem sdsrange_slices_witness:
  "sds_ok \<lparr>slen = 4, sfree = 0, sbuf = ''abcd'' @ [NUL]\<rparr> \<and>
   (\<exists>s'. sdsrange \<lparr>slen = 4, sfree = 0, sbuf = ''abcd'' @ [NUL]\<rparr> 1 2 = Some s' \<and> content s' = ''bc'')"
proof -
  have f: "sds_ok \<lparr>slen = 4, sfree = 0, sbuf = ''abcd'' @ [NUL]\<rparr>" by (simp add: sds_ok_def)
  from sdsrange_slices [OF f, of 1 2] f show ?thesis
    by (auto simp: content_def eval_nat_numeral)
qed

text \<open>
  Trimming removes exactly the listed bytes (and terminators) from both ends, except for a
  string of one byte, which it never changes.
\<close>

theorem sdstrim_trims:
  assumes ok: "sds_ok s"
  shows "\<exists>s'. sdstrim s t = Some s' \<and> sds_ok s'
    \<and> content s' = (if length (content s) = 1 then content s else trim_both (strchr_hit t) (content s))"
proof (cases "content s = []")
  case True
  then have "slen s = 0" using slen_content [OF sds_ok_fits [OF ok]] by simp
  then have "sdstrim s t = Some s"
    by (simp add: sdstrim_def trim_start.simps trim_end.simps)
  with True ok show ?thesis by (simp add: trim_both_def)
next
  case False
  have L: "slen s = int (length (content s))" by (rule slen_content [OF sds_ok_fits [OF ok]])
  obtain k1 k2 where w:
    "trim_start t (sbuf s) 0 (slen s - 1) = Some k1" "trim_end t (sbuf s) k1 (slen s - 1) = Some k2"
    "0 \<le> k1" "k1 \<le> slen s - 1" "k1 \<le> k2 + 1" "k2 \<le> slen s - 1" "k2 < 0 \<Longrightarrow> slen s = 1"
    "take (nat (k2 - k1 + 1)) (drop (nat k1) (content s)) = trim_both (strchr_hit t) (content s)"
    using sdstrim_window [OF ok False] by blast
  let ?cut = "k1 > 0 \<or> k2 < slen s - 1"
  have run: "sdstrim s t = (if ?cut then sdsrange s k1 k2 else Some s)"
    using w(1,2) by (simp add: sdstrim_def Let_def)
  consider (cut) "?cut" "0 \<le> k2" | (one) "?cut" "k2 < 0" | (keep) "\<not> ?cut" by linarith
  then show ?thesis
  proof cases
    case cut
    obtain s' where "sdsrange s k1 k2 = Some s'" "sds_ok s'"
      "content s' = take (nat (k2 - k1 + 1)) (drop (nat k1) (content s))"
      using sdsrange_slices [OF ok w(3,5) cut(2)] w(6) by auto
    moreover have "slen s = 1 \<Longrightarrow> \<not> ?cut" using w(3,4,6) cut(2) by linarith
    ultimately show ?thesis using run cut w(8) L by auto
  next
    case one
    then have "k1 = 0" "k2 = -1" "slen s = 1" using w(3,5,7) by linarith+
    let ?s' = "\<lparr>slen = 1, sfree = sfree s, sbuf = (sbuf s)[1 := NUL]\<rparr>"
    have len: "1 < length (sbuf s)" "length (content s) = 1" using ok L \<open>slen s = 1\<close> by (simp_all add: sds_ok_def)
    then obtain a b r where b: "sbuf s = a # b # r" by (cases "sbuf s"; cases "tl (sbuf s)") auto
    have "sdsrange s 0 (-1) = Some ?s'"
      using \<open>slen s = 1\<close> b by (simp add: sdsrange_def load_block_def store_block_def store_def)
    moreover have "content ?s' = content s" "sds_ok ?s'"
      using b \<open>slen s = 1\<close> ok by (simp_all add: content_def sds_ok_def)
    ultimately show ?thesis using run one(1) len(2) \<open>k1 = 0\<close> \<open>k2 = -1\<close> by auto
  next
    case keep
    then have "k1 = 0" "k2 = slen s - 1" using w(3,6) by linarith+
    then show ?thesis using run keep w(8) L ok by auto
  qed
qed

theorem sdstrim_trims_witness:
  "sds_ok \<lparr>slen = 4, sfree = 0, sbuf = ''x ay'' @ [NUL]\<rparr> \<and>
   (\<exists>s'. sdstrim \<lparr>slen = 4, sfree = 0, sbuf = ''x ay'' @ [NUL]\<rparr> ''xy '' = Some s' \<and> content s' = ''a'')"
proof -
  have f: "sds_ok \<lparr>slen = 4, sfree = 0, sbuf = ''x ay'' @ [NUL]\<rparr>" by (simp add: sds_ok_def)
  from sdstrim_trims [OF f, of "''xy ''"] f show ?thesis
    by (auto simp: content_def eval_nat_numeral trim_both_def strchr_hit_def)
qed

text \<open>
  Two well-formed strings without embedded terminators compare equal exactly when their
  contents are equal.
\<close>

theorem sdscmp_zero_iff:
  assumes "sds_ok a" "zero_tail a" "nul_free (content a)" "sds_ok b" "zero_tail b" "nul_free (content b)"
  shows "sdscmp (Some a) (Some b) = Some 0 \<longleftrightarrow> content a = content b"
  using slen_content [of a] slen_content [of b] assms
  by (auto simp: sdscmp_def zero_tail_cstring strcmp_zero_iff)

theorem sdscmp_zero_iff_witness:
  "sdscmp (Some \<lparr>slen = 1, sfree = 0, sbuf = ''k'' @ [NUL]\<rparr>) (Some \<lparr>slen = 1, sfree = 1, sbuf = ''k'' @ [NUL, NUL]\<rparr>) = Some 0"
  by (subst sdscmp_zero_iff) (simp_all add: sds_ok_def zero_tail_def content_def)

end
