(* ===== verification/RingBuf.thy ===== *)
theory RingBuf
  imports Prelude
begin

text \<open>
  The fixed-size ring buffer of \<open>src/ringbuffer.c\<close> (\<open>include/ringbuffer.h\<close>): 1024 slots of which
  1023 can be used, head equal to tail meaning empty.

  The single-byte operations implement a bounded first-in first-out queue (locale
  \<open>bounded_queue\<close>).  The block operations do so as long as the data does not wrap around; on a
  wrapped buffer they copy with the wrong length, which the last properties state.
\<close>

section \<open>State and operations\<close>

type_synonym u8 = "8 word"

record RingBuffer =
  rdata :: "u8 list"
  rhead :: int
  rtail :: int

definition RBUFFER_SIZE :: int where "RBUFFER_SIZE = 1024"

definition ringBufferCreate :: RingBuffer where
  "ringBufferCreate = \<lparr>rdata = replicate (nat RBUFFER_SIZE) 0, rhead = 0, rtail = 0\<rparr>"

text \<open>Head and tail are indices below the size, so no operand of \<open>%\<close> is negative.\<close>

definition ringBufferSize :: "RingBuffer \<Rightarrow> int" where
  "ringBufferSize rb = (rtail rb + RBUFFER_SIZE - rhead rb) mod RBUFFER_SIZE"

definition ringBufferIsEmpty :: "RingBuffer \<Rightarrow> bool" where
  "ringBufferIsEmpty rb \<longleftrightarrow> rhead rb = rtail rb"

definition ringBufferIsFull :: "RingBuffer \<Rightarrow> bool" where
  "ringBufferIsFull rb \<longleftrightarrow> ringBufferSize rb \<ge> RBUFFER_SIZE - 1"

text \<open>\<open>if (!rb) return false\<close>: the result of every operation on a null pointer.\<close>

definition on_rb :: "(RingBuffer \<Rightarrow> (bool \<times> RingBuffer) option) \<Rightarrow> RingBuffer option \<Rightarrow>
    (bool \<times> RingBuffer option) option" where
  "on_rb f p = (case p of None \<Rightarrow> Some (False, None)
     | Some rb \<Rightarrow> map_option (\<lambda>(ok, rb'). (ok, Some rb')) (f rb))"

definition ringBufferEnQeueue :: "RingBuffer \<Rightarrow> u8 \<Rightarrow> (bool \<times> RingBuffer) option" where
  "ringBufferEnQeueue rb x =
     (if ringBufferSize rb + 1 > RBUFFER_SIZE - 1 then Some (False, rb)
      else do {
        d \<leftarrow> store (rdata rb) (rtail rb) x;
        Some (True, rb\<lparr>rdata := d, rtail := (rtail rb + 1) mod RBUFFER_SIZE\<rparr>)
      })"

text \<open>\<open>src\<close> is the caller's array: reading past its end is undefined.\<close>

definition ringBufferEnQeueueBulk :: "RingBuffer \<Rightarrow> u8 list \<Rightarrow> int \<Rightarrow> (bool \<times> RingBuffer) option" where
  "ringBufferEnQeueueBulk rb src sz =
     (if ringBufferSize rb + sz > RBUFFER_SIZE - 1 then Some (False, rb)
      else let last_tail = (rtail rb + sz) mod RBUFFER_SIZE in
        if last_tail > rhead rb then do {
          xs \<leftarrow> load_block src 0 sz;
          d \<leftarrow> store_block (rdata rb) (rtail rb) xs;
          Some (True, rb\<lparr>rdata := d, rtail := last_tail\<rparr>)
        } else do {
          let n = RBUFFER_SIZE - rtail rb;
          xs \<leftarrow> load_block src 0 n;
          d \<leftarrow> store_block (rdata rb) (rtail rb) xs;
          ys \<leftarrow> load_block src n (sz - n);
          d' \<leftarrow> store_block d 0 ys;
          Some (True, rb\<lparr>rdata := d', rtail := last_tail\<rparr>)
        })"

text \<open>\<open>out\<close> is the caller's array the bytes are copied to.\<close>

definition ringBufferDequeueBulk :: "RingBuffer \<Rightarrow> u8 list \<Rightarrow> int \<Rightarrow> (bool \<times> RingBuffer \<times> u8 list) option" where
  "ringBufferDequeueBulk rb out sz =
     (if sz > ringBufferSize rb then Some (False, rb, out)
      else if rhead rb < rtail rb then do {
        xs \<leftarrow> load_block (rdata rb) (rhead rb) sz;
        out' \<leftarrow> store_block out 0 xs;
        Some (True, rb\<lparr>rhead := rhead rb + sz\<rparr>, out')
      } else do {
        let n = RBUFFER_SIZE - rhead rb;
        xs \<leftarrow> load_block (rdata rb) (rhead rb) n;
        out1 \<leftarrow> store_block out 0 xs;
        ys \<leftarrow> load_block (rdata rb) 0 (sz - n);
        out2 \<leftarrow> store_block out1 n ys;
        Some (True, rb\<lparr>rhead := sz - n\<rparr>, out2)
      })"

definition ringBufferDequeue :: "RingBuffer \<Rightarrow> (bool \<times> RingBuffer \<times> u8 option) option" where
  "ringBufferDequeue rb =
     (if ringBufferSize rb < 1 then Some (False, rb, None)
      else do {
        x \<leftarrow> load (rdata rb) (rhead rb);
        Some (True, rb\<lparr>rhead := (rhead rb + 1) mod RBUFFER_SIZE\<rparr>, Some x)
      })"

section \<open>Abstraction to a queue\<close>

definition ring_ok :: "RingBuffer \<Rightarrow> bool" where
  "ring_ok rb \<longleftrightarrow> length (rdata rb) = 1024 \<and> 0 \<le> rhead rb \<and> rhead rb < 1024 \<and> 0 \<le> rtail rb \<and> rtail rb < 1024"

definition ring_content :: "RingBuffer \<Rightarrow> u8 list" where
  "ring_content rb =
     map (\<lambda>i. rdata rb ! nat ((rhead rb + int i) mod 1024)) [0..<nat (ringBufferSize rb)]"

lemma mod_ring: "0 \<le> a \<Longrightarrow> a < 2048 \<Longrightarrow> a mod 1024 = (if a < 1024 then a else a - 1024 :: int)"
  using minus_mod_self2 [of a 1024] mod_pos_pos_trivial [of "a - 1024" 1024] by auto

lemma ring_size_bounds: "0 \<le> ringBufferSize rb" "ringBufferSize rb < 1024"
  by (simp_all add: ringBufferSize_def RBUFFER_SIZE_def)

lemma ring_size_cases:
  "ring_ok rb \<Longrightarrow> ringBufferSize rb =
     (if rhead rb \<le> rtail rb then rtail rb - rhead rb else rtail rb + 1024 - rhead rb)"
  unfolding ring_ok_def ringBufferSize_def RBUFFER_SIZE_def by (subst mod_ring) auto

lemma length_ring_content [simp]: "length (ring_content rb) = nat (ringBufferSize rb)"
  by (simp add: ring_content_def)

lemma ring_content_nth:
  "i < nat (ringBufferSize rb) \<Longrightarrow> ring_content rb ! i = rdata rb ! nat ((rhead rb + int i) mod 1024)"
  by (simp add: ring_content_def)

lemma ring_pos:
  "ring_ok rb \<Longrightarrow> 0 \<le> i \<Longrightarrow> i < 1024 \<Longrightarrow>
     (rhead rb + i) mod 1024 = (if rhead rb + i < 1024 then rhead rb + i else rhead rb + i - 1024)"
  by (rule mod_ring) (auto simp: ring_ok_def)

lemma ring_tail: "ring_ok rb \<Longrightarrow> rtail rb = (rhead rb + ringBufferSize rb) mod 1024"
  using ring_size_bounds [of rb] ring_size_cases [of rb] ring_pos [of rb "ringBufferSize rb"]
  by (auto simp: ring_ok_def split: if_splits)

lemma ring_slot_free:
  assumes "ring_ok rb" "0 \<le> i" "i < ringBufferSize rb"
  shows "nat ((rhead rb + i) mod 1024) \<noteq> nat (rtail rb)"
  using assms ring_size_bounds [of rb] ring_size_cases [of rb] ring_pos [of rb i]
  by (auto simp: ring_ok_def split: if_splits)

lemma ring_create_facts: "ring_ok ringBufferCreate" "ring_content ringBufferCreate = []"
  by (simp_all add: ring_ok_def ring_content_def ringBufferCreate_def ringBufferSize_def RBUFFER_SIZE_def)

lemma ring_enqueue_full:
  "\<not> ringBufferSize rb < 1023 \<Longrightarrow> ringBufferEnQeueue rb x = Some (False, rb)"
  by (simp add: ringBufferEnQeueue_def RBUFFER_SIZE_def)

lemma ring_enqueue_room:
  assumes ok: "ring_ok rb" and room: "ringBufferSize rb < 1023"
  obtains rb' where "ringBufferEnQeueue rb x = Some (True, rb')" "ring_ok rb'"
    "ring_content rb' = ring_content rb @ [x]"
proof -
  let ?rb' = "rb\<lparr>rdata := (rdata rb)[nat (rtail rb) := x], rtail := (rtail rb + 1) mod 1024\<rparr>"
  have run: "ringBufferEnQeueue rb x = Some (True, ?rb')"
    using ok room by (simp add: ringBufferEnQeueue_def RBUFFER_SIZE_def store_def ring_ok_def)
  have ok': "ring_ok ?rb'" using ok by (simp add: ring_ok_def)
  have size: "ringBufferSize ?rb' = ringBufferSize rb + 1"
    using ok ok' room ring_size_cases [OF ok] ring_size_cases [OF ok'] mod_ring [of "rtail rb + 1"]
    by (auto simp: ring_ok_def split: if_splits)
  have "ring_content ?rb' = ring_content rb @ [x]"
  proof (rule nth_equalityI)
    show "length (ring_content ?rb') = length (ring_content rb @ [x])"
      using ring_size_bounds [of rb] by (simp add: size nat_add_distrib)
  next
    fix i assume "i < length (ring_content ?rb')"
    then have i: "i < nat (ringBufferSize rb + 1)" by (simp add: size)
    show "ring_content ?rb' ! i = (ring_content rb @ [x]) ! i"
    proof (cases "i < nat (ringBufferSize rb)")
      case True
      then have "int i < ringBufferSize rb" by (simp add: zless_nat_eq_int_zless)
      then have "nat (rtail rb) \<noteq> nat ((rhead rb + int i) mod 1024)"
        using ring_slot_free [OF ok, of "int i"] by auto
      with True i show ?thesis by (simp add: ring_content_nth nth_append size)
    next
      case False
      with i have i': "int i = ringBufferSize rb" using ring_size_bounds [of rb] by simp
      then have "nat ((rhead rb + int i) mod 1024) = nat (rtail rb)" using ring_tail [OF ok] by simp
      with False i i' ok show ?thesis
        by (simp add: ring_content_nth nth_append size ring_ok_def)
    qed
  qed
  with run ok' that show thesis by blast
qed

lemma ring_dequeue_empty:
  assumes "ring_content rb = []"
  shows "ringBufferDequeue rb = Some (False, rb, None)"
proof -
  have "length (ring_content rb) = 0" using assms by simp
  then have "ringBufferSize rb \<le> 0" by simp
  then show ?thesis by (simp add: ringBufferDequeue_def)
qed

lemma ring_dequeue_some:
  assumes ok: "ring_ok rb" and ne: "ring_content rb = x # xs"
  obtains rb' where "ringBufferDequeue rb = Some (True, rb', Some x)" "ring_ok rb'" "ring_content rb' = xs"
proof -
  let ?rb' = "rb\<lparr>rhead := (rhead rb + 1) mod 1024\<rparr>"
  have pos: "nat (ringBufferSize rb) = Suc (length xs)" using arg_cong [OF ne, of length] by simp
  then have pos': "ringBufferSize rb \<ge> 1" by simp
  have "rdata rb ! nat (rhead rb) = x"
    using ring_content_nth [of 0 rb] pos ne ok by (simp add: ring_ok_def)
  then have run: "ringBufferDequeue rb = Some (True, ?rb', Some x)"
    using ok pos' by (simp add: ringBufferDequeue_def RBUFFER_SIZE_def load_def ring_ok_def)
  have ok': "ring_ok ?rb'" using ok by (simp add: ring_ok_def)
  have size: "ringBufferSize ?rb' = ringBufferSize rb - 1"
    using ok ok' pos' ring_size_cases [OF ok] ring_size_cases [OF ok'] mod_ring [of "rhead rb + 1"]
    by (auto simp: ring_ok_def split: if_splits)
  have "ring_content ?rb' = tl (ring_content rb)"
  proof (rule nth_equalityI)
    show "length (ring_content ?rb') = length (tl (ring_content rb))"
      using ring_size_bounds [of rb] by (simp add: size nat_diff_distrib)
  next
    fix i assume "i < length (ring_content ?rb')"
    then have i: "Suc i < nat (ringBufferSize rb)" by (simp add: size)
    have "((rhead rb + 1) mod 1024 + int i) mod 1024 = (rhead rb + int (Suc i)) mod 1024"
      by (simp add: mod_simps algebra_simps)
    with i show "ring_content ?rb' ! i = tl (ring_content rb) ! i"
      by (simp add: ring_content_nth nth_tl size)
  qed
  with run ok' ne that show thesis by simp
qed

section \<open>Blocks\<close>

text \<open>The contents as slices of the array, without and with wrap-around.\<close>

lemma ring_content_straight:
  assumes "length d = 1024" "h \<le> t" "t < 1024"
  shows "ring_content \<lparr>rdata = d, rhead = int h, rtail = int t\<rparr> = drop h (take t d)"
proof -
  let ?rb = "\<lparr>rdata = d, rhead = int h, rtail = int t\<rparr>"
  have ok: "ring_ok ?rb" using assms by (simp add: ring_ok_def)
  have size: "nat (ringBufferSize ?rb) = t - h" using ring_size_cases [OF ok] assms by auto
  show ?thesis
  proof (rule nth_equalityI)
    fix i assume "i < length (ring_content ?rb)"
    then have i: "i < t - h" by (simp add: size)
    then have "(int h + int i) mod 1024 = int (h + i)" using assms by simp
    then show "ring_content ?rb ! i = drop h (take t d) ! i"
      using i assms by (simp add: ring_content_nth size nat_int_add del: of_nat_add)
  qed (use assms size in simp)
qed

lemma ring_content_wrapped:
  assumes "length d = 1024" "t < h" "h < 1024"
  shows "ring_content \<lparr>rdata = d, rhead = int h, rtail = int t\<rparr> = drop h d @ take t d"
proof -
  let ?rb = "\<lparr>rdata = d, rhead = int h, rtail = int t\<rparr>"
  have ok: "ring_ok ?rb" using assms by (simp add: ring_ok_def)
  have size: "nat (ringBufferSize ?rb) = t + 1024 - h" using ring_size_cases [OF ok] assms by auto
  show ?thesis
  proof (rule nth_equalityI)
    fix i assume "i < length (ring_content ?rb)"
    then have i: "i < t + 1024 - h" by (simp add: size)
    have "(int h + int i) mod 1024 = (if h + i < 1024 then int (h + i) else int (h + i - 1024))"
      using mod_ring [of "int h + int i"] i assms by auto
    then show "ring_content ?rb ! i = (drop h d @ take t d) ! i"
      using i assms by (auto simp: ring_content_nth size nth_append add.commute simp del: of_nat_add of_nat_diff)
  qed (use assms size in simp)
qed

lemma ring_okE:
  assumes "ring_ok rb"
  obtains d h t where "rb = \<lparr>rdata = d, rhead = int h, rtail = int t\<rparr>" "length d = 1024" "h < 1024" "t < 1024"
proof
  show "rb = \<lparr>rdata = rdata rb, rhead = int (nat (rhead rb)), rtail = int (nat (rtail rb))\<rparr>"
    using assms by (simp add: ring_ok_def)
qed (use assms in \<open>auto simp: ring_ok_def\<close>)

lemma ring_enqueue_bulk_straight:
  assumes d: "length d = 1024" and order: "h \<le> t" and ne: "src \<noteq> []" and fit: "t + length src < 1024"
  defines "d' \<equiv> take t d @ src @ drop (t + length src) d"
  shows "ringBufferEnQeueueBulk \<lparr>rdata = d, rhead = int h, rtail = int t\<rparr> src (int (length src))
      = Some (True, \<lparr>rdata = d', rhead = int h, rtail = int (t + length src)\<rparr>)"
    and "drop h (take (t + length src) d') = drop h (take t d) @ src"
proof -
  let ?rb = "\<lparr>rdata = d, rhead = int h, rtail = int t\<rparr>"
  have "ring_ok ?rb" using d order fit by (simp add: ring_ok_def)
  from ring_size_cases [OF this] have size: "ringBufferSize ?rb = int t - int h" using order by simp
  have "0 < int (length src)" using ne by simp
  then have "int h < int t + int (length src)" using order by linarith
  then show "ringBufferEnQeueueBulk ?rb src (int (length src)) =
      Some (True, \<lparr>rdata = d', rhead = int h, rtail = int (t + length src)\<rparr>)"
    using d order fit size
    by (simp add: ringBufferEnQeueueBulk_def RBUFFER_SIZE_def Let_def load_block_def store_block_def d'_def)
  show "drop h (take (t + length src) d') = drop h (take t d) @ src"
    using d order fit by (simp add: d'_def)
qed

lemma ring_enqueue_bulk_around:
  assumes d: "length d = 1024" and order: "h \<le> t" "t < 1024"
    and long: "1024 \<le> t + length src" and room: "t - h + length src \<le> 1023"
  defines "m \<equiv> t + length src - 1024" and "n \<equiv> 1024 - t"
  defines "d' \<equiv> drop n src @ drop m (take t d @ take n src)"
  shows "ringBufferEnQeueueBulk \<lparr>rdata = d, rhead = int h, rtail = int t\<rparr> src (int (length src))
      = Some (True, \<lparr>rdata = d', rhead = int h, rtail = int m\<rparr>)"
    and "drop h d' @ take m d' = drop h (take t d) @ src" and "m < h"
proof -
  let ?rb = "\<lparr>rdata = d, rhead = int h, rtail = int t\<rparr>"
  have "ring_ok ?rb" using d order by (simp add: ring_ok_def)
  from ring_size_cases [OF this] have size: "ringBufferSize ?rb = int t - int h" using order by simp
  show mh: "m < h" using order long room by (simp add: m_def)
  have lt: "(int t + int (length src)) mod 1024 = int m"
    using mod_ring [of "int t + int (length src)"] long room order by (simp add: m_def)
  have n: "int n = 1024 - int t" "n \<le> length src" "length src - n = m" "t + n = 1024"
    using order long by (auto simp: n_def m_def)
  have m: "int (length src) - (1024 - int t) = int m" "length src + t - 1024 = m" "1024 - t = n" "m \<le> 1024"
    using long mh order by (simp_all add: m_def n_def)
  show "ringBufferEnQeueueBulk ?rb src (int (length src)) =
      Some (True, \<lparr>rdata = d', rhead = int h, rtail = int m\<rparr>)"
    using d order long room size mh lt n m
    by (simp add: ringBufferEnQeueueBulk_def RBUFFER_SIZE_def Let_def load_block_def store_block_def d'_def
        nat_diff_distrib)
  show "drop h d' @ take m d' = drop h (take t d) @ src"
    using d order n mh by (simp add: d'_def)
qed

lemma ring_dequeue_bulk_straight:
  assumes d: "length d = 1024" and order: "h < t" "t < 1024" and k: "k \<le> t - h" "k \<le> length out"
  shows "ringBufferDequeueBulk \<lparr>rdata = d, rhead = int h, rtail = int t\<rparr> out (int k)
      = Some (True, \<lparr>rdata = d, rhead = int (h + k), rtail = int t\<rparr>, take k (drop h d) @ drop k out)"
    and "take k (drop h d) = take k (drop h (take t d))"
proof -
  let ?rb = "\<lparr>rdata = d, rhead = int h, rtail = int t\<rparr>"
  have "ring_ok ?rb" using d order by (simp add: ring_ok_def)
  from ring_size_cases [OF this] have size: "ringBufferSize ?rb = int t - int h" using order by simp
  show "ringBufferDequeueBulk ?rb out (int k)
      = Some (True, \<lparr>rdata = d, rhead = int (h + k), rtail = int t\<rparr>, take k (drop h d) @ drop k out)"
    using d order k size
    by (simp add: ringBufferDequeueBulk_def load_block_def store_block_def)
  show "take k (drop h d) = take k (drop h (take t d))"
    using k by (simp add: drop_take)
qed

lemma ring_dequeue_bulk_around:
  assumes d: "length d = 1024" and order: "t < h" "h < 1024" and k: "1024 \<le> h + k" "k \<le> t + 1024 - h" "k \<le> length out"
  shows "ringBufferDequeueBulk \<lparr>rdata = d, rhead = int h, rtail = int t\<rparr> out (int k)
      = Some (True, \<lparr>rdata = d, rhead = int (h + k - 1024), rtail = int t\<rparr>,
          drop h d @ take (h + k - 1024) d @ drop k out)"
proof -
  let ?rb = "\<lparr>rdata = d, rhead = int h, rtail = int t\<rparr>"
  have "ring_ok ?rb" using d order by (simp add: ring_ok_def)
  from ring_size_cases [OF this] have size: "ringBufferSize ?rb = int t + 1024 - int h" using order by simp
  have n: "int k - (1024 - int h) = int (h + k - 1024)" "nat (1024 - int h) = 1024 - h" using k order by auto
  show ?thesis
    using d order k size
    by (simp add: ringBufferDequeueBulk_def load_block_def store_block_def RBUFFER_SIZE_def Let_def n
        nat_int_add add.commute del: of_nat_diff) arith
qed

section \<open>The bounded queue interface\<close>

locale bounded_queue =
  fixes items :: "'q \<Rightarrow> 'a list"
    and enq :: "'q \<Rightarrow> 'a \<Rightarrow> (bool \<times> 'q) option"
    and deq :: "'q \<Rightarrow> (bool \<times> 'q \<times> 'a option) option"
    and capacity :: nat
    and good :: "'q \<Rightarrow> bool"
  assumes enq_room: "good q \<Longrightarrow> length (items q) < capacity \<Longrightarrow>
        \<exists>q'. enq q x = Some (True, q') \<and> good q' \<and> items q' = items q @ [x]"
    and enq_full: "good q \<Longrightarrow> length (items q) = capacity \<Longrightarrow> enq q x = Some (False, q)"
    and deq_empty: "good q \<Longrightarrow> items q = [] \<Longrightarrow> deq q = Some (False, q, None)"
    and deq_some: "good q \<Longrightarrow> items q = x # xs \<Longrightarrow>
        \<exists>q'. deq q = Some (True, q', Some x) \<and> good q' \<and> items q' = xs"
begin

primrec enq_all :: "'q \<Rightarrow> 'a list \<Rightarrow> 'q option" where
  "enq_all q [] = Some q"
| "enq_all q (x # xs) = do { (ok, q') \<leftarrow> enq q x; if ok then enq_all q' xs else None }"

primrec deq_n :: "'q \<Rightarrow> nat \<Rightarrow> ('q \<times> 'a list) option" where
  "deq_n q 0 = Some (q, [])"
| "deq_n q (Suc n) = do {
     (ok, q1, x) \<leftarrow> deq q;
     (case x of None \<Rightarrow> None | Some y \<Rightarrow> do { (q2, ys) \<leftarrow> deq_n q1 n; Some (q2, y # ys) })
   }"

lemma enq_all_items:
  "good q \<Longrightarrow> length (items q) + length xs \<le> capacity \<Longrightarrow>
     \<exists>q'. enq_all q xs = Some q' \<and> good q' \<and> items q' = items q @ xs"
proof (induction xs arbitrary: q)
  case (Cons x xs)
  then obtain q1 where q1: "enq q x = Some (True, q1)" "good q1" "items q1 = items q @ [x]"
    using enq_room [of q x] by auto
  with Cons.IH [of q1] Cons.prems show ?case by auto
qed simp

lemma deq_n_items:
  "good q \<Longrightarrow> items q = xs @ ys \<Longrightarrow> \<exists>q'. deq_n q (length xs) = Some (q', xs) \<and> good q' \<and> items q' = ys"
proof (induction xs arbitrary: q)
  case (Cons x xs)
  then obtain q1 where q1: "deq q = Some (True, q1, Some x)" "good q1" "items q1 = xs @ ys"
    using deq_some [of q x "xs @ ys"] by auto
  with Cons.IH [of q1] show ?case by auto
qed simp

text \<open>First in, first out: what fits is read back in the order it was written.\<close>

lemma fifo:
  assumes "good q" "items q = []" "length xs \<le> capacity"
  shows "\<exists>q1 q2. enq_all q xs = Some q1 \<and> deq_n q1 (length xs) = Some (q2, xs) \<and> items q2 = []"
proof -
  obtain q1 where q1: "enq_all q xs = Some q1" "good q1" "items q1 = xs"
    using enq_all_items [OF assms(1), of xs] assms(2,3) by auto
  with deq_n_items [of q1 xs "[]"] show ?thesis by auto
qed

end

interpretation ring: bounded_queue ring_content ringBufferEnQeueue ringBufferDequeue 1023 ring_ok
proof (unfold_locales, goal_cases)
  case (1 q x)
  then have "ringBufferSize q < 1023" by simp
  from ring_enqueue_room [OF 1(1) this, of x] show ?case by metis
next
  case (2 q x)
  then have "\<not> ringBufferSize q < 1023" by simp
  then show ?case by (rule ring_enqueue_full)
next
  case (3 q)
  then show ?case by (simp add: ring_dequeue_empty)
next
  case (4 q x xs)
  then show ?case using ring_dequeue_some [of q x xs] by metis
qed

section \<open>Properties\<close>

text \<open>
  The single-byte operations are a first-in first-out queue of capacity 1023: any byte
  sequence that fits is read back unchanged from an empty buffer.
\<close>

theorem ring_fifo:
  assumes "length xs \<le> 1023"
  shows "\<exists>rb1 rb2. ring.enq_all ringBufferCreate xs = Some rb1 \<and>
     ring.deq_n rb1 (length xs) = Some (rb2, xs) \<and> ring_content rb2 = []"
  using ring.fifo [OF ring_create_facts assms] .

theorem ring_fifo_witness:
  "\<exists>rb1 rb2. ring.enq_all ringBufferCreate [7, 8, 9] = Some rb1 \<and> ring.deq_n rb1 3 = Some (rb2, [7, 8, 9])
     \<and> ring_content rb2 = []"
proof -
  have "length [7, 8, 9 :: u8] = 3" by simp
  with ring_fifo [of "[7, 8, 9]"] show ?thesis
    by (simp del: ring.enq_all.simps ring.deq_n.simps length_Cons list.size)
qed

text \<open>
  One enqueue on a well-formed buffer never leaves the array: it refuses exactly when 1023
  bytes are stored and otherwise appends the byte.
\<close>

theorem ring_enqueue_step:
  assumes "ring_ok rb"
  shows "\<exists>ok rb'. ringBufferEnQeueue rb x = Some (ok, rb') \<and> ring_ok rb'
     \<and> ok = (length (ring_content rb) < 1023)
     \<and> ring_content rb' = (if ok then ring_content rb @ [x] else ring_content rb)"
  using assms ring.enq_room [OF assms, of x] ring_enqueue_full [of rb x]
  by (cases "length (ring_content rb) < 1023") auto

theorem ring_enqueue_step_witness:
  "ring_ok ringBufferCreate \<and> (\<exists>rb'. ringBufferEnQeueue ringBufferCreate 5 = Some (True, rb') \<and> ring_content rb' = [5])"
  using ring_enqueue_step [OF ring_create_facts(1), of 5] ring_create_facts by auto

text \<open>
  The block enqueue appends the whole block, wrapping around the end of the array when it has
  to, provided the stored bytes do not wrap around themselves (head not behind tail).
\<close>

theorem ring_enqueue_bulk_appends:
  assumes "ring_ok rb" "rhead rb \<le> rtail rb" "src \<noteq> []" "length (ring_content rb) + length src \<le> 1023"
  shows "\<exists>rb'. ringBufferEnQeueueBulk rb src (int (length src)) = Some (True, rb') \<and> ring_ok rb'
     \<and> ring_content rb' = ring_content rb @ src"
proof -
  obtain d h t where rb: "rb = \<lparr>rdata = d, rhead = int h, rtail = int t\<rparr>" "length d = 1024" "h < 1024" "t < 1024"
    using assms(1) by (rule ring_okE)
  have ht: "h \<le> t" using assms(2) rb by simp
  have c: "ring_content rb = drop h (take t d)" using ring_content_straight [OF rb(2) ht rb(4)] rb(1) by simp
  show ?thesis
  proof (cases "t + length src < 1024")
    case True
    note run = ring_enqueue_bulk_straight [OF rb(2) ht assms(3) True]
    let ?d = "take t d @ src @ drop (t + length src) d"
    have "length ?d = 1024" using rb True by simp
    with run c rb True ht ring_content_straight [of ?d h "t + length src"] show ?thesis
      by (auto simp: ring_ok_def)
  next
    case False
    then have long: "1024 \<le> t + length src" by simp
    have l: "length (ring_content rb) = t - h" unfolding c using rb by simp
    have room: "t - h + length src \<le> 1023" using assms(4) l by linarith
    note run = ring_enqueue_bulk_around [OF rb(2) ht rb(4) long room]
    let ?m = "t + length src - 1024" and ?n = "1024 - t"
    let ?d = "drop ?n src @ drop ?m (take t d @ take ?n src)"
    have len: "length ?d = 1024" using rb long room by auto
    let ?rb' = "\<lparr>rdata = ?d, rhead = int h, rtail = int ?m\<rparr>"
    have c': "ring_content ?rb' = ring_content rb @ src"
      unfolding ring_content_wrapped [OF len run(3) rb(3)] c by (rule run(2))
    have m: "?m < 1024" using run(3) rb(3) by linarith
    have ok': "ring_ok ?rb'" unfolding ring_ok_def using len m rb(3) by simp
    from run(1) have "ringBufferEnQeueueBulk rb src (int (length src)) = Some (True, ?rb')"
      unfolding rb(1) .
    with c' ok' show ?thesis by blast
  qed
qed

theorem ring_enqueue_bulk_appends_witness:
  "\<exists>rb'. ringBufferEnQeueueBulk ringBufferCreate [1, 2, 3] 3 = Some (True, rb') \<and> ring_content rb' = [1, 2, 3]"
proof -
  have h: "rhead ringBufferCreate \<le> rtail ringBufferCreate" by (simp add: ringBufferCreate_def)
  have l: "length (ring_content ringBufferCreate) + length [1, 2, 3 :: u8] \<le> 1023"
    unfolding ring_create_facts by simp
  from ring_enqueue_bulk_appends [OF ring_create_facts(1) h _ l] show ?thesis
    unfolding ring_create_facts by auto
qed

text \<open>
  The block dequeue of part of an unwrapped buffer, or of a wrapped buffer up to and past the
  end of the array, copies out the oldest bytes in order and leaves the rest.
\<close>

theorem ring_dequeue_bulk_takes:
  assumes "ring_ok rb" "k \<le> length (ring_content rb)" "k \<le> length out" "0 < k"
    and "rhead rb < rtail rb \<or> 1024 \<le> rhead rb + int k"
  shows "\<exists>rb'. ringBufferDequeueBulk rb out (int k) = Some (True, rb', take k (ring_content rb) @ drop k out)
     \<and> ring_ok rb' \<and> ring_content rb' = drop k (ring_content rb)"
proof -
  obtain d h t where rb: "rb = \<lparr>rdata = d, rhead = int h, rtail = int t\<rparr>" "length d = 1024" "h < 1024" "t < 1024"
    using assms(1) by (rule ring_okE)
  show ?thesis
  proof (cases "h \<le> t")
    case True
    have c: "ring_content rb = drop h (take t d)" using ring_content_straight [OF rb(2) True rb(4)] rb(1) by simp
    have l: "length (ring_content rb) = t - h" unfolding c using rb by simp
    have k: "k \<le> t - h" "h < t" using assms(2,4) l by linarith+
    note run = ring_dequeue_bulk_straight [OF rb(2) k(2) rb(4) k(1) assms(3)]
    have "ring_content \<lparr>rdata = d, rhead = int (h + k), rtail = int t\<rparr> = drop (h + k) (take t d)"
      using rb k by (intro ring_content_straight) auto
    then show ?thesis using run c rb k
      by (intro exI [of _ "\<lparr>rdata = d, rhead = int (h + k), rtail = int t\<rparr>"])
        (auto simp: ring_ok_def add.commute)
  next
    case False
    then have th: "t < h" by simp
    have c: "ring_content rb = drop h d @ take t d" using ring_content_wrapped [OF rb(2) th rb(3)] rb(1) by simp
    have l: "length (ring_content rb) = t + 1024 - h" unfolding c using rb by simp
    have k: "k \<le> t + 1024 - h" using assms(2) l by linarith
    have k': "1024 \<le> h + k" using assms(5) rb th by auto
    note k = k k'
    note run = ring_dequeue_bulk_around [OF rb(2) th rb(3) k(2,1) assms(3)]
    have "ring_content \<lparr>rdata = d, rhead = int (h + k - 1024), rtail = int t\<rparr> = drop (h + k - 1024) (take t d)"
      by (rule ring_content_straight) (use rb k th in linarith)+
    moreover have "take k (drop h d @ take t d) = drop h d @ take (h + k - 1024) d"
    proof -
      have "h + k - 1024 \<le> t" using k th rb(3) by linarith
      then show ?thesis using rb k by (simp add: min_def add.commute)
    qed
    ultimately show ?thesis using run c rb k th
      by (intro exI [of _ "\<lparr>rdata = d, rhead = int (h + k - 1024), rtail = int t\<rparr>"])
        (auto simp: ring_ok_def add.commute)
  qed
qed

theorem ring_dequeue_bulk_takes_witness:
  "\<exists>rb'. ringBufferDequeueBulk (ringBufferCreate\<lparr>rtail := 3\<rparr>) [9, 9] 2 = Some (True, rb', [0, 0])"
proof -
  have c: "ring_content (ringBufferCreate\<lparr>rtail := 3\<rparr>) = [0, 0, 0]"
    using ring_content_straight [of "replicate 1024 0" 0 3]
    by (simp add: ringBufferCreate_def RBUFFER_SIZE_def eval_nat_numeral)
  have "ring_ok (ringBufferCreate\<lparr>rtail := 3\<rparr>)" by (simp add: ring_ok_def ringBufferCreate_def RBUFFER_SIZE_def)
  from ring_dequeue_bulk_takes [OF this, of 2 "[9, 9]", unfolded c] show ?thesis
    by (auto simp: ringBufferCreate_def eval_nat_numeral)
qed

text \<open>
  On a buffer whose data wraps around, the block enqueue of a block that fits computes the
  length up to the end of the array instead of the block's, and reads past the caller's block.
\<close>

theorem ring_enqueue_bulk_wrapped_overruns:
  assumes "ring_ok rb" "rtail rb < rhead rb" "length (ring_content rb) + length src \<le> 1023"
  shows "ringBufferEnQeueueBulk rb src (int (length src)) = None"
proof -
  have size: "ringBufferSize rb = rtail rb + 1024 - rhead rb" "0 \<le> ringBufferSize rb"
    using ring_size_cases [OF assms(1)] assms(2) ring_size_bounds(1) [of rb] by simp_all
  have fit: "ringBufferSize rb + int (length src) \<le> 1023" using assms(3) size(2) by simp
  then have lt: "rtail rb + int (length src) < rhead rb" using size(1) by linarith
  have b: "0 \<le> rtail rb" "rhead rb < 1024" using assms(1) by (auto simp: ring_ok_def)
  have "(rtail rb + int (length src)) mod 1024 = rtail rb + int (length src)"
    by (rule mod_pos_pos_trivial) (use lt b in auto)
  then show ?thesis
    using fit lt b by (simp add: ringBufferEnQeueueBulk_def RBUFFER_SIZE_def Let_def load_block_def)
qed

theorem ring_enqueue_bulk_wrapped_overruns_witness:
  "ringBufferEnQeueueBulk (ringBufferCreate\<lparr>rhead := 1000, rtail := 10\<rparr>) [1] 1 = None"
proof -
  have ok: "ring_ok (ringBufferCreate\<lparr>rhead := 1000, rtail := 10\<rparr>)"
    by (simp add: ring_ok_def ringBufferCreate_def RBUFFER_SIZE_def)
  have "length (ring_content (ringBufferCreate\<lparr>rhead := 1000, rtail := 10\<rparr>)) = 34"
    by (simp add: ringBufferSize_def RBUFFER_SIZE_def ringBufferCreate_def)
  with ring_enqueue_bulk_wrapped_overruns [OF ok, of "[1]"] show ?thesis by simp
qed

end
