(* ===== verification/DList.thy ===== *)
theory DList
  imports Prelude
begin

text \<open>
  The doubly linked list of \<open>src/list.c\<close> (\<open>include/list.h\<close>) on an explicit heap.

  A pointer is a 64-bit address, 0 the null pointer; the heap maps the address of every live node
  to the node.  Dereferencing any other address has no defined result (\<open>None\<close>), so a theorem that an
  operation returns \<open>Some\<close> also says that it follows no null or dangling pointer.  The address a
  \<open>malloc\<close> returns is an argument (0 when it fails).  The list's methods are fields of the list; the
  \<open>free\<close> method's calls are returned as the sequence of values it is called with.

  The lemmas relate the heap to the sequence of node addresses a list stands for: \<open>dlist_ok\<close> is the
  representation invariant, and each operation is the corresponding operation on sequences.
\<close>

section \<open>State\<close>

type_synonym ptr = "64 word"

record listNode =
  nprev :: ptr
  nnext :: ptr
  nvalue :: ptr

record dlist =
  head :: ptr
  tail :: ptr
  len :: "64 word"
  dup_m :: "(ptr \<Rightarrow> ptr) option"
  free_m :: bool
  compare_m :: "(ptr \<Rightarrow> ptr \<Rightarrow> bool) option"

type_synonym heap = "ptr \<Rightarrow> listNode option"

text \<open>Reading and writing a field through a pointer.\<close>

definition upd :: "heap \<Rightarrow> ptr \<Rightarrow> (listNode \<Rightarrow> listNode) \<Rightarrow> heap option" where
  "upd h p f = (case h p of None \<Rightarrow> None | Some n \<Rightarrow> Some (h(p \<mapsto> f n)))"

definition set_prev :: "heap \<Rightarrow> ptr \<Rightarrow> ptr \<Rightarrow> heap option" where
  "set_prev h p q = upd h p (\<lambda>n. n\<lparr>nprev := q\<rparr>)"

definition set_next :: "heap \<Rightarrow> ptr \<Rightarrow> ptr \<Rightarrow> heap option" where
  "set_next h p q = upd h p (\<lambda>n. n\<lparr>nnext := q\<rparr>)"

section \<open>Operations\<close>

definition listCreate :: dlist where
  "listCreate = \<lparr>head = 0, tail = 0, len = 0, dup_m = None, free_m = False, compare_m = None\<rparr>"

definition listCreateNode :: "heap \<Rightarrow> ptr \<Rightarrow> ptr \<Rightarrow> ptr \<times> heap" where
  "listCreateNode h a val =
     (if a = 0 then (0, h) else (a, h(a \<mapsto> \<lparr>nprev = 0, nnext = 0, nvalue = val\<rparr>)))"

definition listAddNodeHead :: "heap \<Rightarrow> dlist \<Rightarrow> ptr \<Rightarrow> (heap \<times> dlist) option" where
  "listAddNodeHead h l node =
     (if len l = 0 then do {
        h1 \<leftarrow> set_next h node 0;
        h2 \<leftarrow> set_prev h1 node 0;
        Some (h2, l\<lparr>head := node, tail := node, len := len l + 1\<rparr>)
      } else do {
        h1 \<leftarrow> set_prev h node 0;
        h2 \<leftarrow> set_next h1 node (head l);
        h3 \<leftarrow> set_prev h2 (head l) node;
        Some (h3, l\<lparr>head := node, len := len l + 1\<rparr>)
      })"

definition listAddNodeTail :: "heap \<Rightarrow> dlist \<Rightarrow> ptr \<Rightarrow> (heap \<times> dlist) option" where
  "listAddNodeTail h l node =
     (if len l = 0 then do {
        h1 \<leftarrow> set_next h node 0;
        h2 \<leftarrow> set_prev h1 node 0;
        Some (h2, l\<lparr>head := node, tail := node, len := len l + 1\<rparr>)
      } else do {
        h1 \<leftarrow> set_prev h node (tail l);
        h2 \<leftarrow> set_next h1 node 0;
        h3 \<leftarrow> set_next h2 (tail l) node;
        Some (h3, l\<lparr>tail := node, len := len l + 1\<rparr>)
      })"

definition listInsertNode :: "heap \<Rightarrow> dlist \<Rightarrow> ptr \<Rightarrow> ptr \<Rightarrow> bool \<Rightarrow> (heap \<times> dlist) option" where
  "listInsertNode h l old_node new_node after = do {
     (h2, l1) \<leftarrow>
       (if after then do {
          h1 \<leftarrow> set_prev h new_node old_node;
          old \<leftarrow> h1 old_node;
          h2 \<leftarrow> set_next h1 new_node (nnext old);
          Some (h2, if tail l = old_node then l\<lparr>tail := new_node\<rparr> else l)
        } else do {
          h1 \<leftarrow> set_next h new_node old_node;
          old \<leftarrow> h1 old_node;
          h2 \<leftarrow> set_prev h1 new_node (nprev old);
          Some (h2, if head l = old_node then l\<lparr>head := new_node\<rparr> else l)
        });
     new \<leftarrow> h2 new_node;
     h3 \<leftarrow> (if nprev new \<noteq> 0 then set_next h2 (nprev new) new_node else Some h2);
     new' \<leftarrow> h3 new_node;
     h4 \<leftarrow> (if nnext new' \<noteq> 0 then set_prev h3 (nnext new') new_node else Some h3);
     Some (h4, l1\<lparr>len := len l1 + 1\<rparr>)
   }"

text \<open>The search follows \<open>next\<close> until the null pointer; on a cyclic list it may not return.\<close>

definition key_matches :: "dlist \<Rightarrow> ptr \<Rightarrow> ptr \<Rightarrow> bool" where
  "key_matches l v key = (case compare_m l of Some cmp \<Rightarrow> cmp v key | None \<Rightarrow> v = key)"

partial_function (option) search_from :: "heap \<Rightarrow> dlist \<Rightarrow> ptr \<Rightarrow> ptr \<Rightarrow> ptr option" where
  "search_from h l key node =
     (if node = 0 then Some 0
      else do {
        n \<leftarrow> h node;
        if key_matches l (nvalue n) key then Some node else search_from h l key (nnext n)
      })"

definition listSearchKey :: "heap \<Rightarrow> dlist \<Rightarrow> ptr \<Rightarrow> ptr option" where
  "listSearchKey h l key = search_from h l key (head l)"

fun walk :: "(listNode \<Rightarrow> ptr) \<Rightarrow> heap \<Rightarrow> nat \<Rightarrow> ptr \<Rightarrow> ptr option" where
  "walk step h 0 node = Some node"
| "walk step h (Suc i) node = (if node = 0 then Some 0 else do { n \<leftarrow> h node; walk step h i (step n) })"

text \<open>\<open>-index\<close> overflows for the least \<open>int\<close>.\<close>

definition listIndex :: "heap \<Rightarrow> dlist \<Rightarrow> int \<Rightarrow> ptr option" where
  "listIndex h l index =
     (if index < 0 then
        if index = - (2 ^ 31) then None else walk nprev h (nat (- index - 1)) (tail l)
      else walk nnext h (nat index) (head l))"

definition listDelNode :: "heap \<Rightarrow> dlist \<Rightarrow> ptr \<Rightarrow> (heap \<times> dlist \<times> ptr list) option" where
  "listDelNode h l node = do {
     n \<leftarrow> h node;
     (h1, l1) \<leftarrow> (if nprev n \<noteq> 0 then do { h1 \<leftarrow> set_next h (nprev n) (nnext n); Some (h1, l) }
                  else Some (h, l\<lparr>head := nnext n\<rparr>));
     n1 \<leftarrow> h1 node;
     (h2, l2) \<leftarrow> (if nnext n1 \<noteq> 0 then do { h2 \<leftarrow> set_prev h1 (nnext n1) (nprev n1); Some (h2, l1) }
                  else Some (h1, l1\<lparr>tail := nprev n1\<rparr>));
     n2 \<leftarrow> h2 node;
     Some (h2(node := None), l2\<lparr>len := len l2 - 1\<rparr>, if free_m l then [nvalue n2] else [])
   }"

definition listRotate :: "heap \<Rightarrow> dlist \<Rightarrow> (heap \<times> dlist) option" where
  "listRotate h l =
     (let t = tail l in
      if len l \<le> 1 then Some (h, l)
      else do {
        n \<leftarrow> h t;
        let l1 = l\<lparr>tail := nprev n\<rparr>;
        h1 \<leftarrow> set_next h (tail l1) 0;
        h2 \<leftarrow> set_prev h1 t 0;
        h3 \<leftarrow> set_next h2 t (head l1);
        h4 \<leftarrow> set_prev h3 (head l1) t;
        Some (h4, l1\<lparr>head := t\<rparr>)
      })"

text \<open>The loop \<open>while (len--)\<close> shared by \<open>listRelease\<close> and \<open>listClear\<close>.\<close>

fun release_nodes :: "heap \<Rightarrow> bool \<Rightarrow> nat \<Rightarrow> ptr \<Rightarrow> (heap \<times> ptr list) option" where
  "release_nodes h frees 0 current = Some (h, [])"
| "release_nodes h frees (Suc k) current = do {
     n \<leftarrow> h current;
     (h', vs) \<leftarrow> release_nodes (h(current := None)) frees k (nnext n);
     Some (h', (if frees then [nvalue n] else []) @ vs)
   }"

definition listRelease :: "heap \<Rightarrow> dlist \<Rightarrow> (heap \<times> ptr list) option" where
  "listRelease h l = release_nodes h (free_m l) (unat (len l)) (head l)"

definition listClear :: "heap \<Rightarrow> dlist \<Rightarrow> (heap \<times> dlist \<times> ptr list) option" where
  "listClear h l = do {
     (h', vs) \<leftarrow> release_nodes h (free_m l) (unat (len l)) (head l);
     Some (h', l, vs)
   }"

text \<open>The third argument of the loop is the sequence of addresses the calls of \<open>malloc\<close> return.\<close>

fun dup_from :: "heap \<Rightarrow> dlist \<Rightarrow> ptr list \<Rightarrow> ptr \<Rightarrow> dlist \<Rightarrow> (heap \<times> dlist) option" where
  "dup_from h src [] node dest = Some (h, dest)"
| "dup_from h src (a # allocs) node dest =
     (if node = 0 then Some (h, dest)
      else if a = 0 then Some (h, dest)
      else do {
        n \<leftarrow> h node;
        let v = (case dup_m src of Some f \<Rightarrow> f (nvalue n) | None \<Rightarrow> nvalue n);
        if v = 0 then Some (h, dest)
        else do {
          (h1, dest1) \<leftarrow> listAddNodeTail (h(a \<mapsto> \<lparr>nprev = 0, nnext = 0, nvalue = v\<rparr>)) dest a;
          n1 \<leftarrow> h1 node;
          dup_from h1 src allocs (nnext n1) dest1
        }
      })"

definition listDup :: "heap \<Rightarrow> ptr list \<Rightarrow> dlist \<Rightarrow> dlist \<Rightarrow> (heap \<times> dlist) option" where
  "listDup h allocs src dest = dup_from h src allocs (head src) dest"

definition listPrevNode :: "heap \<Rightarrow> ptr \<Rightarrow> ptr option" where
  "listPrevNode h node = map_option nprev (h node)"

definition listNextNode :: "heap \<Rightarrow> ptr \<Rightarrow> ptr option" where
  "listNextNode h node = map_option nnext (h node)"

definition listNodeValue :: "heap \<Rightarrow> ptr \<Rightarrow> ptr option" where
  "listNodeValue h node = map_option nvalue (h node)"

definition listSetDupMethod :: "dlist \<Rightarrow> (ptr \<Rightarrow> ptr) option \<Rightarrow> dlist" where
  "listSetDupMethod l f = l\<lparr>dup_m := f\<rparr>"

definition listSetFreeMethod :: "dlist \<Rightarrow> bool \<Rightarrow> dlist" where
  "listSetFreeMethod l b = l\<lparr>free_m := b\<rparr>"

definition listSetCompareMethod :: "dlist \<Rightarrow> (ptr \<Rightarrow> ptr \<Rightarrow> bool) option \<Rightarrow> dlist" where
  "listSetCompareMethod l f = l\<lparr>compare_m := f\<rparr>"

definition listLength :: "dlist \<Rightarrow> 64 word" where
  "listLength l = len l"

definition listHead :: "dlist \<Rightarrow> ptr" where
  "listHead l = head l"

definition listTail :: "dlist \<Rightarrow> ptr" where
  "listTail l = tail l"

section \<open>The sequence a list stands for\<close>

text \<open>
  \<open>dseg h p xs q\<close>: the nodes at the addresses \<open>xs\<close> are linked in that order in both directions, the
  first one's predecessor being \<open>p\<close> and the last one's successor \<open>q\<close>.
\<close>

fun dseg :: "heap \<Rightarrow> ptr \<Rightarrow> ptr list \<Rightarrow> ptr \<Rightarrow> bool" where
  "dseg h p [] q \<longleftrightarrow> True"
| "dseg h p (x # xs) q \<longleftrightarrow>
     (case h x of None \<Rightarrow> False | Some n \<Rightarrow> nprev n = p \<and> nnext n = hd (xs @ [q]) \<and> dseg h x xs q)"

definition dlist_ok :: "heap \<Rightarrow> dlist \<Rightarrow> ptr list \<Rightarrow> bool" where
  "dlist_ok h l xs \<longleftrightarrow> distinct xs \<and> 0 \<notin> set xs \<and> dseg h 0 xs 0 \<and>
     head l = hd (xs @ [0]) \<and> tail l = last (0 # xs) \<and> len l = of_nat (length xs)"

definition vals :: "heap \<Rightarrow> ptr \<Rightarrow> ptr option" where
  "vals h x = map_option nvalue (h x)"

text \<open>What an operation leaves alone: the values of all nodes, and every node outside a set.\<close>

definition keeps :: "heap \<Rightarrow> heap \<Rightarrow> ptr set \<Rightarrow> bool" where
  "keeps h h' S \<longleftrightarrow> vals h' = vals h \<and> (\<forall>x. x \<notin> S \<longrightarrow> h' x = h x)"

lemma hd_app [simp]: "hd ((xs @ [y]) @ zs) = hd (xs @ [y])"
  by (cases xs) simp_all

lemma hd_app_Cons [simp]: "hd (xs @ y # z # zs) = hd (xs @ [y])"
  by (cases xs) simp_all

lemma dseg_append [simp]:
  "dseg h p (xs @ ys) q \<longleftrightarrow> dseg h p xs (hd (ys @ [q])) \<and> dseg h (last (p # xs)) ys q"
proof (induction xs arbitrary: p)
  case (Cons x xs)
  have "hd (xs @ ys @ [q]) = hd (xs @ [hd (ys @ [q])])" by (cases xs) simp_all
  with Cons show ?case by (auto split: option.splits)
qed simp

lemma dseg_frame: "(\<And>x. x \<in> set xs \<Longrightarrow> h' x = h x) \<Longrightarrow> dseg h' p xs q = dseg h p xs q"
  by (induction xs arbitrary: p) (auto split: option.splits)

lemma dseg_upd [simp]: "a \<notin> set xs \<Longrightarrow> dseg (h(a := v)) p xs q = dseg h p xs q"
  by (rule dseg_frame) auto

lemma dseg_mapped: "dseg h p xs q \<Longrightarrow> x \<in> set xs \<Longrightarrow> \<exists>n. h x = Some n"
  by (induction xs arbitrary: p) (auto split: option.splits)

lemma length_distinct_ptrs: "distinct (xs :: ptr list) \<Longrightarrow> 0 \<notin> set xs \<Longrightarrow> length xs < 2 ^ 64"
proof -
  assume "distinct xs" "0 \<notin> set xs"
  then have "length (0 # xs) = card (set (0 # xs))" by (simp add: distinct_card)
  also have "\<dots> \<le> card (UNIV :: ptr set)" by (intro card_mono) simp_all
  finally show ?thesis by (simp add: card_word)
qed

lemma dlist_len:
  assumes "dlist_ok h l xs"
  shows "unat (len l) = length xs" "len l = 0 \<longleftrightarrow> xs = []"
proof -
  have "length xs < 2 ^ 64" using assms length_distinct_ptrs by (auto simp: dlist_ok_def)
  then show l: "unat (len l) = length xs" using assms by (simp add: dlist_ok_def unat_of_nat take_bit_nat_eq_self)
  show "len l = 0 \<longleftrightarrow> xs = []" unfolding unat_eq_0 [symmetric] l by simp
qed

lemma set_links [simp]:
  "h x = Some n \<Longrightarrow> set_prev h x p = Some (h(x \<mapsto> n\<lparr>nprev := p\<rparr>))"
  "h x = Some n \<Longrightarrow> set_next h x p = Some (h(x \<mapsto> n\<lparr>nnext := p\<rparr>))"
  by (simp_all add: set_prev_def set_next_def upd_def)

lemma links_order [simp]: "n\<lparr>nnext := a, nprev := b\<rparr> = n\<lparr>nprev := b, nnext := a\<rparr>"
  by simp

lemma keeps_refl [simp]: "keeps h h S"
  by (simp add: keeps_def)

lemma keeps_trans: "keeps h h' S \<Longrightarrow> keeps h' h'' T \<Longrightarrow> keeps h h'' (S \<union> T)"
  by (auto simp: keeps_def)

lemma keeps_mapped: "keeps h h' S \<Longrightarrow> h x = Some n \<Longrightarrow> \<exists>n'. h' x = Some n' \<and> nvalue n' = nvalue n"
  unfolding keeps_def vals_def by (metis option.map_disc_iff option.collapse option.map_sel option.simps(3) option.sel)

lemma dlist_ok_keeps:
  "dlist_ok h l xs \<Longrightarrow> keeps h h' S \<Longrightarrow> S \<inter> set xs = {} \<Longrightarrow> dlist_ok h' l xs"
  unfolding dlist_ok_def keeps_def using dseg_frame [of xs h' h] by (metis disjoint_iff)

text \<open>A list never contains the address of a node outside the heap.\<close>

lemma dlist_ok_free: "dlist_ok h l xs \<Longrightarrow> h a = None \<Longrightarrow> a \<notin> set xs"
  unfolding dlist_ok_def using dseg_mapped by fastforce

section \<open>Each operation on the sequence\<close>

lemma listCreate_ok: "dlist_ok h listCreate []"
  by (simp add: dlist_ok_def listCreate_def)

lemma list_add_head:
  assumes ok: "dlist_ok h l xs" and a: "h a = Some n" "a \<notin> set xs" "a \<noteq> 0"
  obtains h' l' where "listAddNodeHead h l a = Some (h', l')" "dlist_ok h' l' (a # xs)"
    "keeps h h' (insert a (set xs))"
proof (cases xs)
  case Nil
  with ok have "len l = 0" by (simp add: dlist_ok_def)
  then have "listAddNodeHead h l a =
      Some (h(a \<mapsto> n\<lparr>nprev := 0, nnext := 0\<rparr>), l\<lparr>head := a, tail := a, len := len l + 1\<rparr>)"
    using a by (simp add: listAddNodeHead_def)
  moreover have "dlist_ok (h(a \<mapsto> n\<lparr>nprev := 0, nnext := 0\<rparr>))
      (l\<lparr>head := a, tail := a, len := len l + 1\<rparr>) (a # xs)"
    using ok a Nil by (simp add: dlist_ok_def)
  moreover have "keeps h (h(a \<mapsto> n\<lparr>nprev := 0, nnext := 0\<rparr>)) (insert a (set xs))"
    using a by (auto simp: keeps_def vals_def fun_eq_iff)
  ultimately show thesis by (rule that)
next
  case (Cons x ys)
  with ok obtain m where m: "h x = Some m" "nprev m = 0" "nnext m = hd (ys @ [0])" "dseg h x ys 0"
    by (auto simp: dlist_ok_def split: option.splits)
  have ne: "x \<noteq> a" "x \<notin> set ys" "a \<notin> set ys" using ok a Cons by (auto simp: dlist_ok_def)
  have len: "len l \<noteq> 0" using dlist_len [OF ok] Cons by simp
  have hx: "head l = x" using ok Cons by (simp add: dlist_ok_def)
  let ?h = "h(a \<mapsto> n\<lparr>nprev := 0, nnext := x\<rparr>, x \<mapsto> m\<lparr>nprev := a\<rparr>)"
  have "listAddNodeHead h l a = Some (?h, l\<lparr>head := a, len := len l + 1\<rparr>)"
    using len hx a m ne by (simp add: listAddNodeHead_def)
  moreover have "dlist_ok ?h (l\<lparr>head := a, len := len l + 1\<rparr>) (a # xs)"
    using ok a m ne Cons by (simp add: dlist_ok_def)
  moreover have "keeps h ?h (insert a (set xs))"
    using a m ne Cons by (auto simp: keeps_def vals_def fun_eq_iff)
  ultimately show thesis by (rule that)
qed

lemma list_add_tail:
  assumes ok: "dlist_ok h l xs" and a: "h a = Some n" "a \<notin> set xs" "a \<noteq> 0"
  obtains h' l' where "listAddNodeTail h l a = Some (h', l')" "dlist_ok h' l' (xs @ [a])"
    "keeps h h' (insert a (set xs))" "dup_m l' = dup_m l"
proof (cases xs rule: rev_cases)
  case Nil
  with ok have "len l = 0" by (simp add: dlist_ok_def)
  then have "listAddNodeTail h l a =
      Some (h(a \<mapsto> n\<lparr>nprev := 0, nnext := 0\<rparr>), l\<lparr>head := a, tail := a, len := len l + 1\<rparr>)"
    using a by (simp add: listAddNodeTail_def)
  moreover have "dlist_ok (h(a \<mapsto> n\<lparr>nprev := 0, nnext := 0\<rparr>))
      (l\<lparr>head := a, tail := a, len := len l + 1\<rparr>) (xs @ [a])"
    using ok a Nil by (simp add: dlist_ok_def)
  moreover have "keeps h (h(a \<mapsto> n\<lparr>nprev := 0, nnext := 0\<rparr>)) (insert a (set xs))"
    using a by (auto simp: keeps_def vals_def fun_eq_iff)
  ultimately show thesis by (rule that) simp
next
  case (snoc ys x)
  with ok obtain m where m: "h x = Some m" "nprev m = last (0 # ys)" "nnext m = 0" "dseg h 0 ys x"
    by (auto simp: dlist_ok_def split: option.splits)
  have ne: "x \<noteq> a" "x \<notin> set ys" "a \<notin> set ys" using ok a snoc by (auto simp: dlist_ok_def)
  have len: "len l \<noteq> 0" using dlist_len [OF ok] snoc by simp
  have tx: "tail l = x" using ok snoc by (simp add: dlist_ok_def)
  let ?h = "h(a \<mapsto> n\<lparr>nprev := x, nnext := 0\<rparr>, x \<mapsto> m\<lparr>nnext := a\<rparr>)"
  have "listAddNodeTail h l a = Some (?h, l\<lparr>tail := a, len := len l + 1\<rparr>)"
    using len tx a m ne by (simp add: listAddNodeTail_def)
  moreover have "dlist_ok ?h (l\<lparr>tail := a, len := len l + 1\<rparr>) (xs @ [a])"
    using ok a m ne snoc by (simp add: dlist_ok_def)
  moreover have "keeps h ?h (insert a (set xs))"
    using a m ne snoc by (auto simp: keeps_def vals_def fun_eq_iff)
  ultimately show thesis by (rule that) simp
qed

text \<open>The neighbours of a node inside the sequence.\<close>

lemma dlist_node:
  assumes "dlist_ok h l (us @ x # vs)"
  obtains m where "h x = Some m" "nprev m = last (0 # us)" "nnext m = hd (vs @ [0])"
    "dseg h 0 us x" "dseg h x vs 0" "x \<noteq> 0" "x \<notin> set us" "x \<notin> set vs"
  using assms by (auto simp: dlist_ok_def split: option.splits)

lemma dlist_last_node:
  assumes "dlist_ok h l (us @ vs)" "us \<noteq> []"
  obtains ws y m where "us = ws @ [y]" "h y = Some m" "nprev m = last (0 # ws)" "nnext m = hd (vs @ [0])"
    "dseg h 0 ws y" "y \<noteq> 0" "y \<notin> set ws" "y \<notin> set vs"
proof -
  obtain ws y where us: "us = ws @ [y]" using assms(2) by (cases us rule: rev_cases) auto
  from dlist_node [of h l ws y vs] assms us obtain m where
    "h y = Some m" "nprev m = last (0 # ws)" "nnext m = hd (vs @ [0])" "dseg h 0 ws y"
    "y \<noteq> 0" "y \<notin> set ws" "y \<notin> set vs" by auto
  with us that show thesis by blast
qed

lemma list_insert_after:
  assumes ok: "dlist_ok h l (us @ x # vs)" and a: "h a = Some n" "a \<notin> set (us @ x # vs)" "a \<noteq> 0"
  obtains h' l' where "listInsertNode h l x a True = Some (h', l')" "dlist_ok h' l' (us @ x # a # vs)"
    "keeps h h' (insert a (set (us @ x # vs)))"
proof -
  from dlist_node [OF ok] obtain m where m: "h x = Some m" "nprev m = last (0 # us)" "nnext m = hd (vs @ [0])"
    "dseg h 0 us x" "dseg h x vs 0" "x \<noteq> 0" "x \<notin> set us" "x \<notin> set vs" by metis
  have xa: "x \<noteq> a" using a by auto
  show thesis
  proof (cases vs)
    case Nil
    let ?h = "h(a \<mapsto> n\<lparr>nprev := x, nnext := 0\<rparr>, x \<mapsto> m\<lparr>nnext := a\<rparr>)"
    let ?l = "l\<lparr>tail := a, len := len l + 1\<rparr>"
    have "listInsertNode h l x a True = Some (?h, ?l)"
      using ok a xa m Nil by (simp add: listInsertNode_def dlist_ok_def)
    moreover have "dlist_ok ?h ?l (us @ x # a # vs)" using ok a m Nil by (auto simp: dlist_ok_def)
    moreover have "keeps h ?h (insert a (set (us @ x # vs)))"
      using a m by (auto simp: keeps_def vals_def fun_eq_iff)
    ultimately show thesis by (rule that)
  next
    case (Cons y ws)
    from dlist_node [of h l "us @ [x]" y ws] ok Cons obtain k where k: "h y = Some k" "nprev k = x"
      "nnext k = hd (ws @ [0])" "dseg h y ws 0" "y \<noteq> 0" "y \<notin> set us" "y \<noteq> x" "y \<notin> set ws" by auto
    have ya: "y \<noteq> a" using a Cons by auto
    let ?h = "h(a \<mapsto> n\<lparr>nprev := x, nnext := y\<rparr>, x \<mapsto> m\<lparr>nnext := a\<rparr>, y \<mapsto> k\<lparr>nprev := a\<rparr>)"
    let ?l = "l\<lparr>len := len l + 1\<rparr>"
    have "tail l \<noteq> x" using ok Cons m by (auto simp: dlist_ok_def)
    then have "listInsertNode h l x a True = Some (?h, ?l)"
      using a xa ya m k Cons by (simp add: listInsertNode_def)
    moreover have "dlist_ok ?h ?l (us @ x # a # vs)" using ok a m k Cons by (auto simp: dlist_ok_def)
    moreover have "keeps h ?h (insert a (set (us @ x # vs)))"
      using a m k Cons by (auto simp: keeps_def vals_def fun_eq_iff)
    ultimately show thesis by (rule that)
  qed
qed

lemma list_insert_before:
  assumes ok: "dlist_ok h l (us @ x # vs)" and a: "h a = Some n" "a \<notin> set (us @ x # vs)" "a \<noteq> 0"
  obtains h' l' where "listInsertNode h l x a False = Some (h', l')" "dlist_ok h' l' (us @ a # x # vs)"
    "keeps h h' (insert a (set (us @ x # vs)))"
proof -
  from dlist_node [OF ok] obtain m where m: "h x = Some m" "nprev m = last (0 # us)" "nnext m = hd (vs @ [0])"
    "dseg h 0 us x" "dseg h x vs 0" "x \<noteq> 0" "x \<notin> set us" "x \<notin> set vs" by metis
  have xa: "x \<noteq> a" using a by auto
  show thesis
  proof (cases "us = []")
    case True
    let ?h = "h(a \<mapsto> n\<lparr>nprev := 0, nnext := x\<rparr>, x \<mapsto> m\<lparr>nprev := a\<rparr>)"
    let ?l = "l\<lparr>head := a, len := len l + 1\<rparr>"
    have "listInsertNode h l x a False = Some (?h, ?l)"
      using ok a xa m True by (simp add: listInsertNode_def dlist_ok_def)
    moreover have "dlist_ok ?h ?l (us @ a # x # vs)" using ok a m True by (auto simp: dlist_ok_def)
    moreover have "keeps h ?h (insert a (set (us @ x # vs)))"
      using a m by (auto simp: keeps_def vals_def fun_eq_iff)
    ultimately show thesis by (rule that)
  next
    case False
    obtain ws y k where k: "us = ws @ [y]" "h y = Some k" "nprev k = last (0 # ws)"
      "nnext k = hd ((x # vs) @ [0])" "dseg h 0 ws y" "y \<noteq> 0" "y \<notin> set ws" "y \<notin> set (x # vs)"
      by (rule dlist_last_node [OF ok False])
    have ya: "y \<noteq> a" using a k by auto
    let ?h = "h(a \<mapsto> n\<lparr>nprev := y, nnext := x\<rparr>, y \<mapsto> k\<lparr>nnext := a\<rparr>, x \<mapsto> m\<lparr>nprev := a\<rparr>)"
    let ?l = "l\<lparr>len := len l + 1\<rparr>"
    have "head l \<noteq> x" using ok k m by (cases ws) (auto simp: dlist_ok_def)
    then have "listInsertNode h l x a False = Some (?h, ?l)"
      using a xa ya m k by (simp add: listInsertNode_def fun_upd_twist)
    moreover have "dlist_ok ?h ?l (us @ a # x # vs)" using ok a xa ya m k by (auto simp: dlist_ok_def)
    moreover have "keeps h ?h (insert a (set (us @ x # vs)))"
      using a m k by (auto simp: keeps_def vals_def fun_eq_iff)
    ultimately show thesis by (rule that)
  qed
qed

lemma keeps_links:
  assumes "h x = Some m" "x \<in> S"
  shows "keeps h (h(x \<mapsto> m\<lparr>nprev := p\<rparr>)) S" "keeps h (h(x \<mapsto> m\<lparr>nnext := p\<rparr>)) S"
  using assms by (auto simp: keeps_def vals_def fun_eq_iff)

text \<open>
  Deleting relinks the neighbours first; the node itself is then freed.  \<open>h1\<close> is the heap between the two.
\<close>

lemma list_del:
  assumes ok: "dlist_ok h l (us @ x # vs)" and v: "vals h x = Some v"
  obtains h1 l' where "listDelNode h l x = Some (h1(x := None), l', if free_m l then [v] else [])"
    "dlist_ok (h1(x := None)) l' (us @ vs)" "keeps h h1 (set (us @ vs))" "free_m l' = free_m l"
proof -
  obtain m where m: "h x = Some m" "nprev m = last (0 # us)" "nnext m = hd (vs @ [0])"
    "dseg h 0 us x" "dseg h x vs 0" "x \<noteq> 0" "x \<notin> set us" "x \<notin> set vs" by (rule dlist_node [OF ok])
  have v: "nvalue m = v" using v m by (simp add: vals_def)
  show thesis
  proof (cases "us = []")
    case us: True
    show thesis
    proof (cases vs)
      case Nil
      let ?l = "l\<lparr>head := 0, tail := 0, len := len l - 1\<rparr>"
      have "listDelNode h l x = Some (h(x := None), ?l, if free_m l then [v] else [])"
        using m us Nil v by (simp add: listDelNode_def)
      moreover have "dlist_ok (h(x := None)) ?l (us @ vs)" using ok us Nil by (simp add: dlist_ok_def)
      ultimately show thesis by (rule that) simp_all
    next
      case (Cons y ws)
      from dlist_node [of h l "us @ [x]" y ws] ok Cons obtain k where k: "h y = Some k" "nprev k = x"
        "nnext k = hd (ws @ [0])" "dseg h y ws 0" "y \<noteq> 0" "y \<notin> set us" "y \<noteq> x" "y \<notin> set ws" by auto
      let ?h = "h(y \<mapsto> k\<lparr>nprev := 0\<rparr>)" and ?l = "l\<lparr>head := y, len := len l - 1\<rparr>"
      have "listDelNode h l x = Some (?h(x := None), ?l, if free_m l then [v] else [])"
        using m k us Cons v by (simp add: listDelNode_def)
      moreover have "dlist_ok (?h(x := None)) ?l (us @ vs)" using ok m k us Cons by (simp add: dlist_ok_def)
      moreover have "keeps h ?h (set (us @ vs))" using k Cons by (intro keeps_links) simp_all
      ultimately show thesis by (rule that) simp
    qed
  next
    case us: False
    obtain ts z j where j: "us = ts @ [z]" "h z = Some j" "nprev j = last (0 # ts)"
      "nnext j = hd ((x # vs) @ [0])" "dseg h 0 ts z" "z \<noteq> 0" "z \<notin> set ts" "z \<notin> set (x # vs)"
      by (rule dlist_last_node [OF ok us])
    show thesis
    proof (cases vs)
      case Nil
      let ?h = "h(z \<mapsto> j\<lparr>nnext := 0\<rparr>)" and ?l = "l\<lparr>tail := z, len := len l - 1\<rparr>"
      have "listDelNode h l x = Some (?h(x := None), ?l, if free_m l then [v] else [])"
        using m j Nil v by (simp add: listDelNode_def)
      moreover have "dlist_ok (?h(x := None)) ?l (us @ vs)" using ok m j Nil by (simp add: dlist_ok_def)
      moreover have "keeps h ?h (set (us @ vs))" using j by (intro keeps_links) simp_all
      ultimately show thesis by (rule that) simp
    next
      case (Cons y ws)
      from dlist_node [of h l "us @ [x]" y ws] ok Cons obtain k where k: "h y = Some k" "nprev k = x"
        "nnext k = hd (ws @ [0])" "dseg h y ws 0" "y \<noteq> 0" "y \<notin> set us" "y \<noteq> x" "y \<notin> set ws" by auto
      have zy: "z \<noteq> y" using j Cons by simp
      let ?h = "h(z \<mapsto> j\<lparr>nnext := y\<rparr>, y \<mapsto> k\<lparr>nprev := z\<rparr>)" and ?l = "l\<lparr>len := len l - 1\<rparr>"
      have "listDelNode h l x = Some (?h(x := None), ?l, if free_m l then [v] else [])"
        using m j k zy Cons v by (simp add: listDelNode_def)
      moreover have "dlist_ok (?h(x := None)) ?l (us @ vs)"
        using ok m j k zy Cons by (simp add: dlist_ok_def)
      moreover have "keeps h ?h (set (us @ vs))"
        using j k zy Cons by (auto simp: keeps_def vals_def fun_eq_iff)
      ultimately show thesis by (rule that) simp
    qed
  qed
qed

lemma list_rotate_short:
  "dlist_ok h l xs \<Longrightarrow> length xs \<le> 1 \<Longrightarrow> listRotate h l = Some (h, l)"
  using dlist_len [of h l xs] by (simp add: listRotate_def word_le_nat_alt)

lemma list_rotate:
  assumes ok: "dlist_ok h l (xs @ [t])" and ne: "xs \<noteq> []"
  obtains h' l' where "listRotate h l = Some (h', l')" "dlist_ok h' l' (t # xs)" "keeps h h' (set (t # xs))"
proof -
  obtain m where m: "h t = Some m" "nprev m = last (0 # xs)" "nnext m = 0" "t \<noteq> 0" "t \<notin> set xs"
    using dlist_node [of h l xs t "[]"] ok by auto
  obtain ws y k where k: "xs = ws @ [y]" "h y = Some k" "nprev k = last (0 # ws)"
    "nnext k = hd ([t] @ [0])" "dseg h 0 ws y" "y \<noteq> 0" "y \<notin> set ws" "y \<notin> set [t]"
    by (rule dlist_last_node [OF ok ne])
  have len: "\<not> len l \<le> 1" using dlist_len [OF ok] ne by (cases xs) (simp_all add: word_le_nat_alt)
  have ty: "t \<noteq> y" using k by simp
  have tl: "tail l = t" using ok by (simp add: dlist_ok_def)
  show thesis
  proof (cases ws)
    case Nil
    let ?h = "h(t \<mapsto> m\<lparr>nprev := 0, nnext := y\<rparr>, y \<mapsto> k\<lparr>nprev := t, nnext := 0\<rparr>)"
    have hd: "head l = y" using ok k Nil by (simp add: dlist_ok_def)
    have "listRotate h l = Some (?h, l\<lparr>tail := y, head := t\<rparr>)"
      using len tl hd ty m k Nil by (simp add: listRotate_def)
    moreover have "dlist_ok ?h (l\<lparr>tail := y, head := t\<rparr>) (t # xs)"
      using ok m k ty Nil by (simp add: dlist_ok_def)
    moreover have "keeps h ?h (set (t # xs))"
      using m k ty by (auto simp: keeps_def vals_def fun_eq_iff)
    ultimately show thesis by (rule that)
  next
    case (Cons z zs)
    have "dlist_ok h l ([] @ z # (zs @ [y, t]))" using ok k(1) Cons by simp
    then obtain j where j: "h z = Some j" "nprev j = last (0 # [])" "nnext j = hd ((zs @ [y, t]) @ [0])"
      "dseg h z (zs @ [y, t]) 0" "z \<noteq> 0" "z \<notin> set (zs @ [y, t])" by (rule dlist_node)
    have hd: "head l = z" using ok k Cons by (simp add: dlist_ok_def)
    let ?h = "h(y \<mapsto> k\<lparr>nnext := 0\<rparr>, t \<mapsto> m\<lparr>nprev := 0, nnext := z\<rparr>, z \<mapsto> j\<lparr>nprev := t\<rparr>)"
    have "listRotate h l = Some (?h, l\<lparr>tail := y, head := t\<rparr>)"
      using len tl hd ty m k j by (simp add: listRotate_def)
    moreover have "dlist_ok ?h (l\<lparr>tail := y, head := t\<rparr>) (t # xs)"
      using ok m k j ty Cons by (simp add: dlist_ok_def)
    moreover have "keeps h ?h (set (t # xs))"
      using m k j ty Cons by (auto simp: keeps_def vals_def fun_eq_iff)
    ultimately show thesis by (rule that)
  qed
qed

text \<open>Walks along the links; in particular they return.\<close>

definition key_at :: "heap \<Rightarrow> dlist \<Rightarrow> ptr \<Rightarrow> ptr \<Rightarrow> bool" where
  "key_at h l key x = (case h x of None \<Rightarrow> False | Some n \<Rightarrow> key_matches l (nvalue n) key)"

lemma search_from_find:
  "dseg h p xs 0 \<Longrightarrow> 0 \<notin> set xs \<Longrightarrow>
     search_from h l key (hd (xs @ [0])) = Some (case find (key_at h l key) xs of None \<Rightarrow> 0 | Some x \<Rightarrow> x)"
proof (induction xs arbitrary: p)
  case Nil
  then show ?case by (simp add: search_from.simps)
next
  case (Cons x xs)
  then obtain n where n: "h x = Some n" "nnext n = hd (xs @ [0])" "dseg h x xs 0"
    by (auto split: option.splits)
  then have "key_at h l key x = key_matches l (nvalue n) key" by (simp add: key_at_def)
  with n Cons.IH [of x] Cons.prems show ?case by (subst search_from.simps) simp
qed

lemma list_search:
  "dlist_ok h l xs \<Longrightarrow>
     listSearchKey h l key = Some (case find (key_at h l key) xs of None \<Rightarrow> 0 | Some x \<Rightarrow> x)"
  unfolding listSearchKey_def dlist_ok_def using search_from_find by metis

lemma walk_next:
  "dseg h p xs 0 \<Longrightarrow> 0 \<notin> set xs \<Longrightarrow>
     walk nnext h i (hd (xs @ [0])) = Some (if i < length xs then xs ! i else 0)"
proof (induction xs arbitrary: p i)
  case Nil
  then show ?case by (cases i) simp_all
next
  case (Cons x xs)
  then show ?case by (cases i) (auto split: option.splits)
qed

lemma walk_prev:
  "dseg h 0 xs q \<Longrightarrow> 0 \<notin> set xs \<Longrightarrow>
     walk nprev h i (last (0 # xs)) = Some (if i < length xs then rev xs ! i else 0)"
proof (induction xs arbitrary: q i rule: rev_induct)
  case Nil
  then show ?case by (cases i) simp_all
next
  case (snoc x xs)
  from snoc.prems obtain n where n: "h x = Some n" "nprev n = last (0 # xs)" "dseg h 0 xs x"
    by (auto split: option.splits)
  show ?case
  proof (cases i)
    case (Suc j)
    with n snoc.IH [OF n(3), of j] snoc.prems show ?thesis by simp
  qed simp
qed

lemma list_index:
  assumes "dlist_ok h l xs" "- (2 ^ 31) < i"
  shows "listIndex h l i = Some (if - int (length xs) \<le> i \<and> i < int (length xs)
     then (if i < 0 then rev xs ! nat (- i - 1) else xs ! nat i) else 0)"
  using assms walk_next [of h 0 xs "nat i"] walk_prev [of h xs 0 "nat (- i - 1)"]
  by (auto simp: listIndex_def dlist_ok_def nat_less_iff)

lemma release_nodes_all:
  "dseg h p xs q \<Longrightarrow> distinct xs \<Longrightarrow>
     release_nodes h fr (length xs) (hd (xs @ [q])) =
       Some (h |` (- set xs), if fr then map (\<lambda>x. the (vals h x)) xs else [])"
proof (induction xs arbitrary: h p)
  case (Cons x xs)
  then obtain n where n: "h x = Some n" "nnext n = hd (xs @ [q])" "dseg h x xs q" "x \<notin> set xs" "distinct xs"
    by (auto split: option.splits)
  have "dseg (h(x := None)) x xs q" using n by simp
  from Cons.IH [OF this n(5)]
  have "release_nodes (h(x := None)) fr (length xs) (nnext n) =
      Some (h(x := None) |` (- set xs), if fr then map (\<lambda>y. the (vals (h(x := None)) y)) xs else [])"
    unfolding n(2) .
  moreover have "h(x := None) |` (- set xs) = h |` (- set (x # xs))"
    by (auto simp: restrict_map_def fun_eq_iff)
  moreover have "map (\<lambda>y. the (vals (h(x := None)) y)) xs = map (\<lambda>y. the (vals h y)) xs"
    using n(4) by (auto simp: vals_def)
  ultimately show ?case using n by (simp add: vals_def)
qed (simp add: restrict_map_def)

lemma list_release:
  "dlist_ok h l xs \<Longrightarrow> listRelease h l =
     Some (h |` (- set xs), if free_m l then map (\<lambda>x. the (vals h x)) xs else [])"
  using dlist_len [of h l xs] release_nodes_all [of h 0 xs 0 "free_m l"]
  by (simp add: listRelease_def dlist_ok_def)

definition dup_value :: "dlist \<Rightarrow> ptr \<Rightarrow> ptr" where
  "dup_value l v = (case dup_m l of Some f \<Rightarrow> f v | None \<Rightarrow> v)"

lemma dup_from_all:
  assumes "dseg h p xs 0" "0 \<notin> set xs" "dlist_ok h dest ys" "length allocs = length xs"
    and "distinct (xs @ ys @ allocs)" "0 \<notin> set allocs"
    and "\<And>x v. x \<in> set xs \<Longrightarrow> vals h x = Some v \<Longrightarrow> dup_value src v \<noteq> 0"
  shows "\<exists>h' dest'. dup_from h src allocs (hd (xs @ [0])) dest = Some (h', dest')
     \<and> dlist_ok h' dest' (ys @ allocs) \<and> (\<forall>x. x \<notin> set ys \<union> set allocs \<longrightarrow> h' x = h x)
     \<and> map (vals h') allocs = map (map_option (dup_value src) \<circ> vals h) xs
     \<and> (\<forall>y. y \<notin> set allocs \<longrightarrow> vals h' y = vals h y)"
  using assms
proof (induction xs arbitrary: h p dest ys allocs)
  case (Cons x xs)
  then obtain a as where allocs: "allocs = a # as" by (cases allocs) auto
  from Cons.prems obtain n where n: "h x = Some n" "nnext n = hd (xs @ [0])" "dseg h x xs 0"
    by (auto split: option.splits)
  have ne: "a \<noteq> 0" "x \<noteq> a" "x \<noteq> 0" "a \<notin> set xs" "a \<notin> set ys" "x \<notin> set ys"
    using Cons.prems allocs by auto
  let ?v = "dup_value src (nvalue n)"
  have v: "?v \<noteq> 0" using Cons.prems(7) [of x] n by (simp add: vals_def)
  let ?h = "h(a \<mapsto> \<lparr>nprev = 0, nnext = 0, nvalue = ?v\<rparr>)"
  have ok: "dlist_ok ?h dest ys" using Cons.prems(3) ne by (simp add: dlist_ok_def)
  obtain h1 dest1 where add: "listAddNodeTail ?h dest a = Some (h1, dest1)" "dlist_ok h1 dest1 (ys @ [a])"
    "keeps ?h h1 (insert a (set ys))"
    by (rule list_add_tail [OF ok, of a]) (use ne in auto)
  have same: "h1 y = h y" if "y \<notin> insert a (set ys)" for y using add(3) that by (auto simp: keeps_def)
  have valsame: "vals h1 y = vals h y" if "y \<noteq> a" for y using add(3) that by (auto simp: keeps_def vals_def)
  have va: "vals h1 a = Some ?v" using add(3) by (simp add: keeps_def vals_def)
  have "dseg h1 x xs 0"
  proof (subst dseg_frame [of xs h1 h])
    fix y assume "y \<in> set xs"
    then have "y \<notin> insert a (set ys)" using Cons.prems(5) allocs ne by auto
    then show "h1 y = h y" by (rule same)
  qed (rule n(3))
  moreover have "dup_value src v \<noteq> 0" if "y \<in> set xs" "vals h1 y = Some v" for y v
  proof -
    have "y \<noteq> a" using that(1) ne by auto
    then show ?thesis using Cons.prems(7) [of y v] that valsame [of y] by simp
  qed
  ultimately obtain h' dest' where IH: "dup_from h1 src as (hd (xs @ [0])) dest1 = Some (h', dest')"
    "dlist_ok h' dest' ((ys @ [a]) @ as)" "\<forall>y. y \<notin> set (ys @ [a]) \<union> set as \<longrightarrow> h' y = h1 y"
    "map (vals h') as = map (map_option (dup_value src) \<circ> vals h1) xs"
    "\<forall>y. y \<notin> set as \<longrightarrow> vals h' y = vals h1 y"
    using Cons.IH [of h1 x dest1 "ys @ [a]" as] Cons.prems add(2) allocs by auto
  have "dup_from h src allocs x dest = Some (h', dest')"
    using n ne v add(1) IH(1) same [of x] allocs by (simp add: dup_value_def [symmetric] Let_def)
  moreover have "map (map_option (dup_value src) \<circ> vals h1) xs = map (map_option (dup_value src) \<circ> vals h) xs"
  proof (rule map_cong)
    fix y assume "y \<in> set xs"
    then have "y \<noteq> a" using ne(4) by auto
    then show "(map_option (dup_value src) \<circ> vals h1) y = (map_option (dup_value src) \<circ> vals h) y"
      by (simp add: valsame)
  qed simp
  moreover have "vals h' a = Some ?v" using IH(5) va Cons.prems(5) allocs by auto
  moreover have "vals h x = Some (nvalue n)" using n(1) by (simp add: vals_def)
  ultimately have
    "map (vals h') allocs = map (map_option (dup_value src) \<circ> vals h) (x # xs)"
    "dup_from h src allocs (hd ((x # xs) @ [0])) dest = Some (h', dest')"
    using IH(4) allocs by simp_all
  moreover have "\<forall>y. y \<notin> set allocs \<longrightarrow> vals h' y = vals h y" using IH(5) valsame allocs by simp
  moreover have "\<forall>y. y \<notin> set ys \<union> set allocs \<longrightarrow> h' y = h y" using IH(3) same allocs by simp
  moreover have "dlist_ok h' dest' (ys @ allocs)" using IH(2) allocs by simp
  ultimately show ?case by blast
qed auto

section \<open>The interface the clients of the list rely on\<close>

text \<open>
  The server only appends to its lists, walks them by index and deletes members: a container whose
  members are kept in insertion order.
\<close>

locale member_list =
  fixes rep :: "'s \<Rightarrow> 'n list \<Rightarrow> bool"
    and member_node :: "'s \<Rightarrow> 'n \<Rightarrow> bool"
    and push :: "'s \<Rightarrow> 'n \<Rightarrow> 's option"
    and remove :: "'s \<Rightarrow> 'n \<Rightarrow> 's option"
    and at :: "'s \<Rightarrow> nat \<Rightarrow> 'n option"
  assumes push_law: "rep s xs \<Longrightarrow> member_node s a \<Longrightarrow> a \<notin> set xs \<Longrightarrow>
      \<exists>s'. push s a = Some s' \<and> rep s' (xs @ [a]) \<and> (\<forall>b. member_node s b \<longrightarrow> member_node s' b)"
    and remove_law: "rep s (us @ x # vs) \<Longrightarrow> \<exists>s'. remove s x = Some s' \<and> rep s' (us @ vs)"
    and at_law: "rep s xs \<Longrightarrow> i < length xs \<Longrightarrow> at s i = Some (xs ! i)"
    and rep_distinct: "rep s xs \<Longrightarrow> distinct xs"
begin

primrec push_all :: "'s \<Rightarrow> 'n list \<Rightarrow> 's option" where
  "push_all s [] = Some s"
| "push_all s (x # xs) = do { s' \<leftarrow> push s x; push_all s' xs }"

primrec remove_all :: "'s \<Rightarrow> 'n list \<Rightarrow> 's option" where
  "remove_all s [] = Some s"
| "remove_all s (x # xs) = do { s' \<leftarrow> remove s x; remove_all s' xs }"

lemma push_all_rep:
  "rep s ys \<Longrightarrow> distinct (ys @ xs) \<Longrightarrow> (\<forall>x \<in> set xs. member_node s x) \<Longrightarrow>
     \<exists>s'. push_all s xs = Some s' \<and> rep s' (ys @ xs)"
proof (induction xs arbitrary: s ys)
  case (Cons x xs)
  then obtain s1 where s1: "push s x = Some s1" "rep s1 (ys @ [x])" "\<forall>b. member_node s b \<longrightarrow> member_node s1 b"
    using push_law [of s ys x] by auto
  with Cons.IH [of s1 "ys @ [x]"] Cons.prems show ?case by auto
qed simp

lemma remove_all_rep:
  "rep s ys \<Longrightarrow> distinct xs \<Longrightarrow> set xs \<subseteq> set ys \<Longrightarrow>
     \<exists>s'. remove_all s xs = Some s' \<and> rep s' (filter (\<lambda>y. y \<notin> set xs) ys)"
proof (induction xs arbitrary: s ys)
  case (Cons x xs)
  then obtain us vs where ys: "ys = us @ x # vs" by (metis insert_subset list.set(2) split_list)
  have "distinct ys" using Cons.prems rep_distinct by blast
  then have fresh: "x \<notin> set us" "x \<notin> set vs" using ys by auto
  obtain s1 where s1: "remove s x = Some s1" "rep s1 (us @ vs)" using remove_law Cons.prems ys by blast
  have "set xs \<subseteq> set (us @ vs)" using Cons.prems ys by auto
  with Cons.IH [OF s1(2)] Cons.prems obtain s' where
    s': "remove_all s1 xs = Some s'" "rep s' (filter (\<lambda>y. y \<notin> set xs) (us @ vs))" by auto
  have "filter (\<lambda>y. y \<notin> set (x # xs)) ys = filter (\<lambda>y. y \<notin> set xs) (us @ vs)"
    using fresh ys by (auto simp: filter_eq_nths [symmetric] intro!: filter_cong arg_cong2 [of _ _ _ _ append])
  with s1 s' show ?case by simp
qed simp

text \<open>Filling a list and removing its members in any order empties it again.\<close>

lemma drain:
  assumes "rep s []" "distinct xs" "\<forall>x \<in> set xs. member_node s x" "distinct ys" "set ys = set xs"
  shows "\<exists>s1 s2. push_all s xs = Some s1 \<and> (\<forall>i < length xs. at s1 i = Some (xs ! i))
     \<and> remove_all s1 ys = Some s2 \<and> rep s2 []"
proof -
  obtain s1 where s1: "push_all s xs = Some s1" "rep s1 xs"
    using push_all_rep [of s "[]" xs] assms by auto
  moreover obtain s2 where "remove_all s1 ys = Some s2" "rep s2 (filter (\<lambda>y. y \<notin> set ys) xs)"
    using remove_all_rep [OF s1(2) assms(4)] assms(5) by auto
  moreover have "filter (\<lambda>y. y \<notin> set ys) xs = []" using assms(5) by (simp add: filter_empty_conv)
  ultimately show ?thesis using at_law by auto
qed

end

type_synonym lstate = "heap \<times> dlist"

definition lrep :: "lstate \<Rightarrow> ptr list \<Rightarrow> bool" where
  "lrep s xs \<longleftrightarrow> dlist_ok (fst s) (snd s) xs"

definition lnode :: "lstate \<Rightarrow> ptr \<Rightarrow> bool" where
  "lnode s a \<longleftrightarrow> fst s a \<noteq> None \<and> a \<noteq> 0"

definition lpush :: "lstate \<Rightarrow> ptr \<Rightarrow> lstate option" where
  "lpush s a = listAddNodeTail (fst s) (snd s) a"

definition lremove :: "lstate \<Rightarrow> ptr \<Rightarrow> lstate option" where
  "lremove s a = map_option (\<lambda>(h, l, _). (h, l)) (listDelNode (fst s) (snd s) a)"

definition lat :: "lstate \<Rightarrow> nat \<Rightarrow> ptr option" where
  "lat s i = listIndex (fst s) (snd s) (int i)"

lemma keeps_lnode: "keeps (fst s) h' S \<Longrightarrow> lnode s b \<Longrightarrow> lnode (h', l') b"
  using keeps_mapped by (fastforce simp: lnode_def)

interpretation members: member_list lrep lnode lpush lremove lat
proof (unfold_locales, goal_cases)
  case (1 s xs a)
  then obtain n where n: "fst s a = Some n" "a \<noteq> 0" by (auto simp: lnode_def)
  have ok: "dlist_ok (fst s) (snd s) xs" using 1(1) by (simp add: lrep_def)
  obtain h' l' where "listAddNodeTail (fst s) (snd s) a = Some (h', l')" "dlist_ok h' l' (xs @ [a])"
    "keeps (fst s) h' (insert a (set xs))"
    by (rule list_add_tail [OF ok n(1) 1(3) n(2)])
  then show ?case using keeps_lnode [of s h'] by (auto simp: lpush_def lrep_def)
next
  case (2 s us x vs)
  then have ok: "dlist_ok (fst s) (snd s) (us @ x # vs)" by (simp add: lrep_def)
  obtain m where "fst s x = Some m" by (rule dlist_node [OF ok])
  then have v: "vals (fst s) x = Some (nvalue m)" by (simp add: vals_def)
  obtain h1 l' where "listDelNode (fst s) (snd s) x =
      Some (h1(x := None), l', if free_m (snd s) then [nvalue m] else [])"
    "dlist_ok (h1(x := None)) l' (us @ vs)" by (rule list_del [OF ok v])
  then show ?case by (auto simp: lremove_def lrep_def)
next
  case (3 s xs i)
  then show ?case using list_index [of "fst s" "snd s" xs "int i"] by (simp add: lat_def lrep_def)
next
  case (4 s xs)
  then show ?case by (simp add: lrep_def dlist_ok_def)
qed

text \<open>A small heap for the instances: the list 1, 2 and the node 3 outside it.\<close>

definition two_nodes :: heap where
  "two_nodes = [1 \<mapsto> \<lparr>nprev = 0, nnext = 2, nvalue = 11\<rparr>, 2 \<mapsto> \<lparr>nprev = 1, nnext = 0, nvalue = 12\<rparr>,
     3 \<mapsto> \<lparr>nprev = 0, nnext = 0, nvalue = 13\<rparr>]"

definition two_list :: dlist where
  "two_list = \<lparr>head = 1, tail = 2, len = 2, dup_m = None, free_m = True, compare_m = None\<rparr>"

lemma two_ok: "dlist_ok two_nodes two_list [1, 2]"
  by (simp add: dlist_ok_def two_nodes_def two_list_def)

section \<open>Properties\<close>

text \<open>
  Appending nodes to a new list and then deleting them in any order follows no null or
  dangling pointer: in between, indexing finds each node at its position, and the list is empty
  again at the end.
\<close>

theorem list_fill_and_drain:
  assumes "distinct xs" "0 \<notin> set xs" "\<forall>x \<in> set xs. h x \<noteq> None" "distinct ys" "set ys = set xs"
  shows "\<exists>s1 s2. members.push_all (h, listCreate) xs = Some s1
     \<and> (\<forall>i < length xs. listIndex (fst s1) (snd s1) (int i) = Some (xs ! i))
     \<and> members.remove_all s1 ys = Some s2 \<and> dlist_ok (fst s2) (snd s2) []"
  using members.drain [of "(h, listCreate)" xs ys] listCreate_ok assms
  by (auto simp: lrep_def lnode_def lat_def)

theorem list_fill_and_drain_witness:
  "\<exists>s1 s2. members.push_all (two_nodes, listCreate) [3, 1] = Some s1
     \<and> (\<forall>i < length [3, 1 :: ptr]. listIndex (fst s1) (snd s1) (int i) = Some ([3, 1] ! i))
     \<and> members.remove_all s1 [1, 3] = Some s2 \<and> dlist_ok (fst s2) (snd s2) []"
  by (rule list_fill_and_drain) (auto simp: two_nodes_def)

text \<open>
  Inserting before or after a member of the list puts the node at that place of the sequence
  in both directions, touches no node outside the list and keeps every value.
\<close>

theorem list_insert_refines:
  assumes "dlist_ok h l (us @ x # vs)" "h a \<noteq> None" "a \<notin> set (us @ x # vs)" "a \<noteq> 0"
  shows "\<exists>h' l'. listInsertNode h l x a after = Some (h', l')
     \<and> dlist_ok h' l' (if after then us @ x # a # vs else us @ a # x # vs)
     \<and> keeps h h' (insert a (set (us @ x # vs)))"
proof -
  obtain n where n: "h a = Some n" using assms(2) by auto
  show ?thesis
  proof (cases after)
    case True
    then show ?thesis by (auto intro: list_insert_after [OF assms(1) n assms(3,4)])
  next
    case False
    then show ?thesis by (auto intro: list_insert_before [OF assms(1) n assms(3,4)])
  qed
qed

theorem list_insert_refines_witness:
  "\<exists>h' l'. listInsertNode two_nodes two_list 2 3 False = Some (h', l') \<and> dlist_ok h' l' [1, 3, 2]"
  using list_insert_refines [of two_nodes two_list "[1]" 2 "[]" 3 False] two_ok
  by (auto simp: two_nodes_def)

text \<open>
  C39. Deleting a member unlinks exactly that node, frees it, hands its value to the list's free
  method when there is one, and leaves the rest of the list and of the heap as they were.
\<close>

theorem list_delete_refines:
  assumes "dlist_ok h l (us @ x # vs)" "vals h x = Some v"
  shows "\<exists>h' l'. listDelNode h l x = Some (h', l', if free_m l then [v] else [])
     \<and> dlist_ok h' l' (us @ vs) \<and> vals h' = (vals h)(x := None)
     \<and> (\<forall>y. y \<notin> set (us @ x # vs) \<longrightarrow> h' y = h y)"
proof -
  obtain h1 l' where d: "listDelNode h l x = Some (h1(x := None), l', if free_m l then [v] else [])"
    "dlist_ok (h1(x := None)) l' (us @ vs)" "keeps h h1 (set (us @ vs))"
    by (rule list_del [OF assms])
  from d(3) have "vals (h1(x := None)) = (vals h)(x := None)"
    by (auto simp: keeps_def vals_def fun_eq_iff)
  with d show ?thesis
    by (intro exI [of _ "h1(x := None)"] exI [of _ l']) (auto simp: keeps_def)
qed

theorem list_delete_refines_witness:
  "\<exists>h' l'. listDelNode two_nodes two_list 1 = Some (h', l', [11]) \<and> dlist_ok h' l' [2]"
  using list_delete_refines [of two_nodes two_list "[]" 1 "[2]" 11] two_ok
  by (auto simp: two_list_def vals_def two_nodes_def)

text \<open>
  Rotating moves the last node to the front and changes nothing else.
\<close>

theorem list_rotate_refines:
  assumes "dlist_ok h l xs"
  shows "\<exists>h' l'. listRotate h l = Some (h', l') \<and> keeps h h' (set xs)
     \<and> dlist_ok h' l' (if xs = [] then [] else last xs # butlast xs)"
proof (cases "length xs \<le> 1")
  case True
  have e: "(if xs = [] then [] else last xs # butlast xs) = xs" using True by (cases xs) auto
  show ?thesis unfolding e by (intro exI conjI) (rule list_rotate_short [OF assms True] keeps_refl assms)+
next
  case False
  then obtain ys t where xs: "xs = ys @ [t]" "ys \<noteq> []" by (cases xs rule: rev_cases) auto
  have ok: "dlist_ok h l (ys @ [t])" using assms xs by simp
  obtain h' l' where "listRotate h l = Some (h', l')" "dlist_ok h' l' (t # ys)" "keeps h h' (set (t # ys))"
    by (rule list_rotate [OF ok xs(2)])
  with xs show ?thesis by (intro exI [of _ h'] exI [of _ l']) simp
qed

theorem list_rotate_refines_witness:
  "\<exists>h' l'. listRotate two_nodes two_list = Some (h', l') \<and> dlist_ok h' l' [2, 1]"
  using list_rotate_refines [OF two_ok] by auto

text \<open>
  Copying a list whose values copy to non-null values appends one new node per source node,
  in order and with the copied values, and leaves the source list as it was.
\<close>

theorem list_dup_copies:
  assumes "dlist_ok h src xs" "dlist_ok h dest ys" "length allocs = length xs"
    and "distinct (xs @ ys @ allocs)" "0 \<notin> set allocs"
    and "\<forall>x \<in> set xs. \<forall>v. vals h x = Some v \<longrightarrow> dup_value src v \<noteq> 0"
  shows "\<exists>h' dest'. listDup h allocs src dest = Some (h', dest') \<and> dlist_ok h' dest' (ys @ allocs)
     \<and> map (vals h') allocs = map (map_option (dup_value src) \<circ> vals h) xs \<and> dlist_ok h' src xs"
proof -
  have src: "dseg h 0 xs 0" "0 \<notin> set xs" "head src = hd (xs @ [0])" using assms(1) by (auto simp: dlist_ok_def)
  have v: "\<And>x v. x \<in> set xs \<Longrightarrow> vals h x = Some v \<Longrightarrow> dup_value src v \<noteq> 0" using assms(6) by blast
  obtain h' dest' where
    r: "dup_from h src allocs (hd (xs @ [0])) dest = Some (h', dest')" "dlist_ok h' dest' (ys @ allocs)"
    "\<forall>x. x \<notin> set ys \<union> set allocs \<longrightarrow> h' x = h x"
    "map (vals h') allocs = map (map_option (dup_value src) \<circ> vals h) xs"
    using dup_from_all [OF src(1,2) assms(2-5), of src] v by blast
  have "dseg h' 0 xs 0 = dseg h 0 xs 0" using r(3) assms(4) by (intro dseg_frame) auto
  then have "dlist_ok h' src xs" using assms(1) by (simp add: dlist_ok_def)
  with r src(3) show ?thesis by (auto simp: listDup_def)
qed

theorem list_dup_copies_witness:
  "\<exists>h' dest'. listDup two_nodes [4, 5] two_list listCreate = Some (h', dest') \<and> dlist_ok h' dest' [4, 5]
     \<and> map (vals h') [4, 5] = [Some 11, Some 12]"
  using list_dup_copies [OF two_ok listCreate_ok, of "[4, 5]"]
  by (auto simp: dup_value_def two_list_def vals_def two_nodes_def)

text \<open>
  \<open>listClear\<close> frees the nodes of a non-empty list but leaves its head and its length: the next
  append, release or clear goes through a freed node.
\<close>

theorem list_clear_dangles:
  assumes "dlist_ok h l xs" "xs \<noteq> []" "a \<notin> set xs"
  shows "\<exists>h' vs. listClear h l = Some (h', l, vs) \<and> listAddNodeTail h' l a = None
     \<and> listClear h' l = None \<and> listRelease h' l = None"
proof -
  let ?h = "h |` (- set xs)"
  have r: "listClear h l = Some (?h, l, if free_m l then map (\<lambda>x. the (vals h x)) xs else [])"
    using dlist_len [OF assms(1)] release_nodes_all [of h 0 xs 0 "free_m l"] assms(1)
    by (simp add: listClear_def dlist_ok_def)
  have n: "len l \<noteq> 0" "unat (len l) = length xs" using dlist_len [OF assms(1)] assms(2) by auto
  have dead: "?h (head l) = None" "?h (tail l) = None" "tail l \<noteq> a"
    using assms by (cases xs; auto simp: dlist_ok_def)+
  obtain k where k: "unat (len l) = Suc k" using n(2) assms(2) by (cases xs) auto
  have "listClear ?h l = None" "listRelease ?h l = None"
    using dead k by (simp_all add: listClear_def listRelease_def)
  moreover have "listAddNodeTail ?h l a = None"
    using n dead by (simp add: listAddNodeTail_def set_prev_def set_next_def upd_def split: option.splits)
  ultimately show ?thesis using r by blast
qed

theorem list_clear_dangles_witness:
  "\<exists>h' vs. listClear two_nodes two_list = Some (h', two_list, vs) \<and> listAddNodeTail h' two_list 3 = None"
  using list_clear_dangles [OF two_ok, of 3] by auto

end
