(* ===== verification/Dict.thy ===== *)
theory Dict
  imports Prelude "HOL-Library.Multiset"
begin

text \<open>
  The hash table of \<open>src/dict.c\<close> (\<open>include/dict.h\<close>): two tables of chains, the second one in use while
  the entries are moved over one at a time (incremental rehashing).

  A chain is the list of its entries, a table the list of its chains (the empty list is the null
  table), an entry a key with its value pointer (\<open>None\<close> the null pointer).  A pointer to an entry,
  where the code keeps one, is identified by the entry's key: the keys of a table are distinct.
  The counters are integers: they count entries in memory and do not reach \<open>2 ^ 64\<close>.  Reading or
  writing a bucket outside the table, or going through the null entry of an empty bucket, gives
  \<open>None\<close>.

  The properties say that each operation acts on the finite map a dictionary stands for and keeps
  the representation invariant, with one exception: a deletion can remove the last entry of the old
  table while rehashing is under way (\<open>dict_live\<close> fails), and the next operation that moves an entry
  then reads past the table.
\<close>

section \<open>State\<close>

type_synonym ('k, 'v) dictEntry = "'k \<times> 'v option"

record ('k, 'v) dictHT =
  ht_table :: "('k, 'v) dictEntry list list"
  ht_size :: int
  ht_sizemask :: int
  ht_used :: int

record ('k, 'v) dictType =
  hashFunction :: "'k \<Rightarrow> 64 word"
  keyDup :: "('k \<Rightarrow> 'k) option"
  valDup :: "('v option \<Rightarrow> 'v option) option"
  keyCompare :: "'k \<Rightarrow> 'k \<Rightarrow> int"

record ('k, 'v) dict =
  ht0 :: "('k, 'v) dictHT"
  ht1 :: "('k, 'v) dictHT"
  rehashidx :: int

definition DICT_OK :: int where "DICT_OK = 0"
definition DICT_ERR :: int where "DICT_ERR = - 1"
definition DICT_INITIAL_SIZE :: int where "DICT_INITIAL_SIZE = 4"

lemmas dict_consts = DICT_OK_def DICT_ERR_def DICT_INITIAL_SIZE_def

section \<open>Operations\<close>

definition dict_val :: "('k, 'v) dictType \<Rightarrow> 'v option \<Rightarrow> 'v option" where
  "dict_val T v = (case valDup T of Some f \<Rightarrow> f v | None \<Rightarrow> v)"

definition dict_key :: "('k, 'v) dictType \<Rightarrow> 'k \<Rightarrow> 'k" where
  "dict_key T k = (case keyDup T of Some f \<Rightarrow> f k | None \<Rightarrow> k)"

definition dictReset :: "('k, 'v) dictHT" where
  "dictReset = \<lparr>ht_table = [], ht_size = 0, ht_sizemask = 0, ht_used = 0\<rparr>"

text \<open>\<open>_nextpower\<close> starts from 1; the guard that the power is positive is there for termination only.\<close>

function nextpower_from :: "int \<Rightarrow> int \<Rightarrow> int" where
  "nextpower_from res n = (if 0 < res \<and> res < n then nextpower_from (res * 2) n else res)"
  by auto
termination by (relation "measure (\<lambda>(res, n). nat (n - res))") auto

declare nextpower_from.simps [simp del]

definition nextpower :: "int \<Rightarrow> int" where
  "nextpower n = nextpower_from 1 n"

definition dictIsRehashing :: "('k, 'v) dict \<Rightarrow> bool" where
  "dictIsRehashing d \<longleftrightarrow> rehashidx d \<noteq> - 1"

text \<open>The hash is truncated to \<open>unsigned int\<close> and masked.\<close>

definition bucket :: "('k, 'v) dictType \<Rightarrow> ('k, 'v) dictHT \<Rightarrow> 'k \<Rightarrow> int" where
  "bucket T ht k = and (uint (ucast (hashFunction T k) :: 32 word)) (ht_sizemask ht)"

text \<open>Puts an entry at the front of its chain.\<close>

definition ht_push :: "('k, 'v) dictType \<Rightarrow> ('k, 'v) dictHT \<Rightarrow> ('k, 'v) dictEntry \<Rightarrow> ('k, 'v) dictHT option" where
  "ht_push T ht e = do {
     let i = bucket T ht (fst e);
     es \<leftarrow> load (ht_table ht) i;
     t \<leftarrow> store (ht_table ht) i (e # es);
     Some (ht\<lparr>ht_table := t, ht_used := ht_used ht + 1\<rparr>)
   }"

text \<open>The loop that skips empty buckets.\<close>

function skip_empty :: "'e list list \<Rightarrow> int \<Rightarrow> int \<Rightarrow> int option" where
  "skip_empty t n i =
     (if i < n then
        (case load t i of None \<Rightarrow> None
         | Some es \<Rightarrow> if es = [] then skip_empty t n (i + 1) else Some i)
      else Some i)"
  by auto
termination by (relation "measure (\<lambda>(t, n, i). nat (n - i))") auto

declare skip_empty.simps [simp del]

text \<open>An empty bucket at the index is a null entry, which \<open>entry->next\<close> goes through.\<close>

definition dictRehashStep :: "('k, 'v) dictType \<Rightarrow> ('k, 'v) dict \<Rightarrow> ('k, 'v) dict option" where
  "dictRehashStep T d = do {
     i \<leftarrow> skip_empty (ht_table (ht0 d)) (ht_size (ht0 d)) (rehashidx d);
     es \<leftarrow> load (ht_table (ht0 d)) i;
     (case es of [] \<Rightarrow> None
      | e # rest \<Rightarrow> do {
          t0 \<leftarrow> store (ht_table (ht0 d)) i rest;
          h1 \<leftarrow> ht_push T (ht1 d) e;
          let h0 = (ht0 d)\<lparr>ht_table := t0, ht_used := ht_used (ht0 d) - 1\<rparr>;
          Some (if ht_used h0 = 0 then \<lparr>ht0 = h1, ht1 = dictReset, rehashidx = - 1\<rparr>
                else \<lparr>ht0 = h0, ht1 = h1, rehashidx = i\<rparr>)
        })
   }"

text \<open>The return value, which no caller uses, is left out.\<close>

definition dictExpand :: "('k, 'v) dict \<Rightarrow> int \<Rightarrow> ('k, 'v) dict" where
  "dictExpand d newSize =
     (let dh = \<lparr>ht_table = replicate (nat newSize) [], ht_size = newSize, ht_sizemask = newSize - 1, ht_used = 0\<rparr>
      in if ht_table (ht0 d) = [] then d\<lparr>ht0 := dh\<rparr> else d\<lparr>ht1 := dh, rehashidx := 0\<rparr>)"

text \<open>
  \<open>used / size < 0.2\<close> in double precision.  The size is a power of two, so the quotient is exact and
  the comparison with the double nearest to 0.2 is the comparison of rationals.
\<close>

definition dictExpandIfNeed :: "('k, 'v) dict \<Rightarrow> ('k, 'v) dict" where
  "dictExpandIfNeed d =
     (let u = ht_used (ht0 d); n = ht_size (ht0 d) in
      if dictIsRehashing d then d
      else if n = 0 then dictExpand d DICT_INITIAL_SIZE
      else if u = n then dictExpand d (nextpower (u * 2))
      else if u * 5 < n then
        (if nextpower u > DICT_INITIAL_SIZE then dictExpand d (nextpower u) else d)
      else d)"

definition dictAddEntry :: "('k, 'v) dictType \<Rightarrow> ('k, 'v) dict \<Rightarrow> ('k, 'v) dictEntry \<Rightarrow> ('k, 'v) dict option" where
  "dictAddEntry T d0 e =
     (let d = dictExpandIfNeed d0 in
      if dictIsRehashing d then do {
        h1 \<leftarrow> ht_push T (ht1 d) e;
        dictRehashStep T (d\<lparr>ht1 := h1\<rparr>)
      } else do {
        h0 \<leftarrow> ht_push T (ht0 d) e;
        Some (d\<lparr>ht0 := h0\<rparr>)
      })"

text \<open>The type and the private data do not change and are arguments where they are used.\<close>

definition dictInit :: "('k, 'v) dict" where
  "dictInit = \<lparr>ht0 = dictReset, ht1 = dictReset, rehashidx = - 1\<rparr>"

definition dictCreate :: "('k, 'v) dict" where
  "dictCreate = dictInit"

fun chain_find :: "('k, 'v) dictType \<Rightarrow> 'k \<Rightarrow> ('k, 'v) dictEntry list \<Rightarrow> ('k, 'v) dictEntry option" where
  "chain_find T key [] = None"
| "chain_find T key (e # es) = (if keyCompare T (fst e) key = 0 then Some e else chain_find T key es)"

definition dictFind :: "('k, 'v) dictType \<Rightarrow> ('k, 'v) dict \<Rightarrow> 'k \<Rightarrow> ('k, 'v) dictEntry option option" where
  "dictFind T d key =
     (if ht_size (ht0 d) = 0 then Some None
      else do {
        es \<leftarrow> load (ht_table (ht0 d)) (bucket T (ht0 d) key);
        (case chain_find T key es of
           Some e \<Rightarrow> Some (Some e)
         | None \<Rightarrow>
             if \<not> dictIsRehashing d then Some None
             else do {
               es' \<leftarrow> load (ht_table (ht1 d)) (bucket T (ht1 d) key);
               Some (chain_find T key es')
             })
      })"

text \<open>\<open>dictSetVal\<close> on the entry that holds the key.\<close>

definition set_in_chain :: "('k, 'v) dictType \<Rightarrow> 'k \<Rightarrow> 'v option \<Rightarrow> ('k, 'v) dictEntry list \<Rightarrow> ('k, 'v) dictEntry list" where
  "set_in_chain T key v es = map (\<lambda>e. if keyCompare T (fst e) key = 0 then (fst e, dict_val T v) else e) es"

definition dictSetVal :: "('k, 'v) dictType \<Rightarrow> ('k, 'v) dict \<Rightarrow> 'k \<Rightarrow> 'v option \<Rightarrow> ('k, 'v) dict" where
  "dictSetVal T d key v =
     d\<lparr>ht0 := (ht0 d)\<lparr>ht_table := map (set_in_chain T key v) (ht_table (ht0 d))\<rparr>,
       ht1 := (ht1 d)\<lparr>ht_table := map (set_in_chain T key v) (ht_table (ht1 d))\<rparr>\<rparr>"

definition dictAddRaw :: "('k, 'v) dictType \<Rightarrow> ('k, 'v) dict \<Rightarrow> 'k \<Rightarrow> ('k, 'v) dict option" where
  "dictAddRaw T d key = do {
     r \<leftarrow> dictFind T d key;
     (case r of Some e \<Rightarrow> Some d
      | None \<Rightarrow> dictAddEntry T d (dict_key T key, dict_val T None))
   }"

definition dictAdd :: "('k, 'v) dictType \<Rightarrow> ('k, 'v) dict \<Rightarrow> 'k \<Rightarrow> 'v option \<Rightarrow> (int \<times> ('k, 'v) dict) option" where
  "dictAdd T d key v = do {
     r \<leftarrow> dictFind T d key;
     (case r of Some e \<Rightarrow> Some (DICT_ERR, d)
      | None \<Rightarrow> do {
          d' \<leftarrow> dictAddRaw T d key;
          Some (DICT_OK, dictSetVal T d' key v)
        })
   }"

definition dictReplace :: "('k, 'v) dictType \<Rightarrow> ('k, 'v) dict \<Rightarrow> 'k \<Rightarrow> 'v option \<Rightarrow> (int \<times> ('k, 'v) dict) option" where
  "dictReplace T d key v = do {
     r \<leftarrow> dictFind T d key;
     Some (case r of Some e \<Rightarrow> (DICT_OK, dictSetVal T d key v) | None \<Rightarrow> (DICT_ERR, d))
   }"

definition dictFetchValue :: "('k, 'v) dictType \<Rightarrow> ('k, 'v) dict \<Rightarrow> 'k \<Rightarrow> ('v option \<times> ('k, 'v) dict) option" where
  "dictFetchValue T d key = do {
     d' \<leftarrow> (if dictIsRehashing d then dictRehashStep T d else Some d);
     r \<leftarrow> dictFind T d' key;
     Some (case r of Some e \<Rightarrow> snd e | None \<Rightarrow> None, d')
   }"

text \<open>The results of the calls of \<open>rand\<close> are an argument; the loop may not return.\<close>

partial_function (option) random_bucket ::
    "(nat \<Rightarrow> int) \<Rightarrow> ('k, 'v) dictHT \<Rightarrow> nat \<Rightarrow> (nat \<times> ('k, 'v) dictEntry list) option" where
  "random_bucket rand ht n = do {
     es \<leftarrow> load (ht_table ht) (rand n mod ht_size ht);
     if es = [] then random_bucket rand ht (n + 1) else Some (n + 1, es)
   }"

definition dictGetRandomKey :: "(nat \<Rightarrow> int) \<Rightarrow> ('k, 'v) dict \<Rightarrow> 'k option option" where
  "dictGetRandomKey rand d =
     (if ht_size (ht0 d) = 0 then Some None
      else do {
        (n, es) \<leftarrow> random_bucket rand (ht0 d) 0;
        e \<leftarrow> load es (rand n mod int (length es));
        Some (Some (fst e))
      })"

fun chain_remove :: "('k, 'v) dictType \<Rightarrow> 'k \<Rightarrow> ('k, 'v) dictEntry list \<Rightarrow>
    (('k, 'v) dictEntry \<times> ('k, 'v) dictEntry list) option" where
  "chain_remove T key [] = None"
| "chain_remove T key (e # es) =
     (if keyCompare T (fst e) key = 0 then Some (e, es)
      else map_option (\<lambda>(x, es'). (x, e # es')) (chain_remove T key es))"

text \<open>Removes the key from one table; the entry is the one the destructors are called with.\<close>

definition ht_remove :: "('k, 'v) dictType \<Rightarrow> ('k, 'v) dictHT \<Rightarrow> 'k \<Rightarrow>
    (('k, 'v) dictEntry \<times> ('k, 'v) dictHT) option option" where
  "ht_remove T ht key = do {
     let i = bucket T ht key;
     es \<leftarrow> load (ht_table ht) i;
     (case chain_remove T key es of None \<Rightarrow> Some None
      | Some (e, es') \<Rightarrow> do {
          t \<leftarrow> store (ht_table ht) i es';
          Some (Some (e, ht\<lparr>ht_table := t, ht_used := ht_used ht - 1\<rparr>))
        })
   }"

definition dictDelete :: "('k, 'v) dictType \<Rightarrow> ('k, 'v) dict \<Rightarrow> 'k \<Rightarrow>
    (int \<times> ('k, 'v) dictEntry option \<times> ('k, 'v) dict) option" where
  "dictDelete T d0 key = do {
     let d1 = dictExpandIfNeed d0;
     d \<leftarrow> (if dictIsRehashing d1 then dictRehashStep T d1 else Some d1);
     r0 \<leftarrow> ht_remove T (ht0 d) key;
     (case r0 of
        Some (e, h0) \<Rightarrow> Some (DICT_OK, Some e, d\<lparr>ht0 := h0\<rparr>)
      | None \<Rightarrow>
          if \<not> dictIsRehashing d then Some (DICT_ERR, None, d)
          else do {
            r1 \<leftarrow> ht_remove T (ht1 d) key;
            Some (case r1 of
                Some (e, h1) \<Rightarrow> (DICT_OK, Some e, d\<lparr>ht1 := h1\<rparr>)
              | None \<Rightarrow> (DICT_ERR, None, d))
          })
   }"

definition dictContains :: "('k, 'v) dictType \<Rightarrow> ('k, 'v) dict \<Rightarrow> 'k \<Rightarrow> bool option" where
  "dictContains T d key = do { r \<leftarrow> dictFind T d key; Some (r \<noteq> None) }"

definition dictIsEmpty :: "('k, 'v) dict \<Rightarrow> bool" where
  "dictIsEmpty d \<longleftrightarrow> ht_used (ht0 d) = 0"

definition dictSize :: "('k, 'v) dict \<Rightarrow> int" where
  "dictSize d = ht_used (ht0 d) + ht_used (ht1 d)"

text \<open>
  \<open>_dictClear\<close> walks the buckets while entries are left; the result is the sequence of entries the
  destructors are called with.
\<close>

fun clear_chains :: "('k, 'v) dictEntry list list \<Rightarrow> int \<Rightarrow> ('k, 'v) dictEntry list" where
  "clear_chains [] u = []"
| "clear_chains (es # t) u = (if u > 0 then es @ clear_chains t (u - int (length es)) else [])"

definition dictClear :: "('k, 'v) dictHT \<Rightarrow> ('k, 'v) dictEntry list \<times> ('k, 'v) dictHT" where
  "dictClear ht = (clear_chains (ht_table ht) (ht_used ht), dictReset)"

definition dictRelease :: "('k, 'v) dict \<Rightarrow> ('k, 'v) dictEntry list" where
  "dictRelease d = fst (dictClear (ht0 d)) @ fst (dictClear (ht1 d))"

text \<open>The iterator keeps the rest of the chain it is in.\<close>

record ('k, 'v) dictIterator =
  it_index :: int
  it_entry :: "('k, 'v) dictEntry list"
  it_htidx :: nat

definition dictGetIterator :: "('k, 'v) dictIterator" where
  "dictGetIterator = \<lparr>it_index = - 1, it_entry = [], it_htidx = 0\<rparr>"

text \<open>
  The inner loop: \<open>Some None\<close> when the table is exhausted, otherwise the index and the chain of the
  next bucket in use.
\<close>

function next_bucket :: "('k, 'v) dictHT \<Rightarrow> int \<Rightarrow> (int \<times> ('k, 'v) dictEntry list) option option" where
  "next_bucket ht i =
     (if i + 1 = ht_size ht then Some None
      else (case load (ht_table ht) (i + 1) of
              None \<Rightarrow> None
            | Some es \<Rightarrow> if es = [] then next_bucket ht (i + 1) else Some (Some (i + 1, es))))"
  by auto
termination
  by (relation "measure (\<lambda>(ht, i). nat (int (length (ht_table ht)) - i))") (auto simp: load_def split: if_splits)

declare next_bucket.simps [simp del]

function dictIterNext :: "('k, 'v) dict \<Rightarrow> ('k, 'v) dictIterator \<Rightarrow>
    (('k, 'v) dictEntry option \<times> ('k, 'v) dictIterator) option" where
  "dictIterNext d it =
     (if it_htidx it \<ge> 2 then Some (None, it)
      else let ht = (if it_htidx it = 0 then ht0 d else ht1 d) in
        if ht_used ht = 0 then dictIterNext d (it\<lparr>it_htidx := it_htidx it + 1\<rparr>)
        else (case it_entry it of
            e # es \<Rightarrow> Some (Some e, it\<lparr>it_entry := es\<rparr>)
          | [] \<Rightarrow> (case next_bucket ht (it_index it) of
                None \<Rightarrow> None
              | Some None \<Rightarrow> dictIterNext d (it\<lparr>it_index := 0, it_htidx := it_htidx it + 1\<rparr>)
              | Some (Some (i, [])) \<Rightarrow> None
              | Some (Some (i, e # es)) \<Rightarrow> Some (Some e, it\<lparr>it_index := i, it_entry := es\<rparr>))))"
  by auto
termination by (relation "measure (\<lambda>(d, it). 2 - it_htidx it)") auto

declare dictIterNext.simps [simp del]

text \<open>
  All the entries an iterator still returns, as the callers' loops read them.  The fuel bounds the
  number of entries.
\<close>

fun iter_collect :: "nat \<Rightarrow> ('k, 'v) dict \<Rightarrow> ('k, 'v) dictIterator \<Rightarrow> ('k, 'v) dictEntry list option" where
  "iter_collect 0 d it = None"
| "iter_collect (Suc n) d it = do {
     (r, it') \<leftarrow> dictIterNext d it;
     (case r of None \<Rightarrow> Some [] | Some e \<Rightarrow> do { es \<leftarrow> iter_collect n d it'; Some (e # es) })
   }"

section \<open>Representation invariant and abstraction\<close>

definition entries :: "('k, 'v) dict \<Rightarrow> ('k, 'v) dictEntry list" where
  "entries d = concat (ht_table (ht0 d)) @ concat (ht_table (ht1 d))"

definition ht_ok :: "('k, 'v) dictType \<Rightarrow> ('k, 'v) dictHT \<Rightarrow> bool" where
  "ht_ok T ht \<longleftrightarrow>
     ht_size ht = int (length (ht_table ht)) \<and>
     ht_used ht = int (length (concat (ht_table ht))) \<and>
     (ht_table ht = [] \<and> ht_sizemask ht = 0 \<or>
        (\<exists>k. length (ht_table ht) = 2 ^ k) \<and> ht_sizemask ht = ht_size ht - 1) \<and>
     (\<forall>i < length (ht_table ht). \<forall>e \<in> set (ht_table ht ! i). bucket T ht (fst e) = int i)"

definition dict_ok :: "('k, 'v) dictType \<Rightarrow> ('k \<Rightarrow> 'c) \<Rightarrow> ('k, 'v) dict \<Rightarrow> bool" where
  "dict_ok T canon d \<longleftrightarrow>
     ht_ok T (ht0 d) \<and> ht_ok T (ht1 d) \<and> distinct (map (canon \<circ> fst) (entries d)) \<and>
     (if rehashidx d = - 1 then ht1 d = dictReset
      else 0 \<le> rehashidx d \<and> ht_table (ht0 d) \<noteq> [] \<and> ht_table (ht1 d) \<noteq> [] \<and>
        (\<forall>i < length (ht_table (ht0 d)). int i < rehashidx d \<longrightarrow> ht_table (ht0 d) ! i = []))"

text \<open>While rehashing is under way the old table still has an entry to move.\<close>

definition dict_live :: "('k, 'v) dict \<Rightarrow> bool" where
  "dict_live d \<longleftrightarrow> rehashidx d = - 1 \<or> ht_used (ht0 d) > 0"

text \<open>The finite map a dictionary stands for; \<open>canon\<close> is what the key comparison compares.\<close>

definition dict_map :: "('k \<Rightarrow> 'c) \<Rightarrow> ('k, 'v) dict \<Rightarrow> 'c \<Rightarrow> 'v option option" where
  "dict_map canon d = map_of (map (\<lambda>(k, v). (canon k, v)) (entries d))"

section \<open>Tables\<close>

lemma mset_concat_update:
  "i < length t \<Longrightarrow> mset (concat (t[i := b])) + mset (t ! i) = mset (concat t) + mset b"
proof (induction t arbitrary: i)
  case (Cons a t)
  then show ?case by (cases i) (auto simp: ac_simps)
qed simp

lemma mset_concat_push:
  "i < length t \<Longrightarrow> mset (concat (t[i := e # t ! i])) = add_mset e (mset (concat t))"
  using mset_concat_update [of i t "e # t ! i"] by simp

lemma mset_concat_pop:
  "i < length t \<Longrightarrow> mset (t ! i) = add_mset e (mset es) \<Longrightarrow> mset (concat t) = add_mset e (mset (concat (t[i := es])))"
  using mset_concat_update [of i t es] by simp

lemma concat_nth_subset: "i < length t \<Longrightarrow> e \<in> set (t ! i) \<Longrightarrow> e \<in> set (concat t)"
  using nth_mem by fastforce

lemma concat_replicate_Nil [simp]: "concat (replicate n []) = []"
  by (induction n) auto

lemma uint_and_mask: "0 \<le> x \<Longrightarrow> and x (2 ^ k - 1) = x mod (2 ^ k :: int)"
  by (metis take_bit_eq_mask take_bit_eq_mod mask_eq_exp_minus_1)

lemma bucket_range:
  assumes "ht_ok T ht" "ht_table ht \<noteq> []"
  shows "0 \<le> bucket T ht k" "bucket T ht k < int (length (ht_table ht))"
proof -
  obtain n where n: "length (ht_table ht) = 2 ^ n" "ht_sizemask ht = 2 ^ n - 1"
    using assms by (auto simp: ht_ok_def)
  then have "bucket T ht k = uint (ucast (hashFunction T k) :: 32 word) mod 2 ^ n"
    by (simp add: bucket_def uint_and_mask)
  then show "0 \<le> bucket T ht k" "bucket T ht k < int (length (ht_table ht))" using n by simp_all
qed

lemma load_bucket:
  assumes "ht_ok T ht" "ht_table ht \<noteq> []"
  shows "load (ht_table ht) (bucket T ht k) = Some (ht_table ht ! nat (bucket T ht k))"
    and "nat (bucket T ht k) < length (ht_table ht)"
  using bucket_range [OF assms, of k] by (auto simp: load_def nat_less_iff)

lemma ht_okD:
  assumes "ht_ok T ht"
  shows "ht_size ht = int (length (ht_table ht))" "ht_used ht = int (length (concat (ht_table ht)))"
    and "i < length (ht_table ht) \<Longrightarrow> e \<in> set (ht_table ht ! i) \<Longrightarrow> bucket T ht (fst e) = int i"
  using assms unfolding ht_ok_def by blast+

text \<open>Replacing one chain by entries of the same bucket keeps the table well formed.\<close>

lemma ht_ok_update:
  assumes ok: "ht_ok T ht" and i: "i < length (ht_table ht)"
    and chain: "\<And>x. x \<in> set es \<Longrightarrow> bucket T ht (fst x) = int i"
    and u: "u = int (length (concat ((ht_table ht)[i := es])))"
  shows "ht_ok T (ht\<lparr>ht_table := (ht_table ht)[i := es], ht_used := u\<rparr>)"
proof -
  let ?h = "ht\<lparr>ht_table := (ht_table ht)[i := es], ht_used := u\<rparr>"
  have b: "bucket T ?h = bucket T ht" by (simp add: bucket_def fun_eq_iff)
  have "bucket T ht (fst x) = int j" if "j < length (ht_table ht)" "x \<in> set ((ht_table ht)[i := es] ! j)" for j x
    using that chain ht_okD(3) [OF ok, of j x] by (cases "i = j") simp_all
  then have "\<forall>j < length ((ht_table ht)[i := es]). \<forall>x \<in> set ((ht_table ht)[i := es] ! j). bucket T ht (fst x) = int j"
    by simp
  moreover have "ht_table ht \<noteq> []" using i by auto
  ultimately show ?thesis using ok u unfolding ht_ok_def b by (simp del: length_concat)
qed

lemma bucket_cong: "ht_sizemask h = ht_sizemask h' \<Longrightarrow> bucket T h = bucket T h'"
  by (simp add: bucket_def fun_eq_iff)

lemma dictReset_ok [simp]: "ht_ok T dictReset" "ht_table dictReset = []" "ht_used dictReset = 0"
  by (simp_all add: ht_ok_def dictReset_def)

lemma ht_push_ok:
  assumes ok: "ht_ok T ht" and ne: "ht_table ht \<noteq> []"
  obtains h where "ht_push T ht e = Some h" "ht_ok T h" "ht_table h \<noteq> []"
    "mset (concat (ht_table h)) = add_mset e (mset (concat (ht_table ht)))" "ht_used h = ht_used ht + 1"
proof -
  let ?i = "nat (bucket T ht (fst e))"
  let ?t = "(ht_table ht)[?i := e # ht_table ht ! ?i]"
  let ?h = "ht\<lparr>ht_table := ?t, ht_used := ht_used ht + 1\<rparr>"
  note lb = load_bucket [OF ok ne, of "fst e"] and r = bucket_range [OF ok ne, of "fst e"]
  have run: "ht_push T ht e = Some ?h" using lb r by (simp add: ht_push_def Let_def store_def)
  have m: "mset (concat ?t) = add_mset e (mset (concat (ht_table ht)))" using lb(2) by (rule mset_concat_push)
  have "ht_used ht + 1 = int (length (concat ?t))"
    using arg_cong [OF m, of size] ht_okD(2) [OF ok] by (simp del: length_concat)
  moreover have "bucket T ht (fst x) = int ?i" if "x \<in> set (e # ht_table ht ! ?i)" for x
    using that ht_okD(3) [OF ok lb(2), of x] r(1) by auto
  ultimately have ok': "ht_ok T ?h" using ht_ok_update [OF ok lb(2)] by blast
  show thesis by (rule that [OF run ok']) (use m ne in simp_all)
qed

lemma ht_removeD:
  assumes ok: "ht_ok T ht" and i: "i < length (ht_table ht)"
    and m: "mset (ht_table ht ! i) = add_mset e (mset es)"
  defines "h \<equiv> ht\<lparr>ht_table := (ht_table ht)[i := es], ht_used := ht_used ht - 1\<rparr>"
  shows "ht_ok T h" "mset (concat (ht_table ht)) = add_mset e (mset (concat (ht_table h)))" "ht_table h \<noteq> []"
proof -
  have c: "mset (concat (ht_table ht)) = add_mset e (mset (concat ((ht_table ht)[i := es])))"
    by (rule mset_concat_pop [OF i m])
  then show "mset (concat (ht_table ht)) = add_mset e (mset (concat (ht_table h)))" by (simp add: h_def)
  have "ht_used ht - 1 = int (length (concat ((ht_table ht)[i := es])))"
    using arg_cong [OF c, of size] ht_okD(2) [OF ok] by (simp del: length_concat)
  moreover have "bucket T ht (fst x) = int i" if "x \<in> set es" for x
  proof -
    have "x \<in> set (ht_table ht ! i)" using that arg_cong [OF m, of set_mset] by auto
    then show ?thesis by (rule ht_okD(3) [OF ok i])
  qed
  ultimately show "ht_ok T h" unfolding h_def using ht_ok_update [OF ok i] by blast
  show "ht_table h \<noteq> []" using i by (auto simp: h_def)
qed

lemma skip_empty_finds:
  assumes "0 \<le> i" "i \<le> int j" "j < length t" "t ! j \<noteq> []" "n = int (length t)"
    and "\<forall>k < length t. int k < i \<longrightarrow> t ! k = []"
  shows "\<exists>m. skip_empty t n i = Some (int m) \<and> m < length t \<and> t ! m \<noteq> [] \<and> (\<forall>k < m. t ! k = [])"
  using assms
proof (induction t n i rule: skip_empty.induct)
  case (1 t n i)
  have i: "i < n" "nat i < length t" using 1 by auto
  then have ld: "load t i = Some (t ! nat i)" using 1 by (simp add: load_def)
  show ?case
  proof (cases "t ! nat i = []")
    case True
    then have "i \<noteq> int j" using 1 by auto
    moreover have "\<forall>k < length t. int k < i + 1 \<longrightarrow> t ! k = []"
    proof (intro allI impI)
      fix k assume k: "k < length t" "int k < i + 1"
      show "t ! k = []" using k 1 True by (cases "int k = i") auto
    qed
    ultimately show ?thesis
      using 1 i ld True by (subst skip_empty.simps) simp
  next
    case False
    then show ?thesis using 1 i ld
      by (subst skip_empty.simps) (auto intro!: exI [of _ "nat i"])
  qed
qed

lemma skip_empty_all:
  assumes "0 \<le> i" "n = int (length t)" "\<forall>k < length t. t ! k = []"
  shows "\<exists>m. skip_empty t n i = Some m \<and> n \<le> m"
  using assms
proof (induction t n i rule: skip_empty.induct)
  case (1 t n i)
  show ?case
  proof (cases "i < n")
    case True
    then have "load t i = Some []" using 1 by (simp add: load_def)
    with 1 True show ?thesis by (subst skip_empty.simps) simp
  next
    case False
    then show ?thesis by (subst skip_empty.simps) simp
  qed
qed

lemma distinct_map_mset: "mset xs = mset ys \<Longrightarrow> distinct (map f xs) \<longleftrightarrow> distinct (map f ys)"
  by (metis mset_map mset_eq_imp_distinct_iff)

lemma mset_entries: "mset (entries d) = mset (concat (ht_table (ht0 d))) + mset (concat (ht_table (ht1 d)))"
  by (simp add: entries_def)

lemma used_pos_chain:
  assumes "ht_ok T ht" "ht_used ht > 0"
  obtains j where "j < length (ht_table ht)" "ht_table ht ! j \<noteq> []"
proof -
  have "concat (ht_table ht) \<noteq> []" using ht_okD(2) [OF assms(1)] assms(2) by auto
  then obtain es where "es \<in> set (ht_table ht)" "es \<noteq> []" by (metis concat_eq_Nil_conv)
  with that show thesis by (metis in_set_conv_nth)
qed

section \<open>Rehashing and growth\<close>

lemma rehash_step:
  assumes ok: "dict_ok T canon d" and re: "rehashidx d \<noteq> - 1" and live: "dict_live d"
  obtains d' where "dictRehashStep T d = Some d'" "dict_ok T canon d'" "dict_live d'"
    "mset (entries d') = mset (entries d)" "ht_table (ht0 d') \<noteq> []"
proof -
  have h: "ht_ok T (ht0 d)" "ht_ok T (ht1 d)" "0 \<le> rehashidx d" "ht_table (ht1 d) \<noteq> []"
    "\<forall>i < length (ht_table (ht0 d)). int i < rehashidx d \<longrightarrow> ht_table (ht0 d) ! i = []"
    "distinct (map (canon \<circ> fst) (entries d))"
    using ok re by (auto simp: dict_ok_def)
  let ?t = "ht_table (ht0 d)"
  have used: "ht_used (ht0 d) > 0" using live re by (simp add: dict_live_def)
  obtain j where j: "j < length ?t" "?t ! j \<noteq> []" by (rule used_pos_chain [OF h(1) used])
  have "rehashidx d \<le> int j" using h(5) j by (meson not_le)
  from skip_empty_finds [OF h(3) this j(1) j(2) ht_okD(1) [OF h(1)] h(5)] obtain m where
    m: "skip_empty ?t (ht_size (ht0 d)) (rehashidx d) = Some (int m)" "m < length ?t" "?t ! m \<noteq> []"
      "\<forall>k < m. ?t ! k = []" by blast
  obtain e rest where er: "?t ! m = e # rest" using m(3) by (cases "?t ! m") auto
  define h0 where "h0 = (ht0 d)\<lparr>ht_table := ?t[m := rest], ht_used := ht_used (ht0 d) - 1\<rparr>"
  have h0: "ht_ok T h0" "mset (concat ?t) = add_mset e (mset (concat (ht_table h0)))" "ht_table h0 \<noteq> []"
    unfolding h0_def by (rule ht_removeD [OF h(1) m(2)]; simp add: er)+
  obtain h1 where h1: "ht_push T (ht1 d) e = Some h1" "ht_ok T h1" "ht_table h1 \<noteq> []"
    "mset (concat (ht_table h1)) = add_mset e (mset (concat (ht_table (ht1 d))))"
    by (rule ht_push_ok [OF h(2,4)])
  define d' where "d' = (if ht_used h0 = 0 then \<lparr>ht0 = h1, ht1 = dictReset, rehashidx = - 1\<rparr>
                else \<lparr>ht0 = h0, ht1 = h1, rehashidx = int m\<rparr>)"
  have run: "dictRehashStep T d = Some d'"
    using m er h1(1) by (simp add: dictRehashStep_def load_nat store_def d'_def h0_def)
  have e0: "ht_used h0 = 0 \<Longrightarrow> concat (ht_table h0) = []" using ht_okD(2) [OF h0(1)] by simp
  have ms: "mset (entries d') = mset (entries d)"
    using h0(2) h1(4) e0 by (simp add: d'_def mset_entries)
  have "ht_used h0 \<ge> 0" using ht_okD(2) [OF h0(1)] by simp
  then have live': "dict_live d'" by (simp add: d'_def dict_live_def)
  have "distinct (map (canon \<circ> fst) (entries d'))"
    using h(6) distinct_map_mset [OF ms, of "canon \<circ> fst"] by simp
  moreover have "\<forall>i < length (ht_table h0). int i < int m \<longrightarrow> ht_table h0 ! i = []"
    using m(4) by (simp add: h0_def)
  ultimately have ok': "dict_ok T canon d'"
    using h0 h1 by (simp add: dict_ok_def d'_def)
  show thesis by (rule that [OF run ok' live' ms]) (use h0 h1 in \<open>simp add: d'_def\<close>)
qed

lemma rehash_step_dead:
  assumes ok: "dict_ok T canon d" and dead: "\<not> dict_live d"
  shows "dictRehashStep T d = None"
proof -
  have h: "ht_ok T (ht0 d)" "0 \<le> rehashidx d" using ok dead by (auto simp: dict_ok_def dict_live_def split: if_splits)
  let ?t = "ht_table (ht0 d)"
  have "concat ?t = []" using ht_okD(2) [OF h(1)] dead by (simp add: dict_live_def del: length_concat)
  then have "\<forall>k < length ?t. ?t ! k = []" by simp
  from skip_empty_all [OF h(2) ht_okD(1) [OF h(1)] this] obtain m where
    "skip_empty ?t (ht_size (ht0 d)) (rehashidx d) = Some m" "ht_size (ht0 d) \<le> m" by blast
  moreover have "load ?t m = None" using calculation(2) ht_okD(1) [OF h(1)] by (simp add: load_def)
  ultimately show ?thesis by (simp add: dictRehashStep_def)
qed

lemma nextpower_from_pow: "\<exists>m. nextpower_from (2 ^ k) n = 2 ^ m \<and> n \<le> 2 ^ m"
proof (induction "2 ^ k :: int" n arbitrary: k rule: nextpower_from.induct)
  case (1 n k)
  show ?case
  proof (cases "2 ^ k < n")
    case True
    then have "\<exists>m. nextpower_from (2 ^ k * 2) n = 2 ^ m \<and> n \<le> 2 ^ m" using 1 [of "Suc k"]
      by (simp add: mult.commute)
    with True show ?thesis by (subst nextpower_from.simps) simp
  next
    case False
    then show ?thesis by (subst nextpower_from.simps) auto
  qed
qed

lemma nextpower_pow: obtains m where "nextpower n = 2 ^ m" "n \<le> nextpower n"
  using nextpower_from_pow [of 0 n] by (auto simp: nextpower_def)

definition fresh_table :: "int \<Rightarrow> ('k, 'v) dictHT" where
  "fresh_table n = \<lparr>ht_table = replicate (nat n) [], ht_size = n, ht_sizemask = n - 1, ht_used = 0\<rparr>"

lemma fresh_table_ok:
  "n = 2 ^ k \<Longrightarrow> ht_ok T (fresh_table n)" "n = 2 ^ k \<Longrightarrow> ht_table (fresh_table n) \<noteq> []"
  by (auto simp: ht_ok_def fresh_table_def nat_power_eq)

lemma fresh_table_empty [simp]: "concat (ht_table (fresh_table n)) = []" "ht_used (fresh_table n) = 0"
  by (simp_all add: fresh_table_def)

lemma dictExpand_alt:
  "dictExpand d n = (if ht_table (ht0 d) = [] then d\<lparr>ht0 := fresh_table n\<rparr>
     else d\<lparr>ht1 := fresh_table n, rehashidx := 0\<rparr>)"
  by (simp add: dictExpand_def fresh_table_def)

lemma dictExpand_first:
  assumes "dict_ok T canon d" "ht_table (ht0 d) = []"
  shows "dict_ok T canon (dictExpand d 4)" "entries (dictExpand d 4) = entries d"
    "ht_table (ht0 (dictExpand d 4)) \<noteq> []" "rehashidx (dictExpand d 4) = - 1"
  using assms fresh_table_ok(1,2) [of 4 2]
  by (auto simp: dictExpand_alt dict_ok_def entries_def split: if_splits)

lemma dictExpand_rehash:
  assumes "dict_ok T canon d" "ht_table (ht0 d) \<noteq> []" "rehashidx d = - 1" "n = 2 ^ k" "ht_used (ht0 d) > 0"
  shows "dict_ok T canon (dictExpand d n)" "entries (dictExpand d n) = entries d"
    "ht_table (ht0 (dictExpand d n)) \<noteq> []" "dict_live (dictExpand d n)"
  using assms fresh_table_ok(1,2) [of n k]
  by (auto simp: dictExpand_alt dict_ok_def entries_def dict_live_def)

lemma expand_if_need:
  assumes ok: "dict_ok T canon d" and live: "dict_live d"
  shows "dict_ok T canon (dictExpandIfNeed d)" "dict_live (dictExpandIfNeed d)"
    "entries (dictExpandIfNeed d) = entries d" "ht_table (ht0 (dictExpandIfNeed d)) \<noteq> []"
proof -
  let ?u = "ht_used (ht0 d)" and ?n = "ht_size (ht0 d)"
  let ?P = "\<lambda>d'. dict_ok T canon d' \<and> dict_live d' \<and> entries d' = entries d \<and> ht_table (ht0 d') \<noteq> []"
  have n: "?n = int (length (ht_table (ht0 d)))" using ok ht_okD(1) unfolding dict_ok_def by blast
  have grow: "?P (dictExpand d (nextpower m))"
    if "rehashidx d = - 1" "?n \<noteq> 0" "?u > 0" for m
  proof -
    obtain k where "nextpower m = 2 ^ k" by (rule nextpower_pow)
    with dictExpand_rehash [OF ok _ that(1) this that(3)] that(2) n show ?thesis by simp
  qed
  have "?P (dictExpandIfNeed d)"
  proof (cases "dictIsRehashing d")
    case True
    then show ?thesis using ok live by (auto simp: dictExpandIfNeed_def dictIsRehashing_def dict_ok_def)
  next
    case False
    then have re: "rehashidx d = - 1" by (simp add: dictIsRehashing_def)
    show ?thesis
    proof (cases "?n = 0")
      case True
      then show ?thesis using dictExpand_first [OF ok] n False
        by (simp add: dictExpandIfNeed_def DICT_INITIAL_SIZE_def dict_live_def)
    next
      case ne: False
      then have t: "ht_table (ht0 d) \<noteq> []" using n by auto
      show ?thesis
      proof (cases "?u = ?n")
        case True
        then show ?thesis using grow [OF re ne] False ne n
          by (simp add: dictExpandIfNeed_def Let_def)
      next
        case neq: False
        show ?thesis
        proof (cases "?u * 5 < ?n \<and> nextpower ?u > 4")
          case True
          then have "?u > 0"
            by (cases "?u > 0") (auto simp: nextpower_def nextpower_from.simps [of 1])
          then show ?thesis using grow [OF re ne] True False ne neq
            by (simp add: dictExpandIfNeed_def Let_def DICT_INITIAL_SIZE_def)
        next
          case small: False
          then have "dictExpandIfNeed d = d" using False ne neq
            by (auto simp: dictExpandIfNeed_def Let_def DICT_INITIAL_SIZE_def)
          then show ?thesis using ok live t by simp
        qed
      qed
    qed
  qed
  then show "dict_ok T canon (dictExpandIfNeed d)" "dict_live (dictExpandIfNeed d)"
    "entries (dictExpandIfNeed d) = entries d" "ht_table (ht0 (dictExpandIfNeed d)) \<noteq> []" by blast+
qed

lemma add_entry:
  assumes ok: "dict_ok T canon d" and live: "dict_live d" and new: "canon (fst e) \<notin> (canon \<circ> fst) ` set (entries d)"
  obtains d' where "dictAddEntry T d e = Some d'" "dict_ok T canon d'" "dict_live d'"
    "mset (entries d') = add_mset e (mset (entries d))"
proof -
  define d1 where "d1 = dictExpandIfNeed d"
  note x = expand_if_need [OF ok live, folded d1_def]
  have ht: "ht_ok T (ht0 d1)" "ht_ok T (ht1 d1)" using x(1) by (simp_all add: dict_ok_def)
  have fresh: "distinct (map (canon \<circ> fst) (e # entries d1))"
    using new x(1,3) by (simp add: dict_ok_def)
  show thesis
  proof (cases "dictIsRehashing d1")
    case True
    then have re: "rehashidx d1 \<noteq> - 1" "ht_table (ht1 d1) \<noteq> []"
      using x(1) by (auto simp: dictIsRehashing_def dict_ok_def)
    obtain h1 where h1: "ht_push T (ht1 d1) e = Some h1" "ht_ok T h1" "ht_table h1 \<noteq> []"
      "mset (concat (ht_table h1)) = add_mset e (mset (concat (ht_table (ht1 d1))))"
      by (rule ht_push_ok [OF ht(2) re(2)])
    let ?d2 = "d1\<lparr>ht1 := h1\<rparr>"
    have m: "mset (entries ?d2) = mset (e # entries d1)" using h1(4) by (simp add: mset_entries)
    have ok2: "dict_ok T canon ?d2"
      using x(1) re h1 fresh distinct_map_mset [OF m, of "canon \<circ> fst"] by (simp add: dict_ok_def)
    have live2: "dict_live ?d2" using x(2) by (simp add: dict_live_def)
    obtain d' where d': "dictRehashStep T ?d2 = Some d'" "dict_ok T canon d'" "dict_live d'"
      "mset (entries d') = mset (entries ?d2)"
      by (rule rehash_step [OF ok2 _ live2]) (use re in simp_all)
    have "dictAddEntry T d e = Some d'"
      using True h1(1) d'(1) by (simp add: dictAddEntry_def d1_def [symmetric])
    then show thesis by (rule that) (use d' m x(3) in simp_all)
  next
    case False
    obtain h0 where h0: "ht_push T (ht0 d1) e = Some h0" "ht_ok T h0" "ht_table h0 \<noteq> []"
      "mset (concat (ht_table h0)) = add_mset e (mset (concat (ht_table (ht0 d1))))"
      by (rule ht_push_ok [OF ht(1) x(4)])
    let ?d2 = "d1\<lparr>ht0 := h0\<rparr>"
    have m: "mset (entries ?d2) = mset (e # entries d1)" using h0(4) by (simp add: mset_entries)
    have ok2: "dict_ok T canon ?d2"
      using x(1) False h0 fresh distinct_map_mset [OF m, of "canon \<circ> fst"]
      by (simp add: dict_ok_def dictIsRehashing_def)
    have "dictAddEntry T d e = Some ?d2"
      using False h0(1) by (simp add: dictAddEntry_def d1_def [symmetric])
    then show thesis
      by (rule that) (use ok2 m x(3) False in \<open>simp_all add: dict_live_def dictIsRehashing_def\<close>)
  qed
qed

section \<open>The map a list of entries stands for\<close>

definition canon_map :: "('k \<Rightarrow> 'c) \<Rightarrow> ('k, 'v) dictEntry list \<Rightarrow> 'c \<Rightarrow> 'v option option" where
  "canon_map canon es = map_of (map (\<lambda>(k, v). (canon k, v)) es)"

lemma dict_map_alt: "dict_map canon d = canon_map canon (entries d)"
  by (simp add: dict_map_def canon_map_def)

lemma canon_map_Nil [simp]: "canon_map canon [] = Map.empty"
  by (simp add: canon_map_def)

lemma canon_map_Cons [simp]: "canon_map canon (e # es) = (canon_map canon es)(canon (fst e) \<mapsto> snd e)"
  by (cases e) (simp add: canon_map_def)

lemma canon_map_None: "canon_map canon es c = None \<longleftrightarrow> c \<notin> (canon \<circ> fst) ` set es"
  by (induction es) auto

lemma canon_map_Some:
  "distinct (map (canon \<circ> fst) es) \<Longrightarrow> e \<in> set es \<Longrightarrow> canon_map canon es (canon (fst e)) = Some (snd e)"
  by (induction es) (auto simp: image_iff)

lemma canon_map_mset:
  assumes "mset es = mset es'" "distinct (map (canon \<circ> fst) es)"
  shows "canon_map canon es = canon_map canon es'"
proof
  fix c
  have d: "distinct (map (canon \<circ> fst) es')" using assms distinct_map_mset by blast
  have set: "set es = set es'" using assms(1) by (rule mset_eq_setD)
  show "canon_map canon es c = canon_map canon es' c"
  proof (cases "c \<in> (canon \<circ> fst) ` set es")
    case True
    then obtain e where e: "e \<in> set es" "c = canon (fst e)" by auto
    then show ?thesis using canon_map_Some [OF assms(2)] canon_map_Some [OF d] set by metis
  next
    case False
    then show ?thesis using canon_map_None set by metis
  qed
qed

lemma dict_map_mset:
  "mset (entries d') = mset (entries d) \<Longrightarrow> dict_ok T canon d \<Longrightarrow> dict_map canon d' = dict_map canon d"
  unfolding dict_map_alt by (rule canon_map_mset [symmetric]) (auto simp: dict_ok_def)

section \<open>The interface of the keys\<close>

text \<open>
  What the type of a dictionary has to promise: the comparison and the hash depend on a canonical
  form of the key only, which duplicating a key keeps.
\<close>

locale hash_keys =
  fixes T :: "('k, 'v) dictType" and canon :: "'k \<Rightarrow> 'c"
  assumes cmp: "keyCompare T a b = 0 \<longleftrightarrow> canon a = canon b"
    and hash: "canon a = canon b \<Longrightarrow> hashFunction T a = hashFunction T b"
    and dup: "canon (dict_key T k) = canon k"
begin

lemma bucket_canon: "canon a = canon b \<Longrightarrow> bucket T ht a = bucket T ht b"
  using hash [of a b] by (simp add: bucket_def)

lemma chain_find_None: "chain_find T key es = None \<longleftrightarrow> canon key \<notin> (canon \<circ> fst) ` set es"
  by (induction es) (auto simp: cmp)

lemma chain_find_Some: "chain_find T key es = Some e \<Longrightarrow> e \<in> set es \<and> canon (fst e) = canon key"
  by (induction es) (auto simp: cmp split: if_splits)

lemma in_table_bucket:
  assumes "ht_ok T ht" "e \<in> set (concat (ht_table ht))" "canon (fst e) = canon key"
  shows "e \<in> set (ht_table ht ! nat (bucket T ht key))"
proof -
  obtain i where i: "i < length (ht_table ht)" "e \<in> set (ht_table ht ! i)"
    using assms(2) by (auto simp: in_set_conv_nth) metis
  then have "bucket T ht key = int i"
    using ht_okD(3) [OF assms(1) i] bucket_canon [OF assms(3)] by simp
  with i show ?thesis by simp
qed

lemma find_table:
  assumes ok: "ht_ok T ht" and ne: "ht_table ht \<noteq> []"
  shows "chain_find T key (ht_table ht ! nat (bucket T ht key)) = None \<longleftrightarrow>
      canon key \<notin> (canon \<circ> fst) ` set (concat (ht_table ht))"
    and "chain_find T key (ht_table ht ! nat (bucket T ht key)) = Some e \<Longrightarrow>
      e \<in> set (concat (ht_table ht)) \<and> canon (fst e) = canon key"
proof -
  let ?c = "ht_table ht ! nat (bucket T ht key)"
  have sub: "x \<in> set ?c \<Longrightarrow> x \<in> set (concat (ht_table ht))" for x
    using concat_nth_subset load_bucket(2) [OF ok ne] by metis
  show "chain_find T key ?c = None \<longleftrightarrow> canon key \<notin> (canon \<circ> fst) ` set (concat (ht_table ht))"
    unfolding chain_find_None using sub in_table_bucket [OF ok, of _ key] by (force simp del: set_concat)
  show "chain_find T key ?c = Some e \<Longrightarrow> e \<in> set (concat (ht_table ht)) \<and> canon (fst e) = canon key"
    using chain_find_Some sub by blast
qed

lemma find_spec:
  assumes ok: "dict_ok T canon d"
  obtains r where "dictFind T d key = Some r" "dict_map canon d (canon key) = map_option snd r"
proof -
  have h: "ht_ok T (ht0 d)" "ht_ok T (ht1 d)" "distinct (map (canon \<circ> fst) (entries d))"
    using ok by (simp_all add: dict_ok_def)
  let ?r = "dict_map canon d (canon key)"
  have hit: "?r = map_option snd (Some e)" if "e \<in> set (entries d)" "canon (fst e) = canon key" for e
    using canon_map_Some [OF h(3) that(1)] that(2) by (simp add: dict_map_alt)
  have miss: "?r = map_option snd None" if "canon key \<notin> (canon \<circ> fst) ` set (entries d)"
    using canon_map_None [of canon "entries d" "canon key", THEN iffD2, OF that] by (simp add: dict_map_alt)
  show thesis
  proof (cases "ht_table (ht0 d) = []")
    case True
    then have "rehashidx d = - 1" "ht1 d = dictReset" using ok by (auto simp: dict_ok_def split: if_splits)
    then have "entries d = []" using True by (simp add: entries_def)
    moreover have "dictFind T d key = Some None" using ht_okD(1) [OF h(1)] True by (simp add: dictFind_def)
    ultimately show thesis using that [of None] miss by simp
  next
    case ne: False
    then have sz: "ht_size (ht0 d) \<noteq> 0" using ht_okD(1) [OF h(1)] by simp
    note t0 = find_table [OF h(1) ne, of key] load_bucket(1) [OF h(1) ne, of key]
    show thesis
    proof (cases "chain_find T key (ht_table (ht0 d) ! nat (bucket T (ht0 d) key))")
      case (Some e)
      then have "dictFind T d key = Some (Some e)" using t0(3) sz by (simp add: dictFind_def)
      moreover have "e \<in> set (entries d)" "canon (fst e) = canon key"
        using t0(2) [OF Some] by (auto simp: entries_def)
      ultimately show thesis using that [of "Some e"] hit by blast
    next
      case None
      then have none0: "canon key \<notin> (canon \<circ> fst) ` set (concat (ht_table (ht0 d)))" using t0(1) by simp
      show thesis
      proof (cases "dictIsRehashing d")
        case False
        then have "entries d = concat (ht_table (ht0 d))"
          using ok by (simp add: entries_def dict_ok_def dictIsRehashing_def)
        moreover have "dictFind T d key = Some None"
          using t0(3) sz None False by (simp add: dictFind_def)
        ultimately show thesis using that [of None] miss none0 by metis
      next
        case True
        then have ne1: "ht_table (ht1 d) \<noteq> []" using ok by (simp add: dictIsRehashing_def dict_ok_def)
        note t1 = find_table [OF h(2) ne1, of key] load_bucket(1) [OF h(2) ne1, of key]
        let ?r1 = "chain_find T key (ht_table (ht1 d) ! nat (bucket T (ht1 d) key))"
        have run: "dictFind T d key = Some ?r1"
          using t0(3) t1(3) sz None True by (simp add: dictFind_def)
        show thesis
        proof (cases ?r1)
          case N: None
          then have "canon key \<notin> (canon \<circ> fst) ` set (entries d)"
            using t1(1) none0 by (simp add: entries_def image_Un del: set_concat)
          then show thesis using that [OF run] miss N by simp
        next
          case (Some e)
          then have "e \<in> set (entries d)" "canon (fst e) = canon key"
            using t1(2) [OF Some] by (auto simp: entries_def)
          then show thesis using that [OF run] hit Some by simp
        qed
      qed
    qed
  qed
qed

text \<open>The operations on the map.\<close>

lemma dict_map_miss: "dict_map canon d (canon key) = None \<Longrightarrow> canon key \<notin> (canon \<circ> fst) ` set (entries d)"
  by (simp add: dict_map_alt canon_map_None)

lemma set_in_chain_alt:
  "set_in_chain T key v es = map (\<lambda>e. if canon (fst e) = canon key then (fst e, dict_val T v) else e) es"
  by (simp add: set_in_chain_def cmp)

lemma canon_map_set_in_chain:
  "canon_map canon (set_in_chain T key v es) c =
     (if c = canon key \<and> canon_map canon es c \<noteq> None then Some (dict_val T v) else canon_map canon es c)"
  by (induction es) (auto simp: set_in_chain_alt)

lemma ht_ok_set_val:
  assumes "ht_ok T ht"
  shows "ht_ok T (ht\<lparr>ht_table := map (set_in_chain T key v) (ht_table ht)\<rparr>)"
proof -
  let ?h = "ht\<lparr>ht_table := map (set_in_chain T key v) (ht_table ht)\<rparr>"
  have b: "bucket T ?h = bucket T ht" by (simp add: bucket_def fun_eq_iff)
  have len: "length (concat (ht_table ?h)) = length (concat (ht_table ht))"
    by (simp add: length_concat set_in_chain_def comp_def)
  have "bucket T ht (fst e) = int i" if "i < length (ht_table ht)" "e \<in> set (set_in_chain T key v (ht_table ht ! i))" for i e
  proof -
    note here = that
    have "fst e \<in> fst ` set (ht_table ht ! i)" using here(2) by (force simp: set_in_chain_def)
    then obtain x where "x \<in> set (ht_table ht ! i)" "fst e = fst x" by (rule imageE) simp
    then show ?thesis using ht_okD(3) [OF assms here(1)] by metis
  qed
  then show ?thesis using assms len unfolding ht_ok_def b by (auto simp del: length_concat)
qed

lemma entries_set_val: "entries (dictSetVal T d key v) = set_in_chain T key v (entries d)"
  by (simp add: entries_def dictSetVal_def set_in_chain_def [abs_def] map_concat)

lemma set_val_ok:
  assumes ok: "dict_ok T canon d"
  shows "dict_ok T canon (dictSetVal T d key v)" "dict_live (dictSetVal T d key v) = dict_live d"
    "dict_map canon (dictSetVal T d key v) c =
       (if c = canon key \<and> dict_map canon d c \<noteq> None then Some (dict_val T v) else dict_map canon d c)"
proof -
  have "map (canon \<circ> fst) (set_in_chain T key v (entries d)) = map (canon \<circ> fst) (entries d)"
    by (simp add: set_in_chain_alt)
  then have "distinct (map (canon \<circ> fst) (entries (dictSetVal T d key v)))"
    using ok by (simp add: entries_set_val dict_ok_def)
  then show "dict_ok T canon (dictSetVal T d key v)"
    using ok ht_ok_set_val [of "ht0 d" key v] ht_ok_set_val [of "ht1 d" key v]
    by (auto simp: dict_ok_def dictSetVal_def set_in_chain_def dictReset_def)
  show "dict_live (dictSetVal T d key v) = dict_live d" by (simp add: dict_live_def dictSetVal_def)
  show "dict_map canon (dictSetVal T d key v) c =
       (if c = canon key \<and> dict_map canon d c \<noteq> None then Some (dict_val T v) else dict_map canon d c)"
    unfolding dict_map_alt entries_set_val by (rule canon_map_set_in_chain)
qed

lemma add_new:
  assumes ok: "dict_ok T canon d" and live: "dict_live d" and new: "dict_map canon d (canon key) = None"
  obtains d' where "dictAdd T d key v = Some (DICT_OK, d')" "dict_ok T canon d'" "dict_live d'"
    "dict_map canon d' = (dict_map canon d)(canon key \<mapsto> dict_val T v)"
proof -
  let ?e = "(dict_key T key, dict_val T None)"
  have notin: "canon (fst ?e) \<notin> (canon \<circ> fst) ` set (entries d)" using dict_map_miss [OF new] by (simp add: dup)
  obtain d1 where d1: "dictAddEntry T d ?e = Some d1" "dict_ok T canon d1" "dict_live d1"
    "mset (entries d1) = mset (?e # entries d)"
    using add_entry [OF ok live notin] by auto
  obtain r where "dictFind T d key = Some r" "dict_map canon d (canon key) = map_option snd r"
    by (rule find_spec [OF ok])
  then have "dictFind T d key = Some None" using new by simp
  then have run: "dictAdd T d key v = Some (DICT_OK, dictSetVal T d1 key v)"
    using d1(1) by (simp add: dictAdd_def dictAddRaw_def)
  have "dict_map canon d1 = (dict_map canon d)(canon key \<mapsto> dict_val T None)"
    using canon_map_mset [OF d1(4), of canon] d1(2) by (simp add: dict_map_alt dict_ok_def dup)
  then have "dict_map canon (dictSetVal T d1 key v) = (dict_map canon d)(canon key \<mapsto> dict_val T v)"
    by (auto simp: fun_eq_iff set_val_ok(3) [OF d1(2)])
  with run set_val_ok(1,2) [OF d1(2), of key v] d1(3) that show thesis by simp
qed

lemma add_dup:
  assumes ok: "dict_ok T canon d" and old: "dict_map canon d (canon key) \<noteq> None"
  shows "dictAdd T d key v = Some (DICT_ERR, d)"
proof -
  obtain r where "dictFind T d key = Some r" "dict_map canon d (canon key) = map_option snd r"
    by (rule find_spec [OF ok])
  then show ?thesis using old by (auto simp: dictAdd_def)
qed

lemma replace_spec:
  assumes ok: "dict_ok T canon d"
  shows "dict_map canon d (canon key) \<noteq> None \<Longrightarrow> dictReplace T d key v = Some (DICT_OK, dictSetVal T d key v)"
    and "dict_map canon d (canon key) = None \<Longrightarrow> dictReplace T d key v = Some (DICT_ERR, d)"
proof -
  obtain r where "dictFind T d key = Some r" "dict_map canon d (canon key) = map_option snd r"
    by (rule find_spec [OF ok])
  then show "dict_map canon d (canon key) \<noteq> None \<Longrightarrow> dictReplace T d key v = Some (DICT_OK, dictSetVal T d key v)"
    and "dict_map canon d (canon key) = None \<Longrightarrow> dictReplace T d key v = Some (DICT_ERR, d)"
    by (auto simp: dictReplace_def)
qed

lemma contains_spec:
  assumes ok: "dict_ok T canon d"
  shows "dictContains T d key = Some (dict_map canon d (canon key) \<noteq> None)"
proof -
  obtain r where "dictFind T d key = Some r" "dict_map canon d (canon key) = map_option snd r"
    by (rule find_spec [OF ok])
  then show ?thesis by (cases r) (auto simp: dictContains_def)
qed

text \<open>The value pointer of a key, null when the key is absent.\<close>

definition value_at :: "('k, 'v) dict \<Rightarrow> 'k \<Rightarrow> 'v option" where
  "value_at d key = (case dict_map canon d (canon key) of None \<Rightarrow> None | Some v \<Rightarrow> v)"

lemma fetch_spec:
  assumes ok: "dict_ok T canon d" and live: "dict_live d"
  obtains d' where "dictFetchValue T d key = Some (value_at d key, d')" "dict_ok T canon d'" "dict_live d'"
    "dict_map canon d' = dict_map canon d"
proof -
  obtain d1 where d1: "(if dictIsRehashing d then dictRehashStep T d else Some d) = Some d1"
    "dict_ok T canon d1" "dict_live d1" "mset (entries d1) = mset (entries d)"
  proof (cases "dictIsRehashing d")
    case True
    then have "rehashidx d \<noteq> - 1" by (simp add: dictIsRehashing_def)
    from rehash_step [OF ok this live] that True show thesis by metis
  next
    case False
    then show thesis using that ok live by simp
  qed
  have m: "dict_map canon d1 = dict_map canon d" by (rule dict_map_mset [OF d1(4) ok])
  obtain r where r: "dictFind T d1 key = Some r" "dict_map canon d1 (canon key) = map_option snd r"
    by (rule find_spec [OF d1(2)])
  then have "(case r of Some e \<Rightarrow> snd e | None \<Rightarrow> None) = value_at d key"
    unfolding value_at_def m [symmetric] by (cases r) auto
  then have "dictFetchValue T d key = Some (value_at d key, d1)"
    using d1(1) r(1) by (simp add: dictFetchValue_def)
  then show thesis using that d1 m by blast
qed

lemma chain_remove_None: "chain_remove T key es = None \<longleftrightarrow> canon key \<notin> (canon \<circ> fst) ` set es"
  by (induction es) (auto simp: cmp)

lemma chain_remove_Some:
  "chain_remove T key es = Some (e, es') \<Longrightarrow> canon (fst e) = canon key \<and> mset es = add_mset e (mset es')"
  by (induction es arbitrary: es') (auto simp: cmp split: if_splits)

text \<open>Removing from one well-formed table: either the key is not in it, or one entry goes.\<close>

lemma ht_remove_cases:
  assumes ok: "ht_ok T ht" and ne: "ht_table ht \<noteq> []"
  obtains (absent) "ht_remove T ht key = Some None" "canon key \<notin> (canon \<circ> fst) ` set (concat (ht_table ht))"
    | (found) e h where "ht_remove T ht key = Some (Some (e, h))" "canon (fst e) = canon key"
        "ht_ok T h" "ht_table h \<noteq> []" "mset (concat (ht_table ht)) = add_mset e (mset (concat (ht_table h)))"
        "\<And>i. ht_table ht ! i = [] \<Longrightarrow> ht_table h ! i = []" "length (ht_table h) = length (ht_table ht)"
proof -
  let ?i = "nat (bucket T ht key)"
  note ld = load_bucket [OF ok ne, of key] and r = bucket_range [OF ok ne, of key]
  show thesis
  proof (cases "chain_remove T key (ht_table ht ! ?i)")
    case None
    then have "chain_find T key (ht_table ht ! ?i) = None" by (simp add: chain_remove_None chain_find_None)
    then have "canon key \<notin> (canon \<circ> fst) ` set (concat (ht_table ht))" using find_table(1) [OF ok ne] by blast
    moreover have "ht_remove T ht key = Some None" using ld(1) None by (simp add: ht_remove_def)
    ultimately show thesis by (rule absent [rotated])
  next
    case (Some p)
    obtain e es where p: "p = (e, es)" by (cases p)
    have e: "canon (fst e) = canon key" "mset (ht_table ht ! ?i) = add_mset e (mset es)"
      using chain_remove_Some Some p by auto
    let ?h = "ht\<lparr>ht_table := (ht_table ht)[?i := es], ht_used := ht_used ht - 1\<rparr>"
    have run: "ht_remove T ht key = Some (Some (e, ?h))"
      using ld Some p r by (simp add: ht_remove_def store_def)
    note h = ht_removeD [OF ok ld(2) e(2)]
    have "ht_table ?h ! i = []" if "ht_table ht ! i = []" for i
      using that e(2) ld(2) by (cases "i = ?i") auto
    then show thesis using found [OF run e(1) h(1) h(3) h(2)] by simp
  qed
qed

lemma canon_map_remove:
  assumes "mset es = add_mset e (mset es')" "distinct (map (canon \<circ> fst) es)"
  shows "canon_map canon es' = (canon_map canon es)(canon (fst e) := None)"
    and "canon_map canon es (canon (fst e)) = Some (snd e)" and "distinct (map (canon \<circ> fst) es')"
proof -
  have m: "mset es = mset (e # es')" using assms(1) by simp
  then have d: "distinct (map (canon \<circ> fst) (e # es'))" using assms(2) distinct_map_mset by blast
  have c: "canon_map canon es = canon_map canon (e # es')" by (rule canon_map_mset [OF m assms(2)])
  have "canon_map canon es' (canon (fst e)) = None" using d by (simp add: canon_map_None)
  then show "canon_map canon es' = (canon_map canon es)(canon (fst e) := None)"
    unfolding c by (auto simp: fun_eq_iff)
  show "canon_map canon es (canon (fst e)) = Some (snd e)" unfolding c by simp
  show "distinct (map (canon \<circ> fst) es')" using d by simp
qed

lemma delete_spec:
  assumes ok: "dict_ok T canon d" and live: "dict_live d"
  obtains fr d' where
    "dictDelete T d key = Some (if dict_map canon d (canon key) = None then DICT_ERR else DICT_OK, fr, d')"
    "dict_ok T canon d'" "dict_map canon d' = (dict_map canon d)(canon key := None)"
    "map_option snd fr = dict_map canon d (canon key)"
    "dict_live d' \<or> fr \<noteq> None \<and> rehashidx d' \<noteq> - 1"
proof -
  define d1 where "d1 = dictExpandIfNeed d"
  note x = expand_if_need [OF ok live, folded d1_def]
  obtain d2 where d2: "(if dictIsRehashing d1 then dictRehashStep T d1 else Some d1) = Some d2"
    "dict_ok T canon d2" "dict_live d2" "mset (entries d2) = mset (entries d)" "ht_table (ht0 d2) \<noteq> []"
  proof (cases "dictIsRehashing d1")
    case True
    then have "rehashidx d1 \<noteq> - 1" by (simp add: dictIsRehashing_def)
    from rehash_step [OF x(1) this x(2)] that True x(3) show thesis by metis
  next
    case False
    then show thesis using that x by simp
  qed
  have m: "dict_map canon d2 = dict_map canon d" by (rule dict_map_mset [OF d2(4) ok])
  have h: "ht_ok T (ht0 d2)" "ht_ok T (ht1 d2)" "distinct (map (canon \<circ> fst) (entries d2))"
    using d2(2) by (simp_all add: dict_ok_def)
  have run: "dictDelete T d key = (do {
     r0 \<leftarrow> ht_remove T (ht0 d2) key;
     (case r0 of Some (e, h0) \<Rightarrow> Some (DICT_OK, Some e, d2\<lparr>ht0 := h0\<rparr>)
      | None \<Rightarrow> if \<not> dictIsRehashing d2 then Some (DICT_ERR, None, d2)
          else do {
            r1 \<leftarrow> ht_remove T (ht1 d2) key;
            Some (case r1 of Some (e, h1) \<Rightarrow> (DICT_OK, Some e, d2\<lparr>ht1 := h1\<rparr>)
              | None \<Rightarrow> (DICT_ERR, None, d2))
          }) })"
    using d2(1) by (simp add: dictDelete_def d1_def [symmetric] Let_def)
  from h(1) d2(5) show thesis
  proof (cases rule: ht_remove_cases [where key = key])
    case (found e h0)
    let ?d = "d2\<lparr>ht0 := h0\<rparr>"
    have ms: "mset (entries d2) = add_mset e (mset (entries ?d))" using found(5) by (simp add: mset_entries)
    note c = canon_map_remove [OF ms h(3)]
    have ok': "dict_ok T canon ?d" using d2(2) found(3,4,6,7) c(3) by (auto simp: dict_ok_def)
    have some: "dict_map canon d2 (canon key) = Some (snd e)" using c(2) found(2) by (simp add: dict_map_alt)
    have gone: "dict_map canon ?d = (dict_map canon d2)(canon key := None)" using c(1) found(2) by (simp add: dict_map_alt)
    have lv: "dict_live ?d \<or> rehashidx ?d \<noteq> - 1" by (auto simp: dict_live_def)
    show thesis
      by (rule that [of "Some e" ?d]) (use run found(1,2) ok' some gone lv in \<open>simp_all add: m [symmetric]\<close>)
  next
    case absent
    note gone = absent(2)
    show thesis
    proof (cases "dictIsRehashing d2")
      case False
      then have "entries d2 = concat (ht_table (ht0 d2))"
        using d2(2) by (simp add: entries_def dict_ok_def dictIsRehashing_def)
      then have none: "dict_map canon d2 (canon key) = None"
        unfolding dict_map_alt canon_map_None using gone by simp
      then have "(dict_map canon d)(canon key := None) = dict_map canon d" unfolding m by auto
      then show thesis
        by (intro that [of None d2]) (use run absent(1) False none d2 in \<open>simp_all add: m\<close>)
    next
      case True
      then have ne1: "ht_table (ht1 d2) \<noteq> []" and re: "rehashidx d2 \<noteq> - 1"
        using d2(2) by (simp_all add: dictIsRehashing_def dict_ok_def)
      from h(2) ne1 show thesis
      proof (cases rule: ht_remove_cases [where key = key])
        case (found e h1)
        let ?d = "d2\<lparr>ht1 := h1\<rparr>"
        have ms: "mset (entries d2) = add_mset e (mset (entries ?d))" using found(5) by (simp add: mset_entries)
        note c = canon_map_remove [OF ms h(3)]
        have ok': "dict_ok T canon ?d" using d2(2) re found(3,4) c(3) by (auto simp: dict_ok_def)
        have some: "dict_map canon d2 (canon key) = Some (snd e)"
          using c(2) found(2) by (simp add: dict_map_alt)
        have gone: "dict_map canon ?d = (dict_map canon d2)(canon key := None)"
          using c(1) found(2) by (simp add: dict_map_alt)
        have lv: "dict_live ?d" using d2(3) by (simp add: dict_live_def)
        show thesis
          by (rule that [of "Some e" ?d])
            (use run absent(1) True found(1,2) ok' some gone lv in \<open>simp_all add: m [symmetric]\<close>)
      next
        case absent1: absent
        then have none: "dict_map canon d2 (canon key) = None"
          unfolding dict_map_alt canon_map_None entries_def using gone by (simp add: image_Un del: set_concat)
        then have "(dict_map canon d)(canon key := None) = dict_map canon d" unfolding m by auto
        then show thesis
          by (intro that [of None d2]) (use run absent(1) absent1(1) True none d2 in \<open>simp_all add: m\<close>)
      qed
    qed
  qed
qed

end

section \<open>The interface a dictionary offers\<close>

text \<open>
  A store of values under keys, as the database uses it: \<open>good\<close> is the state in which every operation
  has a result, \<open>absm\<close> the map, \<open>key\<close> what identifies a key and \<open>stored\<close> what is kept of a value.
\<close>

locale map_store =
  fixes good :: "'s \<Rightarrow> bool"
    and absm :: "'s \<Rightarrow> 'c \<Rightarrow> 'v option option"
    and key :: "'k \<Rightarrow> 'c"
    and stored :: "'v option \<Rightarrow> 'v option"
    and add :: "'s \<Rightarrow> 'k \<Rightarrow> 'v option \<Rightarrow> (int \<times> 's) option"
    and replace :: "'s \<Rightarrow> 'k \<Rightarrow> 'v option \<Rightarrow> (int \<times> 's) option"
    and contains :: "'s \<Rightarrow> 'k \<Rightarrow> bool option"
    and fetch :: "'s \<Rightarrow> 'k \<Rightarrow> ('v option \<times> 's) option"
  assumes add_law: "good s \<Longrightarrow> absm s (key k) = None \<Longrightarrow>
        \<exists>s'. add s k v = Some (0, s') \<and> good s' \<and> absm s' = (absm s)(key k \<mapsto> stored v)"
    and add_dup_law: "good s \<Longrightarrow> absm s (key k) \<noteq> None \<Longrightarrow> add s k v = Some (- 1, s)"
    and replace_law: "good s \<Longrightarrow> absm s (key k) \<noteq> None \<Longrightarrow>
        \<exists>s'. replace s k v = Some (0, s') \<and> good s' \<and> absm s' = (absm s)(key k \<mapsto> stored v)"
    and contains_law: "good s \<Longrightarrow> contains s k = Some (absm s (key k) \<noteq> None)"
    and fetch_law: "good s \<Longrightarrow> \<exists>s'. fetch s k =
        Some (case absm s (key k) of None \<Rightarrow> None | Some v \<Rightarrow> v, s') \<and> good s' \<and> absm s' = absm s"
begin

text \<open>Adds or replaces, the way the database sets a key.\<close>

definition put :: "'s \<Rightarrow> 'k \<Rightarrow> 'v option \<Rightarrow> (int \<times> 's) option" where
  "put s k v = do { c \<leftarrow> contains s k; if \<not> c then add s k v else replace s k v }"

lemma put_law:
  "good s \<Longrightarrow> \<exists>s'. put s k v = Some (0, s') \<and> good s' \<and> absm s' = (absm s)(key k \<mapsto> stored v)"
  using add_law [of s k v] replace_law [of s k v] contains_law [of s k]
  by (cases "absm s (key k) = None") (auto simp: put_def)

lemma put_fetch:
  assumes "good s"
  shows "\<exists>s1 s2. put s k v = Some (0, s1) \<and> good s1 \<and>
     fetch s1 k' = Some (if key k' = key k then stored v
       else (case absm s (key k') of None \<Rightarrow> None | Some w \<Rightarrow> w), s2) \<and> good s2 \<and>
     absm s2 = (absm s)(key k \<mapsto> stored v)"
proof -
  obtain s1 where s1: "put s k v = Some (0, s1)" "good s1" "absm s1 = (absm s)(key k \<mapsto> stored v)"
    using put_law [OF assms] by blast
  obtain s2 where "fetch s1 k' = Some (case absm s1 (key k') of None \<Rightarrow> None | Some w \<Rightarrow> w, s2)" "good s2" "absm s2 = absm s1"
    using fetch_law [OF s1(2)] by blast
  with s1 show ?thesis by (intro exI [of _ s1] exI [of _ s2]) auto
qed

end

definition dict_good :: "('k, 'v) dictType \<Rightarrow> ('k \<Rightarrow> 'c) \<Rightarrow> ('k, 'v) dict \<Rightarrow> bool" where
  "dict_good T canon d \<longleftrightarrow> dict_ok T canon d \<and> dict_live d"

lemma dictCreate_good: "dict_good T canon dictCreate" "dict_map canon dictCreate = Map.empty"
  by (simp_all add: dict_good_def dict_ok_def dict_live_def dictCreate_def dictInit_def entries_def dict_map_alt)

sublocale hash_keys \<subseteq> store: map_store "dict_good T canon" "dict_map canon" canon "dict_val T"
  "dictAdd T" "dictReplace T" "dictContains T" "dictFetchValue T"
proof (unfold_locales, goal_cases)
  case (1 s k v)
  then have g: "dict_ok T canon s" "dict_live s" by (simp_all add: dict_good_def)
  obtain d' where "dictAdd T s k v = Some (DICT_OK, d')" "dict_ok T canon d'" "dict_live d'"
    "dict_map canon d' = (dict_map canon s)(canon k \<mapsto> dict_val T v)" by (rule add_new [OF g 1(2)])
  then show ?case by (auto simp: dict_good_def DICT_OK_def)
next
  case (2 s k v)
  then show ?case using add_dup [of s k v] by (simp add: dict_good_def DICT_ERR_def)
next
  case (3 s k v)
  then have g: "dict_ok T canon s" "dict_live s" by (simp_all add: dict_good_def)
  have "dict_map canon (dictSetVal T s k v) = (dict_map canon s)(canon k \<mapsto> dict_val T v)"
    using 3(2) by (auto simp: fun_eq_iff set_val_ok(3) [OF g(1)])
  then show ?case using replace_spec(1) [OF g(1) 3(2), of v] set_val_ok(1,2) [OF g(1), of k v] g(2)
    by (simp add: dict_good_def DICT_OK_def)
next
  case (4 s k)
  then show ?case using contains_spec [of s k] by (simp add: dict_good_def)
next
  case (5 s k)
  then have g: "dict_ok T canon s" "dict_live s" by (simp_all add: dict_good_def)
  obtain d' where "dictFetchValue T s k = Some (value_at s k, d')" "dict_ok T canon d'" "dict_live d'"
    "dict_map canon d' = dict_map canon s" by (rule fetch_spec [OF g])
  then show ?case by (auto simp: dict_good_def value_at_def)
qed

context hash_keys
begin

lemma add_any:
  assumes "dict_good T canon d"
  shows "\<exists>d'. dictAdd T d k v = Some (if dict_map canon d (canon k) = None then DICT_OK else DICT_ERR, d')
     \<and> dict_good T canon d' \<and> dict_map canon d' = (if dict_map canon d (canon k) = None
          then (dict_map canon d)(canon k \<mapsto> dict_val T v) else dict_map canon d)"
  using store.add_law [OF assms, of k v] store.add_dup_law [OF assms, of k v] assms
  by (cases "dict_map canon d (canon k) = None") (auto simp: DICT_OK_def DICT_ERR_def)

lemma fetch_any:
  assumes "dict_good T canon d"
  shows "\<exists>d'. dictFetchValue T d k = Some (case dict_map canon d (canon k) of None \<Rightarrow> None | Some w \<Rightarrow> w, d')
     \<and> dict_good T canon d' \<and> dict_map canon d' = dict_map canon d"
  by (rule store.fetch_law [OF assms])

end

section \<open>Iteration\<close>

definition collects :: "('k, 'v) dict \<Rightarrow> ('k, 'v) dictIterator \<Rightarrow> ('k, 'v) dictEntry list \<Rightarrow> bool" where
  "collects d it es \<longleftrightarrow> (\<forall>n > length es. iter_collect n d it = Some es)"

lemma collects_Nil: "dictIterNext d it = Some (None, it') \<Longrightarrow> collects d it []"
proof -
  assume a: "dictIterNext d it = Some (None, it')"
  have "iter_collect n d it = Some []" if "n > 0" for n using that a by (cases n) auto
  then show ?thesis by (simp add: collects_def)
qed

lemma collects_Cons: "dictIterNext d it = Some (Some e, it') \<Longrightarrow> collects d it' es \<Longrightarrow> collects d it (e # es)"
proof -
  assume a: "dictIterNext d it = Some (Some e, it')" "collects d it' es"
  have "iter_collect n d it = Some (e # es)" if "n > length (e # es)" for n
    using that a by (cases n) (auto simp: collects_def)
  then show ?thesis by (simp add: collects_def)
qed

lemma collects_eq: "dictIterNext d it = dictIterNext d it' \<Longrightarrow> collects d it' es \<Longrightarrow> collects d it es"
proof -
  assume a: "dictIterNext d it = dictIterNext d it'" "collects d it' es"
  have "iter_collect n d it = iter_collect n d it'" for n by (cases n) (simp_all add: a(1))
  with a(2) show ?thesis by (simp add: collects_def)
qed

lemma collects_end: "it_htidx it \<ge> 2 \<Longrightarrow> collects d it []"
  by (rule collects_Nil) (simp add: dictIterNext.simps)

lemma next_bucket_spec:
  assumes "ht_size ht = int (length (ht_table ht))" "- 1 \<le> i" "i + 1 \<le> ht_size ht"
  shows "next_bucket ht i = Some None \<and> concat (drop (nat (i + 1)) (ht_table ht)) = [] \<or>
     (\<exists>j e es. next_bucket ht i = Some (Some (int j, e # es)) \<and> j < length (ht_table ht) \<and>
        concat (drop (nat (i + 1)) (ht_table ht)) = e # es @ concat (drop (Suc j) (ht_table ht)))"
  using assms
proof (induction ht i rule: next_bucket.induct)
  case (1 ht i)
  show ?case
  proof (cases "i + 1 = ht_size ht")
    case True
    then show ?thesis using 1(2) by (simp add: next_bucket.simps)
  next
    case False
    let ?k = "nat (i + 1)"
    have k: "?k < length (ht_table ht)" "nat (i + 1 + 1) = Suc ?k" "int ?k = i + 1" using 1 False by auto
    have ld: "load (ht_table ht) (i + 1) = Some (ht_table ht ! ?k)" using k load_nat [of ?k] by metis
    have dr: "drop ?k (ht_table ht) = ht_table ht ! ?k # drop (Suc ?k) (ht_table ht)"
      using k(1) by (simp add: Cons_nth_drop_Suc)
    show ?thesis
    proof (cases "ht_table ht ! ?k")
      case Nil
      have "next_bucket ht i = next_bucket ht (i + 1)" using False ld Nil by (simp add: next_bucket.simps [of ht i])
      moreover have "concat (drop ?k (ht_table ht)) = concat (drop (nat (i + 1 + 1)) (ht_table ht))"
        using dr Nil k(2) by simp
      moreover have "- 1 \<le> i + 1" "i + 1 + 1 \<le> ht_size ht" using 1 False by auto
      ultimately show ?thesis using 1(1) [OF False ld Nil 1(2)] by simp
    next
      case (Cons e es)
      then have "next_bucket ht i = Some (Some (int ?k, e # es))"
        using False ld k(3) by (simp add: next_bucket.simps [of ht i])
      then show ?thesis using k(1) dr Cons by (intro disjI2 exI [of _ ?k]) simp
    qed
  qed
qed

lemma collects_table:
  assumes "length (it_entry it @ concat (drop (nat (it_index it + 1)) (ht_table ht))) = m"
    and "ht = (if it_htidx it = 0 then ht0 d else ht1 d)" "it_htidx it < 2"
    and "ht_size ht = int (length (ht_table ht))" "ht_used ht \<noteq> 0"
    and "- 1 \<le> it_index it" "it_index it + 1 \<le> ht_size ht"
    and "collects d (it\<lparr>it_index := 0, it_entry := [], it_htidx := it_htidx it + 1\<rparr>) rest"
  shows "collects d it (it_entry it @ concat (drop (nat (it_index it + 1)) (ht_table ht)) @ rest)"
  using assms
proof (induction m arbitrary: it rule: less_induct)
  case (less m it)
  let ?t = "ht_table ht"
  note step = dictIterNext.simps [of d it]
  show ?case
  proof (cases "it_entry it")
    case (Cons e es)
    let ?it = "it\<lparr>it_entry := es\<rparr>"
    have n: "dictIterNext d it = Some (Some e, ?it)" using less.prems Cons by (simp add: step)
    have "collects d ?it (it_entry ?it @ concat (drop (nat (it_index ?it + 1)) ?t) @ rest)"
      by (rule less.IH [OF _ refl]) (use less.prems Cons in auto)
    then show ?thesis using collects_Cons [OF n] Cons by simp
  next
    case Nil
    consider "next_bucket ht (it_index it) = Some None" "concat (drop (nat (it_index it + 1)) ?t) = []"
      | j e es where "next_bucket ht (it_index it) = Some (Some (int j, e # es))" "j < length ?t"
        "concat (drop (nat (it_index it + 1)) ?t) = e # es @ concat (drop (Suc j) ?t)"
      using next_bucket_spec [OF less.prems(4,6,7)] by blast
    then show ?thesis
    proof cases
      case 1
      let ?it = "it\<lparr>it_index := 0, it_entry := [], it_htidx := it_htidx it + 1\<rparr>"
      have "dictIterNext d it = dictIterNext d (it\<lparr>it_index := 0, it_htidx := it_htidx it + 1\<rparr>)"
        using less.prems Nil 1 by (simp add: step)
      also have "it\<lparr>it_index := 0, it_htidx := it_htidx it + 1\<rparr> = ?it" using Nil by (cases it) simp
      finally have "collects d it rest" by (rule collects_eq) (rule less.prems(8))
      then show ?thesis using Nil 1(2) by (simp del: concat_eq_Nil_conv)
    next
      case 2
      let ?it = "it\<lparr>it_index := int j, it_entry := es\<rparr>"
      have n: "dictIterNext d it = Some (Some e, ?it)" using less.prems Nil 2(1) by (simp add: step)
      have nj: "nat (int j + 1) = Suc j" by simp
      have "collects d ?it (it_entry ?it @ concat (drop (nat (it_index ?it + 1)) ?t) @ rest)"
        by (rule less.IH [OF _ refl]) (use less.prems Nil 2 nj in auto)
      then show ?thesis using collects_Cons [OF n] Nil 2(3) nj by simp
    qed
  qed
qed

lemma iter_skip:
  "it_htidx it < 2 \<Longrightarrow> ht_used (if it_htidx it = 0 then ht0 d else ht1 d) = 0 \<Longrightarrow>
     dictIterNext d it = dictIterNext d (it\<lparr>it_htidx := it_htidx it + 1\<rparr>)"
  by (simp add: dictIterNext.simps [of d it])

lemma collects_skip:
  "it_htidx it < 2 \<Longrightarrow> ht_used (if it_htidx it = 0 then ht0 d else ht1 d) = 0 \<Longrightarrow>
     collects d (it\<lparr>it_htidx := it_htidx it + 1\<rparr>) es \<Longrightarrow> collects d it es"
  by (rule collects_eq [OF iter_skip])

text \<open>What a whole iteration returns, with the second table from its second bucket on.\<close>

lemma collects_dict:
  assumes ok: "dict_ok T canon d" and live: "dict_live d"
  shows "collects d dictGetIterator
     (concat (ht_table (ht0 d)) @ (if rehashidx d = - 1 then [] else concat (drop 1 (ht_table (ht1 d)))))"
proof -
  have h: "ht_ok T (ht0 d)" "ht_ok T (ht1 d)" using ok by (simp_all add: dict_ok_def)
  let ?tail = "if rehashidx d = - 1 then [] else concat (drop 1 (ht_table (ht1 d)))"
  let ?it1 = "dictGetIterator\<lparr>it_index := 0, it_entry := [], it_htidx := 1\<rparr>"
  have tail: "collects d ?it1 ?tail"
  proof (cases "ht_used (ht1 d) = 0")
    case True
    then have "concat (ht_table (ht1 d)) = []" using ht_okD(2) [OF h(2)] by simp
    then have "concat (drop 1 (ht_table (ht1 d))) = []" by (auto dest: in_set_dropD)
    moreover have "collects d ?it1 []"
      by (rule collects_skip) (use True in \<open>simp_all add: collects_end\<close>)
    ultimately show ?thesis by (simp del: concat_eq_Nil_conv)
  next
    case False
    then have ne: "ht_table (ht1 d) \<noteq> []" using ht_okD(2) [OF h(2)] by auto
    have "rehashidx d \<noteq> - 1" using ok ne by (auto simp: dict_ok_def)
    note re = this ne
    have "1 \<le> length (ht_table (ht1 d))" using re(2) by (cases "ht_table (ht1 d)") simp_all
    then have "collects d ?it1 (concat (drop 1 (ht_table (ht1 d))))"
      using collects_table [of ?it1 "ht1 d" _ d "[]", OF refl] False ht_okD(1) [OF h(2)]
      by (simp add: collects_end)
    then show ?thesis using re by simp
  qed
  show ?thesis
  proof (cases "ht_used (ht0 d) = 0")
    case True
    then have re: "rehashidx d = - 1" using live by (simp add: dict_live_def)
    then have "ht_used (ht1 d) = 0" using ok by (simp add: dict_ok_def)
    then have "collects d (dictGetIterator\<lparr>it_htidx := 1\<rparr>) []"
      by - (rule collects_skip, simp_all add: collects_end)
    then have "collects d dictGetIterator []"
      using True by - (rule collects_skip, simp_all add: dictGetIterator_def)
    moreover have "concat (ht_table (ht0 d)) = []" using ht_okD(2) [OF h(1)] True by simp
    ultimately show ?thesis using re by (simp del: concat_eq_Nil_conv)
  next
    case False
    have start: "- 1 \<le> it_index dictGetIterator" "it_index dictGetIterator + 1 \<le> ht_size (ht0 d)"
      "it_htidx dictGetIterator = 0" "it_entry dictGetIterator = []" "nat (it_index dictGetIterator + 1) = 0"
      using ht_okD(1) [OF h(1)] by (simp_all add: dictGetIterator_def)
    have "collects d dictGetIterator ([] @ concat (drop 0 (ht_table (ht0 d))) @ ?tail)"
      by (rule collects_table [of dictGetIterator "ht0 d" _ d ?tail, OF refl, unfolded start])
        (use False ht_okD(1) [OF h(1)] tail in \<open>simp_all add: dictGetIterator_def\<close>)
    then show ?thesis by simp
  qed
qed

lemma collects_run: "collects d it es \<Longrightarrow> length es < n \<Longrightarrow> iter_collect n d it = Some es"
  by (simp add: collects_def)

section \<open>Random keys\<close>

lemma random_bucket_hit:
  "random_bucket rand ht n = Some p \<Longrightarrow> snd p \<noteq> [] \<and> snd p \<in> set (ht_table ht)"
  by (erule random_bucket.raw_induct [rotated]) (auto simp: load_def split: if_splits option.splits)

lemma random_bucket_returns:
  assumes "ht_size ht = int (length (ht_table ht))" "ht_table ht \<noteq> []" "n \<le> j"
    and "ht_table ht ! nat (rand j mod ht_size ht) \<noteq> []"
  shows "\<exists>m es. random_bucket rand ht n = Some (m, es)"
  using assms(3)
proof (induction "j - n" arbitrary: n)
  case 0
  then have "n = j" by simp
  have "0 < ht_size ht" using assms(1,2) by simp
  then have "load (ht_table ht) (rand j mod ht_size ht) = Some (ht_table ht ! nat (rand j mod ht_size ht))"
    using assms(1) by (simp add: load_def)
  with \<open>n = j\<close> assms(4) show ?case by (subst random_bucket.simps) simp
next
  case (Suc k)
  have "0 < ht_size ht" using assms(1,2) by simp
  then have "load (ht_table ht) (rand n mod ht_size ht) = Some (ht_table ht ! nat (rand n mod ht_size ht))"
    using assms(1) by (simp add: load_def)
  with Suc(1) [of "n + 1"] Suc(2,3) show ?case by (subst random_bucket.simps) simp
qed

lemma dead_operations:
  assumes ok: "dict_ok T canon d" and dead: "\<not> dict_live d"
  shows "dictFetchValue T d k = None" "dictDelete T d k = None"
proof -
  have re: "dictIsRehashing d" using dead by (simp add: dict_live_def dictIsRehashing_def)
  note n = rehash_step_dead [OF ok dead]
  show "dictFetchValue T d k = None" using re n by (simp add: dictFetchValue_def)
  show "dictDelete T d k = None" using re n by (simp add: dictDelete_def dictExpandIfNeed_def Let_def)
qed

text \<open>A small key type for the instances.\<close>

definition nat_keys :: "(nat, nat) dictType" where
  "nat_keys = \<lparr>hashFunction = word_of_nat, keyDup = None, valDup = None, keyCompare = (\<lambda>a b. int a - int b)\<rparr>"

lemma nat_keys: "hash_keys nat_keys id"
  by unfold_locales (auto simp: nat_keys_def dict_key_def)

definition one_entry :: "(nat, nat) dict" where
  "one_entry = \<lparr>ht0 = \<lparr>ht_table = [[], [(5, Some 9)], [], []], ht_size = 4, ht_sizemask = 3, ht_used = 1\<rparr>,
     ht1 = dictReset, rehashidx = - 1\<rparr>"

lemma one_entry_good: "dict_good nat_keys id one_entry"
proof -
  have "bucket nat_keys (ht0 one_entry) 5 = 1" by (simp add: bucket_def nat_keys_def one_entry_def)
  moreover have "\<exists>k. Suc (Suc (Suc (Suc 0))) = 2 ^ k" by (rule exI [of _ 2]) simp
  ultimately have "ht_ok nat_keys (ht0 one_entry)"
    unfolding ht_ok_def by (simp add: one_entry_def All_less_Suc)
  then show ?thesis
    by (simp add: dict_good_def dict_ok_def dict_live_def one_entry_def entries_def)
qed

lemma one_entry_map: "dict_map id one_entry = [5 \<mapsto> Some 9]"
  by (simp add: dict_map_alt entries_def one_entry_def dictReset_def)

definition dead_dict :: "(nat, nat) dict" where
  "dead_dict = \<lparr>ht0 = \<lparr>ht_table = [[]], ht_size = 1, ht_sizemask = 0, ht_used = 0\<rparr>,
     ht1 = \<lparr>ht_table = [[(5, Some 9)]], ht_size = 1, ht_sizemask = 0, ht_used = 1\<rparr>, rehashidx = 0\<rparr>"

lemma dead_dict_ok: "dict_ok nat_keys id dead_dict" "\<not> dict_live dead_dict"
  by (auto simp: dict_ok_def dict_live_def ht_ok_def dead_dict_def entries_def bucket_def intro: exI [of _ 0])

section \<open>Properties\<close>

text \<open>
  C30. Adding a key stores the value exactly when the key is absent (and says so in its return code),
  changes the map at that key only, and a later fetch of any key returns what the new map holds;
  growth and incremental rehashing along the way are not visible.
\<close>

theorem dict_add_fetch:
  assumes "hash_keys T canon" "dict_good T canon d"
  shows "\<exists>d1 d2. dictAdd T d k v = Some (if dict_map canon d (canon k) = None then DICT_OK else DICT_ERR, d1)
     \<and> dict_good T canon d1
     \<and> dict_map canon d1 = (if dict_map canon d (canon k) = None
          then (dict_map canon d)(canon k \<mapsto> dict_val T v) else dict_map canon d)
     \<and> dictFetchValue T d1 k' = Some (case dict_map canon d1 (canon k') of None \<Rightarrow> None | Some w \<Rightarrow> w, d2)
     \<and> dict_good T canon d2 \<and> dict_map canon d2 = dict_map canon d1"
proof -
  note add = hash_keys.add_any [OF assms, of k v]
  then obtain d1 where d1:
    "dictAdd T d k v = Some (if dict_map canon d (canon k) = None then DICT_OK else DICT_ERR, d1)"
    "dict_good T canon d1" "dict_map canon d1 = (if dict_map canon d (canon k) = None
          then (dict_map canon d)(canon k \<mapsto> dict_val T v) else dict_map canon d)" by blast
  from hash_keys.fetch_any [OF assms(1) d1(2), of k'] d1 show ?thesis by blast
qed

theorem dict_add_fetch_witness:
  "\<exists>d1 d2. dictAdd nat_keys one_entry 1 (Some 7) = Some (DICT_OK, d1)
     \<and> dictFetchValue nat_keys d1 5 = Some (Some 9, d2) \<and> dict_map id d2 = [5 \<mapsto> Some 9, 1 \<mapsto> Some 7]"
  using dict_add_fetch [OF nat_keys one_entry_good, of 1 "Some 7" 5]
  by (auto simp: one_entry_map dict_val_def nat_keys_def)

text \<open>
  C31. Deleting a key removes it from the map and nothing else, returns its entry and \<open>DICT_OK\<close> exactly
  when it was there, and keeps the representation invariant.
\<close>

theorem dict_delete_removes:
  assumes "hash_keys T canon" "dict_good T canon d"
  shows "\<exists>fr d'. dictDelete T d k = Some (if dict_map canon d (canon k) = None then DICT_ERR else DICT_OK, fr, d')
     \<and> dict_ok T canon d' \<and> dict_map canon d' = (dict_map canon d)(canon k := None)
     \<and> map_option snd fr = dict_map canon d (canon k)"
proof -
  obtain fr d' where
    "dictDelete T d k = Some (if dict_map canon d (canon k) = None then DICT_ERR else DICT_OK, fr, d')"
    "dict_ok T canon d'" "dict_map canon d' = (dict_map canon d)(canon k := None)"
    "map_option snd fr = dict_map canon d (canon k)"
    by (rule hash_keys.delete_spec [OF assms(1), of d k]) (use assms(2) in \<open>simp_all add: dict_good_def\<close>)
  then show ?thesis by blast
qed

theorem dict_delete_removes_witness:
  "\<exists>fr d'. dictDelete nat_keys one_entry 5 = Some (DICT_OK, fr, d') \<and> dict_map id d' = Map.empty
     \<and> map_option snd fr = Some (Some 9)"
  using dict_delete_removes [OF nat_keys one_entry_good, of 5] by (auto simp: one_entry_map)

text \<open>
  C32. A step of the incremental rehashing, on a dictionary whose old table still has entries, always
  finds an entry to move and leaves the entries as a multiset, hence the map, unchanged.
\<close>

theorem dict_rehash_step_invisible:
  assumes "dict_ok T canon d" "dictIsRehashing d" "dict_live d"
  shows "\<exists>d'. dictRehashStep T d = Some d' \<and> dict_good T canon d'
     \<and> mset (entries d') = mset (entries d) \<and> dict_map canon d' = dict_map canon d"
proof -
  have re: "rehashidx d \<noteq> - 1" using assms(2) by (simp add: dictIsRehashing_def)
  obtain d' where d': "dictRehashStep T d = Some d'" "dict_ok T canon d'" "dict_live d'"
    "mset (entries d') = mset (entries d)" by (rule rehash_step [OF assms(1) re assms(3)])
  moreover have "dict_map canon d' = dict_map canon d" by (rule dict_map_mset [OF d'(4) assms(1)])
  ultimately show ?thesis by (auto simp: dict_good_def)
qed

definition rehashing_dict :: "(nat, nat) dict" where
  "rehashing_dict = \<lparr>ht0 = \<lparr>ht_table = [[(5, Some 9)]], ht_size = 1, ht_sizemask = 0, ht_used = 1\<rparr>,
     ht1 = \<lparr>ht_table = [[(6, Some 8)], []], ht_size = 2, ht_sizemask = 1, ht_used = 1\<rparr>, rehashidx = 0\<rparr>"

lemma rehashing_dict_good: "dict_ok nat_keys id rehashing_dict" "dict_live rehashing_dict"
proof -
  have "bucket nat_keys (ht0 rehashing_dict) 5 = 0" "bucket nat_keys (ht1 rehashing_dict) 6 = 0"
    by (simp_all add: bucket_def nat_keys_def rehashing_dict_def)
  moreover have "\<exists>k. Suc 0 = 2 ^ k" "\<exists>k. Suc (Suc 0) = 2 ^ k"
    by (rule exI [of _ 0], simp, rule exI [of _ 1], simp)
  ultimately have "ht_ok nat_keys (ht0 rehashing_dict)" "ht_ok nat_keys (ht1 rehashing_dict)"
    unfolding ht_ok_def by (simp_all add: rehashing_dict_def All_less_Suc)
  then show "dict_ok nat_keys id rehashing_dict" "dict_live rehashing_dict"
    by (simp_all add: dict_ok_def dict_live_def rehashing_dict_def entries_def)
qed

theorem dict_rehash_step_invisible_witness:
  "\<exists>d'. dictRehashStep nat_keys rehashing_dict = Some d' \<and> dict_good nat_keys id d'"
  using dict_rehash_step_invisible [OF rehashing_dict_good(1) _ rehashing_dict_good(2)]
  by (auto simp: dictIsRehashing_def rehashing_dict_def)

text \<open>
  Once the old table is empty while rehashing has not been declared finished (a deletion leaves
  the dictionary in that state when it removes the last old entry), fetching or deleting any key
  reads past the table: neither has a defined result.
\<close>

theorem dict_dead_has_no_result:
  assumes "dict_ok T canon d" "rehashidx d \<noteq> - 1" "ht_used (ht0 d) = 0"
  shows "dictFetchValue T d k = None \<and> dictDelete T d k = None"
  using dead_operations [OF assms(1), of k] assms(2,3) by (simp add: dict_live_def)

theorem dict_dead_has_no_result_witness:
  "dictFetchValue nat_keys dead_dict 5 = None \<and> dictDelete nat_keys dead_dict 5 = None"
  by (rule dict_dead_has_no_result [OF dead_dict_ok(1)]) (simp_all add: dead_dict_def)

text \<open>
  Iterating over a dictionary returns every entry exactly once when no rehashing is under way.
  While it is, the entries in the first bucket of the new table are left out: the index is reset to
  0 and then incremented before it is used.
\<close>

theorem dict_iterator_entries:
  assumes "dict_good T canon d" "length (entries d) < n"
  shows "iter_collect n d dictGetIterator = Some (if dictIsRehashing d
     then concat (ht_table (ht0 d)) @ concat (tl (ht_table (ht1 d))) else entries d)"
proof -
  have ok: "dict_ok T canon d" "dict_live d" using assms(1) by (simp_all add: dict_good_def)
  have "length (concat (tl (ht_table (ht1 d)))) \<le> length (concat (ht_table (ht1 d)))"
    by (cases "ht_table (ht1 d)") simp_all
  with collects_run [OF collects_dict [OF ok], of n] assms(2) ok(1) show ?thesis
    by (auto simp: entries_def dictIsRehashing_def dict_ok_def drop_Suc simp del: length_concat)
qed

theorem dict_iterator_entries_witness:
  "iter_collect 3 rehashing_dict dictGetIterator = Some [(5, Some 9)]
     \<and> entries rehashing_dict = [(5, Some 9), (6, Some 8)]"
  using dict_iterator_entries [of nat_keys id rehashing_dict 3] rehashing_dict_good
  by (simp add: dict_good_def entries_def rehashing_dict_def dictIsRehashing_def)

text \<open>
  Picking a random key of a dictionary whose table has been allocated but holds no entry never
  returns, whatever the random numbers are.
\<close>

theorem dict_random_key_hangs:
  assumes "dict_ok T canon d" "ht_size (ht0 d) \<noteq> 0" "ht_used (ht0 d) = 0"
  shows "dictGetRandomKey rand d = None"
proof -
  have "ht_ok T (ht0 d)" using assms(1) by (simp add: dict_ok_def)
  then have "concat (ht_table (ht0 d)) = []" using ht_okD(2) assms(3) by fastforce
  then have "random_bucket rand (ht0 d) 0 = None"
    using random_bucket_hit [of rand "ht0 d" 0] by (cases "random_bucket rand (ht0 d) 0") auto
  then show ?thesis using assms(2) by (simp add: dictGetRandomKey_def)
qed

theorem dict_random_key_hangs_witness: "dictGetRandomKey (\<lambda>_. 0) dead_dict = None"
  by (rule dict_random_key_hangs [OF dead_dict_ok(1)]) (simp_all add: dead_dict_def)

end
