(* ===== verification/Util.thy ===== *)
theory Util
  imports CText
begin

text \<open>
  The helpers of \<open>src/util.c\<close> the rest of the program uses.  \<open>printBuf\<close> only prints and
  \<open>mstime\<close> only reads the clock: neither is modelled.
\<close>

text \<open>\<open>snprintf\<close> into a buffer of 128 bytes; \<open>PROJECT_ROOT\<close> is set by the build.\<close>

definition fullPath :: "string \<Rightarrow> string \<Rightarrow> string" where
  "fullPath PROJECT_ROOT path = take 127 (PROJECT_ROOT @ ''/'' @ path)"

text \<open>The reading and the writing position run over the same string.\<close>

definition strim :: "string \<Rightarrow> string" where
  "strim s = filter (\<lambda>c. \<not> isspace c) s"

text \<open>The in-place loop itself: the buffer, the read index and the write index.\<close>

function strim_loop :: "bytes \<Rightarrow> int \<Rightarrow> int \<Rightarrow> bytes option" where
  "strim_loop b r w = (case load b r of
       None \<Rightarrow> None
     | Some c \<Rightarrow>
         if c = NUL then store b w NUL
         else if \<not> isspace c then
           (case store b w c of None \<Rightarrow> None | Some b' \<Rightarrow> strim_loop b' (r + 1) (w + 1))
         else strim_loop b (r + 1) w)"
  by auto
termination
  by (relation "measure (\<lambda>(b, r, w). nat (int (length b) - r))") (auto simp: mem_simps)

declare strim_loop.simps [simp del]

text \<open>The result and, when it is true, the value stored through the second argument.\<close>

definition string2long :: "string \<Rightarrow> int option" where
  "string2long s = (case strtol10 s of (val, endptr, erange) \<Rightarrow>
     if endptr = s \<or> erange \<or> endptr \<noteq> [] then None
     else if val > LONG_MAX \<or> val < LONG_MIN then None
     else Some val)"

lemma isspace_NUL [simp]: "\<not> isspace NUL"
  by (simp add: isspace_def char_code_def)

text \<open>The loop keeps what it has written in front of the read position.\<close>

lemma strim_loop_spec:
  assumes "nul_free todo" "length out \<le> length seen"
  shows "\<exists>rest. strim_loop (out @ drop (length out) seen @ todo @ NUL # junk) (int (length seen)) (int (length out))
     = Some (out @ strim todo @ NUL # rest)"
  using assms
proof (induction todo arbitrary: out seen)
  case Nil
  let ?b = "out @ drop (length out) seen @ NUL # junk"
  have len: "length (out @ drop (length out) seen) = length seen" using Nil(2) by simp
  have "load ?b (int (length seen)) = Some NUL"
    using load_nat [of "length seen" ?b] Nil(2) by (simp add: nth_append)
  moreover have "store ?b (int (length out)) NUL = Some (?b[length out := NUL])"
    using Nil(2) by (simp add: store_def)
  moreover have "\<exists>rest. ?b[length out := NUL] = out @ NUL # rest"
    by (simp add: list_update_append) (cases "drop (length out) seen"; simp)
  ultimately show ?case by (subst strim_loop.simps) (auto simp: strim_def)
next
  case (Cons c cs)
  let ?b = "out @ drop (length out) seen @ (c # cs) @ NUL # junk"
  have c: "c \<noteq> NUL" "nul_free cs" using Cons.prems by auto
  have ld: "load ?b (int (length seen)) = Some c"
    using load_nat [of "length seen" ?b] Cons.prems(2) by (simp add: nth_append)
  show ?case
  proof (cases "isspace c")
    case True
    have "?b = out @ drop (length out) (seen @ [c]) @ cs @ NUL # junk" using Cons.prems(2) by simp
    moreover obtain rest where "strim_loop (out @ drop (length out) (seen @ [c]) @ cs @ NUL # junk)
        (int (length (seen @ [c]))) (int (length out)) = Some (out @ strim cs @ NUL # rest)"
      using Cons.IH [OF c(2), of out "seen @ [c]"] Cons.prems(2) by auto
    ultimately show ?thesis
      using ld c(1) True by (subst strim_loop.simps) (simp add: strim_def add.commute)
  next
    case False
    obtain d ds where d: "drop (length out) (seen @ [c]) = d # ds" "length (out @ d # ds) = length (seen @ [c])"
      using Cons.prems(2) by (cases "drop (length out) (seen @ [c])") (auto dest: arg_cong [of _ _ length])
    have b: "?b = out @ d # ds @ cs @ NUL # junk" using d(1) Cons.prems(2) by simp
    have st: "store ?b (int (length out)) c = Some ((out @ [c]) @ ds @ cs @ NUL # junk)"
      unfolding b by (simp add: store_def)
    have ds: "ds = drop (length (out @ [c])) (seen @ [c])"
      using d(1) by (metis drop_Suc list.sel(3) length_append_singleton tl_drop drop_drop add.commute plus_1_eq_Suc)
    obtain rest where "strim_loop ((out @ [c]) @ ds @ cs @ NUL # junk)
        (int (length (seen @ [c]))) (int (length (out @ [c]))) = Some ((out @ [c]) @ strim cs @ NUL # rest)"
      using Cons.IH [OF c(2), of "out @ [c]" "seen @ [c]"] Cons.prems(2) unfolding ds by auto
    then show ?thesis
      using ld c(1) False st by (subst strim_loop.simps) (simp add: strim_def add.commute)
  qed
qed

lemma strim_in_place: "nul_free s \<Longrightarrow> \<exists>rest. strim_loop (s @ NUL # junk) 0 0 = Some (strim s @ NUL # rest)"
  using strim_loop_spec [of s "[]" "[]" junk] by simp

lemma string2long_dec_int: "LONG_MIN \<le> i \<Longrightarrow> i \<le> LONG_MAX \<Longrightarrow> string2long (dec_int i) = Some i"
  using strtol10_dec_int [of "[]" i] dec_int_nonempty [of i, symmetric] by (auto simp: string2long_def)

lemma string2long_range: "string2long s = Some v \<Longrightarrow> LONG_MIN \<le> v \<and> v \<le> LONG_MAX"
  by (auto simp: string2long_def split: prod.splits if_splits)

end
