(* ===== verification/Robj.thy ===== *)
theory Robj
  imports Sds Util
begin

text \<open>
  The value objects of \<open>src/robj.c\<close> (\<open>include/robj.h\<close>).  A string object holds a \<open>long\<close> in its pointer, an
  sds embedded in the object's own allocation or a separate sds.  \<open>calloc\<close> zeroes the reference count
  of an embedded string; for the other two, \<open>malloc\<close> leaves it uninitialised (\<open>None\<close>).
\<close>

section \<open>State and operations\<close>

datatype robj_encoding =
    REDIS_ENCODING_INT | REDIS_ENCODING_EMBSTR | REDIS_ENCODING_RAW | REDIS_ENCODING_HT
  | REDIS_ENCODING_LINKEDLIST | REDIS_ENCODING_ZIPLIST | REDIS_ENCODING_INTSET | REDIS_ENCODING_SKIPLIST

datatype robj_type = REDIS_STRING | REDIS_LIST | REDIS_HASH | REDIS_SET | REDIS_ZSET

datatype robj_ptr = LongPtr int | SdsPtr sds | OtherPtr

record robj =
  otype :: robj_type
  encoding :: robj_encoding
  refcount :: "int option"
  optr :: robj_ptr

text \<open>The embedded sds has the exact room for the string and its terminator.\<close>

definition createEmbeddedString :: "string \<Rightarrow> robj option" where
  "createEmbeddedString s = do {
     let len = int (length s);
     ss \<leftarrow> sdscpy \<lparr>slen = 0, sfree = len, sbuf = replicate (nat (len + 1)) NUL\<rparr> s;
     Some \<lparr>otype = REDIS_STRING, encoding = REDIS_ENCODING_EMBSTR, refcount = Some 0, optr = SdsPtr ss\<rparr>
   }"

definition createRawString :: "string \<Rightarrow> robj option" where
  "createRawString s = do {
     p \<leftarrow> sdsnew (Some s);
     ss \<leftarrow> p;
     Some \<lparr>otype = REDIS_STRING, encoding = REDIS_ENCODING_RAW, refcount = None, optr = SdsPtr ss\<rparr>
   }"

definition createLongString :: "int \<Rightarrow> robj" where
  "createLongString value =
     \<lparr>otype = REDIS_STRING, encoding = REDIS_ENCODING_INT, refcount = None, optr = LongPtr value\<rparr>"

text \<open>The value and \<open>*succeed\<close>.  \<open>long\<close> and \<open>long long\<close> have the same width.\<close>

definition string2l :: "string option \<Rightarrow> int \<times> bool" where
  "string2l p = (case p of None \<Rightarrow> (0, False)
     | Some s \<Rightarrow>
         if s = [] then (0, False)
         else let hex = (hd s = CHR ''0'' \<and> tl s \<noteq> [] \<and> (hd (tl s) = CHR ''x'' \<or> hd (tl s) = CHR ''X''));
                (value, endptr, erange) = (if hex then strtol16 s else strtol10 s)
              in if endptr \<noteq> [] \<or> endptr = s then (0, False)
                 else if erange then (0, False)
                 else (value, True))"

definition robjCreate :: "robj_type \<Rightarrow> robj_ptr \<Rightarrow> robj" where
  "robjCreate t ptr = \<lparr>otype = t, encoding = REDIS_ENCODING_RAW, refcount = Some 1, optr = ptr\<rparr>"

definition robjCreateStringObject :: "string \<Rightarrow> robj option" where
  "robjCreateStringObject s =
     (let (value, succeed) = string2l (Some s) in
      if succeed then Some (createLongString value)
      else if length s < 32 then createEmbeddedString s
      else createRawString s)"

text \<open>
  \<open>robjDestroy\<close>: freed (\<open>None\<close>), or still there with one reference less.  The test of an uninitialised
  count is undefined.
\<close>

definition robjDestroy :: "robj \<Rightarrow> robj option option" where
  "robjDestroy obj = do {
     n \<leftarrow> refcount obj;
     Some (if n \<le> 1 then None else Some (obj\<lparr>refcount := Some (n - 1)\<rparr>))
   }"

text \<open>\<open>strncpy (dst, src, n)\<close> reads up to the terminator or \<open>n\<close> bytes.\<close>

definition strncpy_read :: "bytes \<Rightarrow> nat \<Rightarrow> bytes option" where
  "strncpy_read b n = (let s = takeWhile (\<lambda>c. c \<noteq> NUL) b in
     if n \<le> length s \<or> length s < length b then Some (take n s) else None)"

definition robjGetValStr :: "robj \<Rightarrow> string option" where
  "robjGetValStr obj = (case otype obj of
       REDIS_STRING \<Rightarrow>
         (case optr obj of
            LongPtr v \<Rightarrow> (if encoding obj = REDIS_ENCODING_INT then Some (dec_int v) else None)
          | SdsPtr s \<Rightarrow> (if encoding obj = REDIS_ENCODING_INT then None else strncpy_read (sbuf s) 1023)
          | OtherPtr \<Rightarrow> None)
     | _ \<Rightarrow> Some [])"

section \<open>Lemmas\<close>

lemma strncpy_read_cstring: "nul_free s \<Longrightarrow> strncpy_read (s @ NUL # r) n = Some (take n s)"
  by (simp add: strncpy_read_def takeWhile_append takeWhile_nul_free)

lemma embedded_string:
  assumes "int (length s) < 2 ^ 64"
  shows "createEmbeddedString s =
     Some \<lparr>otype = REDIS_STRING, encoding = REDIS_ENCODING_EMBSTR, refcount = Some 0,
       optr = SdsPtr \<lparr>slen = int (length s), sfree = int (length s), sbuf = s @ [NUL]\<rparr>\<rparr>"
  using assms drop_replicate [of "length s" "Suc (length s)" NUL]
  by (simp add: Let_def createEmbeddedString_def sdscpy_def sdsclear_def sdscat_def sds_append_def sdsavail_def
      store_block_def nat_add_distrib)

lemma raw_string:
  "createRawString s = Some \<lparr>otype = REDIS_STRING, encoding = REDIS_ENCODING_RAW, refcount = None,
     optr = SdsPtr (the (the (sdsnew (Some s))))\<rparr>"
  using sdsnew_eq [of s] by (simp add: createRawString_def)

lemma dec_int_second: "tl (dec_int i) \<noteq> [] \<Longrightarrow> isdigit (hd (tl (dec_int i)))"
proof -
  assume ne: "tl (dec_int i) \<noteq> []"
  have d: "list_all isdigit (dec_nat n)" for n by (rule dec_nat_digits)
  show ?thesis
  proof (cases "i < 0")
    case True
    then show ?thesis using dec_nat_hd_digit by (simp add: dec_int_def)
  next
    case False
    then have t: "tl (dec_int i) = tl (dec_nat (nat i))" by (simp add: dec_int_def)
    with ne d [of "nat i"] show ?thesis by (cases "dec_nat (nat i)"; cases "tl (dec_nat (nat i))") auto
  qed
qed

lemma string2l_dec_int:
  assumes "LONG_MIN \<le> i" "i \<le> LONG_MAX"
  shows "string2l (Some (dec_int i)) = (i, True)"
proof -
  have "\<not> isdigit (CHR ''x'')" "\<not> isdigit (CHR ''X'')" by (simp_all add: isdigit_def char_code_def)
  then have "\<not> (tl (dec_int i) \<noteq> [] \<and> (hd (tl (dec_int i)) = CHR ''x'' \<or> hd (tl (dec_int i)) = CHR ''X''))"
    using dec_int_second [of i] by metis
  then show ?thesis
    using strtol10_dec_int [of "[]" i] assms dec_int_nonempty [of i, symmetric]
    by (auto simp: string2l_def Let_def)
qed

lemma string_object_value:
  assumes "nul_free s"
  shows "\<exists>obj. robjCreateStringObject s = Some obj \<and> otype obj = REDIS_STRING
     \<and> encoding obj = (if snd (string2l (Some s)) then REDIS_ENCODING_INT
          else if length s < 32 then REDIS_ENCODING_EMBSTR else REDIS_ENCODING_RAW)
     \<and> robjGetValStr obj = Some (if snd (string2l (Some s)) then dec_int (fst (string2l (Some s))) else take 1023 s)"
proof -
  obtain v ok where v: "string2l (Some s) = (v, ok)" by fastforce
  obtain n where n: "sds_alloc (int (length s)) = int (length s) + 1 + int n"
    using sds_alloc_gt [of "int (length s)"] zle_iff_zadd [of "int (length s) + 1" "sds_alloc (int (length s))"] by auto
  have raw: "sbuf (the (the (sdsnew (Some s)))) = s @ NUL # replicate n NUL"
    using sdsnew_eq [of s] by (simp add: n nat_add_distrib)
  show ?thesis
    using assms embedded_string [of s] raw_string [of s]
    by (auto simp: robjCreateStringObject_def v createLongString_def robjGetValStr_def raw strncpy_read_cstring
        strncpy_read_cstring [of s "[]"])
qed

section \<open>Properties\<close>

text \<open>
  A string object is created for every C string, in the encoding its contents call for, and its
  value read back is the number printed in decimal when the whole string converts to a \<open>long\<close>, the
  string cut at 1023 characters otherwise.
\<close>

theorem robj_string_value:
  assumes "nul_free s"
  shows "\<exists>obj. robjCreateStringObject s = Some obj \<and> otype obj = REDIS_STRING
     \<and> encoding obj = (if snd (string2l (Some s)) then REDIS_ENCODING_INT
          else if length s < 32 then REDIS_ENCODING_EMBSTR else REDIS_ENCODING_RAW)
     \<and> robjGetValStr obj = Some (if snd (string2l (Some s)) then dec_int (fst (string2l (Some s))) else take 1023 s)"
  by (rule string_object_value [OF assms])

theorem robj_string_value_witness:
  "\<exists>obj. robjCreateStringObject ''cat'' = Some obj \<and> encoding obj = REDIS_ENCODING_EMBSTR
     \<and> robjGetValStr obj = Some ''cat''"
proof -
  have "string2l (Some ''cat'') = (0, False)" by code_simp
  with robj_string_value [of "''cat''"] show ?thesis by auto
qed

text \<open>
  The decimal representation of every \<open>long\<close> is stored as a number and read back unchanged.
\<close>

theorem robj_long_roundtrip:
  assumes "LONG_MIN \<le> i" "i \<le> LONG_MAX"
  shows "\<exists>obj. robjCreateStringObject (dec_int i) = Some obj \<and> optr obj = LongPtr i
     \<and> robjGetValStr obj = Some (dec_int i)"
  using string2l_dec_int [OF assms]
  by (simp add: robjCreateStringObject_def createLongString_def robjGetValStr_def)

theorem robj_long_roundtrip_witness:
  "\<exists>obj. robjCreateStringObject ''-42'' = Some obj \<and> robjGetValStr obj = Some ''-42''"
proof -
  have "dec_int (- 42) = ''-42''" by code_simp
  with robj_long_roundtrip [of "- 42"] show ?thesis by (auto simp: c_limits)
qed

text \<open>
  Strings that convert to a number without being its decimal representation do not survive: a
  leading zero, a plus sign or a space is lost and a hexadecimal number comes back in decimal.
\<close>

theorem robj_numerals_rewritten:
  "Option.bind (robjCreateStringObject ''007'') robjGetValStr = Some ''7''
   \<and> Option.bind (robjCreateStringObject '' +5'') robjGetValStr = Some ''5''
   \<and> Option.bind (robjCreateStringObject ''0x1F'') robjGetValStr = Some ''31''"
proof -
  have "string2l (Some ''007'') = (7, True)" "string2l (Some '' +5'') = (5, True)"
    "string2l (Some ''0x1F'') = (31, True)" "dec_int 7 = ''7''" "dec_int 5 = ''5''" "dec_int 31 = ''31''"
    by code_simp+
  then show ?thesis by (simp add: robjCreateStringObject_def createLongString_def robjGetValStr_def)
qed

end
