(* ===== verification/Resp.thy ===== *)
theory Resp
  imports CText
begin

text \<open>
  The wire protocol of \<open>src/resp.c\<close> (\<open>include/resp.h\<close>): the encoders of requests and replies, the
  request decoder of the server, the recogniser of one message in a buffer, the printer of the
  client, and the shared replies.

  The encoders write into real allocations: \<open>malloc\<close>ed memory starts as uninitialised bytes (\<open>None\<close>),
  and a result that is read as a C string must be initialised up to its terminator.  The decoders
  take the whole allocation the message is in.
\<close>

section \<open>Shared replies\<close>

definition resp_ok :: bytes where "resp_ok = ''+OK'' @ CRLF"
definition resp_pong :: bytes where "resp_pong = ''+PONG'' @ CRLF"
definition resp_err :: bytes where "resp_err = ''-ERR'' @ CRLF"
definition resp_keyNotFound :: bytes where "resp_keyNotFound = ''-ERR key not found'' @ CRLF"
definition resp_bye :: bytes where "resp_bye = ''-bye'' @ CRLF"
definition resp_invalidCommand :: bytes where "resp_invalidCommand = ''-Invalid command'' @ CRLF"
definition resp_fullsync :: bytes where "resp_fullsync = ''+FULLSYNC'' @ CRLF"
definition resp_appendsync :: bytes where "resp_appendsync = ''+APPENDSYNC'' @ CRLF"
definition resp_nosync :: bytes where "resp_nosync = ''+NOSYNC'' @ CRLF"
definition resp_dupkey :: bytes where "resp_dupkey = ''-ERR:Duplicate key'' @ CRLF"
definition resp_ping :: bytes where "resp_ping = ''*1'' @ CRLF @ ''$4'' @ CRLF @ ''PING'' @ CRLF"
definition resp_info :: bytes where "resp_info = ''*1'' @ CRLF @ ''$4'' @ CRLF @ ''INFO'' @ CRLF"
definition resp_valmissed :: bytes where "resp_valmissed = ''-ERR: Value missed'' @ CRLF"

section \<open>Encoding\<close>

text \<open>\<open>snprintf (buf + len, cap - len, ...)\<close>; the size is unsigned, so it wraps when \<open>len\<close> is past the end.\<close>

definition snprintf_at :: "byte option list \<Rightarrow> int \<Rightarrow> bytes \<Rightarrow> byte option list option" where
  "snprintf_at buf len text =
     (let room = int (length buf) - len in
      if room < 0 then None
      else if room = 0 then Some buf
      else store_block buf len (map Some (take (nat (room - 1)) text @ [NUL])))"

text \<open>A byte buffer read as a C string.\<close>

definition read_cstring :: "byte option list \<Rightarrow> bytes option" where
  "read_cstring buf =
     (let s = takeWhile (\<lambda>c. c \<noteq> Some NUL) buf in
      if length s < length buf \<and> None \<notin> set s then Some (map the s) else None)"

text \<open>One round of the loop over the arguments, then the rest; the buffer may be doubled once per round.\<close>

fun enc_args :: "byte option list \<Rightarrow> int \<Rightarrow> bytes list \<Rightarrow> (byte option list \<times> int) option" where
  "enc_args buf len [] = Some (buf, len)"
| "enc_args buf len (arg # args) = do {
     let arglen = int (length arg);
     let text = ''$'' @ dec_int arglen @ CRLF;
     b1 \<leftarrow> snprintf_at buf len text;
     let len1 = len + int (length text);
     let b2 = (if len1 + arglen + 2 \<ge> int (length b1) then b1 @ replicate (length b1) None else b1);
     b3 \<leftarrow> store_block b2 len1 (map Some arg);
     b4 \<leftarrow> store_block b3 (len1 + arglen) (map Some CRLF);
     enc_args b4 (len1 + arglen + 2) args
   }"

definition respEncodeArrayString :: "bytes list \<Rightarrow> bytes option" where
  "respEncodeArrayString argv = do {
     let text = ''*'' @ dec_int (int (length argv)) @ CRLF;
     b0 \<leftarrow> snprintf_at (replicate 1024 None) 0 text;
     (b1, len) \<leftarrow> enc_args b0 (int (length text)) argv;
     b2 \<leftarrow> store b1 len (Some NUL);
     read_cstring b2
   }"

text \<open>\<open>sprintf\<close> into an array of 1024 bytes.\<close>

definition respEncodeBulkString :: "bytes \<Rightarrow> bytes option" where
  "respEncodeBulkString s =
     (let text = ''$'' @ dec_int (int (length s)) @ CRLF @ s @ CRLF in
      if length text + 1 \<le> 1024 then Some text else None)"

section \<open>Decoding a request\<close>

text \<open>\<open>strchr\<close> from an index: the index of the character, or the null pointer.\<close>

definition strchr_from :: "bytes \<Rightarrow> int \<Rightarrow> char \<Rightarrow> int option option" where
  "strchr_from b p c = do {
     s \<leftarrow> cstring b p;
     Some (if c \<in> set s then Some (p + int (length (takeWhile (\<lambda>x. x \<noteq> c) s))) else None)
   }"

text \<open>\<open>sscanf ("%d")\<close> into an uninitialised variable that is then used.\<close>

definition scan_int :: "bytes \<Rightarrow> int \<Rightarrow> int option" where
  "scan_int b p = do {
     s \<leftarrow> cstring b p;
     r \<leftarrow> scan_d s;
     (case r of NoConv \<Rightarrow> None | Conv v n \<Rightarrow> Some v)
   }"

text \<open>
  The loop reading \<open>n\<close> arguments from index \<open>p\<close>: the return code and the arguments read.  An argument
  is the block copied, which \<open>resp_decode\<close> terminates; allocation succeeds.
\<close>

fun decode_args :: "bytes \<Rightarrow> nat \<Rightarrow> int \<Rightarrow> (int \<times> bytes list) option" where
  "decode_args b 0 p = Some (0, [])"
| "decode_args b (Suc n) p = do {
     c \<leftarrow> load b p;
     (if c \<noteq> CHR ''$'' then Some (- 1, [])
      else do {
        len \<leftarrow> scan_int b (p + 1);
        nl \<leftarrow> strchr_from b p LF;
        q \<leftarrow> map_option (\<lambda>i. i + 1) nl;
        arg \<leftarrow> load_block b q len;
        (ret, args) \<leftarrow> decode_args b n (q + len + 2);
        Some (ret, arg # args)
      })
   }"

text \<open>The return code, \<open>*argc_out\<close> and \<open>*argv_out\<close>.\<close>

definition resp_decode :: "bytes \<Rightarrow> (int \<times> int \<times> bytes list) option" where
  "resp_decode b = do {
     c \<leftarrow> load b 0;
     (if c \<noteq> CHR ''*'' then Some (- 1, 0, [])
      else do {
        argc \<leftarrow> scan_int b 1;
        nl \<leftarrow> strchr_from b 0 LF;
        (if argc \<le> 0 then Some (0, argc, [])
         else do {
           p \<leftarrow> map_option (\<lambda>i. i + 1) nl;
           (ret, args) \<leftarrow> decode_args b (nat argc) p;
           Some (ret, argc, args)
         })
      })
   }"

section \<open>Recognising one message\<close>

text \<open>\<open>find_line_end (b + i, len)\<close>: the index of the line feed.\<close>

definition find_line_end :: "bytes \<Rightarrow> int \<Rightarrow> int \<Rightarrow> int option option" where
  "find_line_end b i len =
     (if len < 2 then Some None
      else do {
        s \<leftarrow> load_block b i (len - 1);
        (if CR \<in> set s then do {
           let r = i + int (length (takeWhile (\<lambda>x. x \<noteq> CR) s));
           c \<leftarrow> load b (r + 1);
           Some (if c = LF then Some (r + 1) else None)
         } else Some None)
      })"

text \<open>\<open>strtol\<close> on the buffer, base 10.\<close>

definition strtol_at :: "bytes \<Rightarrow> int \<Rightarrow> int option" where
  "strtol_at b p = do { s \<leftarrow> cstring b p; Some (fst (strtol10 s)) }"

primrec elements :: "(int \<Rightarrow> int \<Rightarrow> int option option) \<Rightarrow> int \<Rightarrow> nat \<Rightarrow> int \<Rightarrow> int option option" where
  "elements parse e 0 cur = Some (Some (cur - 1))"
| "elements parse e (Suc n) cur = do {
     r \<leftarrow> parse cur (e - cur);
     (case r of None \<Rightarrow> Some None | Some x \<Rightarrow> elements parse e n (x + 1))
   }"

text \<open>
  \<open>respParse (b + i, len)\<close> with a bound on the depth of nested arrays: the index of the last byte, or
  the null pointer.  An unknown type byte falls off the end of the function.
\<close>

primrec parse_depth :: "nat \<Rightarrow> bytes \<Rightarrow> int \<Rightarrow> int \<Rightarrow> int option option" where
  "parse_depth 0 b i len = None"
| "parse_depth (Suc f) b i len =
     (if len < 3 then Some None
      else do {
        ty \<leftarrow> load b i;
        r \<leftarrow> find_line_end b i len;
        (case r of
           None \<Rightarrow> Some None
         | Some eol \<Rightarrow>
             if ty = CHR ''+'' \<or> ty = CHR ''-'' then Some (Some eol)
             else if ty = CHR '':'' then do {
               s \<leftarrow> load_block b (i + 1) (eol - 1 - (i + 1));
               Some (if list_all isdigit s then Some eol else None)
             }
             else if ty = CHR ''$'' then do {
               n \<leftarrow> strtol_at b (i + 1);
               (if n = - 1 then Some (Some eol)
                else if n < - 1 then Some None
                else if n + 2 > LONG_MAX then None
                else let str = eol + 1 in
                  if len - (str - i) < n + 2 then Some None
                  else do {
                    c1 \<leftarrow> load b (str + n);
                    c2 \<leftarrow> load b (str + n + 1);
                    Some (if c1 = CR \<and> c2 = LF then Some (str + n + 1) else None)
                  })
             }
             else if ty = CHR ''*'' then do {
               count \<leftarrow> strtol_at b (i + 1);
               (if count = 0 then Some None
                else elements (parse_depth f b) (i + len) (nat count) (eol + 1))
             }
             else None)
      })"

text \<open>A message of n bytes nests less than n arrays, so this depth is never used up.\<close>

definition respParse :: "bytes \<Rightarrow> int \<Rightarrow> int \<Rightarrow> int option option" where
  "respParse b i len = parse_depth (Suc (nat len)) b i len"

section \<open>Printing a reply\<close>

text \<open>\<open>sscanf (p, "%d%n", &v, &n)\<close>, and the check for a line end that follows it.\<close>

definition scan_n :: "bytes \<Rightarrow> int \<Rightarrow> scan option" where
  "scan_n b p = do { s \<leftarrow> cstring b p; scan_d s }"

definition eat_crlf :: "bytes \<Rightarrow> int \<Rightarrow> bool option" where
  "eat_crlf b p = do {
     c1 \<leftarrow> load b p;
     (if c1 \<noteq> CR then Some False else do { c2 \<leftarrow> load b (p + 1); Some (c2 = LF) })
   }"

text \<open>\<open>len\<close> bytes and a line end at index \<open>p\<close>, as all the branches with contents check them.\<close>

definition body_at :: "bytes \<Rightarrow> int \<Rightarrow> int \<Rightarrow> int \<Rightarrow> bytes option option" where
  "body_at b endp p len =
     (if p + len + 2 > endp then Some None
      else do {
        d \<leftarrow> load_block b p len;
        ok \<leftarrow> eat_crlf b (p + len);
        Some (if ok then Some d else None)
      })"

definition line_end_at :: "bytes \<Rightarrow> int \<Rightarrow> int \<Rightarrow> bool option" where
  "line_end_at b endp p = (if p + 2 > endp then Some False else eat_crlf b p)"

text \<open>
  The loop over the elements.  \<open>len\<close> and \<open>n\<close> keep their old values when a conversion fails.
\<close>

fun str_elements :: "bytes \<Rightarrow> int \<Rightarrow> nat \<Rightarrow> int \<Rightarrow> int \<Rightarrow> int \<Rightarrow> bytes \<Rightarrow> bytes option option" where
  "str_elements b endp 0 p len n out = Some (Some out)"
| "str_elements b endp (Suc k) p len n out =
     (if p + 1 > endp then Some None
      else do {
        c \<leftarrow> load b p;
        (if c \<noteq> CHR ''$'' then Some None
         else do {
           r \<leftarrow> scan_n b (p + 1);
           let (len', n') = (case r of NoConv \<Rightarrow> (len, n) | Conv v m \<Rightarrow> (v, int m));
           let q = p + 1 + n';
           (if n' = 0 then Some None
            else do {
              ok \<leftarrow> line_end_at b endp q;
              (if \<not> ok then Some None
               else if len' < - 1 then Some None
               else if len' = - 1 then str_elements b endp k (q + 2) len' n' (out @ ''NULL,'')
               else do {
                 d \<leftarrow> body_at b endp (q + 2) len';
                 (case d of None \<Rightarrow> Some None
                  | Some text \<Rightarrow> str_elements b endp k (q + 2 + len' + 2) len' n' (out @ text @ '',''))
               })
            })
         })
      })"

definition str_bulk :: "bytes \<Rightarrow> int \<Rightarrow> bytes option option" where
  "str_bulk b endp = do {
     r \<leftarrow> scan_n b 1;
     (case r of NoConv \<Rightarrow> None
      | Conv len n \<Rightarrow>
          let p = 1 + int n in
          if n = 0 then Some None
          else if len < - 1 then Some None
          else if len = - 1 then Some (Some ''NULL'')
          else do {
            ok \<leftarrow> line_end_at b endp p;
            (if ok then body_at b endp (p + 2) len else Some None)
          })
   }"

definition str_array :: "bytes \<Rightarrow> int \<Rightarrow> bytes option option" where
  "str_array b endp = do {
     r \<leftarrow> scan_n b 1;
     (case r of NoConv \<Rightarrow> Some None
      | Conv arrlen n \<Rightarrow>
          let p = 1 + int n in
          if n = 0 then Some None
          else do {
            ok \<leftarrow> line_end_at b endp p;
            (if \<not> ok then Some None
             else if arrlen = - 1 then Some (Some ''NULL'')
             else if arrlen < - 1 then Some None
             else do {
               res \<leftarrow> str_elements b endp (nat arrlen) (p + 2) 0 (int n) ''['';
               (case res of None \<Rightarrow> Some None
                | Some out \<Rightarrow> if length out + 1 < 1024 then Some (Some (out @ '']'')) else None)
             })
          })
   }"

definition str_integer :: "bytes \<Rightarrow> int \<Rightarrow> bytes option option" where
  "str_integer b endp = do {
     r \<leftarrow> scan_n b 1;
     (case r of NoConv \<Rightarrow> Some None
      | Conv num n \<Rightarrow>
          if n = 0 then Some None
          else do {
            ok \<leftarrow> line_end_at b endp (1 + int n);
            Some (if ok then Some (dec_int num) else None)
          })
   }"

definition str_simple :: "bytes \<Rightarrow> int \<Rightarrow> bytes option option" where
  "str_simple b endp = do {
     s \<leftarrow> load_block b 1 (endp - 1);
     (if CR \<notin> set s then Some None
      else do {
        let text = takeWhile (\<lambda>c. c \<noteq> CR) s;
        c \<leftarrow> load b (1 + int (length text) + 1);
        Some (if c \<noteq> LF \<or> text = [] then None else Some text)
      })
   }"

text \<open>The argument is a C string without its terminator, or the null pointer.\<close>

definition resp_str :: "bytes option \<Rightarrow> bytes option option" where
  "resp_str r = (case r of None \<Rightarrow> Some None
     | Some s \<Rightarrow>
         if length s > 1024 then Some None
         else let b = s @ [NUL]; endp = int (length s) in
           (case s of [] \<Rightarrow> Some None
            | c # _ \<Rightarrow>
                if c = CHR ''$'' then str_bulk b endp
                else if c = CHR ''*'' then str_array b endp
                else if c = CHR '':'' then str_integer b endp
                else if c = CHR ''+'' \<or> c = CHR ''-'' then str_simple b endp
                else Some None))"

section \<open>The text of a request\<close>

definition bulk_text :: "bytes \<Rightarrow> bytes" where
  "bulk_text a = ''$'' @ dec_int (int (length a)) @ CRLF @ a @ CRLF"

definition array_text :: "bytes list \<Rightarrow> bytes" where
  "array_text argv = ''*'' @ dec_int (int (length argv)) @ CRLF @ concat (map bulk_text argv)"

lemma cstring_at:
  assumes "nul_free t" "NUL \<in> set r"
  shows "cstring (pre @ t @ r) (int (length pre)) = Some (t @ takeWhile (\<lambda>c. c \<noteq> NUL) r)"
  using assms by (simp add: cstring_def takeWhile_append takeWhile_nul_free nul_free_def)

lemma takeWhile_CR_start: "no_digit_start (takeWhile P (CR # r))"
  by simp

lemma scan_int_at:
  assumes "NUL \<in> set r" "INT_MIN \<le> i" "i \<le> INT_MAX" "no_digit_start r"
  shows "scan_int (pre @ dec_int i @ r) (int (length pre)) = Some i"
proof -
  have "no_digit_start (takeWhile (\<lambda>c. c \<noteq> NUL) r)" using assms(4) by (cases r) auto
  then show ?thesis
    using cstring_at [of "dec_int i" r pre] assms scan_d_dec_int [of _ i] by (simp add: scan_int_def)
qed

lemma strchr_from_at:
  assumes "nul_free t" "c \<notin> set t" "c \<noteq> NUL" "NUL \<in> set r"
  shows "strchr_from (pre @ t @ c # r) (int (length pre)) c = Some (Some (int (length (pre @ t))))"
proof -
  have "cstring (pre @ t @ c # r) (int (length pre)) = Some (t @ c # takeWhile (\<lambda>c. c \<noteq> NUL) r)"
    using cstring_at [of t "c # r" pre] assms by simp
  then show ?thesis using assms(2) by (simp add: strchr_from_def takeWhile_append)
qed

lemma load_at: "load (pre @ c # r) (int (length pre)) = Some c"
  by (simp add: load_def)

lemma load_block_at: "load_block (pre @ t @ r) (int (length pre)) (int (length t)) = Some t"
  by (simp add: load_block_def)

text \<open>One argument of a request.\<close>

lemma decode_one:
  assumes "NUL \<in> set r" "int (length a) \<le> INT_MAX"
  shows "decode_args (pre @ bulk_text a @ r) (Suc n) (int (length pre)) =
     (case decode_args (pre @ bulk_text a @ r) n (int (length (pre @ bulk_text a))) of
        None \<Rightarrow> None | Some (ret, args) \<Rightarrow> Some (ret, a # args))"
proof -
  let ?d = "dec_int (int (length a))"
  let ?b = "pre @ bulk_text a @ r"
  have b: "?b = (pre @ ''$'') @ ?d @ CR # LF # a @ CR # LF # r" by (simp add: bulk_text_def)
  have b': "?b = pre @ (''$'' @ ?d @ [CR]) @ LF # a @ CR # LF # r" by (simp add: bulk_text_def)
  have b'': "?b = (pre @ ''$'' @ ?d @ CRLF) @ a @ CR # LF # r" by (simp add: bulk_text_def)
  have c: "load ?b (int (length pre)) = Some (CHR ''$'')" by (simp add: bulk_text_def load_at)
  have s: "scan_int ?b (int (length pre) + 1) = Some (int (length a))"
    unfolding b using scan_int_at [of "CR # LF # a @ CR # LF # r" "int (length a)" "pre @ ''$''"] assms
    by (simp add: c_limits add.commute)
  have l: "strchr_from ?b (int (length pre)) LF = Some (Some (int (length (pre @ ''$'' @ ?d @ [CR]))))"
    unfolding b' using strchr_from_at [of "''$'' @ ?d @ [CR]" LF "a @ CR # LF # r" pre] assms(1) by simp
  have k: "load_block ?b (int (length (pre @ ''$'' @ ?d @ [CR])) + 1) (int (length a)) = Some a"
    unfolding b'' using load_block_at [of "pre @ ''$'' @ ?d @ CRLF" a "CR # LF # r"] by (simp add: add.assoc add.commute)
  have e: "int (length (pre @ ''$'' @ ?d @ [CR])) + 1 + int (length a) + 2 = int (length (pre @ bulk_text a))"
    by (simp add: bulk_text_def)
  show ?thesis
    by (simp only: decode_args.simps c s l k e Option.bind.simps option.map)
      (auto split: option.splits)
qed

lemma decode_args_all:
  assumes "NUL \<in> set r" "\<forall>a \<in> set args. int (length a) \<le> INT_MAX"
  shows "decode_args (pre @ concat (map bulk_text args) @ r) (length args) (int (length pre)) = Some (0, args)"
  using assms(2)
proof (induction args arbitrary: pre)
  case (Cons a args)
  have "decode_args ((pre @ bulk_text a) @ concat (map bulk_text args) @ r) (length args)
      (int (length (pre @ bulk_text a))) = Some (0, args)"
    by (rule Cons.IH) (use Cons.prems in simp)
  with decode_one [of "concat (map bulk_text args) @ r" a pre "length args"] assms(1) Cons.prems
  show ?case by simp
qed simp

lemma resp_decode_array:
  assumes "NUL \<in> set r" "\<forall>a \<in> set args. int (length a) \<le> INT_MAX" "int (length args) \<le> INT_MAX"
  shows "resp_decode (array_text args @ r) = Some (0, int (length args), args)"
proof -
  let ?d = "dec_int (int (length args))"
  let ?b = "array_text args @ r" and ?rest = "concat (map bulk_text args) @ r"
  have b: "?b = ''*'' @ ?d @ CR # LF # ?rest" by (simp add: array_text_def)
  have b': "?b = [] @ (''*'' @ ?d @ [CR]) @ LF # ?rest" by (simp add: array_text_def)
  have b'': "?b = (''*'' @ ?d @ CRLF) @ ?rest" by (simp add: array_text_def)
  have nul: "NUL \<in> set ?rest" using assms(1) by simp
  have c: "load ?b 0 = Some (CHR ''*'')" by (simp add: array_text_def load_def)
  have s: "scan_int ?b 1 = Some (int (length args))"
    unfolding b using scan_int_at [of "CR # LF # ?rest" "int (length args)" "''*''"] nul assms(3)
    by (simp add: c_limits)
  have l: "strchr_from ?b 0 LF = Some (Some (int (length (''*'' @ ?d @ [CR]))))"
    unfolding b' using strchr_from_at [of "''*'' @ ?d @ [CR]" LF ?rest "[]"] nul by simp
  have "decode_args ?b (length args) (int (length (''*'' @ ?d @ [CR])) + 1) = Some (0, args)"
    unfolding b'' using decode_args_all [OF assms(1,2), of "''*'' @ ?d @ CRLF"] by (simp add: add.commute)
  then show ?thesis
    unfolding resp_decode_def c s l
    by (cases args) (simp_all del: decode_args.simps add: nat_add_distrib)
qed

section \<open>The encoder inside its first buffer\<close>

lemma store_block_prefix:
  assumes "take (length d) buf = map Some d" "length d + length xs \<le> length buf"
  obtains b where "store_block buf (int (length d)) (map Some xs) = Some b"
    "take (length (d @ xs)) b = map Some (d @ xs)" "length b = length buf"
proof -
  let ?b = "map Some d @ map Some xs @ drop (length d + length xs) buf"
  have "store_block buf (int (length d)) (map Some xs) = Some ?b"
    using assms by (simp add: store_block_def)
  then show thesis by (rule that) (use assms in \<open>simp_all\<close>)
qed

lemma snprintf_prefix:
  assumes "take (length d) buf = map Some d" "length d + length text < length buf"
  obtains b where "snprintf_at buf (int (length d)) text = Some b"
    "take (length (d @ text)) b = map Some (d @ text)" "length b = length buf"
proof -
  let ?room = "nat (int (length buf) - int (length d) - 1)"
  have room: "length text \<le> ?room" using assms(2) by linarith
  obtain b where b: "store_block buf (int (length d)) (map Some (text @ [NUL])) = Some b"
    "take (length (d @ text @ [NUL])) b = map Some (d @ text @ [NUL])" "length b = length buf"
    by (rule store_block_prefix [OF assms(1), of "text @ [NUL]"]) (use assms(2) in auto)
  have "snprintf_at buf (int (length d)) text = Some b"
    using b(1) room assms(2) by (simp add: snprintf_at_def Let_def)
  moreover have "take (length (d @ text)) b = map Some (d @ text)"
    using arg_cong [OF b(2), of "take (length (d @ text))"] by (simp add: min_def)
  ultimately show thesis using that b(3) by blast
qed

lemma enc_args_prefix:
  assumes "take (length d) buf = map Some d" "length d + length (concat (map bulk_text args)) < length buf"
  shows "\<exists>b. enc_args buf (int (length d)) args = Some (b, int (length (d @ concat (map bulk_text args))))
     \<and> take (length (d @ concat (map bulk_text args))) b = map Some (d @ concat (map bulk_text args))
     \<and> length b = length buf"
  using assms
proof (induction args arbitrary: d buf)
  case (Cons a args)
  let ?text = "''$'' @ dec_int (int (length a)) @ CRLF"
  let ?rest = "concat (map bulk_text args)"
  have len: "length (bulk_text a) = length ?text + length a + 2" by (simp add: bulk_text_def)
  have total: "length d + length ?text + length a + 2 + length ?rest < length buf"
    using Cons.prems(2) len by simp
  obtain b1 where b1: "snprintf_at buf (int (length d)) ?text = Some b1"
    "take (length (d @ ?text)) b1 = map Some (d @ ?text)" "length b1 = length buf"
    by (rule snprintf_prefix [OF Cons.prems(1), of ?text]) (use total in linarith)
  obtain b2 where b2: "store_block b1 (int (length (d @ ?text))) (map Some a) = Some b2"
    "take (length ((d @ ?text) @ a)) b2 = map Some ((d @ ?text) @ a)" "length b2 = length b1"
    by (rule store_block_prefix [OF b1(2), of a]) (use total b1(3) in \<open>simp only: length_append\<close>)
  obtain b3 where b3: "store_block b2 (int (length ((d @ ?text) @ a))) (map Some CRLF) = Some b3"
    "take (length (((d @ ?text) @ a) @ CRLF)) b3 = map Some (((d @ ?text) @ a) @ CRLF)" "length b3 = length b2"
    by (rule store_block_prefix [OF b2(2), of CRLF]) (use total b1(3) b2(3) in simp)
  have cat: "((d @ ?text) @ a) @ CRLF = d @ bulk_text a" by (simp add: bulk_text_def)
  have pre: "take (length (d @ bulk_text a)) b3 = map Some (d @ bulk_text a)" using b3(2) unfolding cat .
  have "length (d @ bulk_text a) + length ?rest < length b3"
    using total len b1(3) b2(3) b3(3) by simp
  from Cons.IH [OF pre this] obtain b where
    b: "enc_args b3 (int (length (d @ bulk_text a))) args = Some (b, int (length ((d @ bulk_text a) @ ?rest)))"
    "take (length ((d @ bulk_text a) @ ?rest)) b = map Some ((d @ bulk_text a) @ ?rest)" "length b = length b3"
    by blast
  have step: "enc_args buf (int (length d)) (a # args) = enc_args b3 (int (length (d @ bulk_text a))) args"
  proof -
    have "\<not> int (length (d @ ?text)) + int (length a) + 2 \<ge> int (length b1)" using total b1(3) by simp
    moreover have "int (length d) + int (length ?text) = int (length (d @ ?text))" by simp
    moreover have "int (length (d @ ?text)) + int (length a) = int (length ((d @ ?text) @ a))" by simp
    moreover have "int (length ((d @ ?text) @ a)) + 2 = int (length (d @ bulk_text a))"
      by (simp add: bulk_text_def)
    ultimately show ?thesis
      unfolding enc_args.simps Let_def b1(1) Option.bind.simps by (simp only: b2(1) b3(1) Option.bind.simps if_False)
  qed
  show ?case unfolding step using b b1(3) b2(3) b3(3) by simp
qed simp

lemma nul_free_bulk: "nul_free (bulk_text a) \<longleftrightarrow> nul_free a"
  by (simp add: bulk_text_def)

lemma nul_free_array: "\<forall>a \<in> set args. nul_free a \<Longrightarrow> nul_free (array_text args)"
proof -
  assume "\<forall>a \<in> set args. nul_free a"
  then have "nul_free (concat (map bulk_text args))" by (induction args) (auto simp: nul_free_bulk)
  then show ?thesis by (simp add: array_text_def)
qed

lemma read_cstring_at:
  assumes "take (length s) b = map Some s" "length s < length b" "nul_free s"
  shows "read_cstring (b[length s := Some NUL]) = Some s"
proof -
  have "b[length s := Some NUL] = map Some s @ Some NUL # drop (Suc (length s)) b"
    using assms(1,2) by (simp add: upd_conv_take_nth_drop)
  moreover have "\<forall>x \<in> set (map Some s). x \<noteq> Some NUL" using assms(3) by (auto simp: nul_free_def)
  then have "takeWhile (\<lambda>c. c \<noteq> Some NUL) (map Some s @ Some NUL # drop (Suc (length s)) b) = map Some s"
    by (subst takeWhile_append2) auto
  ultimately show ?thesis by (simp add: read_cstring_def comp_def)
qed

lemma encode_array:
  assumes "\<forall>a \<in> set args. nul_free a" "length (array_text args) < 1024"
  shows "respEncodeArrayString args = Some (array_text args)"
proof -
  let ?h = "''*'' @ dec_int (int (length args)) @ CRLF" and ?rest = "concat (map bulk_text args)"
  have cat: "?h @ ?rest = array_text args" by (simp add: array_text_def)
  have room: "length ?h + length ?rest < 1024" using assms(2) cat by (metis length_append)
  obtain b0 where b0: "snprintf_at (replicate 1024 None) (int (length ([] :: bytes))) ?h = Some b0"
    "take (length ([] @ ?h)) b0 = map Some ([] @ ?h)" "length b0 = length (replicate 1024 (None :: byte option))"
    by (rule snprintf_prefix [of "[]" "replicate 1024 None" ?h]) (use room in simp_all)
  from b0 have "take (length ?h) b0 = map Some ?h" "length ?h + length ?rest < length b0"
    using room by simp_all
  from enc_args_prefix [OF this] obtain b where
    b: "enc_args b0 (int (length ?h)) args = Some (b, int (length (array_text args)))"
    "take (length (array_text args)) b = map Some (array_text args)" "length b = 1024"
    using b0(3) unfolding cat by auto
  have "store b (int (length (array_text args))) (Some NUL) = Some (b[length (array_text args) := Some NUL])"
    using b(3) assms(2) by (simp add: store_def)
  moreover have "read_cstring (b[length (array_text args) := Some NUL]) = Some (array_text args)"
    using b assms nul_free_array by (intro read_cstring_at) auto
  moreover have "snprintf_at (replicate 1024 None) 0 ?h = Some b0" using b0(1) by simp
  ultimately show ?thesis
    unfolding respEncodeArrayString_def Let_def using b(1) by (simp only: Option.bind.simps split_conv case_prod_conv)
qed

section \<open>Recognising an encoded message\<close>

lemma find_line_end_at:
  assumes "CR \<notin> set h" "int (length h) + 2 \<le> len" "int (length pre) + len \<le> int (length (pre @ h @ CR # LF # r))"
  shows "find_line_end (pre @ h @ CR # LF # r) (int (length pre)) len = Some (Some (int (length pre + length h) + 1))"
proof -
  let ?b = "pre @ h @ CR # LF # r"
  obtain k where k: "len - 1 = int (length h + Suc k)"
    using assms(2) zle_iff_zadd [of "int (length h) + 1" "len - 1"] by auto
  then have nl: "nat (len - 1) = length h + Suc k" by simp
  have "load_block ?b (int (length pre)) (len - 1) = Some (h @ CR # take k (LF # r))"
    using assms(2,3) unfolding load_block_def nl by simp
  moreover have "takeWhile (\<lambda>x. x \<noteq> CR) (h @ CR # take k (LF # r)) = h"
    using assms(1) by (subst takeWhile_append2) auto
  moreover have "load ?b (int (length pre) + int (length h) + 1) = Some LF"
    using load_at [of "pre @ h @ [CR]" LF r] by (simp add: add.commute add.left_commute)
  ultimately show ?thesis using assms(2) by (simp add: find_line_end_def)
qed

lemma strtol_at_dec:
  assumes "NUL \<in> set r" "LONG_MIN \<le> i" "i \<le> LONG_MAX" "no_digit_start r"
  shows "strtol_at (pre @ dec_int i @ r) (int (length pre)) = Some i"
proof -
  have "no_digit_start (takeWhile (\<lambda>c. c \<noteq> NUL) r)" using assms(4) by (cases r) auto
  then show ?thesis
    using cstring_at [of "dec_int i" r pre] assms strtol10_dec_int [of _ i] by (simp add: strtol_at_def)
qed

lemma CR_header: "c \<noteq> CR \<Longrightarrow> CR \<notin> set (c # dec_int i)"
  by simp

lemma parse_bulk:
  assumes "NUL \<in> set r" "int (length a) + 2 \<le> LONG_MAX"
    and "int (length (bulk_text a)) \<le> len" "int (length pre) + len \<le> int (length (pre @ bulk_text a @ r))"
  shows "parse_depth (Suc f) (pre @ bulk_text a @ r) (int (length pre)) len =
     Some (Some (int (length (pre @ bulk_text a)) - 1))"
proof -
  let ?d = "dec_int (int (length a))"
  let ?b = "pre @ bulk_text a @ r"
  have b: "?b = pre @ (''$'' @ ?d) @ CR # LF # a @ CR # LF # r" by (simp add: bulk_text_def)
  have b': "?b = (pre @ ''$'') @ ?d @ CR # LF # a @ CR # LF # r" by (simp add: bulk_text_def)
  have b'': "?b = (pre @ ''$'' @ ?d @ CRLF @ a) @ CR # LF # r" by (simp add: bulk_text_def)
  have b3: "?b = (pre @ ''$'' @ ?d @ CRLF @ a @ [CR]) @ LF # r" by (simp add: bulk_text_def)
  have tot: "length (bulk_text a) = length ?d + length a + 5" by (simp add: bulk_text_def)
  have c: "load ?b (int (length pre)) = Some (CHR ''$'')" by (simp add: bulk_text_def load_at)
  have e: "find_line_end ?b (int (length pre)) len = Some (Some (int (length pre + length (''$'' @ ?d)) + 1))"
    unfolding b by (rule find_line_end_at) (use assms(3,4) tot b in \<open>simp_all\<close>)
  have n: "strtol_at ?b (int (length pre) + 1) = Some (int (length a))"
    unfolding b' using strtol_at_dec [of "CR # LF # a @ CR # LF # r" "int (length a)" "pre @ ''$''"] assms(1,2)
    by (simp add: c_limits add.commute)
  have s: "int (length pre + length (''$'' @ ?d)) + 1 + 1 + int (length a) = int (length (pre @ ''$'' @ ?d @ CRLF @ a))"
    by simp
  have l1: "load ?b (int (length (pre @ ''$'' @ ?d @ CRLF @ a))) = Some CR" unfolding b'' by (rule load_at)
  have l2: "load ?b (int (length (pre @ ''$'' @ ?d @ CRLF @ a)) + 1) = Some LF"
    unfolding b3 using load_at [of "pre @ ''$'' @ ?d @ CRLF @ a @ [CR]" LF r] by (simp add: add.commute add.left_commute)
  have len: "\<not> len < 3" "\<not> len - (int (length pre + length (''$'' @ ?d)) + 1 + 1 - int (length pre)) < int (length a) + 2"
    using assms(3) tot by simp_all
  have fin: "int (length (pre @ ''$'' @ ?d @ CRLF @ a)) + 1 = int (length (pre @ bulk_text a)) - 1"
    by (simp add: tot)
  show ?thesis
    using assms(2) unfolding parse_depth.simps Let_def c e n s
    by (simp only: Option.bind.simps option.case len l1 l2 [unfolded fin] if_False s fin) (simp del: length_append)
qed

lemma parse_elements:
  assumes "NUL \<in> set r" "\<forall>a \<in> set args. int (length a) + 2 \<le> LONG_MAX"
    and "int (length (pre @ concat (map bulk_text args))) \<le> e" "e \<le> int (length (pre @ concat (map bulk_text args) @ r))"
  shows "elements (parse_depth (Suc f) (pre @ concat (map bulk_text args) @ r)) e (length args) (int (length pre)) =
     Some (Some (int (length (pre @ concat (map bulk_text args))) - 1))"
  using assms(2-)
proof (induction args arbitrary: pre)
  case (Cons a args)
  let ?rest = "concat (map bulk_text args) @ r"
  have b: "pre @ concat (map bulk_text (a # args)) @ r = pre @ bulk_text a @ ?rest"
    "pre @ concat (map bulk_text (a # args)) @ r = (pre @ bulk_text a) @ ?rest" by simp_all
  have "parse_depth (Suc f) (pre @ bulk_text a @ ?rest) (int (length pre)) (e - int (length pre)) =
      Some (Some (int (length (pre @ bulk_text a)) - 1))"
    by (rule parse_bulk) (use assms(1) Cons.prems in simp_all)
  moreover have "elements (parse_depth (Suc f) ((pre @ bulk_text a) @ ?rest)) e (length args)
      (int (length (pre @ bulk_text a))) = Some (Some (int (length ((pre @ bulk_text a) @ concat (map bulk_text args))) - 1))"
    by (rule Cons.IH) (use Cons.prems in simp_all)
  ultimately show ?case by (simp del: parse_depth.simps)
qed simp

lemma parse_array:
  assumes "NUL \<in> set r" "\<forall>a \<in> set args. int (length a) + 2 \<le> LONG_MAX" "args \<noteq> []" "int (length args) \<le> LONG_MAX"
    and "int (length (array_text args)) \<le> len" "len \<le> int (length (array_text args @ r))"
  shows "respParse (array_text args @ r) 0 len = Some (Some (int (length (array_text args)) - 1))"
proof -
  let ?d = "dec_int (int (length args))"
  let ?rest = "concat (map bulk_text args)"
  let ?b = "array_text args @ r"
  have b: "?b = [] @ (''*'' @ ?d) @ CR # LF # ?rest @ r" by (simp add: array_text_def)
  have b': "?b = ''*'' @ ?d @ CR # LF # ?rest @ r" by (simp add: array_text_def)
  have b'': "?b = (''*'' @ ?d @ CRLF) @ ?rest @ r" by (simp add: array_text_def)
  have tot: "length (array_text args) = length ?d + length ?rest + 3" by (simp add: array_text_def)
  have c: "load ?b 0 = Some (CHR ''*'')" by (simp add: array_text_def load_def)
  have e: "find_line_end ?b 0 len = Some (Some (int (length (''*'' @ ?d)) + 1))"
    unfolding b using find_line_end_at [of "''*'' @ ?d" len "[]" "?rest @ r"] assms(5,6) tot by simp
  have n: "strtol_at ?b (0 + 1) = Some (int (length args))"
    unfolding b' using strtol_at_dec [of "CR # LF # ?rest @ r" "int (length args)" "''*''"] assms(1,4)
    by (simp add: c_limits)
  obtain k where k: "nat len = Suc k" using assms(5) tot by (cases "nat len") auto
  have el: "elements (parse_depth (Suc k) ?b) (0 + len) (length args) (int (length (''*'' @ ?d)) + 1 + 1) =
      Some (Some (int (length (array_text args)) - 1))"
    unfolding b'' using parse_elements [OF assms(1,2), of "''*'' @ ?d @ CRLF" len k] assms(5,6) tot
    by (simp add: add.commute)
  have "\<not> len < 3" using assms(5) tot by simp
  then show ?thesis
    unfolding respParse_def parse_depth.simps(2) c e n
    using assms(3) el [folded k] by (simp del: parse_depth.simps)
qed

section \<open>Bulk replies\<close>

lemma length_dec_nat_rec: "10 \<le> n \<Longrightarrow> length (dec_nat n) = Suc (length (dec_nat (n div 10)))"
  by (subst dec_nat.simps) simp

lemma length_dec_nat_4:
  assumes "1000 \<le> n"
  shows "4 \<le> length (dec_nat n)"
proof -
  have "length (dec_nat n) = Suc (Suc (Suc (length (dec_nat (n div 10 div 10 div 10)))))"
    using assms by (simp add: length_dec_nat_rec)
  moreover have "0 < length (dec_nat (n div 10 div 10 div 10))" by simp
  ultimately show ?thesis by linarith
qed

lemma encode_bulk: "respEncodeBulkString s = (if length s \<le> 1014 then Some (bulk_text s) else None)"
proof (cases "length s \<le> 1014")
  case True
  then have "length (dec_nat (length s)) \<le> 4" using length_dec_nat_le [of "length s" 4] by simp
  with True show ?thesis by (simp add: respEncodeBulkString_def bulk_text_def dec_int_of_nat Let_def)
next
  case False
  then have "4 \<le> length (dec_nat (length s))" by (intro length_dec_nat_4) simp
  with False show ?thesis by (simp add: respEncodeBulkString_def bulk_text_def dec_int_of_nat Let_def)
qed

text \<open>The printer looks only at the message itself, whatever bytes follow it.\<close>

lemma resp_str_bulk_front:
  assumes "nul_free (a @ j)" "length (bulk_text a @ j) \<le> 1024"
  shows "resp_str (Some (bulk_text a @ j)) = Some (Some a)"
proof -
  let ?d = "dec_int (int (length a))"
  let ?b = "(bulk_text a @ j) @ [NUL]" and ?endp = "int (length (bulk_text a @ j))"
  have tot: "length (bulk_text a @ j) = length ?d + length a + 5 + length j" by (simp add: bulk_text_def)
  have b: "?b = ''$'' @ (?d @ CRLF @ a @ CRLF @ j) @ [NUL]" by (simp add: bulk_text_def)
  have cs: "cstring ?b 1 = Some (?d @ CR # LF # a @ CRLF @ j)"
    unfolding b using cstring_at [of "?d @ CRLF @ a @ CRLF @ j" "[NUL]" "''$''"] assms(1) by simp
  have sc: "scan_n ?b 1 = Some (Conv (int (length a)) (length ?d))"
    using cs scan_d_dec_int [of "CR # LF # a @ CRLF @ j" "int (length a)"] assms(2) tot
    by (simp add: scan_n_def c_limits)
  have b1: "?b = (''$'' @ ?d) @ CR # LF # a @ CRLF @ j @ [NUL]" by (simp add: bulk_text_def)
  have b2: "?b = (''$'' @ ?d @ CRLF) @ a @ CRLF @ j @ [NUL]" by (simp add: bulk_text_def)
  have b3: "?b = (''$'' @ ?d @ CRLF @ a) @ CR # LF # j @ [NUL]" by (simp add: bulk_text_def)
  have eat: "eat_crlf (pre @ CR # LF # r) (int (length pre)) = Some True" for pre r
    using load_at [of pre CR "LF # r"] load_at [of "pre @ [CR]" LF r] by (simp add: eat_crlf_def add.commute)
  have l1: "line_end_at ?b ?endp (1 + int (length ?d)) = Some True"
    using eat [of "''$'' @ ?d"] tot unfolding b1 by (simp add: line_end_at_def)
  have blk: "load_block ?b (1 + int (length ?d) + 2) (int (length a)) = Some a"
    unfolding b2 using load_block_at [of "''$'' @ ?d @ CRLF" a "CRLF @ j @ [NUL]"] by (simp add: add.commute add.left_commute)
  have l2: "eat_crlf ?b (1 + int (length ?d) + 2 + int (length a)) = Some True"
    unfolding b3 using eat [of "''$'' @ ?d @ CRLF @ a"] by (simp add: add.commute add.left_commute)
  have body: "body_at ?b ?endp (1 + int (length ?d) + 2) (int (length a)) = Some (Some a)"
    unfolding body_at_def blk l2 using tot by simp
  have "str_bulk ?b ?endp = Some (Some a)"
    unfolding str_bulk_def sc using l1 body by (simp add: Let_def)
  moreover have "bulk_text a @ j = CHR ''$'' # (?d @ CRLF @ a @ CRLF @ j)" by (simp add: bulk_text_def)
  ultimately show ?thesis using assms(2) by (auto simp: resp_str_def Let_def)
qed

lemma resp_str_bulk:
  assumes "nul_free a" "length (bulk_text a) \<le> 1024"
  shows "resp_str (Some (bulk_text a)) = Some (Some a)"
  using resp_str_bulk_front [of a "[]"] assms by simp

section \<open>Properties\<close>

text \<open>
  C33. A request of less than 1024 bytes that the encoder writes is decoded to the same arguments,
  whatever stale bytes follow it in the receiver's buffer.
\<close>

theorem resp_request_roundtrip:
  assumes "\<forall>a \<in> set args. nul_free a" "length (array_text args) < 1024"
  shows "\<exists>t. respEncodeArrayString args = Some t
     \<and> (\<forall>stale. resp_decode (t @ NUL # stale) = Some (0, int (length args), args))"
proof -
  have l: "length (bulk_text a) \<le> length (concat (map bulk_text args))" if "a \<in> set args" for a
    using that by (induction args) auto
  have "length a < 1024" if "a \<in> set args" for a
    using l [OF that] assms(2) by (simp add: array_text_def bulk_text_def)
  then have "\<forall>a \<in> set args. int (length a) \<le> INT_MAX" by (fastforce simp: c_limits)
  moreover have "length args \<le> length (concat (map bulk_text args))"
    by (induction args) (auto simp: bulk_text_def)
  then have "int (length args) \<le> INT_MAX" using assms(2) by (simp add: array_text_def c_limits)
  ultimately show ?thesis using encode_array [OF assms] resp_decode_array [of "NUL # _" args] by auto
qed

theorem resp_request_roundtrip_witness:
  "\<exists>t. respEncodeArrayString [''GET'', ''a''] = Some t \<and> resp_decode (t @ [NUL]) = Some (0, 2, [''GET'', ''a''])"
proof -
  have "length (array_text [''GET'', ''a'']) < 1024" by code_simp
  with resp_request_roundtrip [of "[''GET'', ''a'']"] show ?thesis by auto
qed

lemma parse_request:
  assumes "args \<noteq> []" "NUL \<in> set rest" "length (array_text args) < 2 ^ 62"
    and "int (length (array_text args)) \<le> len" "len \<le> int (length (array_text args @ rest))"
  shows "respParse (array_text args @ rest) 0 len = Some (Some (int (length (array_text args)) - 1))"
proof (rule parse_array [OF assms(2) _ assms(1) _ assms(4,5)])
  have "length a \<le> length (concat (map bulk_text args))" if "a \<in> set args" for a
    using that by (induction args) (auto simp: bulk_text_def)
  then show "\<forall>a \<in> set args. int (length a) + 2 \<le> LONG_MAX"
    using assms(3) by (fastforce simp: array_text_def c_limits)
  have "length args \<le> length (concat (map bulk_text args))"
    by (induction args) (auto simp: bulk_text_def)
  then show "int (length args) \<le> LONG_MAX" using assms(3) by (simp add: array_text_def c_limits)
qed

text \<open>
  In a buffer that starts with a non-empty request, the recogniser returns the last byte of that
  request, however many bytes of later messages follow: messages are framed one by one.
\<close>

theorem resp_parse_frames:
  assumes "args \<noteq> []" "NUL \<in> set rest" "length (array_text args) < 2 ^ 62"
    and "int (length (array_text args)) \<le> len" "len \<le> int (length (array_text args @ rest))"
  shows "respParse (array_text args @ rest) 0 len = Some (Some (int (length (array_text args)) - 1))"
  using parse_request [OF assms] .

theorem resp_parse_frames_witness:
  "respParse (array_text [''PING''] @ ''*1'' @ [NUL]) 0 16 = Some (Some 13)"
proof -
  have l: "length (array_text [''PING'']) = 14" by code_simp
  then show ?thesis using resp_parse_frames [of "[''PING'']" "''*1'' @ [NUL]" 16] by simp
qed

text \<open>
  A bulk reply is produced exactly for strings of at most 1014 bytes (the array it is printed into
  overflows for any longer one), and the client prints the string back.
\<close>

theorem resp_bulk_roundtrip:
  assumes "nul_free s"
  shows "(case respEncodeBulkString s of None \<Rightarrow> 1015 \<le> length s
     | Some t \<Rightarrow> length s \<le> 1014 \<and> resp_str (Some t) = Some (Some s))"
proof (cases "length s \<le> 1014")
  case True
  then have "length (dec_nat (length s)) \<le> 4" using length_dec_nat_le [of "length s" 4] by simp
  then have "length (bulk_text s) \<le> 1024" using True by (simp add: bulk_text_def dec_int_of_nat)
  with True show ?thesis using resp_str_bulk [OF assms] by (simp add: encode_bulk)
next
  case False
  then show ?thesis by (simp add: encode_bulk)
qed

theorem resp_bulk_roundtrip_witness:
  "respEncodeBulkString ''cat'' = Some (bulk_text ''cat'') \<and> resp_str (Some (bulk_text ''cat'')) = Some (Some ''cat'')"
  using resp_bulk_roundtrip [of "''cat''"] by (simp add: encode_bulk)

text \<open>
  Encoding a request with an argument of 2048 bytes or more writes past the buffer: it is doubled
  once per argument, whatever the argument's length.
\<close>

theorem resp_encode_large_overflows:
  assumes "2048 \<le> length a"
  shows "respEncodeArrayString (a # args) = None"
proof -
  have no: "store_block b i (map Some a) = None" if "length b \<le> 2048" "0 < i" for b :: "byte option list" and i
    using that assms by (simp add: store_block_def)
  let ?h = "''*'' @ dec_int (int (length (a # args))) @ CRLF"
  have snp: "length b' = length b" if "snprintf_at b i t = Some b'" for b b' i t
    using that length_store_block by (auto simp: snprintf_at_def Let_def split: if_splits)
  have "enc_args b0 (int (length ?h)) (a # args) = None" if "length b0 = 1024" for b0
  proof (cases "snprintf_at b0 (int (length ?h)) (''$'' @ dec_int (int (length a)) @ CRLF)")
    case (Some b1)
    then have "length b1 = 1024" using that by (simp only: snp)
    then show ?thesis using Some no by (auto simp: Let_def)
  qed (simp add: Let_def)
  moreover have "length b0 = 1024" if "snprintf_at (replicate 1024 None) 0 ?h = Some b0" for b0
    using snp [OF that] by simp
  ultimately show ?thesis
    unfolding respEncodeArrayString_def Let_def
    by (cases "snprintf_at (replicate 1024 None) 0 ?h") (simp_all del: enc_args.simps)
qed

theorem resp_encode_large_overflows_witness:
  "respEncodeArrayString [replicate 2048 (CHR ''x'')] = None"
  by (rule resp_encode_large_overflows) simp

end
