(* ===== verification/Db.thy ===== *)
theory Db
  imports Dict Robj
begin

text \<open>
  The database of \<open>src/db.c\<close> (\<open>include/db.h\<close>): three dictionaries from keys to value objects, expiry
  times and the clients watching a key.

  A key is the contents of its sds (\<open>sdsnew\<close> of a C string); that two stored keys can share one
  allocation is not part of the model.  An expiry time is stored in the value pointer itself, so the
  time 0 is the null pointer.  The list of the clients watching a key is the sequence the linked list
  of \<open>DList\<close> stands for, and clients are identified by numbers.  The clock is an argument.

  The dictionaries are the real ones of \<open>Dict\<close>; the first lemmas discharge the interface of the keys
  for the hash and comparison of this file.
\<close>

section \<open>Keys\<close>

text \<open>\<open>char\<close> is signed: a byte from 128 on is sign-extended when it is added.\<close>

definition signed_char :: "char \<Rightarrow> int" where
  "signed_char c = (if char_code c < 128 then int (char_code c) else int (char_code c) - 256)"

definition hash_step :: "64 word \<Rightarrow> char \<Rightarrow> 64 word" where
  "hash_step hash c = push_bit 5 hash + hash + word_of_int (signed_char c)"

definition dbDictKeyHash :: "bytes \<Rightarrow> 64 word" where
  "dbDictKeyHash key = foldl hash_step 5381 (takeWhile (\<lambda>c. c \<noteq> NUL) key)"

text \<open>\<open>sdscmp\<close> on the contents: the lengths first, then \<open>strcmp\<close>.\<close>

definition dbDictKeyCmp :: "bytes \<Rightarrow> bytes \<Rightarrow> int" where
  "dbDictKeyCmp key1 key2 =
     (if length key1 \<noteq> length key2 then int (length key1) - int (length key2)
      else strcmp (takeWhile (\<lambda>c. c \<noteq> NUL) key1) (takeWhile (\<lambda>c. c \<noteq> NUL) key2))"

definition kvtype :: "(bytes, robj) dictType" where
  "kvtype = \<lparr>hashFunction = dbDictKeyHash, keyDup = None, valDup = None, keyCompare = dbDictKeyCmp\<rparr>"

definition expiretype :: "(bytes, int) dictType" where
  "expiretype = \<lparr>hashFunction = dbDictKeyHash, keyDup = None, valDup = None, keyCompare = dbDictKeyCmp\<rparr>"

definition watchtype :: "(bytes, nat list) dictType" where
  "watchtype = \<lparr>hashFunction = dbDictKeyHash, keyDup = None, valDup = None, keyCompare = dbDictKeyCmp\<rparr>"

text \<open>What the comparison compares.\<close>

definition key_canon :: "bytes \<Rightarrow> nat \<times> bytes" where
  "key_canon k = (length k, takeWhile (\<lambda>c. c \<noteq> NUL) k)"

lemma key_cmp: "dbDictKeyCmp a b = 0 \<longleftrightarrow> key_canon a = key_canon b"
  using strcmp_zero_iff [of "takeWhile (\<lambda>c. c \<noteq> NUL) a" "takeWhile (\<lambda>c. c \<noteq> NUL) b"]
  by (auto simp: dbDictKeyCmp_def key_canon_def nul_free_takeWhile)

lemma key_hash: "key_canon a = key_canon b \<Longrightarrow> dbDictKeyHash a = dbDictKeyHash b"
  by (simp add: key_canon_def dbDictKeyHash_def)

lemma key_canon_nul_free: "nul_free a \<Longrightarrow> nul_free b \<Longrightarrow> key_canon a = key_canon b \<longleftrightarrow> a = b"
  by (auto simp: key_canon_def takeWhile_nul_free)

text \<open>The comparison is that of the sds of the keys.\<close>

lemma key_cmp_sds:
  assumes "sdsnew (Some a) = Some (Some s)" "sdsnew (Some b) = Some (Some t)"
  shows "sdscmp (Some s) (Some t) = Some (dbDictKeyCmp a b)"
proof -
  have c: "cstring (sbuf s) 0 = Some (takeWhile (\<lambda>c. c \<noteq> NUL) a)" if "sdsnew (Some a) = Some (Some s)" for a s
  proof -
    obtain n where n: "sds_alloc (int (length a)) = int (length a) + 1 + int n"
      using sds_alloc_gt [of "int (length a)"] zle_iff_zadd [of "int (length a) + 1" "sds_alloc (int (length a))"] by auto
    have "sbuf s = a @ NUL # replicate n NUL" using that by (auto simp: sdsnew_eq n nat_add_distrib)
    then show ?thesis by (simp add: cstring_def takeWhile_tail)
  qed
  have "slen s = int (length a)" "slen t = int (length b)" using assms by (auto simp: sdsnew_eq)
  then show ?thesis using c [OF assms(1)] c [OF assms(2)] by (simp add: sdscmp_def dbDictKeyCmp_def)
qed

interpretation kv_keys: hash_keys kvtype key_canon
  by unfold_locales (auto simp: kvtype_def key_cmp dict_key_def intro: key_hash)

interpretation expire_keys: hash_keys expiretype key_canon
  by unfold_locales (auto simp: expiretype_def key_cmp dict_key_def intro: key_hash)

interpretation watch_keys: hash_keys watchtype key_canon
  by unfold_locales (auto simp: watchtype_def key_cmp dict_key_def intro: key_hash)

lemma db_vals [simp]: "dict_val kvtype v = v" "dict_val expiretype t = t" "dict_val watchtype w = w"
  by (simp_all add: dict_val_def kvtype_def expiretype_def watchtype_def)

section \<open>State and operations\<close>

record redisDb =
  kv :: "(bytes, robj) dict"
  db_id :: int
  expires :: "(bytes, int) dict"
  watched_keys :: "(bytes, nat list) dict"

definition long_ptr :: "int \<Rightarrow> int option" where
  "long_ptr t = (if t = 0 then None else Some t)"

definition ptr_long :: "int option \<Rightarrow> int" where
  "ptr_long p = (case p of None \<Rightarrow> 0 | Some t \<Rightarrow> t)"

definition dbInit :: "int \<Rightarrow> redisDb" where
  "dbInit i = \<lparr>kv = dictCreate, db_id = i, expires = dictCreate, watched_keys = dictCreate\<rparr>"

definition dbAdd :: "redisDb \<Rightarrow> bytes \<Rightarrow> robj option \<Rightarrow> (int \<times> redisDb) option" where
  "dbAdd db key value = do {
     c \<leftarrow> dictContains kvtype (kv db) key;
     (r, d) \<leftarrow> (if \<not> c then dictAdd kvtype (kv db) key value else dictReplace kvtype (kv db) key value);
     Some (r, db\<lparr>kv := d\<rparr>)
   }"

definition dbGet :: "redisDb \<Rightarrow> bytes \<Rightarrow> (robj option \<times> redisDb) option" where
  "dbGet db key = do { (v, d) \<leftarrow> dictFetchValue kvtype (kv db) key; Some (v, db\<lparr>kv := d\<rparr>) }"

definition dbDelete :: "redisDb \<Rightarrow> bytes \<Rightarrow> (int \<times> redisDb) option" where
  "dbDelete db key = do { (r, _, d) \<leftarrow> dictDelete kvtype (kv db) key; Some (r, db\<lparr>kv := d\<rparr>) }"

definition dbSetExpire :: "redisDb \<Rightarrow> bytes \<Rightarrow> int \<Rightarrow> (int \<times> redisDb) option" where
  "dbSetExpire db key t = do {
     (r, d) \<leftarrow> dictAdd expiretype (expires db) key (long_ptr t);
     Some (r, db\<lparr>expires := d\<rparr>)
   }"

definition dbGetTTL :: "int \<Rightarrow> redisDb \<Rightarrow> bytes \<Rightarrow> (int \<times> redisDb) option" where
  "dbGetTTL now db key = do {
     (v, d) \<leftarrow> dictFetchValue expiretype (expires db) key;
     Some (ptr_long v - now, db\<lparr>expires := d\<rparr>)
   }"

text \<open>The second deletion is evaluated only when the first returns a positive number.\<close>

definition expireIfNeed :: "int \<Rightarrow> redisDb \<Rightarrow> bytes \<Rightarrow> redisDb option" where
  "expireIfNeed now db key = do {
     c \<leftarrow> dictContains expiretype (expires db) key;
     (if \<not> c then Some db
      else do {
        (v, e) \<leftarrow> dictFetchValue expiretype (expires db) key;
        let expire_at = ptr_long v;
        (if now > expire_at then do {
           (r, _, d) \<leftarrow> dictDelete kvtype (kv db) key;
           (if r > 0 then do {
              (r2, _, e2) \<leftarrow> dictDelete expiretype e key;
              Some (db\<lparr>kv := d, expires := e2\<rparr>)
            } else Some (db\<lparr>kv := d, expires := e\<rparr>))
         } else Some (db\<lparr>expires := e\<rparr>))
      })
   }"

text \<open>
  The list a key maps to is changed in place.  A key whose value is the null pointer would be
  dereferenced.
\<close>

definition dbAddWatch :: "redisDb \<Rightarrow> bytes \<Rightarrow> nat \<Rightarrow> redisDb option" where
  "dbAddWatch db key client = do {
     c \<leftarrow> dictContains watchtype (watched_keys db) key;
     w1 \<leftarrow> (if \<not> c then map_option snd (dictAdd watchtype (watched_keys db) key (Some []))
            else Some (watched_keys db));
     (clients, w2) \<leftarrow> dictFetchValue watchtype w1 key;
     l \<leftarrow> clients;
     Some (db\<lparr>watched_keys := dictSetVal watchtype w2 key (Some (l @ [client]))\<rparr>)
   }"

definition dbIsWatching :: "redisDb \<Rightarrow> bytes \<Rightarrow> bool option" where
  "dbIsWatching db key = dictContains watchtype (watched_keys db) key"

section \<open>The maps a database stands for\<close>

definition kv_map :: "redisDb \<Rightarrow> bytes \<Rightarrow> robj option option" where
  "kv_map db k = dict_map key_canon (kv db) (key_canon k)"

definition expires_map :: "redisDb \<Rightarrow> bytes \<Rightarrow> int option option" where
  "expires_map db k = dict_map key_canon (expires db) (key_canon k)"

definition watch_map :: "redisDb \<Rightarrow> bytes \<Rightarrow> nat list option option" where
  "watch_map db k = dict_map key_canon (watched_keys db) (key_canon k)"

definition db_good :: "redisDb \<Rightarrow> bool" where
  "db_good db \<longleftrightarrow> dict_good kvtype key_canon (kv db) \<and> dict_good expiretype key_canon (expires db)
     \<and> dict_good watchtype key_canon (watched_keys db)"

lemma dbInit_good: "db_good (dbInit i)" "kv_map (dbInit i) k = None" "expires_map (dbInit i) k = None"
  "watch_map (dbInit i) k = None"
  by (simp_all add: db_good_def dbInit_def dictCreate_good kv_map_def expires_map_def watch_map_def)

text \<open>The value a key has, the null pointer when it has none.\<close>

definition kv_value :: "redisDb \<Rightarrow> bytes \<Rightarrow> robj option" where
  "kv_value db k = (case kv_map db k of None \<Rightarrow> None | Some v \<Rightarrow> v)"

definition expire_at :: "redisDb \<Rightarrow> bytes \<Rightarrow> int" where
  "expire_at db k = ptr_long (case expires_map db k of None \<Rightarrow> None | Some t \<Rightarrow> t)"

lemma ptr_long_ptr [simp]: "ptr_long (long_ptr t) = t"
  by (simp add: ptr_long_def long_ptr_def)

lemma dbAdd_sets:
  assumes "db_good db"
  obtains d where "dbAdd db k v = Some (DICT_OK, db\<lparr>kv := d\<rparr>)" "db_good (db\<lparr>kv := d\<rparr>)"
    "dict_map key_canon d = (dict_map key_canon (kv db))(key_canon k \<mapsto> v)"
proof -
  have g: "dict_good kvtype key_canon (kv db)" using assms by (simp add: db_good_def)
  obtain d where d: "kv_keys.store.put (kv db) k v = Some (0, d)" "dict_good kvtype key_canon d"
    "dict_map key_canon d = (dict_map key_canon (kv db))(key_canon k \<mapsto> dict_val kvtype v)"
    using kv_keys.store.put_law [OF g] by blast
  have "dbAdd db k v = Some (DICT_OK, db\<lparr>kv := d\<rparr>)"
  proof (cases "dict_map key_canon (kv db) (key_canon k) = None")
    case True
    then show ?thesis using d(1) kv_keys.store.contains_law [OF g, of k]
      by (simp add: dbAdd_def kv_keys.store.put_def DICT_OK_def)
  next
    case False
    then show ?thesis using d(1) kv_keys.store.contains_law [OF g, of k]
      by (simp add: dbAdd_def kv_keys.store.put_def DICT_OK_def)
  qed
  then show thesis by (rule that) (use d assms in \<open>simp_all add: db_good_def\<close>)
qed

lemma dbGet_reads:
  assumes "db_good db"
  obtains d where "dbGet db k = Some (kv_value db k, db\<lparr>kv := d\<rparr>)" "db_good (db\<lparr>kv := d\<rparr>)"
    "dict_map key_canon d = dict_map key_canon (kv db)"
proof -
  have g: "dict_good kvtype key_canon (kv db)" using assms by (simp add: db_good_def)
  obtain d where "dictFetchValue kvtype (kv db) k = Some (kv_value db k, d)" "dict_good kvtype key_canon d"
    "dict_map key_canon d = dict_map key_canon (kv db)"
    using kv_keys.store.fetch_law [OF g, of k] by (auto simp: kv_value_def kv_map_def)
  then show thesis by (intro that [of d]) (use assms in \<open>simp_all add: dbGet_def db_good_def\<close>)
qed

lemma dbDelete_removes:
  assumes "db_good db"
  obtains d where "dbDelete db k = Some (if kv_map db k = None then DICT_ERR else DICT_OK, db\<lparr>kv := d\<rparr>)"
    "dict_ok kvtype key_canon d" "dict_map key_canon d = (dict_map key_canon (kv db))(key_canon k := None)"
proof -
  have g: "dict_ok kvtype key_canon (kv db)" "dict_live (kv db)"
    using assms by (simp_all add: db_good_def dict_good_def)
  obtain fr d where "dictDelete kvtype (kv db) k =
      Some (if dict_map key_canon (kv db) (key_canon k) = None then DICT_ERR else DICT_OK, fr, d)"
    "dict_ok kvtype key_canon d" "dict_map key_canon d = (dict_map key_canon (kv db))(key_canon k := None)"
    by (rule kv_keys.delete_spec [OF g])
  then show thesis by (intro that [of d]) (simp_all add: dbDelete_def kv_map_def)
qed

lemma dbSetExpire_adds:
  assumes "db_good db"
  obtains d where "dbSetExpire db k t = Some (if expires_map db k = None then DICT_OK else DICT_ERR, db\<lparr>expires := d\<rparr>)"
    "db_good (db\<lparr>expires := d\<rparr>)" "dict_map key_canon d = (if expires_map db k = None
       then (dict_map key_canon (expires db))(key_canon k \<mapsto> long_ptr t) else dict_map key_canon (expires db))"
proof -
  have g: "dict_good expiretype key_canon (expires db)" using assms by (simp add: db_good_def)
  obtain d where "dictAdd expiretype (expires db) k (long_ptr t) =
      Some (if dict_map key_canon (expires db) (key_canon k) = None then DICT_OK else DICT_ERR, d)"
    "dict_good expiretype key_canon d" "dict_map key_canon d = (if dict_map key_canon (expires db) (key_canon k) = None
       then (dict_map key_canon (expires db))(key_canon k \<mapsto> dict_val expiretype (long_ptr t))
       else dict_map key_canon (expires db))"
    using expire_keys.add_any [OF g] by blast
  then show thesis
    by (intro that [of d]) (use assms in \<open>simp_all add: dbSetExpire_def db_good_def expires_map_def\<close>)
qed

text \<open>The lazy expiry on an access: nothing for a key without a time or before it.\<close>

lemma expireIfNeed_cases:
  assumes good: "db_good db"
  obtains (kept) e where "expireIfNeed now db k = Some (db\<lparr>expires := e\<rparr>)" "db_good (db\<lparr>expires := e\<rparr>)"
      "dict_map key_canon e = dict_map key_canon (expires db)"
      "expires_map db k = None \<or> now \<le> expire_at db k"
  | (expired) d e where "expireIfNeed now db k = Some (db\<lparr>kv := d, expires := e\<rparr>)"
      "dict_ok kvtype key_canon d" "dict_good expiretype key_canon e"
      "dict_map key_canon d = (dict_map key_canon (kv db))(key_canon k := None)"
      "dict_map key_canon e = dict_map key_canon (expires db)"
      "expires_map db k \<noteq> None" "expire_at db k < now"
      "\<exists>r fr. dictDelete kvtype (kv db) k = Some (r, fr, d)"
proof -
  have g: "dict_good expiretype key_canon (expires db)" "dict_ok kvtype key_canon (kv db)" "dict_live (kv db)"
    using good by (simp_all add: db_good_def dict_good_def)
  have c: "dictContains expiretype (expires db) k = Some (expires_map db k \<noteq> None)"
    using expire_keys.store.contains_law [OF g(1)] by (simp add: expires_map_def)
  obtain e where e: "dictFetchValue expiretype (expires db) k = Some (case expires_map db k of None \<Rightarrow> None | Some t \<Rightarrow> t, e)"
    "dict_good expiretype key_canon e" "dict_map key_canon e = dict_map key_canon (expires db)"
    using expire_keys.store.fetch_law [OF g(1), of k] by (auto simp: expires_map_def)
  show thesis
  proof (cases "expires_map db k = None")
    case True
    then show thesis by (intro kept [of "expires db"]) (use c good in \<open>simp_all add: expireIfNeed_def\<close>)
  next
    case some: False
    show thesis
    proof (cases "now > expire_at db k")
      case False
      then have "expireIfNeed now db k = Some (db\<lparr>expires := e\<rparr>)"
        using c e(1) some by (simp add: expireIfNeed_def expire_at_def Let_def)
      then show thesis by (rule kept) (use e good False in \<open>simp_all add: db_good_def\<close>)
    next
      case True
      obtain fr d where d: "dictDelete kvtype (kv db) k =
          Some (if dict_map key_canon (kv db) (key_canon k) = None then DICT_ERR else DICT_OK, fr, d)"
        "dict_ok kvtype key_canon d" "dict_map key_canon d = (dict_map key_canon (kv db))(key_canon k := None)"
        by (rule kv_keys.delete_spec [OF g(2,3)])
      have "\<not> (if dict_map key_canon (kv db) (key_canon k) = None then DICT_ERR else DICT_OK) > 0"
        by (simp add: dict_consts)
      then have "expireIfNeed now db k = Some (db\<lparr>kv := d, expires := e\<rparr>)"
        using c e(1) d(1) some True by (simp add: expireIfNeed_def expire_at_def Let_def)
      then show thesis by (rule expired) (use d e some True in auto)
    qed
  qed
qed

lemma dbAddWatch_appends:
  assumes good: "db_good db" and nn: "watch_map db k \<noteq> Some None"
  obtains d where "dbAddWatch db k c = Some (db\<lparr>watched_keys := d\<rparr>)" "db_good (db\<lparr>watched_keys := d\<rparr>)"
    "dict_map key_canon d = (dict_map key_canon (watched_keys db))(key_canon k \<mapsto>
       Some ((case watch_map db k of Some (Some l) \<Rightarrow> l | _ \<Rightarrow> []) @ [c]))"
proof -
  let ?m = "dict_map key_canon (watched_keys db)" and ?k = "key_canon k"
  have g: "dict_good watchtype key_canon (watched_keys db)" using good by (simp add: db_good_def)
  have ct: "dictContains watchtype (watched_keys db) k = Some (?m ?k \<noteq> None)"
    by (rule watch_keys.store.contains_law [OF g])
  define l where "l = (case watch_map db k of Some (Some l) \<Rightarrow> l | _ \<Rightarrow> [])"
  obtain w1 where w1: "(if ?m ?k = None then map_option snd (dictAdd watchtype (watched_keys db) k (Some []))
        else Some (watched_keys db)) = Some w1"
    "dict_good watchtype key_canon w1" "dict_map key_canon w1 = ?m(?k \<mapsto> Some l)"
  proof (cases "?m ?k = None")
    case True
    from watch_keys.store.add_law [OF g True, of "Some []"] True that show thesis
      by (auto simp: l_def watch_map_def)
  next
    case False
    then obtain l' where "?m ?k = Some (Some l')" using nn by (auto simp: watch_map_def)
    then have "?m(?k \<mapsto> Some l) = ?m" by (auto simp: l_def watch_map_def)
    then show thesis using that [of "watched_keys db"] False g by simp
  qed
  obtain w2 where w2: "dictFetchValue watchtype w1 k = Some (Some l, w2)" "dict_good watchtype key_canon w2"
    "dict_map key_canon w2 = dict_map key_canon w1"
    using watch_keys.store.fetch_law [OF w1(2), of k] w1(3) by auto
  let ?d = "dictSetVal watchtype w2 k (Some (l @ [c]))"
  have ok: "dict_ok watchtype key_canon w2" "dict_live w2" using w2(2) by (simp_all add: dict_good_def)
  have "dbAddWatch db k c = Some (db\<lparr>watched_keys := ?d\<rparr>)"
    using ct w1(1) w2(1) by (simp add: dbAddWatch_def)
  moreover have "db_good (db\<lparr>watched_keys := ?d\<rparr>)"
    using good ok watch_keys.set_val_ok(1,2) [OF ok(1)] by (simp add: db_good_def dict_good_def)
  moreover have "dict_map key_canon ?d = ?m(?k \<mapsto> Some (l @ [c]))"
    using w2(3) w1(3) by (auto simp: fun_eq_iff watch_keys.set_val_ok(3) [OF ok(1)])
  ultimately show thesis using that l_def by blast
qed

section \<open>Properties\<close>

text \<open>
  Setting a key succeeds whether or not it exists, a later read of any key returns the value last
  set for it, and neither touches the expiry times or the watchers.
\<close>

theorem db_set_get:
  assumes "db_good db" "nul_free k" "nul_free k'"
  shows "\<exists>db1 db2. dbAdd db k v = Some (DICT_OK, db1) \<and> db_good db1
     \<and> dbGet db1 k' = Some (if k' = k then v else kv_value db k', db2) \<and> db_good db2
     \<and> expires db2 = expires db \<and> watched_keys db2 = watched_keys db"
proof -
  obtain d where d: "dbAdd db k v = Some (DICT_OK, db\<lparr>kv := d\<rparr>)" "db_good (db\<lparr>kv := d\<rparr>)"
    "dict_map key_canon d = (dict_map key_canon (kv db))(key_canon k \<mapsto> v)" by (rule dbAdd_sets [OF assms(1)])
  obtain e where e: "dbGet (db\<lparr>kv := d\<rparr>) k' = Some (kv_value (db\<lparr>kv := d\<rparr>) k', (db\<lparr>kv := d\<rparr>)\<lparr>kv := e\<rparr>)"
    "db_good ((db\<lparr>kv := d\<rparr>)\<lparr>kv := e\<rparr>)" by (rule dbGet_reads [OF d(2)])
  have "kv_value (db\<lparr>kv := d\<rparr>) k' = (if k' = k then v else kv_value db k')"
    using d(3) key_canon_nul_free [OF assms(3,2)] by (simp add: kv_value_def kv_map_def)
  with d e show ?thesis by (intro exI [of _ "db\<lparr>kv := d\<rparr>"] exI [of _ "db\<lparr>kv := e\<rparr>"]) simp
qed

theorem db_set_get_witness:
  "\<exists>db1 db2. dbAdd (dbInit 0) ''a'' (Some (createLongString 7)) = Some (DICT_OK, db1)
     \<and> dbGet db1 ''a'' = Some (Some (createLongString 7), db2)"
  using db_set_get [OF dbInit_good(1), of "''a''" "''a''" 0 "Some (createLongString 7)"] by auto

text \<open>
  Deleting a key reports whether it existed and removes that key only.
\<close>

theorem db_delete:
  assumes "db_good db" "nul_free k"
  shows "\<exists>db'. dbDelete db k = Some (if kv_map db k = None then DICT_ERR else DICT_OK, db')
     \<and> (\<forall>k'. nul_free k' \<longrightarrow> kv_map db' k' = (if k' = k then None else kv_map db k'))"
proof -
  obtain d where "dbDelete db k = Some (if kv_map db k = None then DICT_ERR else DICT_OK, db\<lparr>kv := d\<rparr>)"
    "dict_map key_canon d = (dict_map key_canon (kv db))(key_canon k := None)" by (rule dbDelete_removes [OF assms(1)])
  then show ?thesis using key_canon_nul_free assms(2)
    by (intro exI [of _ "db\<lparr>kv := d\<rparr>"]) (auto simp: kv_map_def)
qed

theorem db_delete_witness: "\<exists>db'. dbDelete (dbInit 0) ''a'' = Some (DICT_ERR, db') \<and> kv_map db' ''a'' = None"
  using db_delete [OF dbInit_good(1), of "''a''" 0] dbInit_good(2) by auto

text \<open>
  An access after the expiry time deletes the key but leaves its expiry time in place: the second
  deletion is guarded by a positive return code, and success is 0.  Setting the key again afterwards
  does not help: the next access deletes it again.
\<close>

theorem db_expiry_time_survives:
  assumes "db_good db" "nul_free k" "expires_map db k \<noteq> None" "expire_at db k < now"
  shows "\<exists>db1. expireIfNeed now db k = Some db1 \<and> kv_map db1 k = None \<and> expires_map db1 k = expires_map db k
     \<and> (db_good db1 \<longrightarrow> (\<forall>v. \<exists>db2 db3. dbAdd db1 k v = Some (DICT_OK, db2) \<and> kv_map db2 k = Some v
          \<and> expireIfNeed now db2 k = Some db3 \<and> kv_map db3 k = None))"
proof -
  have once: "\<exists>db'. expireIfNeed now x k = Some db' \<and> kv_map db' k = None \<and> expires_map db' k = expires_map x k"
    if x: "db_good x" "expires_map x k \<noteq> None" "expire_at x k < now" for x
  proof (cases rule: expireIfNeed_cases [OF x(1), of now k])
    case (1 e)
    then show ?thesis using x by auto
  next
    case (2 d e)
    then show ?thesis by (intro exI [of _ "x\<lparr>kv := d, expires := e\<rparr>"]) (simp add: kv_map_def expires_map_def)
  qed
  obtain db1 where db1: "expireIfNeed now db k = Some db1" "kv_map db1 k = None" "expires_map db1 k = expires_map db k"
    using once [OF assms(1,3,4)] by blast
  have "\<exists>db2 db3. dbAdd db1 k v = Some (DICT_OK, db2) \<and> kv_map db2 k = Some v
      \<and> expireIfNeed now db2 k = Some db3 \<and> kv_map db3 k = None" if good: "db_good db1" for v
  proof -
    obtain d where d: "dbAdd db1 k v = Some (DICT_OK, db1\<lparr>kv := d\<rparr>)" "db_good (db1\<lparr>kv := d\<rparr>)"
      "dict_map key_canon d = (dict_map key_canon (kv db1))(key_canon k \<mapsto> v)" by (rule dbAdd_sets [OF good])
    have "expires_map (db1\<lparr>kv := d\<rparr>) k = expires_map db k" using db1(3) by (simp add: expires_map_def)
    then obtain db3 where "expireIfNeed now (db1\<lparr>kv := d\<rparr>) k = Some db3" "kv_map db3 k = None"
      using once [OF d(2)] assms(3,4) by (auto simp: expire_at_def)
    with d show ?thesis by (intro exI [of _ "db1\<lparr>kv := d\<rparr>"] exI [of _ db3]) (simp add: kv_map_def)
  qed
  with db1 show ?thesis by blast
qed

text \<open>
  A second expiry time for a key is refused and the first one stays, so the remaining time a
  client reads is always computed from the first.
\<close>

theorem db_expire_not_updated:
  assumes "db_good db" "expires_map db k = None" "t \<noteq> 0"
  shows "\<exists>db1 db2 db3. dbSetExpire db k t = Some (DICT_OK, db1) \<and> dbSetExpire db1 k t' = Some (DICT_ERR, db2)
     \<and> dbGetTTL now db2 k = Some (t - now, db3)"
proof -
  obtain d1 where d1: "dbSetExpire db k t = Some (DICT_OK, db\<lparr>expires := d1\<rparr>)" "db_good (db\<lparr>expires := d1\<rparr>)"
    "dict_map key_canon d1 = (dict_map key_canon (expires db))(key_canon k \<mapsto> long_ptr t)"
    by (rule dbSetExpire_adds [OF assms(1), of k t]) (use assms(2) in auto)
  let ?db1 = "db\<lparr>expires := d1\<rparr>"
  have m: "expires_map ?db1 k = Some (long_ptr t)" using d1(3) by (simp add: expires_map_def)
  obtain d2 where d2: "dbSetExpire ?db1 k t' = Some (DICT_ERR, ?db1\<lparr>expires := d2\<rparr>)" "db_good (?db1\<lparr>expires := d2\<rparr>)"
    "dict_map key_canon d2 = dict_map key_canon d1"
    by (rule dbSetExpire_adds [OF d1(2), of k t']) (use m in auto)
  have g: "dict_good expiretype key_canon d2" using d2(2) by (simp add: db_good_def)
  obtain d3 where "dictFetchValue expiretype d2 k = Some (long_ptr t, d3)"
    using expire_keys.store.fetch_law [OF g, of k] d2(3) d1(3) by auto
  then have "dbGetTTL now (?db1\<lparr>expires := d2\<rparr>) k = Some (t - now, (?db1\<lparr>expires := d2\<rparr>)\<lparr>expires := d3\<rparr>)"
    by (simp add: dbGetTTL_def)
  with d1(1) d2(1) show ?thesis by blast
qed

theorem db_expire_not_updated_witness:
  "\<exists>db1 db2 db3. dbSetExpire (dbInit 0) ''a'' 100 = Some (DICT_OK, db1)
     \<and> dbSetExpire db1 ''a'' 900 = Some (DICT_ERR, db2) \<and> dbGetTTL 40 db2 ''a'' = Some (60, db3)"
proof -
  have t: "100 - 40 = (60 :: int)" by simp
  show ?thesis using db_expire_not_updated [OF dbInit_good(1,3), where t = 100 and now = 40] unfolding t by simp
qed

theorem db_expiry_time_survives_witness:
  "\<exists>db db1. db_good db \<and> expireIfNeed 200 db ''a'' = Some db1 \<and> expires_map db1 ''a'' = Some (Some 100)"
proof -
  obtain d where d: "db_good ((dbInit 0)\<lparr>expires := d\<rparr>)"
    "dict_map key_canon d = [key_canon ''a'' \<mapsto> long_ptr 100]"
    by (rule dbSetExpire_adds [OF dbInit_good(1), where k = "''a''" and t = 100])
      (use dbInit_good(3) in \<open>simp add: dbInit_def dictCreate_good\<close>)
  then have "expires_map ((dbInit 0)\<lparr>expires := d\<rparr>) ''a'' = Some (Some 100)"
    by (simp add: expires_map_def long_ptr_def)
  with db_expiry_time_survives [OF d(1), of "''a''" 200] d(1) show ?thesis
    by (auto simp: expire_at_def ptr_long_def)
qed

text \<open>
  Watching a key appends the client to the key's list, creating it for the first watcher, and
  from then on the key counts as watched.
\<close>

theorem db_watch_appends:
  assumes "db_good db" "watch_map db k \<noteq> Some None"
  shows "\<exists>db'. dbAddWatch db k c = Some db' \<and> db_good db' \<and> dbIsWatching db' k = Some True
     \<and> watch_map db' k = Some (Some ((case watch_map db k of Some (Some l) \<Rightarrow> l | _ \<Rightarrow> []) @ [c]))"
proof -
  obtain d where d: "dbAddWatch db k c = Some (db\<lparr>watched_keys := d\<rparr>)" "db_good (db\<lparr>watched_keys := d\<rparr>)"
    "dict_map key_canon d = (dict_map key_canon (watched_keys db))(key_canon k \<mapsto>
       Some ((case watch_map db k of Some (Some l) \<Rightarrow> l | _ \<Rightarrow> []) @ [c]))"
    by (rule dbAddWatch_appends [OF assms])
  have g: "dict_good watchtype key_canon d" using d(2) by (simp add: db_good_def)
  have "dbIsWatching (db\<lparr>watched_keys := d\<rparr>) k = Some True"
    using watch_keys.store.contains_law [OF g, of k] d(3) by (simp add: dbIsWatching_def)
  with d show ?thesis by (intro exI [of _ "db\<lparr>watched_keys := d\<rparr>"]) (simp add: watch_map_def)
qed

theorem db_watch_appends_witness:
  "\<exists>db'. dbAddWatch (dbInit 0) ''a'' 4 = Some db' \<and> watch_map db' ''a'' = Some (Some [4])"
  using db_watch_appends [OF dbInit_good(1), of 0 "''a''" 4] dbInit_good(4) by auto

definition set_keys :: "bytes list \<Rightarrow> redisDb option" where
  "set_keys ks = foldl (\<lambda>d k. Option.bind d (\<lambda>x. map_option snd (dbAdd x k (Some (createLongString 1))))) (Some (dbInit 0)) ks"

definition delete_keys :: "bytes list \<Rightarrow> redisDb option \<Rightarrow> redisDb option" where
  "delete_keys ks d = foldl (\<lambda>d k. Option.bind d (\<lambda>x. map_option snd (dbDelete x k))) d ks"


end
