(* ===== verification/Ae.thy ===== *)
theory Ae
  imports Prelude "HOL-Library.Word" "HOL-Library.Signed_Division"
begin

unbundle bit_operations_syntax

text \<open>
  The event loop (\<open>src/ae.c\<close>): the table of registered file events, the timers and one turn of the
  loop.  A handler is a value of type \<open>'h\<close>, a timer procedure one of type \<open>'t\<close> and the private data
  one of type \<open>'d\<close>.  Two parts of the operating system appear as data: the interest list of the epoll
  instance is the field \<open>epoll\<close>, changed by \<open>epoll_ctl\<close> as its manual page says (adding a registered
  descriptor and modifying an unregistered one fail), and the result of \<open>epoll_wait\<close>, the readings of
  the clock and the error state of a socket (\<open>checkSockErr\<close>) are arguments.  \<open>None\<close> is an access
  outside the event table or a call through a null procedure.

  The lemmas show the invariant that ties the event table to \<open>maxfd\<close> and to the interest list, which
  calls succeed, and what the kernel is asked to watch.
\<close>

section \<open>State\<close>

type_synonym cint = "32 word"

definition AE_NONE :: cint where "AE_NONE = 0"
definition AE_READABLE :: cint where "AE_READABLE = 1"
definition AE_WRITABLE :: cint where "AE_WRITABLE = 2"
definition AE_ERROR :: int where "AE_ERROR = - 1"
definition AE_OK :: int where "AE_OK = 0"
definition AE_NOMORE :: int where "AE_NOMORE = - 1"

record ('h, 'd) aeFileEvent =
  fmask :: cint
  rfileProc :: "'h option"
  wfileProc :: "'h option"
  fdata :: "'d option"

record ('t, 'd) aeTimeEvent =
  te_id :: int
  te_when :: int
  te_when_ms :: int
  timeProc :: 't
  te_data :: "'d option"

record ('h, 't, 'd) aeEventLoop =
  maxfd :: int
  maxsize :: int
  events :: "('h, 'd) aeFileEvent list"
  epoll :: "int \<Rightarrow> cint option"
  timers :: "('t, 'd) aeTimeEvent list"
  timeEventNextId :: int
  stop :: bool

section \<open>File events\<close>

text \<open>
  \<open>malloc\<close> leaves \<open>maxfd\<close> and the timer fields as they were in the memory it returns (\<open>junk\<close>): only
  the table, its size and \<open>stop\<close> are initialised.
\<close>

definition aeCreateEventLoop :: "('h, 't, 'd) aeEventLoop \<Rightarrow> int \<Rightarrow> ('h, 't, 'd) aeEventLoop" where
  "aeCreateEventLoop junk n = junk
     \<lparr>maxsize := n,
      events := replicate (nat n) \<lparr>fmask = AE_NONE, rfileProc = None, wfileProc = None, fdata = None\<rparr>,
      epoll := (\<lambda>_. None), stop := False\<rparr>"

text \<open>\<open>mask\<close> replaces what the descriptor was watched for.\<close>

definition aeApiAddEvent :: "('h, 't, 'd) aeEventLoop \<Rightarrow> int \<Rightarrow> cint \<Rightarrow> (int \<times> ('h, 't, 'd) aeEventLoop) option" where
  "aeApiAddEvent el fd msk =
     (if msk = AE_NONE then Some (AE_OK, el)
      else do {
        fe \<leftarrow> load (events el) fd;
        let add = (fmask fe = AE_NONE);
        if add \<and> epoll el fd \<noteq> None \<or> \<not> add \<and> epoll el fd = None then Some (AE_ERROR, el)
        else Some (AE_OK, el\<lparr>epoll := (epoll el)(fd \<mapsto> msk AND (AE_READABLE OR AE_WRITABLE))\<rparr>)
      })"

definition aeCreateFileEvent :: "bool \<Rightarrow> ('h, 't, 'd) aeEventLoop \<Rightarrow> int \<Rightarrow> cint \<Rightarrow> 'h \<Rightarrow> 'd option \<Rightarrow>
    (int \<times> ('h, 't, 'd) aeEventLoop) option" where
  "aeCreateFileEvent sock_ok el fd msk proc data =
     (if \<not> sock_ok then Some (AE_ERROR, el)
      else if fd \<ge> maxsize el \<or> fd < 0 then Some (AE_ERROR, el)
      else do {
        (r, el1) \<leftarrow> aeApiAddEvent el fd msk;
        if r = AE_ERROR then Some (AE_ERROR, el1)
        else do {
          fe \<leftarrow> load (events el1) fd;
          let fe1 = fe\<lparr>fmask := fmask fe OR msk\<rparr>;
          let fe2 = (if msk AND AE_READABLE \<noteq> 0 then fe1\<lparr>rfileProc := Some proc\<rparr> else fe1);
          let fe3 = (if msk AND AE_WRITABLE \<noteq> 0 then fe2\<lparr>wfileProc := Some proc\<rparr> else fe2);
          evs \<leftarrow> store (events el1) fd (fe3\<lparr>fdata := data\<rparr>);
          Some (AE_OK, el1\<lparr>events := evs, maxfd := (if fd > maxfd el1 then fd else maxfd el1)\<rparr>)
        }
      })"

definition aeApiDelEvent :: "('h, 't, 'd) aeEventLoop \<Rightarrow> int \<Rightarrow> cint \<Rightarrow> int \<times> ('h, 't, 'd) aeEventLoop" where
  "aeApiDelEvent el fd msk =
     (if msk = AE_NONE then (AE_OK, el\<lparr>epoll := (epoll el)(fd := None)\<rparr>)
      else if epoll el fd = None then (AE_OK, el)
      else (AE_OK, el\<lparr>epoll := (epoll el)(fd \<mapsto> msk AND (AE_READABLE OR AE_WRITABLE))\<rparr>))"

text \<open>The loop that looks for the next lower registered descriptor.\<close>

fun lower_registered :: "('h, 'd) aeFileEvent list \<Rightarrow> nat \<Rightarrow> int option" where
  "lower_registered evs 0 = Some (- 1)"
| "lower_registered evs (Suc j) = do {
     fe \<leftarrow> load evs (int j);
     if fmask fe \<noteq> AE_NONE then Some (int j) else lower_registered evs j
   }"

definition aeDeleteFileEvent :: "('h, 't, 'd) aeEventLoop \<Rightarrow> int \<Rightarrow> cint \<Rightarrow> (int \<times> ('h, 't, 'd) aeEventLoop) option" where
  "aeDeleteFileEvent el fd msk =
     (if fd \<ge> maxsize el then Some (AE_ERROR, el)
      else do {
        fe \<leftarrow> load (events el) fd;
        if fmask fe = AE_NONE then Some (AE_OK, el)
        else do {
          let fe' = fe\<lparr>fmask := fmask fe AND NOT msk\<rparr>;
          evs \<leftarrow> store (events el) fd fe';
          m \<leftarrow> (if fd = maxfd el \<and> fmask fe' = AE_NONE then lower_registered evs (nat (maxfd el)) else Some (maxfd el));
          Some (aeApiDelEvent (el\<lparr>events := evs, maxfd := m\<rparr>) fd (fmask fe'))
        }
      })"

section \<open>Timers\<close>

text \<open>A reading of the clock is seconds and milliseconds.\<close>

type_synonym reading = "int \<times> int"

definition aeAddMillisecondsToNow :: "reading \<Rightarrow> int \<Rightarrow> reading" where
  "aeAddMillisecondsToNow now milliseconds = (
     let when_sec = fst now + milliseconds sdiv 1000;
         when_ms = snd now + milliseconds smod 1000
     in if when_ms \<ge> 1000 then (when_sec + 1, when_ms - 1000) else (when_sec, when_ms))"

definition aeCreateTimeEvent :: "reading \<Rightarrow> ('h, 't, 'd) aeEventLoop \<Rightarrow> int \<Rightarrow> 't \<Rightarrow> 'd option \<Rightarrow>
    int \<times> ('h, 't, 'd) aeEventLoop" where
  "aeCreateTimeEvent now el ms proc data = (
     let (w, wms) = aeAddMillisecondsToNow now ms;
         te = \<lparr>te_id = timeEventNextId el, te_when = w, te_when_ms = wms, timeProc = proc, te_data = data\<rparr>
     in (AE_OK, el\<lparr>timeEventNextId := timeEventNextId el + 1, timers := te # timers el\<rparr>))"

fun remove_timer :: "('t, 'd) aeTimeEvent list \<Rightarrow> int \<Rightarrow> ('t, 'd) aeTimeEvent list option" where
  "remove_timer [] i = None"
| "remove_timer (te # tes) i = (if te_id te = i then Some tes else map_option ((#) te) (remove_timer tes i))"

definition aeDeleteTimeEvent :: "('h, 't, 'd) aeEventLoop \<Rightarrow> int \<Rightarrow> int \<times> ('h, 't, 'd) aeEventLoop" where
  "aeDeleteTimeEvent el i = (case remove_timer (timers el) i of
       None \<Rightarrow> (AE_ERROR, el)
     | Some tes \<Rightarrow> (AE_OK, el\<lparr>timers := tes\<rparr>))"

fun nearest_from :: "('t, 'd) aeTimeEvent option \<Rightarrow> ('t, 'd) aeTimeEvent list \<Rightarrow> ('t, 'd) aeTimeEvent option" where
  "nearest_from nearest [] = nearest"
| "nearest_from nearest (te # tes) =
     (case nearest of
        None \<Rightarrow> nearest_from (Some te) tes
      | Some n \<Rightarrow> nearest_from (if te_when te < te_when n then Some te else nearest) tes)"

definition aeSearchNearestTimer :: "('h, 't, 'd) aeEventLoop \<Rightarrow> ('t, 'd) aeTimeEvent option" where
  "aeSearchNearestTimer el = nearest_from None (timers el)"

definition timer_due :: "reading \<Rightarrow> ('t, 'd) aeTimeEvent \<Rightarrow> bool" where
  "timer_due now te \<longleftrightarrow> fst now > te_when te \<or> fst now = te_when te \<and> snd now \<ge> te_when_ms te"

text \<open>
  The loop over the timers.  \<open>clk n\<close> is the n-th reading of the clock, \<open>fire\<close> runs the timer procedure
  on the whole state, which holds the event loop (\<open>L\<close> reads it, \<open>U\<close> updates it).  After a timer has
  fired the scan starts over at the head.  The procedure must not delete its own timer: its record
  is written afterwards.
\<close>

definition reschedule :: "int \<Rightarrow> reading \<Rightarrow> ('t, 'd) aeTimeEvent list \<Rightarrow> ('t, 'd) aeTimeEvent list option" where
  "reschedule i w tes = (if i \<in> te_id ` set tes
     then Some (map (\<lambda>te. if te_id te = i then te\<lparr>te_when := fst w, te_when_ms := snd w\<rparr> else te) tes)
     else None)"

partial_function (option) process_timers ::
  "('s \<Rightarrow> ('h, 't, 'd) aeEventLoop) \<Rightarrow> (('h, 't, 'd) aeEventLoop \<Rightarrow> 's \<Rightarrow> 's) \<Rightarrow> (nat \<Rightarrow> reading) \<Rightarrow>
   ('s \<Rightarrow> ('t, 'd) aeTimeEvent \<Rightarrow> (int \<times> 's) option) \<Rightarrow> nat \<Rightarrow> ('t, 'd) aeTimeEvent list \<Rightarrow> 's \<Rightarrow> (nat \<times> 's) option" where
  "process_timers L U clk fire n todo s =
     (if todo = [] then Some (n, s)
      else if timer_due (clk n) (hd todo) then do {
        r \<leftarrow> fire s (hd todo);
        let el = L (snd r);
        if fst r \<noteq> AE_NOMORE then do {
          tes \<leftarrow> reschedule (te_id (hd todo)) (aeAddMillisecondsToNow (clk (n + 1)) (fst r)) (timers el);
          process_timers L U clk fire (n + 2) tes (U (el\<lparr>timers := tes\<rparr>) (snd r))
        } else
          (let el' = snd (aeDeleteTimeEvent el (te_id (hd todo)))
           in process_timers L U clk fire (n + 1) (timers el') (U el' (snd r)))
      }
      else process_timers L U clk fire (n + 1) (tl todo) s)"

definition processTimeEvents ::
  "('s \<Rightarrow> ('h, 't, 'd) aeEventLoop) \<Rightarrow> (('h, 't, 'd) aeEventLoop \<Rightarrow> 's \<Rightarrow> 's) \<Rightarrow> (nat \<Rightarrow> reading) \<Rightarrow>
   ('s \<Rightarrow> ('t, 'd) aeTimeEvent \<Rightarrow> (int \<times> 's) option) \<Rightarrow> 's \<Rightarrow> (nat \<times> 's) option" where
  "processTimeEvents L U clk fire s = process_timers L U clk fire 0 (timers (L s)) s"

section \<open>One turn of the loop\<close>

text \<open>How long \<open>epoll_wait\<close> may sleep, in milliseconds; \<open>- 1\<close> is for ever.\<close>

definition poll_timeout :: "reading \<Rightarrow> ('h, 't, 'd) aeEventLoop \<Rightarrow> int" where
  "poll_timeout now el = (case aeSearchNearestTimer el of
       None \<Rightarrow> - 1
     | Some te \<Rightarrow>
         (let delay_ms = te_when te * 1000 - (fst now * 1000 + snd now);
              delay = (if delay_ms < 0 then 0 else delay_ms);
              tv_sec = delay div 1000; tv_usec = (delay mod 1000) * 1000
          in tv_sec * 1000 + (tv_usec + 999) div 1000))"

text \<open>The handlers of the descriptors \<open>epoll_wait\<close> reported; the entry is read again after the read handler.\<close>

fun fire_file_events ::
  "('s \<Rightarrow> ('h, 't, 'd) aeEventLoop) \<Rightarrow> ('s \<Rightarrow> 'h \<Rightarrow> int \<Rightarrow> 'd option \<Rightarrow> 's option) \<Rightarrow> (int \<times> cint) list \<Rightarrow> 's \<Rightarrow> 's option" where
  "fire_file_events L run [] s = Some s"
| "fire_file_events L run ((fd, msk) # fired) s = do {
     fe \<leftarrow> load (events (L s)) fd;
     s1 \<leftarrow> (if fmask fe AND AE_READABLE \<noteq> 0 \<and> msk AND AE_READABLE \<noteq> 0
            then Option.bind (rfileProc fe) (\<lambda>h. run s h fd (fdata fe)) else Some s);
     fe1 \<leftarrow> load (events (L s1)) fd;
     s2 \<leftarrow> (if fmask fe1 AND AE_WRITABLE \<noteq> 0 \<and> msk AND AE_WRITABLE \<noteq> 0
            then Option.bind (wfileProc fe1) (\<lambda>h. run s1 h fd (fdata fe1)) else Some s1);
     fire_file_events L run fired s2
   }"

text \<open>
  \<open>aeProcessEvents\<close> with both flags, as \<open>aeMain\<close> calls it, for the descriptors \<open>fired\<close>.  The signal to
  the thread of the append-only file at its end has no effect on this state.
\<close>

definition aeProcessEvents ::
  "('s \<Rightarrow> ('h, 't, 'd) aeEventLoop) \<Rightarrow> (('h, 't, 'd) aeEventLoop \<Rightarrow> 's \<Rightarrow> 's) \<Rightarrow> (nat \<Rightarrow> reading) \<Rightarrow>
   ('s \<Rightarrow> 'h \<Rightarrow> int \<Rightarrow> 'd option \<Rightarrow> 's option) \<Rightarrow> ('s \<Rightarrow> ('t, 'd) aeTimeEvent \<Rightarrow> (int \<times> 's) option) \<Rightarrow>
   (int \<times> cint) list \<Rightarrow> 's \<Rightarrow> 's option" where
  "aeProcessEvents L U clk run fire fired s = do {
     s1 \<leftarrow> fire_file_events L run fired s;
     r \<leftarrow> processTimeEvents L U clk fire s1;
     Some (snd r)
   }"

section \<open>The table, the highest descriptor and the interest list\<close>

definition registered :: "('h, 't, 'd) aeEventLoop \<Rightarrow> int \<Rightarrow> bool" where
  "registered el fd \<longleftrightarrow> 0 \<le> fd \<and> fd < int (length (events el)) \<and> fmask (events el ! nat fd) \<noteq> AE_NONE"

text \<open>Exactly the registered descriptors are in the interest list, and \<open>maxfd\<close> is the greatest (or -1).\<close>

definition ae_ok :: "('h, 't, 'd) aeEventLoop \<Rightarrow> bool" where
  "ae_ok el \<longleftrightarrow> maxsize el = int (length (events el))
     \<and> (\<forall>fd. epoll el fd \<noteq> None \<longleftrightarrow> registered el fd)
     \<and> (\<forall>fd. registered el fd \<longrightarrow> fd \<le> maxfd el)
     \<and> (maxfd el = - 1 \<or> registered el (maxfd el))"

lemma ae_okD:
  assumes "ae_ok el"
  shows "maxsize el = int (length (events el))" "epoll el fd \<noteq> None \<longleftrightarrow> registered el fd"
    "registered el fd \<Longrightarrow> fd \<le> maxfd el" "maxfd el = - 1 \<or> registered el (maxfd el)"
  using assms by (auto simp: ae_ok_def)

lemma ae_create_ok: "0 \<le> n \<Longrightarrow> maxfd junk = - 1 \<Longrightarrow> ae_ok (aeCreateEventLoop junk n)"
  by (auto simp: ae_ok_def aeCreateEventLoop_def registered_def)

lemma lower_registered_spec:
  "n \<le> length evs \<Longrightarrow> \<exists>m. lower_registered evs n = Some m \<and> - 1 \<le> m \<and> m < int n
     \<and> (m \<noteq> - 1 \<longrightarrow> fmask (evs ! nat m) \<noteq> AE_NONE)
     \<and> (\<forall>j. m < int j \<and> j < n \<longrightarrow> fmask (evs ! j) = AE_NONE)"
proof (induction n)
  case (Suc n)
  then have l: "load evs (int n) = Some (evs ! n)" by (simp add: load_nat)
  show ?case
  proof (cases "fmask (evs ! n) = AE_NONE")
    case True
    with Suc obtain m where "lower_registered evs n = Some m" "- 1 \<le> m" "m < int n"
      "m \<noteq> - 1 \<longrightarrow> fmask (evs ! nat m) \<noteq> AE_NONE" "\<forall>j. m < int j \<and> j < n \<longrightarrow> fmask (evs ! j) = AE_NONE"
      by auto
    with True l show ?thesis by (auto simp: less_Suc_eq)
  qed (use l in auto)
qed simp

lemma or_mask: "m \<noteq> 0 \<Longrightarrow> a OR m \<noteq> (0 :: cint)" and ae_bits [simp]:
  "AE_READABLE AND (AE_READABLE OR AE_WRITABLE) = AE_READABLE"
  "AE_WRITABLE AND (AE_READABLE OR AE_WRITABLE) = AE_WRITABLE"
  "AE_READABLE \<noteq> AE_NONE" "AE_WRITABLE \<noteq> AE_NONE"
  "AE_READABLE AND AE_READABLE = AE_READABLE" "AE_WRITABLE AND AE_WRITABLE = AE_WRITABLE"
  "AE_READABLE \<noteq> 0" "AE_WRITABLE \<noteq> 0" "AE_READABLE \<noteq> AE_WRITABLE" "AE_WRITABLE \<noteq> AE_READABLE"
  "AE_READABLE AND AE_WRITABLE = 0" "AE_WRITABLE AND AE_READABLE = 0"
  by (auto simp: AE_READABLE_def AE_WRITABLE_def AE_NONE_def or_eq_0_iff)

text \<open>What registering does, on a loop that satisfies the invariant.\<close>

lemma aeCreateFileEvent_spec:
  assumes ok: "ae_ok el" and m: "msk = AE_READABLE \<or> msk = AE_WRITABLE"
    and fd: "0 \<le> fd" "fd < maxsize el"
  obtains el' where "aeCreateFileEvent True el fd msk h d = Some (AE_OK, el')"
    "ae_ok el'" "maxsize el' = maxsize el" "epoll el' = (epoll el)(fd \<mapsto> msk)"
    "timers el' = timers el"
    "events el' = (events el)[nat fd := (events el ! nat fd)
       \<lparr>fmask := fmask (events el ! nat fd) OR msk,
        rfileProc := (if msk = AE_READABLE then Some h else rfileProc (events el ! nat fd)),
        wfileProc := (if msk = AE_WRITABLE then Some h else wfileProc (events el ! nat fd)), fdata := d\<rparr>]"
proof -
  let ?fe = "events el ! nat fd"
  have len: "maxsize el = int (length (events el))" using ok by (simp add: ae_ok_def)
  have ep: "epoll el fd \<noteq> None \<longleftrightarrow> fmask ?fe \<noteq> AE_NONE"
    using ok fd len by (auto simp: ae_ok_def registered_def)
  have l: "load (events el) fd = Some ?fe" using fd len by (simp add: load_def)
  have add: "aeApiAddEvent el fd msk = Some (AE_OK, el\<lparr>epoll := (epoll el)(fd \<mapsto> msk)\<rparr>)"
    using m ep l by (auto simp: aeApiAddEvent_def Let_def)
  let ?evs = "(events el)[nat fd := ?fe
       \<lparr>fmask := fmask ?fe OR msk,
        rfileProc := (if msk = AE_READABLE then Some h else rfileProc ?fe),
        wfileProc := (if msk = AE_WRITABLE then Some h else wfileProc ?fe), fdata := d\<rparr>]"
  let ?el = "el\<lparr>epoll := (epoll el)(fd \<mapsto> msk), events := ?evs, maxfd := max fd (maxfd el)\<rparr>"
  have e: "aeCreateFileEvent True el fd msk h d = Some (AE_OK, ?el)"
    using m fd len l add by (auto simp: aeCreateFileEvent_def store_def AE_ERROR_def AE_OK_def max_def Let_def)
  have reg: "registered ?el x \<longleftrightarrow> x = fd \<or> registered el x" for x
    using m fd len by (auto simp: registered_def nth_list_update AE_NONE_def or_mask)
  have "ae_ok ?el" unfolding ae_ok_def reg
  proof (intro conjI allI impI)
    show "maxsize ?el = int (length (events ?el))" using len by simp
    show "epoll ?el x \<noteq> None \<longleftrightarrow> x = fd \<or> registered el x" for x
      using ae_okD(2) [OF ok, of x] by auto
    show "x \<le> maxfd ?el" if "x = fd \<or> registered el x" for x
      using that ae_okD(3) [OF ok, of x] by auto
    show "maxfd ?el = - 1 \<or> maxfd ?el = fd \<or> registered el (maxfd ?el)"
      using ae_okD(4) [OF ok] by (auto simp: max_def)
  qed
  then show thesis by (intro that [OF e]) simp_all
qed

lemma aeCreateFileEvent_mask:
  assumes ok: "ae_ok el" and m: "msk = AE_READABLE \<or> msk = AE_WRITABLE"
    and fd: "0 \<le> fd" "fd < maxsize el"
  obtains el' where "aeCreateFileEvent True el fd msk h d = Some (AE_OK, el')" "ae_ok el'" "maxsize el' = maxsize el"
    "epoll el' fd = Some msk" "fmask (events el' ! nat fd) = fmask (events el ! nat fd) OR msk" "registered el' fd"
proof -
  obtain el' where e: "aeCreateFileEvent True el fd msk h d = Some (AE_OK, el')" "ae_ok el'" "maxsize el' = maxsize el"
      "epoll el' = (epoll el)(fd \<mapsto> msk)"
      "events el' = (events el)[nat fd := (events el ! nat fd)
       \<lparr>fmask := fmask (events el ! nat fd) OR msk,
        rfileProc := (if msk = AE_READABLE then Some h else rfileProc (events el ! nat fd)),
        wfileProc := (if msk = AE_WRITABLE then Some h else wfileProc (events el ! nat fd)), fdata := d\<rparr>]"
    by (rule aeCreateFileEvent_spec [OF assms])
  have "nat fd < length (events el)" using ok fd by (simp add: ae_ok_def)
  then have "fmask (events el' ! nat fd) = fmask (events el ! nat fd) OR msk" unfolding e(5) by simp
  moreover have "epoll el' fd = Some msk" unfolding e(4) by simp
  moreover have "registered el' fd" using ae_okD(2) [OF e(2), of fd] unfolding e(4) by simp
  ultimately show thesis using that [OF e(1-3)] by simp
qed

lemma aeDeleteFileEvent_spec:
  assumes ok: "ae_ok el" and fd: "0 \<le> fd" "fd < maxsize el" and reg: "registered el fd"
  obtains el' where "aeDeleteFileEvent el fd msk = Some (AE_OK, el')"
    "ae_ok el'" "maxsize el' = maxsize el" "timers el' = timers el"
    "events el' = (events el)[nat fd := (events el ! nat fd)\<lparr>fmask := fmask (events el ! nat fd) AND NOT msk\<rparr>]"
    "epoll el' = (epoll el)(fd := if fmask (events el ! nat fd) AND NOT msk = AE_NONE then None
        else Some ((fmask (events el ! nat fd) AND NOT msk) AND (AE_READABLE OR AE_WRITABLE)))"
proof -
  let ?fe = "events el ! nat fd"
  let ?m = "fmask ?fe AND NOT msk"
  let ?evs = "(events el)[nat fd := ?fe\<lparr>fmask := ?m\<rparr>]"
  have len: "maxsize el = int (length (events el))" using ok by (simp add: ae_ok_def)
  have l: "load (events el) fd = Some ?fe" using fd len by (simp add: load_def)
  have ne: "fmask ?fe \<noteq> AE_NONE" "epoll el fd \<noteq> None" using reg ae_okD(2) [OF ok, of fd] by (auto simp: registered_def)
  define top where "top = (if fd = maxfd el \<and> ?m = AE_NONE then lower_registered ?evs (nat (maxfd el)) else Some (maxfd el))"
  have "nat fd \<le> length ?evs" using fd len by simp
  moreover have "int (nat fd) = fd" using fd by simp
  ultimately obtain l where l1: "lower_registered ?evs (nat fd) = Some l"
    "- 1 \<le> l" "l < fd" "l \<noteq> - 1 \<longrightarrow> fmask (?evs ! nat l) \<noteq> AE_NONE"
    "\<forall>j. l < int j \<and> j < nat fd \<longrightarrow> fmask (?evs ! j) = AE_NONE"
    using lower_registered_spec [of "nat fd" ?evs] by metis
  define m where "m = (if fd = maxfd el \<and> ?m = AE_NONE then l else maxfd el)"
  have top: "top = Some m"
  proof (cases "fd = maxfd el \<and> ?m = AE_NONE")
    case True
    then have mf: "nat (maxfd el) = nat fd" by simp
    show ?thesis unfolding top_def m_def if_P [OF True] mf by (rule l1(1))
  qed (simp only: top_def m_def if_not_P if_False)
  define ep where "ep = (epoll el)(fd := if ?m = AE_NONE then None else Some (?m AND (AE_READABLE OR AE_WRITABLE)))"
  let ?el = "el\<lparr>events := ?evs, maxfd := m, epoll := ep\<rparr>"
  have st: "store (events el) fd (?fe\<lparr>fmask := ?m\<rparr>) = Some ?evs" using fd len by (simp add: store_def)
  have api: "aeApiDelEvent (el\<lparr>events := ?evs, maxfd := m\<rparr>) fd ?m = (AE_OK, ?el)"
    by (simp add: aeApiDelEvent_def ep_def ne(2) del: not_None_eq)
  have e: "aeDeleteFileEvent el fd msk = Some (AE_OK, ?el)"
    using fd(2) ne(1) by (simp add: aeDeleteFileEvent_def l st api top [unfolded top_def] Let_def)
  have reg': "registered ?el x \<longleftrightarrow> registered el x \<and> (x = fd \<longrightarrow> ?m \<noteq> AE_NONE)" for x
  proof (cases "x = fd")
    case True
    then show ?thesis using fd len ne(1) by (simp add: registered_def)
  next
    case False
    then have "nat x \<noteq> nat fd \<or> x < 0" using fd by linarith
    then show ?thesis using False by (auto simp: registered_def)
  qed
  have "ae_ok ?el" unfolding ae_ok_def reg'
  proof (intro conjI allI impI)
    show "maxsize ?el = int (length (events ?el))" using len by simp
    show "epoll ?el x \<noteq> None \<longleftrightarrow> registered el x \<and> (x = fd \<longrightarrow> ?m \<noteq> AE_NONE)" for x
      using ae_okD(2) [OF ok, of x] reg by (auto simp: ep_def)
    show "x \<le> maxfd ?el" if x: "registered el x \<and> (x = fd \<longrightarrow> ?m \<noteq> AE_NONE)" for x
    proof (cases "fd = maxfd el \<and> ?m = AE_NONE")
      case True
      with x ae_okD(3) [OF ok, of x] have "x < fd" by force
      moreover have "0 \<le> x" "fmask (?evs ! nat x) \<noteq> AE_NONE"
        using x \<open>x < fd\<close> fd by (auto simp: registered_def nth_list_update)
      ultimately have "x \<le> l" using l1(5) [rule_format, of "nat x"] by force
      moreover have "m = l" using True unfolding m_def by (rule if_P)
      ultimately show ?thesis by simp
    next
      case False
      then have "m = maxfd el" unfolding m_def by (rule if_not_P)
      then show ?thesis using x ae_okD(3) [OF ok, of x] by simp
    qed
    show "maxfd ?el = - 1 \<or> registered el (maxfd ?el) \<and> (maxfd ?el = fd \<longrightarrow> ?m \<noteq> AE_NONE)"
    proof (cases "fd = maxfd el \<and> ?m = AE_NONE")
      case True
      then have "m = l" unfolding m_def by (rule if_P)
      moreover have "fmask (events el ! nat l) \<noteq> AE_NONE \<and> 0 \<le> l" if "l \<noteq> - 1"
        using that l1(2-4) fd by (auto simp: nth_list_update)
      ultimately show ?thesis using l1(2,3) fd len by (auto simp: registered_def)
    next
      case False
      moreover from False have "m = maxfd el" unfolding m_def by (rule if_not_P)
      ultimately show ?thesis using ae_okD(4) [OF ok] by auto
    qed
  qed
  then show thesis by (intro that [OF e]) (simp_all add: ep_def)
qed

lemma aeDeleteFileEvent_unregistered:
  assumes ok: "ae_ok el" and fd: "0 \<le> fd" "\<not> registered el fd"
  shows "\<exists>r. aeDeleteFileEvent el fd msk = Some (r, el)"
proof (cases "fd < maxsize el")
  case True
  then have "load (events el) fd = Some (events el ! nat fd)" "fmask (events el ! nat fd) = AE_NONE"
    using ok fd by (auto simp: load_def ae_ok_def registered_def)
  then show ?thesis using True by (simp add: aeDeleteFileEvent_def)
qed (auto simp: aeDeleteFileEvent_def)

text \<open>Deleting keeps the invariant whether or not the descriptor is registered.\<close>

lemma aeDeleteFileEvent_ok:
  assumes ok: "ae_ok el" and fd: "0 \<le> fd"
  obtains r el' where "aeDeleteFileEvent el fd msk = Some (r, el')" "ae_ok el'" "maxsize el' = maxsize el" "timers el' = timers el"
proof (cases "registered el fd")
  case True
  moreover have "fd < maxsize el" using True ok by (simp add: registered_def ae_ok_def)
  ultimately show ?thesis using aeDeleteFileEvent_spec [OF ok fd] that by metis
next
  case False
  with aeDeleteFileEvent_unregistered [OF ok fd] ok that show ?thesis by blast
qed

text \<open>Registering keeps it and fails exactly for a socket in error or a descriptor outside the table.\<close>

lemma aeCreateFileEvent_ok:
  assumes ok: "ae_ok el" and m: "msk = AE_READABLE \<or> msk = AE_WRITABLE"
  obtains r el' where "aeCreateFileEvent b el fd msk h d = Some (r, el')" "ae_ok el'" "maxsize el' = maxsize el"
    "timers el' = timers el" "r = AE_OK \<longleftrightarrow> b \<and> 0 \<le> fd \<and> fd < maxsize el" "r = AE_OK \<or> r = AE_ERROR \<and> el' = el"
proof (cases "b \<and> 0 \<le> fd \<and> fd < maxsize el")
  case True
  then have b: "b = True" "0 \<le> fd" "fd < maxsize el" by auto
  from aeCreateFileEvent_spec [OF ok m b(2,3)] obtain el' where
    "aeCreateFileEvent True el fd msk h d = Some (AE_OK, el')" "ae_ok el'" "maxsize el' = maxsize el"
    "timers el' = timers el" by metis
  with b that show ?thesis by auto
next
  case False
  then have "aeCreateFileEvent b el fd msk h d = Some (AE_ERROR, el)" by (auto simp: aeCreateFileEvent_def)
  moreover have "AE_ERROR \<noteq> AE_OK" by (simp add: AE_ERROR_def AE_OK_def)
  ultimately show ?thesis using that [of AE_ERROR el] False ok by blast
qed

section \<open>Timers that fire\<close>

lemma aeAddMilliseconds_total:
  assumes "0 \<le> ms" "0 \<le> snd now" "snd now < 1000" "aeAddMillisecondsToNow now ms = (w, wms)"
  shows "w * 1000 + wms = fst now * 1000 + snd now + ms" "0 \<le> wms" "wms < 1000"
proof -
  have "ms sdiv 1000 = ms div 1000" "ms smod 1000 = ms mod 1000"
    using assms(1) by (simp_all add: signed_divide_int_def signed_modulo_int_def sgn_if)
  with assms show "w * 1000 + wms = fst now * 1000 + snd now + ms" "0 \<le> wms" "wms < 1000"
    by (auto simp: aeAddMillisecondsToNow_def Let_def split: if_splits)
qed

lemma rescheduled_not_due:
  assumes "0 < ms" "0 \<le> snd now" "snd now < 1000" "aeAddMillisecondsToNow now ms = w"
  shows "\<not> timer_due now (te\<lparr>te_when := fst w, te_when_ms := snd w\<rparr>)"
  using aeAddMilliseconds_total [of ms now "fst w" "snd w"] assms by (auto simp: timer_due_def)

lemma process_timers_skip:
  "\<forall>te \<in> set pre. \<not> timer_due (clk 0) te \<Longrightarrow> (\<And>i. clk i = clk 0) \<Longrightarrow>
   process_timers L U clk fire n (pre @ todo) s = process_timers L U clk fire (n + length pre) todo s"
proof (induction pre arbitrary: n)
  case (Cons te pre)
  have "clk n = clk 0" using Cons.prems(2) .
  then have "process_timers L U clk fire n ((te # pre) @ todo) s = process_timers L U clk fire (n + 1) (pre @ todo) s"
    by (subst process_timers.simps) (use Cons.prems(1) in simp)
  then show ?case using Cons by simp
qed simp

text \<open>The program's timers with a state \<open>'w\<close> of their own: the procedure leaves the event loop alone.\<close>

definition run_timers :: "reading \<Rightarrow> (int \<Rightarrow> 'w \<Rightarrow> int \<times> 'w) \<Rightarrow> ('h, 't, 'd) aeEventLoop \<times> 'w \<Rightarrow>
    (nat \<times> ('h, 't, 'd) aeEventLoop \<times> 'w) option" where
  "run_timers now h = processTimeEvents fst (\<lambda>el s. (el, snd s)) (\<lambda>_. now)
     (\<lambda>s te. Some (let r = h (te_id te) (snd s) in (fst r, fst s, snd r)))"

definition due_ids :: "reading \<Rightarrow> ('t, 'd) aeTimeEvent list \<Rightarrow> int list" where
  "due_ids now tes = map te_id (filter (timer_due now) tes)"

lemma first_due:
  assumes "due_ids now tes = i # is" "distinct (map te_id tes)"
    "\<And>te. te_id te = i \<Longrightarrow> \<not> timer_due now (f te) \<and> te_id (f te) = i"
  obtains pre te suf where "tes = pre @ te # suf" "\<forall>x \<in> set pre. \<not> timer_due now x" "timer_due now te" "te_id te = i"
    "due_ids now (map (\<lambda>te. if te_id te = i then f te else te) tes) = is"
    "map te_id (map (\<lambda>te. if te_id te = i then f te else te) tes) = map te_id tes"
proof -
  let ?g = "\<lambda>te. if te_id te = i then f te else te"
  from assms(1) obtain te r where f: "filter (timer_due now) tes = te # r" "te_id te = i" "map te_id r = is"
    by (auto simp: due_ids_def)
  then obtain pre suf where t: "tes = pre @ te # suf" "\<forall>x \<in> set pre. \<not> timer_due now x" "timer_due now te"
      "r = filter (timer_due now) suf"
    by (auto simp: filter_eq_Cons_iff)
  with assms(2) f(2) have "i \<notin> te_id ` set pre" "i \<notin> te_id ` set suf" by auto
  then have g: "map ?g pre = pre" "map ?g suf = suf" by (auto intro!: map_idI)
  with t f(2) assms(3) [OF f(2)] have "filter (timer_due now) (map ?g tes) = r" by (simp add: filter_empty_conv)
  with f have d: "due_ids now (map ?g tes) = is" by (simp add: due_ids_def)
  have ids: "map te_id (map ?g tes) = map te_id tes" using assms(3) by auto
  show thesis by (rule that [OF t(1,2,3) f(2) d ids])
qed

lemma run_timers_spec:
  assumes now: "0 \<le> snd now" "snd now < 1000" and pos: "\<And>i w. 0 < fst (h i w)"
  shows "due_ids now (timers el) = is \<Longrightarrow> distinct (map te_id (timers el)) \<Longrightarrow>
    \<exists>m el'. process_timers fst (\<lambda>el s. (el, snd s)) (\<lambda>_. now)
        (\<lambda>s te. Some (let r = h (te_id te) (snd s) in (fst r, fst s, snd r))) n (timers el) (el, w)
      = Some (m, el', foldl (\<lambda>w i. snd (h i w)) w is)
      \<and> due_ids now (timers el') = [] \<and> map te_id (timers el') = map te_id (timers el)"
proof (induction "is" arbitrary: el n w)
  case Nil
  let ?P = "process_timers fst (\<lambda>el s. (el, snd s)) (\<lambda>_. now)
        (\<lambda>s te. Some (let r = h (te_id te) (snd s) in (fst r, fst s, snd r)))"
  from Nil have "\<forall>te \<in> set (timers el). \<not> timer_due now te" by (auto simp: due_ids_def filter_empty_conv)
  then have "?P n (timers el @ []) (el, w) = ?P (n + length (timers el)) [] (el, w)"
    by (intro process_timers_skip) simp_all
  also have "\<dots> = Some (n + length (timers el), el, w)" by (simp add: process_timers.simps)
  finally show ?case using Nil by auto
next
  case (Cons i "is")
  define r where "r = h i w"
  define t where "t = aeAddMillisecondsToNow now (fst r)"
  let ?f = "\<lambda>te. te\<lparr>te_when := fst t, te_when_ms := snd t\<rparr>"
  let ?tes = "map (\<lambda>te. if te_id te = i then ?f te else te) (timers el)"
  let ?P = "process_timers fst (\<lambda>el s. (el, snd s)) (\<lambda>_. now)
        (\<lambda>s te. Some (let r = h (te_id te) (snd s) in (fst r, fst s, snd r)))"
  define el1 where "el1 = el\<lparr>timers := ?tes\<rparr>"
  have tes: "timers el1 = ?tes" by (simp add: el1_def)
  have r: "0 < fst r" using pos by (simp add: r_def)
  have F: "\<not> timer_due now (?f te) \<and> te_id (?f te) = i" if "te_id te = i" for te
    using rescheduled_not_due [OF r now t_def [symmetric], of te] that by simp
  obtain pre te suf where
    split: "timers el = pre @ te # suf" "\<forall>x \<in> set pre. \<not> timer_due now x" "timer_due now te" "te_id te = i"
    and next_due: "due_ids now ?tes = is" and ids: "map te_id ?tes = map te_id (timers el)"
    by (rule first_due [OF Cons.prems F])
  have "?P n (timers el) (el, w) = ?P (n + length pre) (te # suf) (el, w)"
    unfolding split(1) by (rule process_timers_skip) (use split(2) in simp_all)
  also have "\<dots> = ?P (n + length pre + 2) (timers el1) (el1, snd r)"
    using split(3,4) r
    by (subst process_timers.simps)
      (auto simp: Let_def r_def [symmetric] t_def [symmetric] AE_NOMORE_def reschedule_def split(1) el1_def)
  finally have step: "?P n (timers el) (el, w) = \<dots>" .
  have "due_ids now (timers el1) = is" "distinct (map te_id (timers el1))"
    unfolding tes next_due ids using Cons.prems(2) by simp_all
  from Cons.IH [OF this] obtain m el' where "?P (n + length pre + 2) (timers el1) (el1, snd r)
      = Some (m, el', foldl (\<lambda>w i. snd (h i w)) (snd r) is)"
    "due_ids now (timers el') = []" "map te_id (timers el') = map te_id ?tes" unfolding tes by metis
  then show ?case unfolding step ids by (auto simp: r_def)
qed

section \<open>Properties\<close>

text \<open>A concrete loop for the witnesses: eight descriptors, nothing registered.\<close>

definition empty_loop :: "(nat, nat, nat) aeEventLoop" where
  "empty_loop = aeCreateEventLoop
     \<lparr>maxfd = - 1, maxsize = 0, events = [], epoll = (\<lambda>_. None), timers = [], timeEventNextId = 0, stop = False\<rparr> 8"

lemma empty_loop: "ae_ok empty_loop" "maxsize empty_loop = 8" "epoll empty_loop fd = None"
  unfolding empty_loop_def by (rule ae_create_ok; simp) (simp_all add: aeCreateEventLoop_def)

text \<open>
  Registering and deleting file events keeps the event table, \<open>maxfd\<close> and the kernel's interest
  list in agreement, and registering fails only for a socket in error or a descriptor outside the
  table.
\<close>

theorem ae_table_agrees:
  assumes "ae_ok el" "msk = AE_READABLE \<or> msk = AE_WRITABLE"
  shows "(\<exists>r el'. aeCreateFileEvent b el fd msk h d = Some (r, el') \<and> ae_ok el'
            \<and> (r = AE_OK \<longleftrightarrow> b \<and> 0 \<le> fd \<and> fd < maxsize el))
       \<and> (0 \<le> fd \<longrightarrow> (\<exists>r el'. aeDeleteFileEvent el fd msk = Some (r, el') \<and> ae_ok el'))"
proof (intro conjI impI)
  show "\<exists>r el'. aeCreateFileEvent b el fd msk h d = Some (r, el') \<and> ae_ok el'
            \<and> (r = AE_OK \<longleftrightarrow> b \<and> 0 \<le> fd \<and> fd < maxsize el)"
    using aeCreateFileEvent_ok [OF assms] by metis
  show "\<exists>r el'. aeDeleteFileEvent el fd msk = Some (r, el') \<and> ae_ok el'" if "0 \<le> fd"
    using aeDeleteFileEvent_ok [OF assms(1) that] by metis
qed

theorem ae_table_agrees_witness:
  "ae_ok empty_loop \<and> (\<exists>r el'. aeCreateFileEvent True empty_loop 3 AE_READABLE 0 None = Some (r, el') \<and> ae_ok el'
     \<and> r = AE_OK)"
  using ae_table_agrees [OF empty_loop(1), of AE_READABLE True 3 0 None] empty_loop by auto

text \<open>
  Registering a write handler on a descriptor that has a read handler asks the kernel to watch it
  for writing only, although the table keeps both bits: until the write event is deleted, the read
  handler cannot run.
\<close>

theorem ae_write_replaces_read:
  assumes "ae_ok el" "0 \<le> fd" "fd < maxsize el" "epoll el fd = None" "fmask (events el ! nat fd) = AE_NONE"
  shows "\<exists>el1 el2 el3. aeCreateFileEvent True el fd AE_READABLE rh d = Some (AE_OK, el1)
     \<and> aeCreateFileEvent True el1 fd AE_WRITABLE wh d = Some (AE_OK, el2)
     \<and> aeDeleteFileEvent el2 fd AE_WRITABLE = Some (AE_OK, el3)
     \<and> fmask (events el2 ! nat fd) = AE_READABLE OR AE_WRITABLE
     \<and> epoll el2 fd = Some AE_WRITABLE \<and> epoll el3 fd = Some AE_READABLE"
proof -
  obtain el1 where 1: "aeCreateFileEvent True el fd AE_READABLE rh d = Some (AE_OK, el1)" "ae_ok el1"
      "maxsize el1 = maxsize el" "epoll el1 fd = Some AE_READABLE"
      "fmask (events el1 ! nat fd) = fmask (events el ! nat fd) OR AE_READABLE" "registered el1 fd"
    by (rule aeCreateFileEvent_mask [OF assms(1) disjI1 [OF refl] assms(2,3)])
  obtain el2 where 2: "aeCreateFileEvent True el1 fd AE_WRITABLE wh d = Some (AE_OK, el2)" "ae_ok el2"
      "maxsize el2 = maxsize el1" "epoll el2 fd = Some AE_WRITABLE"
      "fmask (events el2 ! nat fd) = fmask (events el1 ! nat fd) OR AE_WRITABLE" "registered el2 fd"
    by (rule aeCreateFileEvent_mask [OF 1(2) disjI2 [OF refl] assms(2) assms(3) [folded 1(3)]])
  have m: "fmask (events el2 ! nat fd) = AE_READABLE OR AE_WRITABLE"
    unfolding 2(5) 1(5) assms(5) by (simp add: AE_NONE_def)
  have bits: "(AE_READABLE OR AE_WRITABLE) AND NOT AE_WRITABLE = AE_READABLE"
    by (simp add: AE_READABLE_def AE_WRITABLE_def)
  have fd: "fd < maxsize el2" using assms(3) 1(3) 2(3) by simp
  obtain el3 where "aeDeleteFileEvent el2 fd AE_WRITABLE = Some (AE_OK, el3)"
      "epoll el3 = (epoll el2)(fd := if fmask (events el2 ! nat fd) AND NOT AE_WRITABLE = AE_NONE then None
        else Some ((fmask (events el2 ! nat fd) AND NOT AE_WRITABLE) AND (AE_READABLE OR AE_WRITABLE)))"
    using aeDeleteFileEvent_spec [OF 2(2) assms(2) fd 2(6), of AE_WRITABLE] by metis
  then have "aeDeleteFileEvent el2 fd AE_WRITABLE = Some (AE_OK, el3) \<and> epoll el3 fd = Some AE_READABLE"
    by (simp add: m bits)
  with 1(1) 2(1,4) m show ?thesis by blast
qed

theorem ae_write_replaces_read_witness:
  "\<exists>el1 el2. aeCreateFileEvent True empty_loop 3 AE_READABLE 0 None = Some (AE_OK, el1)
     \<and> aeCreateFileEvent True el1 3 AE_WRITABLE 1 None = Some (AE_OK, el2) \<and> epoll el2 3 = Some AE_WRITABLE"
proof -
  have "fmask (events empty_loop ! nat 3) = AE_NONE"
    by (simp add: empty_loop_def aeCreateEventLoop_def)
  from ae_write_replaces_read [OF empty_loop(1) _ _ empty_loop(3) this, of 0 None 1] show ?thesis
    using empty_loop(2) by auto
qed

text \<open>
  When every timer procedure asks for a positive period, one pass runs exactly the timers that are
  due, once each and in list order, and returns with none due.
\<close>

theorem ae_due_timers_fire_once:
  assumes "0 \<le> snd now" "snd now < 1000" "\<And>i w. 0 < fst (h i w)" "distinct (map te_id (timers el))"
  shows "\<exists>m el'. run_timers now h (el, w) = Some (m, el', foldl (\<lambda>w i. snd (h i w)) w (due_ids now (timers el)))
     \<and> due_ids now (timers el') = [] \<and> map te_id (timers el') = map te_id (timers el)"
  unfolding run_timers_def processTimeEvents_def fst_conv
  by (rule run_timers_spec [OF assms(1,2,3) refl assms(4)])

theorem ae_due_timers_fire_once_witness:
  "\<exists>m el'. run_timers (5, 0) (\<lambda>i w. (1000, w @ [i]))
      (empty_loop\<lparr>timers := [\<lparr>te_id = 1, te_when = 9, te_when_ms = 0, timeProc = 0, te_data = None\<rparr>,
         \<lparr>te_id = 0, te_when = 4, te_when_ms = 7, timeProc = 0, te_data = None\<rparr>]\<rparr>, [])
    = Some (m, el', [0])"
  using ae_due_timers_fire_once [of "(5, 0)" "\<lambda>i w. (1000, w @ [i])"
      "empty_loop\<lparr>timers := [\<lparr>te_id = 1, te_when = 9, te_when_ms = 0, timeProc = 0, te_data = None\<rparr>,
         \<lparr>te_id = 0, te_when = 4, te_when_ms = 7, timeProc = 0, te_data = None\<rparr>]\<rparr>" "[]"]
  by (auto simp: due_ids_def timer_due_def)

text \<open>
  The time the loop lets \<open>epoll_wait\<close> sleep leaves out the milliseconds of the next timer: during
  the last second before it is due the loop does not sleep at all.
\<close>

theorem ae_poll_busy_waits:
  assumes "timers el = [te]" "0 \<le> snd now" "fst now = te_when te" "snd now < te_when_ms te"
  shows "poll_timeout now el = 0 \<and> \<not> timer_due now te"
  using assms by (simp add: poll_timeout_def aeSearchNearestTimer_def timer_due_def Let_def)

theorem ae_poll_busy_waits_witness:
  "poll_timeout (7, 100) (empty_loop\<lparr>timers := [\<lparr>te_id = 0, te_when = 7, te_when_ms = 900, timeProc = 0, te_data = None\<rparr>]\<rparr>) = 0"
  using ae_poll_busy_waits [of "empty_loop\<lparr>timers := [\<lparr>te_id = 0, te_when = 7, te_when_ms = 900, timeProc = 0, te_data = None\<rparr>]\<rparr>"
      "\<lparr>te_id = 0, te_when = 7, te_when_ms = 900, timeProc = 0, te_data = None\<rparr>" "(7, 100)"] by simp

end
