(* ===== verification/Client.thy ===== *)
theory Client
  imports Sds Ae Util
begin

unbundle bit_operations_syntax

text \<open>
  The state the server keeps for a peer (\<open>src/client.c\<close>, \<open>include/client.h\<close>).  A client is a record, the
  pointer to it a number; \<open>flags\<close> is the \<open>int\<close> with one bit per role.  The read buffer, the write
  buffer and the queued commands are dynamic strings, of which this record holds the contents: the
  first group of lemmas says that the operations of \<open>Sds\<close> act on the contents as the model here does
  whenever they stay inside their allocation (\<open>Sds\<close> says when they do, and
  \<open>second_request_overreads\<close> below that the read buffer of a client does not from its second request
  on).  The database pointer is the index of the database.

  \<open>freeClient\<close> and \<open>clientToclose\<close> change the server too and are in \<open>Commands\<close>; \<open>readToReadBuf\<close> is
  not called.
\<close>

section \<open>Constants\<close>

definition REDIS_CLIENT_NORMAL :: cint where "REDIS_CLIENT_NORMAL = 1"
definition REDIS_CLIENT_MASTER :: cint where "REDIS_CLIENT_MASTER = 2"
definition REDIS_CLIENT_SLAVE :: cint where "REDIS_CLIENT_SLAVE = 4"
definition REDIS_CLIENT_SENTINEL :: cint where "REDIS_CLIENT_SENTINEL = 8"
definition REDIS_CLIENT_FAKE :: cint where "REDIS_CLIENT_FAKE = 16"
definition REDIS_MULTI :: cint where "REDIS_MULTI = 32"
definition REDIS_EXEC :: cint where "REDIS_EXEC = 64"
definition REDIS_DIRTY_CAS :: cint where "REDIS_DIRTY_CAS = 128"
definition CLIENT_TO_CLOSE :: cint where "CLIENT_TO_CLOSE = 256"

lemmas client_flags = REDIS_CLIENT_NORMAL_def REDIS_CLIENT_MASTER_def REDIS_CLIENT_SLAVE_def
  REDIS_CLIENT_SENTINEL_def REDIS_CLIENT_FAKE_def REDIS_MULTI_def REDIS_EXEC_def REDIS_DIRTY_CAS_def
  CLIENT_TO_CLOSE_def

datatype ErrorCode = ERR_KEY_EXISTS | ERR_VALUE_MISSED

datatype REPL_STATE =
    REPL_STATE_SLAVE_NONE | REPL_STATE_SLAVE_CONNECTING | REPL_STATE_SLAVE_SEND_REPLCONF
  | REPL_STATE_SLAVE_SEND_SYNC | REPL_STATE_SLAVE_RECEIVE_RDB | REPL_STATE_SLAVE_RECEIVE_APPENDSYNC
  | REPL_STATE_SLAVE_RECEIVE_BUF | REPL_STATE_SLAVE_CONNECTED
  | REPL_STATE_MASTER_NONE | REPL_STATE_MASTER_WAIT_PING | REPL_STATE_MASTER_SEND_FULLSYNC
  | REPL_STATE_MASTER_SEND_RDB | REPL_STATE_MASTER_CONNECTED | REPL_STATE_MASTER_SEND_APPENDSYNC

section \<open>State\<close>

type_synonym cid = nat

record redisClient =
  fd :: int
  flags :: cint
  ip :: bytes
  port :: int
  lastinteraction :: int
  toclose :: bool
  readBuf :: bytes
  writeBuf :: bytes
  dbid :: int
  cdb :: int
  argc :: int
  argv :: "bytes list"
  replState :: REPL_STATE
  name :: bytes
  err_msg :: bytes
  last_errno :: "ErrorCode option"
  multcmds :: "bytes list"
  multiCmdCount :: int

section \<open>Operations\<close>

text \<open>
  \<open>malloc\<close> leaves the fields that are not assigned as they were in the memory it returns (\<open>junk\<close>): for
  every client \<open>lastinteraction\<close>, \<open>replState\<close>, \<open>err_msg\<close> and \<open>last_errno\<close>, for a fake client also the
  transaction queue.
\<close>

definition redisFakeClientCreate :: "redisClient \<Rightarrow> redisClient" where
  "redisFakeClientCreate junk = junk
     \<lparr>fd := - 1, flags := REDIS_CLIENT_FAKE, readBuf := [], writeBuf := [], dbid := 0, cdb := 0,
      argc := 0, argv := [], ip := [], port := - 1, name := [], toclose := False\<rparr>"

definition redisClientCreate :: "redisClient \<Rightarrow> int \<Rightarrow> bytes \<Rightarrow> int \<Rightarrow> redisClient" where
  "redisClientCreate junk cfd cip cport = junk
     \<lparr>fd := cfd, flags := REDIS_CLIENT_NORMAL, readBuf := [], writeBuf := [], dbid := 0, cdb := 0,
      argc := 0, argv := [], ip := cip, port := cport, name := [], toclose := False,
      multiCmdCount := 0, multcmds := replicate 10 []\<rparr>"

definition addWrite :: "redisClient \<Rightarrow> bytes \<Rightarrow> redisClient" where
  "addWrite c s = c\<lparr>writeBuf := writeBuf c @ s\<rparr>"

definition addWriteBuf :: "redisClient \<Rightarrow> bytes \<Rightarrow> int \<Rightarrow> redisClient option" where
  "addWriteBuf c buf len = do { src \<leftarrow> load_block buf 0 len; Some (c\<lparr>writeBuf := writeBuf c @ src\<rparr>) }"

text \<open>\<open>sdscatsds\<close> moves the request into the queue: the read buffer is empty afterwards.\<close>

definition clientMultiAdd :: "redisClient \<Rightarrow> redisClient option" where
  "clientMultiAdd c = do {
     cmds \<leftarrow> store (multcmds c) (multiCmdCount c) (readBuf c);
     Some (c\<lparr>multcmds := cmds, readBuf := [], multiCmdCount := multiCmdCount c + 1\<rparr>)
   }"

text \<open>The argument \<open>argv[i]\<close> as the C string its users read.\<close>

definition argv_at :: "redisClient \<Rightarrow> int \<Rightarrow> bytes option" where
  "argv_at c i = map_option (takeWhile (\<lambda>x. x \<noteq> NUL)) (load (argv c) i)"

section \<open>Buffers by their contents\<close>

text \<open>What the dynamic string operations the client's buffers go through do to the contents.\<close>

lemma buffer_sdscat:
  assumes "sds_fits b" "sdscat b s = Some b'"
  shows "content b' = content b @ s" "sds_fits b'"
  using assms sds_append_facts [OF assms(1)] by (auto simp: sdscat_def)

lemma buffer_sdscatlen:
  assumes "sds_fits b" "sdscatlen b s (int (length s)) = Some b'"
  shows "content b' = content b @ s" "sds_fits b'"
  using sdsbuf.contents_append [OF assms] sdsbuf.good_append [OF assms] by auto

lemma buffer_sdsclear:
  assumes "sds_fits b" "sdsclear b = Some b'"
  shows "content b' = []" "sds_fits b'"
  using sdsbuf.contents_clear [OF assms] sdsbuf.good_clear [OF assms] by auto

text \<open>
  What one request does to the read buffer itself: \<open>readFromClient\<close> appends it, \<open>processClientQueryBuf\<close>
  copies the buffer, \<open>processCommand\<close> and then \<open>readFromClient\<close> clear it.
\<close>

definition request_cycle :: "sds \<Rightarrow> bytes \<Rightarrow> sds option" where
  "request_cycle b req = do {
     b1 \<leftarrow> sdscat b req;
     scpy \<leftarrow> sdsdump (Some b1);
     b2 \<leftarrow> sdsclear b1;
     sdsclear b2
   }"

lemma drop_NULs: "drop k (NUL # replicate m NUL) = replicate (Suc m - k) NUL"
  using drop_replicate [of k "Suc m" NUL] by simp

lemma first_request:
  assumes "req \<noteq> []" "length req < 1024"
  shows "Option.bind sdsempty (\<lambda>b. request_cycle b req)
    = Some \<lparr>slen = 0, sfree = 2 * int (length req), sbuf = replicate (2 * length req + 1) NUL\<rparr>"
proof -
  let ?n = "length req"
  have r: "replicate ?n NUL @ replicate (Suc ?n) NUL = replicate (Suc (2 * ?n)) NUL"
    by (simp only: replicate_add [symmetric] mult_2 add_Suc_right)
  have e: "sdsempty = Some \<lparr>slen = 0, sfree = 0, sbuf = [NUL]\<rparr>"
    by (simp add: sdsempty_def sdsnewWithLen_def sds_alloc_def load_block_def store_block_def Let_def)
  have c: "sdscat \<lparr>slen = 0, sfree = 0, sbuf = [NUL]\<rparr> req
      = Some \<lparr>slen = int ?n, sfree = int ?n, sbuf = req @ replicate (?n + 1) NUL\<rparr>"
    using assms by (simp add: sdscat_def sdsavail_def sds_append_def sds_alloc_def Let_def load_block_def store_block_def
        nat_add_distrib nat_mult_distrib drop_NULs Suc_diff_le)
  have d: "sdsdump (Some \<lparr>slen = int ?n, sfree = int ?n, sbuf = req @ replicate (?n + 1) NUL\<rparr>) \<noteq> None"
    by (simp add: sdsdump_def load_block_def store_block_def)
  have c1: "sdsclear \<lparr>slen = int ?n, sfree = int ?n, sbuf = req @ replicate (?n + 1) NUL\<rparr>
      = Some \<lparr>slen = 0, sfree = 2 * int ?n, sbuf = replicate (2 * ?n + 1) NUL\<rparr>"
    using r by (simp add: sdsclear_def store_block_def)
  have c2: "sdsclear \<lparr>slen = 0, sfree = 2 * int ?n, sbuf = replicate (2 * ?n + 1) NUL\<rparr>
      = Some \<lparr>slen = 0, sfree = 2 * int ?n, sbuf = replicate (2 * ?n + 1) NUL\<rparr>"
    by (simp add: sdsclear_def store_block_def)
  from d obtain scpy where d: "sdsdump (Some \<lparr>slen = int ?n, sfree = int ?n, sbuf = req @ replicate (?n + 1) NUL\<rparr>) = Some scpy"
    by blast
  show ?thesis unfolding e request_cycle_def Option.bind.bind_lunit c d c1 by (rule c2)
qed

text \<open>
  The read buffer of a client works for its first request; the second one, unless it is more than
  twice as long, makes the copy of the buffer read past its allocation, because clearing adds the
  length to a \<open>free\<close> that appending did not reduce.
\<close>

theorem second_request_overreads:
  assumes "req \<noteq> []" "length req < 1024" "req2 \<noteq> []" "length req2 \<le> 2 * length req"
  shows "Option.bind sdsempty (\<lambda>b. request_cycle b req) \<noteq> None
    \<and> Option.bind (Option.bind sdsempty (\<lambda>b. request_cycle b req)) (\<lambda>b. request_cycle b req2) = None"
proof -
  let ?n = "length req"
  let ?b = "\<lparr>slen = int (length req2), sfree = 2 * int ?n, sbuf = req2 @ replicate (2 * ?n + 1 - length req2) NUL\<rparr>"
  have "Option.bind sdsempty (\<lambda>b. request_cycle b req) \<noteq> None"
    unfolding first_request [OF assms(1,2)] by simp
  moreover have "sdscat \<lparr>slen = 0, sfree = 2 * int ?n, sbuf = replicate (2 * ?n + 1) NUL\<rparr> req2 = Some ?b"
    using assms by (simp add: sdscat_def sdsavail_def sds_append_def Let_def store_block_def drop_NULs)
  moreover have "sdsdump (Some ?b) = None"
    using assms(3,4) by (cases req2) (auto simp: sdsdump_def load_block_def)
  ultimately show ?thesis
    unfolding first_request [OF assms(1,2)] Option.bind.bind_lunit by (simp add: request_cycle_def)
qed

theorem second_request_overreads_witness:
  "Option.bind (Option.bind sdsempty (\<lambda>b. request_cycle b ''*1'')) (\<lambda>b. request_cycle b ''*1'') = None"
  using second_request_overreads [of "''*1''" "''*1''"] by simp

end
