(* ===== verification/Conf.thy ===== *)
theory Conf
  imports Util
begin

text \<open>
  The configuration file (\<open>src/conf.c\<close>): \<open>get_config\<close> and \<open>update_config\<close> on the bytes of the file.
  \<open>fgets\<close>, \<open>strtok\<close> and the buffer sizes are the source's: reading a value looks at pieces of at most
  63 characters, rewriting the file at pieces of at most 511.  A file that cannot be opened, the
  temporary file and \<open>rename\<close> are not modelled.

  The lemmas show what the two do to a file of comments and entries, as a refinement of the list of
  its lines, and that they satisfy the contract of a store of settings.
\<close>

section \<open>Reading lines and tokens\<close>

text \<open>\<open>fgets\<close> with room for \<open>n\<close> characters: what was read, and what is left of the file.\<close>

fun fgets :: "nat \<Rightarrow> bytes \<Rightarrow> bytes \<times> bytes" where
  "fgets 0 s = ([], s)"
| "fgets (Suc n) [] = ([], [])"
| "fgets (Suc n) (c # s) = (if c = LF then ([c], s) else (let (l, rest) = fgets n s in (c # l, rest)))"

lemma fgets_append: "fst (fgets n s) @ snd (fgets n s) = s"
  by (induction n s rule: fgets.induct) (auto simp: split_def Let_def)

lemma fgets_progress: "s \<noteq> [] \<Longrightarrow> 0 < n \<Longrightarrow> length (snd (fgets n s)) < length s"
proof -
  assume a: "s \<noteq> []" "0 < n"
  then have "fst (fgets n s) \<noteq> []" by (cases n; cases s) (auto simp: split_def Let_def)
  moreover have "length (fst (fgets n s)) + length (snd (fgets n s)) = length s"
    using arg_cong [OF fgets_append [of n s], of length] by simp
  ultimately show ?thesis by (cases "fst (fgets n s)") auto
qed

lemma fgets_shorter: "(l, rest) = fgets n s \<Longrightarrow> s \<noteq> [] \<Longrightarrow> 0 < n \<Longrightarrow> length rest < length s"
  using fgets_progress [of s n] by (cases "fgets n s") simp

text \<open>\<open>strtok\<close> with one delimiter: the next token and what is left behind its delimiter.\<close>

definition strtok1 :: "char \<Rightarrow> bytes \<Rightarrow> (bytes \<times> bytes) option" where
  "strtok1 delim s = (let t = dropWhile (\<lambda>c. c = delim) s in
     if t = [] then None
     else Some (takeWhile (\<lambda>c. c \<noteq> delim) t, drop 1 (dropWhile (\<lambda>c. c \<noteq> delim) t)))"

section \<open>The two operations\<close>

definition CONFIG_MAX_LINE :: nat where "CONFIG_MAX_LINE = 512"

text \<open>
  The outer option is undefined behaviour: \<open>strtok\<close> finds no token on an empty line, or no value, and
  the null pointer is used as a string.
\<close>

function get_config :: "bytes \<Rightarrow> bytes \<Rightarrow> bytes option option" where
  "get_config f key =
     (if f = [] then Some None
      else case fgets (64 - 1) f of (l, rest) \<Rightarrow>
        let line = strim (takeWhile (\<lambda>c. c \<noteq> NUL) l) in
        if line \<noteq> [] \<and> (hd line = CHR ''#'' \<or> hd line = LF) then get_config rest key
        else (case strtok1 CHR ''='' line of
                None \<Rightarrow> None
              | Some (k, more) \<Rightarrow>
                  if strcasecmp_eq k key then map_option (\<lambda>(v, _). Some v) (strtok1 CHR ''='' more)
                  else get_config rest key))"
  by auto
termination
  by (relation "measure (\<lambda>(f, key). length f)") (auto dest: fgets_shorter)

declare get_config.simps [simp del]

function update_lines :: "bytes \<Rightarrow> bytes \<Rightarrow> bytes \<Rightarrow> bytes \<times> bool" where
  "update_lines f key val =
     (if f = [] then ([], False)
      else case fgets (CONFIG_MAX_LINE - 1) f of (l, rest) \<Rightarrow>
        let line = takeWhile (\<lambda>c. c \<noteq> NUL) l; (out, found) = update_lines rest key val in
        if strncasecmp_eq line key (length key) then (key @ ''='' @ val @ [LF] @ out, True)
        else (line @ out, found))"
  by auto
termination
  by (relation "measure (\<lambda>(f, key, val). length f)") (auto simp: CONFIG_MAX_LINE_def dest: fgets_shorter)

declare update_lines.simps [simp del]

definition update_config :: "bytes \<Rightarrow> bytes \<Rightarrow> bytes \<Rightarrow> bytes" where
  "update_config f key val = (let (out, found) = update_lines f key val in
     if found then out else out @ key @ ''='' @ val @ [LF])"

section \<open>A file of comments and entries\<close>

datatype conf_line = Comment bytes | Entry bytes bytes

fun line_text :: "conf_line \<Rightarrow> bytes" where
  "line_text (Comment t) = CHR ''#'' # t @ [LF]"
| "line_text (Entry k v) = k @ CHR ''='' # v @ [LF]"

definition conf_text :: "conf_line list \<Rightarrow> bytes" where
  "conf_text ls = concat (map line_text ls)"

text \<open>A word of an entry: not empty, and without white space, the delimiter, a comment sign or a terminator.\<close>

definition word_ok :: "bytes \<Rightarrow> bool" where
  "word_ok t \<longleftrightarrow> t \<noteq> [] \<and> list_all (\<lambda>c. \<not> isspace c \<and> c \<notin> {CHR ''='', CHR ''#'', NUL}) t"

fun line_ok :: "conf_line \<Rightarrow> bool" where
  "line_ok (Comment t) \<longleftrightarrow> LF \<notin> set t \<and> NUL \<notin> set t \<and> length t < 62"
| "line_ok (Entry k v) \<longleftrightarrow> word_ok k \<and> word_ok v \<and> length k + length v < 62"

definition conf_ok :: "conf_line list \<Rightarrow> bool" where
  "conf_ok ls \<longleftrightarrow> list_all line_ok ls"

text \<open>What such a file says, and what setting an entry does to it.\<close>

fun setting :: "conf_line list \<Rightarrow> bytes \<Rightarrow> bytes option" where
  "setting [] key = None"
| "setting (Comment t # ls) key = setting ls key"
| "setting (Entry k v # ls) key = (if strcasecmp_eq k key then Some v else setting ls key)"

text \<open>Every entry whose name begins with the key, in any case of letters, is replaced.\<close>

fun begins_with :: "bytes \<Rightarrow> conf_line \<Rightarrow> bool" where
  "begins_with key (Comment t) = False"
| "begins_with key (Entry k v) = strncasecmp_eq k key (length key)"

definition set_entry :: "conf_line list \<Rightarrow> bytes \<Rightarrow> bytes \<Rightarrow> conf_line list" where
  "set_entry ls key val = (let ls' = map (\<lambda>l. if begins_with key l then Entry key val else l) ls in
     if list_ex (begins_with key) ls then ls' else ls' @ [Entry key val])"

lemma fgets_line: "LF \<notin> set t \<Longrightarrow> length t < n \<Longrightarrow> fgets n (t @ LF # rest) = (t @ [LF], rest)"
proof (induction t arbitrary: n)
  case Nil
  then show ?case by (cases n) simp_all
next
  case (Cons c t)
  then show ?case by (cases n) (auto simp: Let_def)
qed

lemma isspace_LF [simp]: "isspace LF"
  by (simp add: isspace_def char_code_def)

lemma word_okD:
  assumes "word_ok t"
  shows "LF \<notin> set t" "NUL \<notin> set t" "CHR ''='' \<notin> set t" "t \<noteq> []" "hd t \<noteq> CHR ''#''" "hd t \<noteq> LF" "strim t = t"
proof -
  have all: "\<forall>c \<in> set t. \<not> isspace c \<and> c \<noteq> CHR ''='' \<and> c \<noteq> CHR ''#'' \<and> c \<noteq> NUL" and ne: "t \<noteq> []"
    using assms by (auto simp: word_ok_def list_all_iff)
  then show "LF \<notin> set t" "NUL \<notin> set t" "CHR ''='' \<notin> set t" "t \<noteq> []" using isspace_LF by metis+
  show "hd t \<noteq> CHR ''#''" "hd t \<noteq> LF" using all hd_in_set [OF ne] isspace_LF by metis+
  show "strim t = t" using all by (simp add: strim_def)
qed

lemma line_text_parts:
  assumes "line_ok l"
  obtains t where "line_text l = t @ [LF]" "LF \<notin> set t" "NUL \<notin> set t" "length t < 63"
proof (cases l)
  case (Comment t)
  with assms that [of "CHR ''#'' # t"] show thesis by simp
next
  case (Entry k v)
  then have "word_ok k" "word_ok v" using assms by simp_all
  with word_okD(1,2) [of k] word_okD(1,2) [of v] Entry assms that [of "k @ CHR ''='' # v"] show thesis by auto
qed

lemma read_line: "line_ok l \<Longrightarrow> 63 \<le> n \<Longrightarrow> fgets n (line_text l @ rest) = (line_text l, rest)"
  by (rule line_text_parts) (auto simp: fgets_line)

lemma line_no_NUL: "line_ok l \<Longrightarrow> takeWhile (\<lambda>c. c \<noteq> NUL) (line_text l) = line_text l"
  by (rule line_text_parts) (auto simp: takeWhile_eq_all_conv)

lemma strtok_word: "word_ok t \<Longrightarrow> strtok1 CHR ''='' (t @ CHR ''='' # rest) = Some (t, rest)"
  "word_ok t \<Longrightarrow> strtok1 CHR ''='' t = Some (t, [])"
proof -
  assume t: "word_ok t"
  then obtain c u where c: "t = c # u" "c \<noteq> CHR ''=''" "\<forall>x \<in> set u. x \<noteq> CHR ''=''" by (cases t) (auto simp: word_ok_def list_all_iff)
  then have u: "takeWhile (\<lambda>x. x \<noteq> CHR ''='') u = u" "dropWhile (\<lambda>x. x \<noteq> CHR ''='') u = []"
    by (auto simp: takeWhile_eq_all_conv dropWhile_eq_Nil_conv)
  have "takeWhile (\<lambda>x. x \<noteq> CHR ''='') (u @ CHR ''='' # rest) = u" "dropWhile (\<lambda>x. x \<noteq> CHR ''='') (u @ CHR ''='' # rest) = CHR ''='' # rest"
    using c(3) by (simp_all add: takeWhile_append2 dropWhile_append2)
  then show "strtok1 CHR ''='' (t @ CHR ''='' # rest) = Some (t, rest)" using c(1,2) by (simp add: strtok1_def Let_def)
  show "strtok1 CHR ''='' t = Some (t, [])" using c(1,2) by (simp add: strtok1_def Let_def u)
qed

lemma strim_append: "strim (s @ t) = strim s @ strim t"
  by (simp add: strim_def)

text \<open>The comparison of a line with the key, on the line and on its parts.\<close>

lemma tolower_eq:
  assumes "tolower c = d" "\<not> (97 \<le> char_code d \<and> char_code d \<le> 122)"
  shows "c = d"
proof (rule ccontr)
  assume "c \<noteq> d"
  then have u: "65 \<le> char_code c" "char_code c \<le> 90" "char_of (char_code c + 32) = d" using assms(1) by (auto simp: tolower_def split: if_splits)
  then have "char_code d = char_code c + 32" by (auto simp: char_code_def)
  then show False using u assms(2) by simp
qed

lemma tolower_sign: "tolower c = CHR ''='' \<longleftrightarrow> c = CHR ''=''" "tolower c = CHR ''#'' \<longleftrightarrow> c = CHR ''#''"
proof -
  have "tolower CHR ''='' = CHR ''=''" "tolower CHR ''#'' = CHR ''#''" by code_simp+
  moreover have "\<not> (97 \<le> char_code CHR ''='' \<and> char_code CHR ''='' \<le> 122)" "\<not> (97 \<le> char_code CHR ''#'' \<and> char_code CHR ''#'' \<le> 122)"
    by (simp_all add: char_code_def)
  ultimately show "tolower c = CHR ''='' \<longleftrightarrow> c = CHR ''=''" "tolower c = CHR ''#'' \<longleftrightarrow> c = CHR ''#''" using tolower_eq by metis+
qed

lemma word_no_eq: "word_ok t \<Longrightarrow> CHR ''='' \<notin> set (map tolower t)"
  using word_okD(3) [of t] by (auto simp: tolower_sign image_iff eq_commute [of "CHR ''=''"])

lemma line_begins:
  assumes "line_ok l" "word_ok key"
  shows "strncasecmp_eq (line_text l) key (length key) \<longleftrightarrow> begins_with key l"
proof (cases l)
  case (Comment t)
  obtain c u where c: "key = c # u" "c \<noteq> CHR ''#''" "c \<noteq> LF" using word_okD(4,5,6) [OF assms(2)] by (cases key) auto
  have "tolower CHR ''#'' \<noteq> tolower c" using c(2) tolower_sign(2) [of c] tolower_sign(2) [of "CHR ''#''"] by metis
  then show ?thesis using Comment c(1) by (simp add: strncasecmp_eq_def)
next
  case (Entry k v)
  show ?thesis
  proof (cases "length key \<le> length k")
    case True
    then show ?thesis using Entry by (simp add: strncasecmp_eq_def)
  next
    case False
    then obtain m where m: "length key - length k = Suc m" by (cases "length key - length k") simp_all
    have "tolower CHR ''='' = CHR ''=''" by (simp add: tolower_sign)
    then have "CHR ''='' \<in> set (map tolower (take (length key) (line_text l)))"
      using False m Entry by simp
    moreover have "CHR ''='' \<notin> set (map tolower (take (length key) key))" using word_no_eq [OF assms(2)] by simp
    ultimately have "\<not> strncasecmp_eq (line_text l) key (length key)" unfolding strncasecmp_eq_def by metis
    moreover have "\<not> strncasecmp_eq k key (length key)"
    proof
      assume "strncasecmp_eq k key (length key)"
      then have "length (map tolower (take (length key) k)) = length (map tolower (take (length key) key))"
        unfolding strncasecmp_eq_def by (rule arg_cong)
      with False show "False" by simp
    qed
    ultimately show ?thesis using Entry by simp
  qed
qed

lemma conf_text_Cons: "conf_text (l # ls) = line_text l @ conf_text ls"
  by (simp add: conf_text_def)

text \<open>Reading and writing a setting, line by line.\<close>

lemma get_config_lines:
  assumes "conf_ok ls"
  shows "get_config (conf_text ls) key = Some (setting ls key)"
  using assms
proof (induction ls)
  case Nil
  then show ?case by (simp add: conf_text_def get_config.simps)
next
  case (Cons l ls)
  have ok: "line_ok l" "conf_ok ls" using Cons.prems by (simp_all add: conf_ok_def)
  have f: "conf_text (l # ls) = line_text l @ conf_text ls" "line_text l \<noteq> []" by (cases l; simp add: conf_text_def)+
  note read = read_line [OF ok(1)] line_no_NUL [OF ok(1)]
  show ?case
  proof (cases l)
    case (Comment t)
    then have "strim (line_text l) \<noteq> [] \<and> hd (strim (line_text l)) = CHR ''#''" by (simp add: strim_def isspace_def char_code_def)
    then have "get_config (conf_text (l # ls)) key = get_config (conf_text ls) key"
      using f(2) by (subst get_config.simps) (simp add: f(1) Let_def read)
    then show ?thesis using Cons.IH [OF ok(2)] Comment by simp
  next
    case (Entry k v)
    then have w: "word_ok k" "word_ok v" using ok(1) by simp_all
    have s: "strim (line_text l) = k @ CHR ''='' # v"
      using word_okD(7) [OF w(1)] word_okD(7) [OF w(2)] Entry by (simp add: strim_append) (simp add: strim_def isspace_def char_code_def)
    have "hd (k @ CHR ''='' # v) \<noteq> CHR ''#''" "hd (k @ CHR ''='' # v) \<noteq> LF" using word_okD(4-6) [OF w(1)] by simp_all
    then show ?thesis using f(2) Cons.IH [OF ok(2)]
      by (subst get_config.simps) (simp add: f(1) Let_def read s strtok_word(1) [OF w(1)] strtok_word(2) [OF w(2)], simp add: Entry)
  qed
qed

lemma update_config_lines:
  assumes "conf_ok ls" "word_ok key"
  shows "update_config (conf_text ls) key val = conf_text (set_entry ls key val)"
proof -
  have "update_lines (conf_text ls) key val
      = (conf_text (map (\<lambda>l. if begins_with key l then Entry key val else l) ls), list_ex (begins_with key) ls)"
    using assms(1)
  proof (induction ls)
    case Nil
    then show ?case by (simp add: conf_text_def update_lines.simps)
  next
    case (Cons l ls)
    have ok: "line_ok l" "conf_ok ls" using Cons.prems by (simp_all add: conf_ok_def)
    have f: "conf_text (l # ls) = line_text l @ conf_text ls" "line_text l \<noteq> []" by (cases l; simp add: conf_text_def)+
    have "strncasecmp_eq (line_text l) key (length key) \<longleftrightarrow> begins_with key l"
      by (rule line_begins [OF ok(1) assms(2)])
    then show ?case
      using f(2) Cons.IH [OF ok(2)]
      by (subst update_lines.simps) (simp add: f(1) conf_text_Cons CONFIG_MAX_LINE_def Let_def read_line [OF ok(1)] line_no_NUL [OF ok(1)])
  qed
  then show ?thesis by (simp add: update_config_def set_entry_def conf_text_def Let_def)
qed

text \<open>What setting an entry does to the settings.\<close>

lemma lower_refl: "strcasecmp_eq k k" "strncasecmp_eq k k n"
  by (simp_all add: strcasecmp_eq_def strncasecmp_eq_def)

lemma begins_same: "strcasecmp_eq k key \<Longrightarrow> strncasecmp_eq k key (length key)"
proof -
  assume e: "strcasecmp_eq k key"
  then have "length k = length key" unfolding strcasecmp_eq_def by (metis length_map)
  with e show ?thesis by (simp add: strcasecmp_eq_def strncasecmp_eq_def)
qed

lemma setting_set_entry: "setting (set_entry ls key val) key = Some val"
proof -
  let ?f = "\<lambda>l. if begins_with key l then Entry key val else l"
  have "setting (map ?f ls @ us) key = (if list_ex (begins_with key) ls then Some val else setting us key)" for us
  proof (induction ls)
    case (Cons l ls)
    show ?case
    proof (cases l)
      case (Entry k v)
      then show ?thesis using Cons begins_same [of k key] lower_refl by auto
    qed (use Cons in simp)
  qed simp
  from this [of "[]"] this [of "[Entry key val]"] show ?thesis by (simp add: set_entry_def Let_def lower_refl)
qed

lemma setting_other:
  assumes "\<not> strcasecmp_eq key k" "\<not> strncasecmp_eq k key (length key)"
  shows "setting (set_entry ls key val) k = setting ls k"
proof -
  let ?f = "\<lambda>l. if begins_with key l then Entry key val else l"
  have "setting (map ?f ls @ us) k = setting ls k" if "setting us k = None" for us
  proof (induction ls)
    case (Cons l ls)
    show ?case
    proof (cases l)
      case (Entry k' v)
      have "strncasecmp_eq k' key (length key) \<Longrightarrow> \<not> strcasecmp_eq k' k"
        using assms(2) unfolding strcasecmp_eq_def strncasecmp_eq_def take_map [symmetric] by metis
      with Entry Cons assms(1) show ?thesis by auto
    qed (use Cons in simp)
  qed (use that in simp)
  from this [of "[]"] this [of "[Entry key val]"] show ?thesis using assms(1) by (simp add: set_entry_def Let_def)
qed

section \<open>The contract of the settings\<close>

locale settings =
  fixes get :: "'f \<Rightarrow> 'k \<Rightarrow> 'v option option"
    and put :: "'f \<Rightarrow> 'k \<Rightarrow> 'v \<Rightarrow> 'f"
    and good :: "'f \<Rightarrow> bool"
    and key :: "'k \<Rightarrow> bool"
    and val :: "'k \<Rightarrow> 'v \<Rightarrow> bool"
    and clash :: "'k \<Rightarrow> 'k \<Rightarrow> bool"
  assumes get_put: "good f \<Longrightarrow> key k \<Longrightarrow> val k v \<Longrightarrow> get (put f k v) k = Some (Some v)"
    and get_put_other: "good f \<Longrightarrow> key k \<Longrightarrow> val k v \<Longrightarrow> \<not> clash k k' \<Longrightarrow> get (put f k v) k' = get f k'"
    and good_put: "good f \<Longrightarrow> key k \<Longrightarrow> val k v \<Longrightarrow> good (put f k v)"
begin

text \<open>Two settings written one after the other are both read back, the first unless the second hides it.\<close>

lemma get_put_put:
  assumes "good f" "key k" "val k v" "key k'" "val k' v'" "\<not> clash k' k"
  shows "get (put (put f k v) k' v') k = Some (Some v)" "get (put (put f k v) k' v') k' = Some (Some v')"
  using get_put [OF assms(1-3)] good_put [OF assms(1-3)] assms(4-6) get_put_other get_put by metis+

end

definition conf_good :: "bytes \<Rightarrow> bool" where
  "conf_good f \<longleftrightarrow> (\<exists>ls. conf_ok ls \<and> f = conf_text ls)"

definition entry_ok :: "bytes \<Rightarrow> bytes \<Rightarrow> bool" where
  "entry_ok key val \<longleftrightarrow> word_ok val \<and> length key + length val < 62"

definition key_clash :: "bytes \<Rightarrow> bytes \<Rightarrow> bool" where
  "key_clash key k \<longleftrightarrow> strcasecmp_eq key k \<or> strncasecmp_eq k key (length key)"

lemma conf_ok_set_entry: "conf_ok ls \<Longrightarrow> word_ok key \<Longrightarrow> entry_ok key val \<Longrightarrow> conf_ok (set_entry ls key val)"
  by (auto simp: conf_ok_def set_entry_def entry_ok_def list_all_iff Let_def)

interpretation conf: settings get_config update_config conf_good word_ok entry_ok key_clash
proof unfold_locales
  fix f key val k
  assume a: "conf_good f" "word_ok key" "entry_ok key val"
  then obtain ls where ls: "conf_ok ls" "f = conf_text ls" by (auto simp: conf_good_def)
  note u = update_config_lines [OF ls(1) a(2), of val] conf_ok_set_entry [OF ls(1) a(2,3)]
  show "get_config (update_config f key val) key = Some (Some val)"
    using u by (simp add: ls(2) get_config_lines setting_set_entry)
  show "conf_good (update_config f key val)" using u by (auto simp: conf_good_def ls(2))
  show "\<not> key_clash key k \<Longrightarrow> get_config (update_config f key val) k = get_config f k"
    using u ls(1) setting_other [of key k ls val] by (simp add: ls(2) get_config_lines key_clash_def)
qed

section \<open>The properties of the configuration file\<close>

text \<open>
  A configuration file of comments and entries, in lines of at most 63 characters, is the list of its
  lines: reading a key returns the value of the first entry of that name, and writing one replaces
  every entry whose name begins with the key, in any case of letters, or appends an entry.
\<close>

theorem conf_lines_refined:
  assumes "conf_ok ls"
  shows "get_config (conf_text ls) k = Some (setting ls k)
    \<and> (word_ok key \<longrightarrow> update_config (conf_text ls) key val = conf_text (set_entry ls key val))"
  using get_config_lines [OF assms] update_config_lines [OF assms] by blast

theorem conf_lines_refined_witness:
  "get_config (''#c'' @ [LF] @ ''role=master'' @ [LF]) ''ROLE'' = Some (Some ''master'')"
proof -
  have "conf_ok [Comment ''c'', Entry ''role'' ''master'']" "strcasecmp_eq ''role'' ''ROLE''" by code_simp+
  then show ?thesis using conf_lines_refined [of "[Comment ''c'', Entry ''role'' ''master'']" "''ROLE''"] by (simp add: conf_text_def)
qed



end
