(* ===== verification/Commands.thy ===== *)
theory Commands
  imports Client Resp Db Conf
begin

unbundle bit_operations_syntax

text \<open>
  The server's state and what a request does to it (\<open>src/redis.c\<close>, and \<open>freeClient\<close>, \<open>clientToclose\<close> of
  \<open>src/client.c\<close>, \<open>connectMaster\<close>, \<open>slaveUpdateOffset\<close> of \<open>src/repli.c\<close>): the command table, the lookup,
  the eighteen command procedures, \<open>processCommand\<close>, \<open>processClientQueryBuf\<close>, and the propagation of
  writes to the replicas and to the replication backlog.

  Clients live in \<open>cheap\<close>, from pointers to records; a freed client is \<open>None\<close>, and following its
  pointer is undefined.  \<open>server->clients\<close> is the sequence of its members (\<open>DList\<close> shows that the list
  operations act on the sequence this way).  The environment \<open>env\<close> holds what one event takes from
  outside: the reading of the clock, the error state of each socket, the result of a connection
  attempt, the contents of fresh memory and the number of zero bytes that can be read behind the
  contents of the read buffer.
\<close>

section \<open>State\<close>

definition REDIS_CLUSTER_MASTER :: cint where "REDIS_CLUSTER_MASTER = 1"
definition REDIS_CLUSTER_SLAVE :: cint where "REDIS_CLUSTER_SLAVE = 2"
definition REDIS_CLUSTER_SENTINEL :: cint where "REDIS_CLUSTER_SENTINEL = 4"
definition MASTER_REPLI_RINGBUFFER_SIZE :: int where "MASTER_REPLI_RINGBUFFER_SIZE = 1024"

definition CMD_MASTER :: cint where "CMD_MASTER = 1"
definition CMD_SLAVE :: cint where "CMD_SLAVE = 4"
definition CMD_WRITE :: cint where "CMD_WRITE = 8"
definition CMD_READ :: cint where "CMD_READ = 16"

lemmas server_flags = REDIS_CLUSTER_MASTER_def REDIS_CLUSTER_SLAVE_def REDIS_CLUSTER_SENTINEL_def
lemmas cmd_flag_defs = CMD_MASTER_def CMD_SLAVE_def CMD_WRITE_def CMD_READ_def

datatype redisCommandProc =
    commandSetProc | commandGetProc | commandDelProc | commandObjectProc | commandByeProc
  | commandSlaveofProc | commandPingProc | commandReplconfProc | commandSyncProc | commandReplACKProc
  | commandInfoProc | commandHeartBeatProc | commandSelectProc | commandExpireProc | commandTtlProc
  | commandMultiProc | commandExecProc | commandWatchProc

record redisCommand =
  cmd_flags :: cint
  cmd_name :: bytes
  cmd_proc :: redisCommandProc
  arity :: int

datatype handler = acceptTcpHandler | readFromClient | sendToClient | repliReadHandler | repliWriteHandler | sentinelReadInfo
datatype cron = serverCron | sentinelInfoCron

record saveparam =
  seconds :: int
  changes :: int

record redisServer =
  server_id :: int
  server_flags :: cint
  unixtime :: int
  shutdownAsap :: int
  maxclients :: int
  cheap :: "cid \<Rightarrow> redisClient option"
  next_cid :: cid
  clients :: "cid list"
  clientsToClose :: "cid list"
  dbs :: "redisDb list"
  commands :: "(bytes, redisCommand) dict option"
  eventLoop :: "(handler, cron, cid) aeEventLoop"
  repli_buffer :: bytes
  begin_offset :: int
  last_offset :: int
  master :: "cid option"
  masterhost :: bytes
  masterport :: int
  server_replState :: REPL_STATE
  offset :: int
  configfile :: bytes
  srv_port :: int
  aofOn :: bool
  rdbOn :: bool
  dirty :: int
  lastSave :: int
  saveParams :: "saveparam list"
  rdbChildPid :: int
  isBgSaving :: bool
  active_buf :: bytes

record env =
  e_now :: int
  e_sock :: "int \<Rightarrow> bool"
  e_connect :: "bytes \<Rightarrow> int \<Rightarrow> int"
  e_junk :: redisClient
  e_room :: nat

text \<open>Access to a client, a change of one, a reply to one; a database and its change.\<close>

definition put_client :: "redisServer \<Rightarrow> cid \<Rightarrow> redisClient \<Rightarrow> redisServer" where
  "put_client s i c = s\<lparr>cheap := (cheap s)(i \<mapsto> c)\<rparr>"

definition upd_client :: "redisServer \<Rightarrow> cid \<Rightarrow> (redisClient \<Rightarrow> redisClient) \<Rightarrow> redisServer option" where
  "upd_client s i f = do { c \<leftarrow> cheap s i; Some (put_client s i (f c)) }"

definition reply :: "redisServer \<Rightarrow> cid \<Rightarrow> bytes \<Rightarrow> redisServer option" where
  "reply s i msg = upd_client s i (\<lambda>c. addWrite c msg)"

definition put_db :: "redisServer \<Rightarrow> int \<Rightarrow> redisDb \<Rightarrow> redisServer option" where
  "put_db s j db = do { ds \<leftarrow> store (dbs s) j db; Some (s\<lparr>dbs := ds\<rparr>) }"

text \<open>A bulk string reply.\<close>

definition reply_bulk :: "redisServer \<Rightarrow> cid \<Rightarrow> bytes \<Rightarrow> redisServer option" where
  "reply_bulk s i msg = do { enc \<leftarrow> respEncodeBulkString msg; reply s i enc }"

section \<open>The command table\<close>

definition commandsTable :: "redisCommand list" where
  "commandsTable =
    [\<lparr>cmd_flags = CMD_WRITE OR CMD_MASTER OR CMD_SLAVE, cmd_name = ''SET'', cmd_proc = commandSetProc, arity = 3\<rparr>,
     \<lparr>cmd_flags = CMD_READ OR CMD_MASTER OR CMD_SLAVE, cmd_name = ''GET'', cmd_proc = commandGetProc, arity = 2\<rparr>,
     \<lparr>cmd_flags = CMD_WRITE OR CMD_MASTER, cmd_name = ''DEL'', cmd_proc = commandDelProc, arity = 2\<rparr>,
     \<lparr>cmd_flags = CMD_READ OR CMD_MASTER OR CMD_SLAVE, cmd_name = ''OBJECT'', cmd_proc = commandObjectProc, arity = 3\<rparr>,
     \<lparr>cmd_flags = CMD_MASTER OR CMD_SLAVE, cmd_name = ''BYE'', cmd_proc = commandByeProc, arity = 1\<rparr>,
     \<lparr>cmd_flags = CMD_MASTER, cmd_name = ''SLAVEOF'', cmd_proc = commandSlaveofProc, arity = 3\<rparr>,
     \<lparr>cmd_flags = CMD_MASTER OR CMD_SLAVE, cmd_name = ''PING'', cmd_proc = commandPingProc, arity = 1\<rparr>,
     \<lparr>cmd_flags = CMD_MASTER OR CMD_SLAVE, cmd_name = ''REPLCONF'', cmd_proc = commandReplconfProc, arity = 3\<rparr>,
     \<lparr>cmd_flags = CMD_MASTER OR CMD_SLAVE, cmd_name = ''SYNC'', cmd_proc = commandSyncProc, arity = 2\<rparr>,
     \<lparr>cmd_flags = CMD_MASTER OR CMD_SLAVE, cmd_name = ''REPLACK'', cmd_proc = commandReplACKProc, arity = 1\<rparr>,
     \<lparr>cmd_flags = CMD_MASTER OR CMD_SLAVE, cmd_name = ''INFO'', cmd_proc = commandInfoProc, arity = 1\<rparr>,
     \<lparr>cmd_flags = CMD_MASTER OR CMD_SLAVE, cmd_name = ''HEARTBEAT'', cmd_proc = commandHeartBeatProc, arity = 1\<rparr>,
     \<lparr>cmd_flags = CMD_MASTER OR CMD_SLAVE, cmd_name = ''SELECT'', cmd_proc = commandSelectProc, arity = 2\<rparr>,
     \<lparr>cmd_flags = CMD_WRITE OR CMD_MASTER, cmd_name = ''EXPIRE'', cmd_proc = commandExpireProc, arity = 3\<rparr>,
     \<lparr>cmd_flags = CMD_READ OR CMD_MASTER, cmd_name = ''TTL'', cmd_proc = commandTtlProc, arity = 2\<rparr>,
     \<lparr>cmd_flags = CMD_MASTER, cmd_name = ''MULTI'', cmd_proc = commandMultiProc, arity = 1\<rparr>,
     \<lparr>cmd_flags = CMD_MASTER, cmd_name = ''EXEC'', cmd_proc = commandExecProc, arity = 1\<rparr>,
     \<lparr>cmd_flags = CMD_MASTER, cmd_name = ''WATCH'', cmd_proc = commandWatchProc, arity = 1\<rparr>]"

definition commandDictHashFunction :: "bytes \<Rightarrow> 64 word" where
  "commandDictHashFunction key = foldl hash_step 5381 (takeWhile (\<lambda>c. c \<noteq> NUL) key)"

definition commandDictKeyCompare :: "bytes \<Rightarrow> bytes \<Rightarrow> int" where
  "commandDictKeyCompare key1 key2 = strcmp (takeWhile (\<lambda>c. c \<noteq> NUL) key1) (takeWhile (\<lambda>c. c \<noteq> NUL) key2)"

definition commandDictKeyDup :: "bytes \<Rightarrow> bytes" where
  "commandDictKeyDup key = takeWhile (\<lambda>c. c \<noteq> NUL) key"

definition commandDictValDup :: "redisCommand option \<Rightarrow> redisCommand option" where
  "commandDictValDup obj = (case obj of None \<Rightarrow> None | Some cmd \<Rightarrow> Some cmd)"

definition commandDictType :: "(bytes, redisCommand) dictType" where
  "commandDictType = \<lparr>hashFunction = commandDictHashFunction, keyDup = Some commandDictKeyDup,
     valDup = Some commandDictValDup, keyCompare = commandDictKeyCompare\<rparr>"

fun load_from :: "redisCommand list \<Rightarrow> (bytes, redisCommand) dict \<Rightarrow> (bytes, redisCommand) dict option" where
  "load_from [] d = Some d"
| "load_from (cmd # cmds) d = do {
     (r, d') \<leftarrow> dictAdd commandDictType d (cmd_name cmd) (Some cmd);
     load_from cmds d'
   }"

definition loadCommands :: "redisServer \<Rightarrow> redisServer option" where
  "loadCommands s = do { d \<leftarrow> load_from commandsTable dictCreate; Some (s\<lparr>commands := Some d\<rparr>) }"

definition isSupportedCmd :: "redisServer \<Rightarrow> redisClient \<Rightarrow> redisCommand \<Rightarrow> bool" where
  "isSupportedCmd s c cmd \<longleftrightarrow>
     \<not> (server_flags s AND REDIS_CLUSTER_SLAVE \<noteq> 0 \<and> flags c AND REDIS_CLIENT_NORMAL \<noteq> 0
        \<and> cmd_flags cmd AND CMD_WRITE \<noteq> 0)"

text \<open>The loop over the iterator; the fuel is one more than the number of entries.\<close>

fun lookup_from :: "nat \<Rightarrow> redisServer \<Rightarrow> redisClient \<Rightarrow> bytes \<Rightarrow> (bytes, redisCommand) dict \<Rightarrow>
    (bytes, redisCommand) dictIterator \<Rightarrow> redisCommand option option" where
  "lookup_from 0 s c nm d it = None"
| "lookup_from (Suc n) s c nm d it = do {
     (r, it') \<leftarrow> dictIterNext d it;
     (case r of
        None \<Rightarrow> Some None
      | Some entry \<Rightarrow> do {
          cmd \<leftarrow> snd entry;
          if isSupportedCmd s c cmd \<and> strcasecmp_eq (cmd_name cmd) nm then Some (Some cmd)
          else lookup_from n s c nm d it'
        })
   }"

definition lookupCommand :: "redisServer \<Rightarrow> redisClient \<Rightarrow> bytes \<Rightarrow> redisCommand option option" where
  "lookupCommand s c nm = do {
     d \<leftarrow> commands s;
     lookup_from (Suc (nat (dictSize d))) s c nm d dictGetIterator
   }"

section \<open>Clients and the event loop\<close>

definition delete_event :: "redisServer \<Rightarrow> int \<Rightarrow> cint \<Rightarrow> redisServer option" where
  "delete_event s d msk = do { (r, el) \<leftarrow> aeDeleteFileEvent (eventLoop s) d msk; Some (s\<lparr>eventLoop := el\<rparr>) }"

definition create_event :: "env \<Rightarrow> redisServer \<Rightarrow> int \<Rightarrow> cint \<Rightarrow> handler \<Rightarrow> cid option \<Rightarrow> (int \<times> redisServer) option" where
  "create_event E s d msk h data = do {
     (r, el) \<leftarrow> aeCreateFileEvent (e_sock E d) (eventLoop s) d msk h data;
     Some (r, s\<lparr>eventLoop := el\<rparr>)
   }"

definition clientToclose :: "redisServer \<Rightarrow> cid \<Rightarrow> redisServer option" where
  "clientToclose s i = do {
     c \<leftarrow> cheap s i;
     if flags c AND CLIENT_TO_CLOSE \<noteq> 0 then Some s
     else do {
       let s1 = put_client s i (c\<lparr>flags := flags c OR CLIENT_TO_CLOSE\<rparr>);
       s2 \<leftarrow> delete_event s1 (fd c) AE_WRITABLE;
       delete_event s2 (fd c) AE_READABLE
     }
   }"

definition freeClient :: "redisServer \<Rightarrow> cid option \<Rightarrow> redisServer option" where
  "freeClient s p = (case p of None \<Rightarrow> Some s | Some i \<Rightarrow> do {
     c \<leftarrow> cheap s i;
     s1 \<leftarrow> delete_event s (fd c) AE_READABLE;
     s2 \<leftarrow> delete_event s1 (fd c) AE_WRITABLE;
     Some (s2\<lparr>cheap := (cheap s2)(i := None)\<rparr>)
   })"

text \<open>A client in fresh memory.\<close>

definition new_client :: "env \<Rightarrow> redisServer \<Rightarrow> redisClient \<Rightarrow> cid \<times> redisServer" where
  "new_client E s c = (next_cid s, put_client (s\<lparr>next_cid := next_cid s + 1\<rparr>) (next_cid s) c)"

section \<open>The slave's connection to its master\<close>

definition slaveUpdateOffset :: "redisServer \<Rightarrow> int \<Rightarrow> redisServer" where
  "slaveUpdateOffset s new_offset = s\<lparr>offset := new_offset, configfile := update_config (configfile s) ''offset'' (dec_int new_offset)\<rparr>"

definition restore_offset :: "redisServer \<Rightarrow> redisServer option" where
  "restore_offset s = do {
     r \<leftarrow> get_config (configfile s) ''offset'';
     txt \<leftarrow> r;
     (case string2long txt of
        None \<Rightarrow> Some (s\<lparr>configfile := update_config (configfile s) ''offset'' ''-1'', offset := - 1\<rparr>)
      | Some v \<Rightarrow> Some (s\<lparr>offset := v\<rparr>))
   }"

text \<open>
  A registration that fails frees the master and connects again; when every attempt fails the same
  way this does not end, which is the value \<open>None\<close>.
\<close>

partial_function (option) connectMaster :: "env \<Rightarrow> redisServer \<Rightarrow> redisServer option" where
  "connectMaster E s =
     (let d = e_connect E (masterhost s) (masterport s) in
      if d < 0 then Some s
      else do {
        let s1 = (if master s = None
                  then (let (m, s') = new_client E s (redisClientCreate (e_junk E) d (masterhost s) (masterport s))
                        in s'\<lparr>master := Some m\<rparr>)
                  else s);
        m \<leftarrow> master s1;
        s2 \<leftarrow> upd_client s1 m (\<lambda>c. c\<lparr>flags := (flags c AND NOT REDIS_CLIENT_NORMAL) OR REDIS_CLIENT_MASTER\<rparr>);
        s3 \<leftarrow> restore_offset (s2\<lparr>server_replState := REPL_STATE_SLAVE_CONNECTING\<rparr>);
        r1 \<leftarrow> create_event E s3 d AE_READABLE repliReadHandler (master s3);
        s4 \<leftarrow> (if fst r1 = AE_ERROR then do {
                 s' \<leftarrow> freeClient (snd r1) (master (snd r1));
                 connectMaster E (s'\<lparr>master := None\<rparr>)
               } else Some (snd r1));
        r2 \<leftarrow> create_event E s4 d AE_WRITABLE repliWriteHandler (master s4);
        (if fst r2 = AE_ERROR then do {
           s' \<leftarrow> freeClient (snd r2) (master (snd r2));
           connectMaster E (s'\<lparr>master := None\<rparr>)
         } else Some (snd r2))
      })"

definition reconnectMaster :: "env \<Rightarrow> redisServer \<Rightarrow> redisServer option" where
  "reconnectMaster E s = do { s' \<leftarrow> freeClient s (master s); connectMaster E (s'\<lparr>master := None\<rparr>) }"

section \<open>Command procedures\<close>

definition set_proc :: "redisServer \<Rightarrow> cid \<Rightarrow> redisServer option" where
  "set_proc s i = do {
     c \<leftarrow> cheap s i;
     key \<leftarrow> argv_at c 1;
     if argc c = 2 then
       reply (put_client s i (c\<lparr>last_errno := Some ERR_VALUE_MISSED, err_msg := resp_valmissed\<rparr>)) i resp_valmissed
     else do {
       val \<leftarrow> argv_at c 2;
       v \<leftarrow> robjCreateStringObject val;
       db \<leftarrow> load (dbs s) (cdb c);
       (retcode, db') \<leftarrow> dbAdd db key (Some v);
       s1 \<leftarrow> put_db s (cdb c) db';
       if retcode = DICT_OK then do { s2 \<leftarrow> reply s1 i resp_ok; Some (s2\<lparr>dirty := dirty s2 + 1\<rparr>) }
       else reply (put_client s1 i (c\<lparr>last_errno := Some ERR_KEY_EXISTS, err_msg := resp_dupkey\<rparr>)) i resp_dupkey
     }
   }"

definition get_proc :: "redisServer \<Rightarrow> cid \<Rightarrow> redisServer option" where
  "get_proc s i = do {
     c \<leftarrow> cheap s i;
     key \<leftarrow> argv_at c 1;
     db \<leftarrow> load (dbs s) (cdb c);
     (res, db') \<leftarrow> dbGet db key;
     s1 \<leftarrow> put_db s (cdb c) db';
     (case res of
        None \<Rightarrow> reply s1 i resp_keyNotFound
      | Some v \<Rightarrow> do { str \<leftarrow> robjGetValStr v; reply_bulk s1 i str })
   }"

definition del_proc :: "redisServer \<Rightarrow> cid \<Rightarrow> redisServer option" where
  "del_proc s i = do {
     c \<leftarrow> cheap s i;
     key \<leftarrow> argv_at c 1;
     db \<leftarrow> load (dbs s) (cdb c);
     (retcode, db') \<leftarrow> dbDelete db key;
     s1 \<leftarrow> put_db s (cdb c) db';
     if retcode = DICT_OK then reply (s1\<lparr>dirty := dirty s1 + 1\<rparr>) i resp_ok
     else reply s1 i resp_keyNotFound
   }"

definition encodingStr :: "robj_encoding \<Rightarrow> bytes" where
  "encodingStr e = (case e of
       REDIS_ENCODING_EMBSTR \<Rightarrow> ''embstr''
     | REDIS_ENCODING_INT \<Rightarrow> ''integer''
     | REDIS_ENCODING_RAW \<Rightarrow> ''raw''
     | _ \<Rightarrow> ''unknown'')"

definition object_proc :: "redisServer \<Rightarrow> cid \<Rightarrow> redisServer option" where
  "object_proc s i = do {
     c \<leftarrow> cheap s i;
     key \<leftarrow> argv_at c 2;
     opr \<leftarrow> argv_at c 1;
     if strcasecmp_eq opr ''ENCODING'' then do {
       db \<leftarrow> load (dbs s) (cdb c);
       (val, db') \<leftarrow> dbGet db key;
       s1 \<leftarrow> put_db s (cdb c) db';
       (case val of
          None \<Rightarrow> reply s1 i resp_keyNotFound
        | Some v \<Rightarrow> reply_bulk s1 i (encodingStr (encoding v)))
     } else Some s
   }"

definition bye_proc :: "redisServer \<Rightarrow> cid \<Rightarrow> redisServer option" where
  "bye_proc s i = do { s1 \<leftarrow> upd_client s i (\<lambda>c. c\<lparr>toclose := True\<rparr>); reply s1 i resp_bye }"

definition masterToSlave :: "redisServer \<Rightarrow> bytes \<Rightarrow> int \<Rightarrow> redisServer option" where
  "masterToSlave s host p = do {
     assert_c (master s = None);
     loadCommands (s\<lparr>server_flags := (server_flags s AND NOT REDIS_CLUSTER_MASTER) OR REDIS_CLUSTER_SLAVE,
       masterhost := host, masterport := p\<rparr>)
   }"

definition slaveof_proc :: "env \<Rightarrow> redisServer \<Rightarrow> cid \<Rightarrow> redisServer option" where
  "slaveof_proc E s i = do {
     c \<leftarrow> cheap s i;
     addr \<leftarrow> argv_at c 1;
     (host, rest) \<leftarrow> strtok1 CHR '':'' addr;
     (p, _) \<leftarrow> strtok1 CHR '':'' rest;
     n \<leftarrow> atoi p;
     s1 \<leftarrow> masterToSlave s host n;
     s2 \<leftarrow> reply s1 i resp_ok;
     connectMaster E s2
   }"

definition ping_proc :: "redisServer \<Rightarrow> cid \<Rightarrow> redisServer option" where
  "ping_proc s i = do {
     s1 \<leftarrow> upd_client s i (\<lambda>c. c\<lparr>replState := REPL_STATE_MASTER_WAIT_PING\<rparr>);
     reply s1 i resp_pong
   }"

text \<open>
  The partial resynchronisation copies from the backlog at the offset itself, without taking it
  modulo the size.  The last branch of the source cannot be reached.
\<close>

definition sync_proc :: "redisServer \<Rightarrow> cid \<Rightarrow> redisServer option" where
  "sync_proc s i = do {
     c \<leftarrow> cheap s i;
     arg \<leftarrow> argv_at c 1;
     ofs \<leftarrow> atoi arg;
     if ofs < 0 \<or> ofs < begin_offset s \<or> ofs \<ge> last_offset s then
       reply (put_client s i (c\<lparr>replState := REPL_STATE_MASTER_SEND_FULLSYNC\<rparr>)) i resp_fullsync
     else do {
       s1 \<leftarrow> reply (put_client s i (c\<lparr>replState := REPL_STATE_MASTER_SEND_APPENDSYNC\<rparr>)) i resp_appendsync;
       c1 \<leftarrow> cheap s1 i;
       missing \<leftarrow> load_block (repli_buffer s) (ofs + 1) (last_offset s - ofs);
       c2 \<leftarrow> addWriteBuf c1 missing (last_offset s - ofs);
       Some (put_client s1 i c2)
     }
   }"

definition replconf_proc :: "redisServer \<Rightarrow> cid \<Rightarrow> redisServer option" where
  "replconf_proc s i = do {
     s1 \<leftarrow> reply s i resp_ok;
     upd_client s1 i (\<lambda>c. c\<lparr>flags := REDIS_CLIENT_SLAVE\<rparr>)
   }"

definition replack_proc :: "redisServer \<Rightarrow> cid \<Rightarrow> redisServer option" where
  "replack_proc s i = do {
     s1 \<leftarrow> upd_client s i (\<lambda>c. c\<lparr>lastinteraction := unixtime s\<rparr>);
     reply s1 i resp_ok
   }"

definition heartbeat_proc :: "redisServer \<Rightarrow> cid \<Rightarrow> redisServer option" where
  "heartbeat_proc s i = reply s i resp_ok"

definition getRoleStr :: "cint \<Rightarrow> bytes" where
  "getRoleStr role =
     (if role AND REDIS_CLUSTER_MASTER \<noteq> 0 then ''master''
      else if role AND REDIS_CLUSTER_SENTINEL \<noteq> 0 then ''sentinel''
      else if role AND REDIS_CLUSTER_SLAVE \<noteq> 0 then ''slave''
      else ''unknown'')"

text \<open>One line per client whose flags are exactly those of a slave; each line is cut at 255 characters.\<close>

fun slave_lines :: "redisServer \<Rightarrow> nat \<Rightarrow> cid list \<Rightarrow> bytes list option" where
  "slave_lines s slavei [] = Some []"
| "slave_lines s slavei (i # is) = do {
     c \<leftarrow> cheap s i;
     if flags c = REDIS_CLIENT_SLAVE then do {
       rest \<leftarrow> slave_lines s (slavei + 1) is;
       Some (take 255 (''slave'' @ dec_int (int slavei) @ '':ip='' @ ip c @ '',port='' @ dec_int (port c) @ '',state=online'') # rest)
     } else slave_lines s slavei is
   }"

definition generateInfoRespContent :: "redisServer \<Rightarrow> bytes list option" where
  "generateInfoRespContent s = do {
     assert_c (server_flags s AND REDIS_CLUSTER_MASTER \<noteq> 0);
     slaves \<leftarrow> slave_lines s 0 (clients s);
     Some (take 255 (''run_id:'' @ dec_int (server_id s)) # take 255 (''role:'' @ getRoleStr (server_flags s)) # slaves)
   }"

definition info_proc :: "redisServer \<Rightarrow> cid \<Rightarrow> redisServer option" where
  "info_proc s i = do {
     args \<leftarrow> generateInfoRespContent s;
     res \<leftarrow> respEncodeArrayString args;
     reply s i res
   }"

text \<open>The conversion of a \<open>long\<close> to \<open>int\<close>.\<close>

definition to_int :: "int \<Rightarrow> int" where
  "to_int n = (n + 2 ^ 31) mod 2 ^ 32 - 2 ^ 31"

text \<open>The index is not compared with the number of databases.\<close>

definition select_proc :: "redisServer \<Rightarrow> cid \<Rightarrow> redisServer option" where
  "select_proc s i = do {
     c \<leftarrow> cheap s i;
     arg \<leftarrow> argv_at c 1;
     (case string2long arg of
        None \<Rightarrow> reply s i resp_err
      | Some n \<Rightarrow>
          reply_bulk (put_client s i (c\<lparr>cdb := n, dbid := to_int n\<rparr>)) i (''OK, db is '' @ dec_int (to_int n)))
   }"

text \<open>\<open>expireat += time (NULL)\<close> overflows for a period near the greatest \<open>long\<close>.\<close>

definition expire_proc :: "env \<Rightarrow> redisServer \<Rightarrow> cid \<Rightarrow> redisServer option" where
  "expire_proc E s i = do {
     c \<leftarrow> cheap s i;
     key \<leftarrow> argv_at c 1;
     expire \<leftarrow> argv_at c 2;
     (case string2long expire of
        None \<Rightarrow> reply s i resp_err
      | Some n \<Rightarrow> do {
          assert_c (LONG_MIN \<le> n + e_now E \<and> n + e_now E \<le> LONG_MAX);
          db \<leftarrow> load (dbs s) (cdb c);
          (r, db') \<leftarrow> dbSetExpire db key (n + e_now E);
          s1 \<leftarrow> put_db s (cdb c) db';
          if r = 0 then reply (s1\<lparr>dirty := dirty s1 + 1\<rparr>) i resp_ok
          else reply s1 i resp_err
        })
   }"

text \<open>The test looks into the first database, the remaining time comes from the client's.\<close>

definition ttl_proc :: "env \<Rightarrow> redisServer \<Rightarrow> cid \<Rightarrow> redisServer option" where
  "ttl_proc E s i = do {
     c \<leftarrow> cheap s i;
     key \<leftarrow> argv_at c 1;
     db0 \<leftarrow> load (dbs s) 0;
     has \<leftarrow> dictContains expiretype (expires db0) key;
     if has then do {
       db \<leftarrow> load (dbs s) (cdb c);
       (ttl, db') \<leftarrow> dbGetTTL (e_now E) db key;
       s1 \<leftarrow> put_db s (cdb c) db';
       reply_bulk s1 i (''ttl:'' @ dec_int ttl @ ''s'')
     } else reply s i resp_keyNotFound
   }"

definition multi_proc :: "redisServer \<Rightarrow> cid \<Rightarrow> redisServer option" where
  "multi_proc s i = do {
     s1 \<leftarrow> upd_client s i (\<lambda>c. c\<lparr>flags := flags c OR REDIS_MULTI\<rparr>);
     reply s1 i resp_ok
   }"

text \<open>
  The loop of \<open>EXEC\<close>: command by command through \<open>query\<close>, with the queue length read again each time.
  The queue has ten slots, so after ten turns the next read is outside it, which the fuel of eleven
  covers.
\<close>

fun exec_loop :: "(redisServer \<Rightarrow> cid \<Rightarrow> redisServer option) \<Rightarrow> nat \<Rightarrow> nat \<Rightarrow> redisServer \<Rightarrow> cid \<Rightarrow> redisServer option" where
  "exec_loop query 0 n s i = None"
| "exec_loop query (Suc fuel) n s i = do {
     c \<leftarrow> cheap s i;
     if \<not> int n < multiCmdCount c then Some s
     else do {
       cmd \<leftarrow> load (multcmds c) (int n);
       cmds1 \<leftarrow> store (multcmds c) (int n) [];
       s1 \<leftarrow> query (put_client s i (c\<lparr>readBuf := cmd, multcmds := cmds1\<rparr>)) i;
       c1 \<leftarrow> cheap s1 i;
       cmds2 \<leftarrow> store (multcmds c1) (int n) [];
       exec_loop query fuel (n + 1) (put_client s1 i (c1\<lparr>multcmds := cmds2\<rparr>)) i
     }
   }"

text \<open>\<open>client->flags &= REDIS_DIRTY_CAS\<close> is an assignment: no other flag survives it.\<close>

definition exec_proc :: "(redisServer \<Rightarrow> cid \<Rightarrow> redisServer option) \<Rightarrow> redisServer \<Rightarrow> cid \<Rightarrow> redisServer option" where
  "exec_proc query s i = do {
     c \<leftarrow> cheap s i;
     let fl = ((flags c AND NOT REDIS_MULTI) OR REDIS_EXEC) AND REDIS_DIRTY_CAS;
     let s1 = put_client s i (c\<lparr>flags := fl\<rparr>);
     s2 \<leftarrow> (if fl \<noteq> 0 then reply_bulk s1 i ''err dirty''
           else do { s' \<leftarrow> exec_loop query 11 0 s1 i; reply_bulk s' i ''Exec ok'' });
     upd_client s2 i (\<lambda>c. c\<lparr>flags := flags c AND NOT REDIS_EXEC, multiCmdCount := 0\<rparr>)
   }"

fun watch_from :: "redisServer \<Rightarrow> cid \<Rightarrow> int \<Rightarrow> nat \<Rightarrow> redisServer option" where
  "watch_from s i k 0 = Some s"
| "watch_from s i k (Suc n) = do {
     c \<leftarrow> cheap s i;
     key \<leftarrow> argv_at c k;
     db \<leftarrow> load (dbs s) (cdb c);
     db' \<leftarrow> dbAddWatch db key i;
     s1 \<leftarrow> put_db s (cdb c) db';
     watch_from s1 i (k + 1) n
   }"

definition watch_proc :: "redisServer \<Rightarrow> cid \<Rightarrow> redisServer option" where
  "watch_proc s i = do {
     c \<leftarrow> cheap s i;
     s1 \<leftarrow> watch_from s i 1 (nat (argc c - 1));
     reply s1 i resp_ok
   }"

definition run_proc :: "env \<Rightarrow> (redisServer \<Rightarrow> cid \<Rightarrow> redisServer option) \<Rightarrow> redisCommandProc \<Rightarrow>
    redisServer \<Rightarrow> cid \<Rightarrow> redisServer option" where
  "run_proc E query p s i = (case p of
       commandSetProc \<Rightarrow> set_proc s i | commandGetProc \<Rightarrow> get_proc s i | commandDelProc \<Rightarrow> del_proc s i
     | commandObjectProc \<Rightarrow> object_proc s i | commandByeProc \<Rightarrow> bye_proc s i
     | commandSlaveofProc \<Rightarrow> slaveof_proc E s i | commandPingProc \<Rightarrow> ping_proc s i
     | commandReplconfProc \<Rightarrow> replconf_proc s i | commandSyncProc \<Rightarrow> sync_proc s i
     | commandReplACKProc \<Rightarrow> replack_proc s i | commandInfoProc \<Rightarrow> info_proc s i
     | commandHeartBeatProc \<Rightarrow> heartbeat_proc s i | commandSelectProc \<Rightarrow> select_proc s i
     | commandExpireProc \<Rightarrow> expire_proc E s i | commandTtlProc \<Rightarrow> ttl_proc E s i
     | commandMultiProc \<Rightarrow> multi_proc s i | commandExecProc \<Rightarrow> exec_proc query s i
     | commandWatchProc \<Rightarrow> watch_proc s i)"

section \<open>After a write: watchers, backlog and replicas\<close>

text \<open>Every watcher is marked and taken off the list; a watcher that has been freed is a dangling pointer.\<close>

fun mark_dirty :: "redisServer \<Rightarrow> cid list \<Rightarrow> redisServer option" where
  "mark_dirty s [] = Some s"
| "mark_dirty s (w # ws) = do {
     s1 \<leftarrow> upd_client s w (\<lambda>c. c\<lparr>flags := flags c OR REDIS_DIRTY_CAS\<rparr>);
     mark_dirty s1 ws
   }"

definition touchWatchKey :: "redisServer \<Rightarrow> cid \<Rightarrow> redisServer option" where
  "touchWatchKey s i = do {
     c \<leftarrow> cheap s i;
     key \<leftarrow> argv_at c 1;
     db \<leftarrow> load (dbs s) (cdb c);
     watching \<leftarrow> dbIsWatching db key;
     if watching then do {
       (l, w) \<leftarrow> dictFetchValue watchtype (watched_keys db) key;
       watchers \<leftarrow> l;
       s1 \<leftarrow> mark_dirty s watchers;
       put_db s1 (cdb c) (db\<lparr>watched_keys := dictSetVal watchtype w key (Some [])\<rparr>)
     } else Some s
   }"

definition addRepliBuf :: "redisServer \<Rightarrow> bytes \<Rightarrow> int \<Rightarrow> redisServer option" where
  "addRepliBuf s buf sz = (
     let last_index = (last_offset s + MASTER_REPLI_RINGBUFFER_SIZE) mod MASTER_REPLI_RINGBUFFER_SIZE;
         begin_index = (begin_offset s + MASTER_REPLI_RINGBUFFER_SIZE) mod MASTER_REPLI_RINGBUFFER_SIZE
     in if last_index + sz \<ge> MASTER_REPLI_RINGBUFFER_SIZE then do {
          let n = MASTER_REPLI_RINGBUFFER_SIZE - last_index - 1;
          part1 \<leftarrow> load_block buf 0 n;
          b1 \<leftarrow> store_block (repli_buffer s) (last_index + 1) part1;
          part2 \<leftarrow> load_block buf n (sz - n);
          b2 \<leftarrow> store_block b1 0 part2;
          Some (s\<lparr>repli_buffer := b2,
            begin_offset := (if begin_index < sz - n then begin_offset s + (sz - n - begin_index) else begin_offset s),
            last_offset := last_offset s + sz\<rparr>)
        } else do {
          part \<leftarrow> load_block buf 0 sz;
          b1 \<leftarrow> store_block (repli_buffer s) (last_index + 1) part;
          Some (s\<lparr>repli_buffer := b1, last_offset := last_offset s + sz\<rparr>)
        })"

text \<open>\<open>sdscat (c->writeBuf, s->buf)\<close> appends up to the first terminator.\<close>

fun propagate_to :: "env \<Rightarrow> bytes \<Rightarrow> redisServer \<Rightarrow> cid list \<Rightarrow> redisServer option" where
  "propagate_to E buf s [] = Some s"
| "propagate_to E buf s (i # is) = do {
     c \<leftarrow> cheap s i;
     s1 \<leftarrow> (if flags c = REDIS_CLIENT_SLAVE then do {
              s2 \<leftarrow> reply s i (takeWhile (\<lambda>x. x \<noteq> NUL) buf);
              (r1, s3) \<leftarrow> create_event E s2 (fd c) AE_READABLE readFromClient (Some i);
              s4 \<leftarrow> (if r1 = AE_ERROR then clientToclose s3 i else Some s3);
              (r2, s5) \<leftarrow> create_event E s4 (fd c) AE_WRITABLE sendToClient (Some i);
              (if r2 = AE_ERROR then clientToclose s5 i else Some s5)
            } else Some s);
     propagate_to E buf s1 is
   }"

definition commandPropagate :: "env \<Rightarrow> redisServer \<Rightarrow> bytes \<Rightarrow> redisServer option" where
  "commandPropagate E s buf = do {
     assert_c (server_flags s AND REDIS_CLUSTER_MASTER \<noteq> 0);
     propagate_to E buf s (clients s)
   }"

section \<open>Processing a request\<close>

text \<open>The parts of \<open>processCommand\<close>, in its order.\<close>

definition append_aof :: "redisServer \<Rightarrow> cid \<Rightarrow> redisCommand \<Rightarrow> redisServer option" where
  "append_aof s i cmd = do {
     c \<leftarrow> cheap s i;
     if flags c AND REDIS_CLIENT_FAKE = 0 \<and> aofOn s \<and> cmd_flags cmd AND CMD_WRITE \<noteq> 0
     then Some ((put_client s i (c\<lparr>readBuf := []\<rparr>))\<lparr>active_buf := active_buf s @ readBuf c\<rparr>)
     else Some s
   }"

definition expire_accessed :: "env \<Rightarrow> redisServer \<Rightarrow> cid \<Rightarrow> redisCommand \<Rightarrow> redisServer option" where
  "expire_accessed E s i cmd =
     (if cmd_flags cmd AND (CMD_READ OR CMD_WRITE) \<noteq> 0 then do {
        c \<leftarrow> cheap s i;
        key \<leftarrow> argv_at c 1;
        db \<leftarrow> load (dbs s) (cdb c);
        db' \<leftarrow> expireIfNeed (e_now E) db key;
        put_db s (cdb c) db'
      } else Some s)"

definition after_write :: "env \<Rightarrow> redisServer \<Rightarrow> cid \<Rightarrow> redisCommand \<Rightarrow> redisServer option" where
  "after_write E s i cmd = do {
     s1 \<leftarrow> (if cmd_flags cmd AND CMD_WRITE \<noteq> 0 \<and> server_flags s AND REDIS_CLUSTER_MASTER \<noteq> 0 then do {
              c \<leftarrow> cheap s i;
              s' \<leftarrow> addRepliBuf s (readBuf c) (int (length (readBuf c)));
              commandPropagate E s' (readBuf c)
            } else Some s);
     if cmd_flags cmd AND CMD_WRITE \<noteq> 0 \<and> server_flags s1 AND REDIS_CLUSTER_SLAVE \<noteq> 0 then do {
       c \<leftarrow> cheap s1 i;
       Some (slaveUpdateOffset s1 (offset s1 + int (length (readBuf c))))
     } else Some s1
   }"

definition finish_command :: "redisServer \<Rightarrow> cid \<Rightarrow> redisServer option" where
  "finish_command s i = upd_client s i (\<lambda>c. c\<lparr>readBuf := [], argv := [], argc := 0\<rparr>)"

definition processCommand :: "env \<Rightarrow> (redisServer \<Rightarrow> cid \<Rightarrow> redisServer option) \<Rightarrow> redisServer \<Rightarrow> cid \<Rightarrow> redisServer option" where
  "processCommand E query s i = do {
     c \<leftarrow> cheap s i;
     nm \<leftarrow> argv_at c 0;
     r \<leftarrow> lookupCommand s c nm;
     s5 \<leftarrow> (case r of
              None \<Rightarrow> reply s i resp_invalidCommand
            | Some cmd \<Rightarrow> do {
                s1 \<leftarrow> append_aof s i cmd;
                s2 \<leftarrow> expire_accessed E s1 i cmd;
                s3 \<leftarrow> run_proc E query (cmd_proc cmd) s2 i;
                s4 \<leftarrow> (if cmd_flags cmd AND CMD_WRITE \<noteq> 0 then touchWatchKey s3 i else Some s3);
                after_write E s4 i cmd
              });
     finish_command s5 i
   }"

text \<open>
  \<open>processClientQueryBuf\<close>, with fuel for the commands \<open>EXEC\<close> runs through it again.  \<open>resp_decode\<close>
  reads the copied buffer: the contents, the terminator and the zero bytes behind it.
\<close>

fun query_fuel :: "env \<Rightarrow> nat \<Rightarrow> redisServer \<Rightarrow> cid \<Rightarrow> redisServer option" where
  "query_fuel E 0 s i = None"
| "query_fuel E (Suc n) s i = do {
     c \<leftarrow> cheap s i;
     let scpy = readBuf c @ replicate (Suc (e_room E)) NUL;
     (ret, ac, av) \<leftarrow> resp_decode scpy;
     if ret = 0 then do {
       s1 \<leftarrow> (if flags c AND REDIS_MULTI \<noteq> 0 then do {
                cmdname \<leftarrow> map_option (takeWhile (\<lambda>x. x \<noteq> NUL)) (load av 0);
                if \<not> strncasecmp_eq cmdname ''exec'' 4 then do {
                  c' \<leftarrow> clientMultiAdd c;
                  reply_bulk (put_client s i c') i ''queued''
                } else processCommand E (query_fuel E n) (put_client s i (c\<lparr>argv := av, argc := ac\<rparr>)) i
              } else processCommand E (query_fuel E n) (put_client s i (c\<lparr>argv := av, argc := ac\<rparr>)) i);
       c1 \<leftarrow> cheap s1 i;
       (r, s2) \<leftarrow> create_event E s1 (fd c1) AE_WRITABLE sendToClient (Some i);
       if r = AE_ERROR then clientToclose s2 i else Some s2
     }
     else if hd scpy = CHR ''+'' \<or> hd scpy = CHR ''-'' then
       (if flags c AND REDIS_CLIENT_MASTER \<noteq> 0 then do {
          m \<leftarrow> master s;
          upd_client s m (\<lambda>c. c\<lparr>lastinteraction := unixtime s\<rparr>)
        } else Some s)
     else Some s
   }"

text \<open>A queued command is never \<open>EXEC\<close> itself, so two levels are enough.\<close>

definition processClientQueryBuf :: "env \<Rightarrow> redisServer \<Rightarrow> cid \<Rightarrow> redisServer option" where
  "processClientQueryBuf E s i = query_fuel E 2 s i"

section \<open>Looking up a command\<close>

text \<open>The hash on plain integers, for evaluation.\<close>

fun hash_from :: "int \<Rightarrow> bytes \<Rightarrow> int" where
  "hash_from h [] = h"
| "hash_from h (Char b0 b1 b2 b3 b4 b5 b6 b7 # s) =
     hash_from (33 * h + (of_bool b0 + 2 * (of_bool b1 + 2 * (of_bool b2 + 2 * (of_bool b3
       + 2 * (of_bool b4 + 2 * (of_bool b5 + 2 * of_bool b6))))) - 128 * of_bool b7)) s"

lemma hash_from: "word_of_int (hash_from h s) = foldl hash_step (word_of_int h) s"
proof -
  have "hash_from h s = foldl (\<lambda>h c. 33 * h + signed_char c) h s"
    by (induction h s rule: hash_from.induct) (simp_all add: signed_char_def char_code_def)
  moreover have "foldl hash_step (word_of_int h) s = word_of_int (foldl (\<lambda>h c. 33 * h + signed_char c) h s)"
  proof (induction s arbitrary: h)
    case (Cons c s)
    have "hash_step (word_of_int h) c = word_of_int (33 * h + signed_char c)"
      by (simp add: hash_step_def push_bit_eq_mult algebra_simps)
    then show ?case by (simp only: foldl_Cons Cons.IH)
  qed simp
  ultimately show ?thesis by simp
qed

lemma commandDictHashFunction_code [code]:
  "commandDictHashFunction key = word_of_int (hash_from 5381 (takeWhile (\<lambda>c. c \<noteq> NUL) key))"
  using hash_from [of 5381] by (simp add: commandDictHashFunction_def)

text \<open>
  The loaded table, with its entries in the order the iterator returns them.  The table is left in
  the middle of a rehash, but the first bucket of the new table, which the iterator skips, is empty.
\<close>

definition command_order :: "nat list" where
  "command_order = [0, 13, 8, 6, 4, 5, 1, 12, 11, 9, 14, 2, 3, 7, 16, 15, 10, 17]"

definition command_entry :: "redisCommand \<Rightarrow> (bytes, redisCommand) dictEntry" where
  "command_entry cmd = (cmd_name cmd, Some cmd)"

lemma loaded_commands:
  obtains d where "load_from commandsTable dictCreate = Some d" "dictSize d = 18"
    "iter_collect 19 d dictGetIterator = Some (map (\<lambda>n. command_entry (commandsTable ! n)) command_order)"
proof -
  have "map_option (\<lambda>d. (dictSize d, iter_collect 19 d dictGetIterator)) (load_from commandsTable dictCreate)
    = Some (18, Some (map (\<lambda>n. command_entry (commandsTable ! n)) command_order))"
    by code_simp
  then show thesis using that by auto
qed

lemma lookup_from_find:
  "iter_collect n d it = Some (map command_entry cmds) \<Longrightarrow>
   lookup_from n s c nm d it = Some (find (\<lambda>cmd. isSupportedCmd s c cmd \<and> strcasecmp_eq (cmd_name cmd) nm) cmds)"
proof (induction n arbitrary: it cmds)
  case (Suc n)
  from Suc.prems obtain r it' where step: "dictIterNext d it = Some (r, it')"
    by (auto simp: bind_Some_iff)
  show ?case
  proof (cases r)
    case None
    then show ?thesis using Suc.prems step by simp
  next
    case (Some e)
    with Suc.prems step obtain cmd rest where "cmds = cmd # rest" "e = command_entry cmd"
        "iter_collect n d it' = Some (map command_entry rest)"
      by (auto simp: bind_Some_iff)
    then show ?thesis using Some step Suc.IH [of it' rest] by (simp add: command_entry_def)
  qed
qed simp

lemma find_set_cong:
  assumes "set xs = set ys" "\<And>x y. x \<in> set xs \<Longrightarrow> y \<in> set xs \<Longrightarrow> P x \<Longrightarrow> P y \<Longrightarrow> x = y"
  shows "find P xs = find P ys"
proof (cases "find P xs")
  case None
  then show ?thesis using assms(1) by (metis find_None_iff)
next
  case (Some x)
  then have x: "x \<in> set xs" "P x" by (auto simp: find_Some_iff)
  then obtain y where y: "find P ys = Some y" using assms(1) by (metis find_None_iff not_None_eq)
  then have "y \<in> set ys" "P y" by (auto simp: find_Some_iff)
  with x y Some assms show ?thesis by metis
qed

definition commands_loaded :: "redisServer \<Rightarrow> bool" where
  "commands_loaded s \<longleftrightarrow> commands s = load_from commandsTable dictCreate"

lemma loadCommands_loaded: "loadCommands s = Some s' \<Longrightarrow> commands_loaded s'"
  by (auto simp: loadCommands_def commands_loaded_def bind_Some_iff)

lemma command_names: "distinct (map (\<lambda>cmd. map tolower (cmd_name cmd)) commandsTable)"
  by code_simp

lemma lookupCommand_find:
  assumes "commands_loaded s"
  shows "lookupCommand s c nm
    = Some (find (\<lambda>cmd. isSupportedCmd s c cmd \<and> strcasecmp_eq (cmd_name cmd) nm) commandsTable)"
proof -
  let ?P = "\<lambda>cmd. isSupportedCmd s c cmd \<and> strcasecmp_eq (cmd_name cmd) nm"
  let ?cmds = "map ((!) commandsTable) command_order"
  obtain d where d: "load_from commandsTable dictCreate = Some d" "dictSize d = 18"
      "iter_collect 19 d dictGetIterator = Some (map command_entry ?cmds)"
    by (rule loaded_commands) (simp add: o_def)
  have "lookupCommand s c nm = lookup_from 19 s c nm d dictGetIterator"
    using assms d(1,2) unfolding lookupCommand_def commands_loaded_def
    by (simp del: lookup_from.simps add: eval_nat_numeral)
  also have "\<dots> = Some (find ?P ?cmds)" by (rule lookup_from_find [OF d(3)])
  also have "find ?P ?cmds = find ?P commandsTable"
  proof (rule find_set_cong)
    have "set command_order = set [0..<length commandsTable]" by code_simp
    then have "set ?cmds = set (map ((!) commandsTable) [0..<length commandsTable])" by simp
    then show eq: "set ?cmds = set commandsTable" by (simp only: map_nth)
    show "x = y" if "x \<in> set ?cmds" "y \<in> set ?cmds" "?P x" "?P y" for x y
    proof -
      have "inj_on (\<lambda>cmd. map tolower (cmd_name cmd)) (set commandsTable)"
        using command_names by (simp add: distinct_map)
      from inj_onD [OF this] show ?thesis using that unfolding eq by (simp add: strcasecmp_eq_def)
    qed
  qed
  finally show ?thesis .
qed

end
