(* ===== verification/Requests.thy ===== *)
theory Requests
  imports Commands
begin

unbundle bit_operations_syntax

text \<open>
  What requests do, end to end: the lemmas follow one request through \<open>Commands\<close> on a server whose
  structures are well formed (\<open>links_ok\<close>), and the properties say what a write, a read, a transaction
  and a resynchronisation amount to, and where the flags and buffers of the source lose something on
  the way.
\<close>

section \<open>Well-formed links\<close>

text \<open>A live client whose descriptor fits the event table.\<close>

definition client_ok :: "redisServer \<Rightarrow> cid \<Rightarrow> bool" where
  "client_ok s i \<longleftrightarrow> (\<exists>c. cheap s i = Some c \<and> 0 \<le> fd c \<and> fd c < maxsize (eventLoop s))"

definition links_ok :: "redisServer \<Rightarrow> bool" where
  "links_ok s \<longleftrightarrow> ae_ok (eventLoop s) \<and> distinct (clients s) \<and> (\<forall>i \<in> set (clients s). client_ok s i)"

lemma create_event_ok:
  assumes "ae_ok (eventLoop s)" "msk = AE_READABLE \<or> msk = AE_WRITABLE" "e_sock E d" "0 \<le> d" "d < maxsize (eventLoop s)"
  shows "\<exists>el. create_event E s d msk h data = Some (AE_OK, s\<lparr>eventLoop := el\<rparr>) \<and> ae_ok el
    \<and> maxsize el = maxsize (eventLoop s)"
proof -
  obtain el where "aeCreateFileEvent True (eventLoop s) d msk h data = Some (AE_OK, el)" "ae_ok el" "maxsize el = maxsize (eventLoop s)"
    using aeCreateFileEvent_mask [OF assms(1,2,4,5)] by metis
  then show ?thesis using assms(3) by (intro exI [of _ el]) (simp add: create_event_def)
qed

lemma AE_OK_not_ERROR [simp]: "AE_OK \<noteq> AE_ERROR"
  by (simp add: AE_OK_def AE_ERROR_def)

section \<open>Propagation to the replicas\<close>

text \<open>What propagating \<open>buf\<close> does to one client.\<close>

definition feed :: "bytes \<Rightarrow> redisClient \<Rightarrow> redisClient" where
  "feed buf c = (if flags c = REDIS_CLIENT_SLAVE then addWrite c (takeWhile (\<lambda>x. x \<noteq> NUL) buf) else c)"

lemma feed_fields [simp]: "fd (feed buf c) = fd c" "flags (feed buf c) = flags c"
  by (simp_all add: feed_def addWrite_def)

definition feed_all :: "bytes \<Rightarrow> cid list \<Rightarrow> (cid \<Rightarrow> redisClient option) \<Rightarrow> cid \<Rightarrow> redisClient option" where
  "feed_all buf is h = (\<lambda>j. if j \<in> set is then map_option (feed buf) (h j) else h j)"

lemma propagate_spec:
  assumes "ae_ok (eventLoop s)" "\<And>d. e_sock E d" "distinct is" "\<And>j. j \<in> set is \<Longrightarrow> client_ok s j"
  shows "\<exists>el. propagate_to E buf s is = Some (s\<lparr>cheap := feed_all buf is (cheap s), eventLoop := el\<rparr>)
    \<and> ae_ok el \<and> maxsize el = maxsize (eventLoop s)"
  using assms
proof (induction "is" arbitrary: s)
  case Nil
  then show ?case by (intro exI [of _ "eventLoop s"]) (simp add: feed_all_def)
next
  case (Cons i "is")
  obtain c where c: "cheap s i = Some c" "0 \<le> fd c" "fd c < maxsize (eventLoop s)"
    using Cons.prems(4) [of i] by (auto simp: client_ok_def)
  obtain el1 where el1: "ae_ok el1" "maxsize el1 = maxsize (eventLoop s)" and
    step: "propagate_to E buf s (i # is) =
      propagate_to E buf (s\<lparr>cheap := (cheap s)(i \<mapsto> feed buf c), eventLoop := el1\<rparr>) is"
  proof (cases "flags c = REDIS_CLIENT_SLAVE")
    case False
    then have "s\<lparr>cheap := (cheap s)(i \<mapsto> feed buf c), eventLoop := eventLoop s\<rparr> = s"
      using c(1) by (simp add: feed_def fun_upd_idem)
    with False c(1) Cons.prems(1) show thesis by (intro that [of "eventLoop s"]) simp_all
  next
    case True
    let ?s2 = "put_client s i (feed buf c)"
    have r: "reply s i (takeWhile (\<lambda>x. x \<noteq> NUL) buf) = Some ?s2"
      using c(1) True by (simp add: reply_def upd_client_def feed_def)
    obtain el where a: "create_event E ?s2 (fd c) AE_READABLE readFromClient (Some i) = Some (AE_OK, ?s2\<lparr>eventLoop := el\<rparr>)"
        "ae_ok el" "maxsize el = maxsize (eventLoop s)"
      using create_event_ok [of ?s2 AE_READABLE E "fd c" readFromClient "Some i"] Cons.prems(1,2) c(2,3)
      by (auto simp: put_client_def)
    obtain el' where b: "create_event E (?s2\<lparr>eventLoop := el\<rparr>) (fd c) AE_WRITABLE sendToClient (Some i)
          = Some (AE_OK, ?s2\<lparr>eventLoop := el'\<rparr>)" "ae_ok el'" "maxsize el' = maxsize (eventLoop s)"
      using create_event_ok [of "?s2\<lparr>eventLoop := el\<rparr>" AE_WRITABLE E "fd c" sendToClient "Some i"] Cons.prems(2) c(2,3) a(2,3)
      by auto
    show thesis by (rule that [OF b(2,3)]) (simp add: c(1) True r a(1) b(1), simp add: put_client_def)
  qed
  let ?s1 = "s\<lparr>cheap := (cheap s)(i \<mapsto> feed buf c), eventLoop := el1\<rparr>"
  have "\<exists>el. propagate_to E buf ?s1 is = Some (?s1\<lparr>cheap := feed_all buf is (cheap ?s1), eventLoop := el\<rparr>)
      \<and> ae_ok el \<and> maxsize el = maxsize (eventLoop ?s1)"
  proof (rule Cons.IH)
    show "client_ok ?s1 j" if "j \<in> set is" for j
      using Cons.prems(4) [of j] that c el1(2) by (auto simp: client_ok_def)
  qed (use Cons.prems el1 in auto)
  moreover have "feed_all buf is ((cheap s)(i \<mapsto> feed buf c)) = feed_all buf (i # is) (cheap s)"
    using Cons.prems(3) c(1) by (auto simp: feed_all_def fun_eq_iff)
  ultimately show ?case unfolding step using el1(2) by simp
qed

section \<open>The replication backlog\<close>

definition backlog_ok :: "redisServer \<Rightarrow> bool" where
  "backlog_ok s \<longleftrightarrow> length (repli_buffer s) = 1024 \<and> 0 \<le> begin_offset s \<and> 0 \<le> last_offset s"

lemma addRepliBuf_ok:
  assumes "backlog_ok s" "length buf \<le> 1024"
  shows "\<exists>b bo. addRepliBuf s buf (int (length buf)) =
      Some (s\<lparr>repli_buffer := b, begin_offset := bo, last_offset := last_offset s + int (length buf)\<rparr>)
    \<and> length b = 1024 \<and> begin_offset s \<le> bo"
proof -
  define l where "l = last_offset s mod 1024"
  have l: "0 \<le> l" "l < 1024" by (simp_all add: l_def)
  have m: "(last_offset s + 1024) mod 1024 = l" by (simp add: l_def)
  show ?thesis
  proof (cases "l + int (length buf) \<ge> 1024")
    case True
    define n where "n = 1024 - l - 1"
    have n: "0 \<le> n" "n \<le> int (length buf)" "int (length buf) - n \<le> 1024" using True l assms(2) by (auto simp: n_def)
    have p1: "load_block buf 0 n = Some (take (nat n) buf)" using n by (simp add: load_block_def)
    have "int (length (take (nat n) buf)) = n" using n by simp
    then obtain b1 where b1: "store_block (repli_buffer s) (l + 1) (take (nat n) buf) = Some b1"
      using assms(1) l n by (auto simp: store_block_def backlog_ok_def n_def)
    then have len1: "length b1 = 1024" using length_store_block assms(1) by (metis backlog_ok_def)
    have p2: "load_block buf n (int (length buf) - n) = Some (drop (nat n) buf)"
      using n by (simp add: load_block_def)
    obtain b2 where b2: "store_block b1 0 (drop (nat n) buf) = Some b2"
      using len1 n by (auto simp: store_block_def)
    then have len2: "length b2 = 1024" using length_store_block len1 by metis
    show ?thesis
      using True p1 b1 p2 b2 len2 m
      by (intro exI [of _ b2] exI conjI) (auto simp: addRepliBuf_def MASTER_REPLI_RINGBUFFER_SIZE_def Let_def n_def [symmetric])
  next
    case False
    then obtain b1 where b1: "store_block (repli_buffer s) (l + 1) buf = Some b1"
      using assms(1) l by (auto simp: store_block_def backlog_ok_def)
    then have len1: "length b1 = 1024" using length_store_block assms(1) by (metis backlog_ok_def)
    have "load_block buf 0 (int (length buf)) = Some buf" by (simp add: load_block_def)
    with False b1 len1 m show ?thesis
      by (intro exI [of _ b1] exI [of _ "begin_offset s"]) (simp add: addRepliBuf_def MASTER_REPLI_RINGBUFFER_SIZE_def Let_def)
  qed
qed

text \<open>Until 1024 bytes have been written the backlog holds the whole history, from index 1 on.\<close>

definition backlog_holds :: "redisServer \<Rightarrow> bytes \<Rightarrow> bool" where
  "backlog_holds s hist \<longleftrightarrow> length (repli_buffer s) = 1024 \<and> begin_offset s = 0 \<and> last_offset s = int (length hist)
     \<and> length hist < 1024 \<and> take (length hist) (drop 1 (repli_buffer s)) = hist"

lemma addRepliBuf_appends:
  assumes "backlog_holds s hist" "length hist + length buf < 1024"
  shows "\<exists>s'. addRepliBuf s buf (int (length buf)) = Some s' \<and> backlog_holds s' (hist @ buf)"
proof -
  let ?b = "take (Suc (length hist)) (repli_buffer s) @ buf @ drop (Suc (length hist) + length buf) (repli_buffer s)"
  have h: "length (repli_buffer s) = 1024" "begin_offset s = 0" "last_offset s = int (length hist)"
    "take (length hist) (drop 1 (repli_buffer s)) = hist"
    using assms(1) by (auto simp: backlog_holds_def)
  have "(last_offset s + 1024) mod 1024 = int (length hist)" using h(3) assms(2) by simp
  moreover have "store_block (repli_buffer s) (int (length hist) + 1) buf = Some ?b"
    using h(1) assms(2) by (simp add: store_block_def nat_add_distrib)
  moreover have "load_block buf 0 (int (length buf)) = Some buf" by (simp add: load_block_def)
  ultimately have "addRepliBuf s buf (int (length buf)) =
      Some (s\<lparr>repli_buffer := ?b, last_offset := last_offset s + int (length buf)\<rparr>)"
    using assms(2) by (simp add: addRepliBuf_def MASTER_REPLI_RINGBUFFER_SIZE_def Let_def)
  moreover have "take (length hist + length buf) (drop 1 ?b) = hist @ buf"
    using h(1,4) assms(2) by (cases "repli_buffer s") auto
  ultimately show ?thesis using h assms(2) by (auto simp: backlog_holds_def)
qed

section \<open>One write request\<close>

lemma load_inside: "load xs i = Some x \<Longrightarrow> 0 \<le> i \<and> i < int (length xs) \<and> x = xs ! nat i"
  by (simp add: load_Some)

lemma put_db_inside: "load (dbs s) j = Some db \<Longrightarrow> put_db s j db' = Some (s\<lparr>dbs := (dbs s)[nat j := db']\<rparr>)"
  by (auto dest!: load_inside simp: put_db_def store_def)

lemma load_update: "load xs i = Some x \<Longrightarrow> load (xs[nat i := y]) i = Some y"
  by (drule load_inside) (auto simp: load_def nat_less_iff)

text \<open>An access to a key that has not expired.\<close>

definition fresh_key :: "env \<Rightarrow> redisDb \<Rightarrow> bytes \<Rightarrow> bool" where
  "fresh_key E db key \<longleftrightarrow> expires_map db key = None \<or> e_now E \<le> expire_at db key"

lemma expire_accessed_fresh:
  assumes "cheap s i = Some c" "argv_at c 1 = Some key" "load (dbs s) (cdb c) = Some db" "db_good db"
    "fresh_key E db key" "cmd_flags cmd AND (CMD_READ OR CMD_WRITE) \<noteq> 0"
  shows "\<exists>e. expire_accessed E s i cmd = Some (s\<lparr>dbs := (dbs s)[nat (cdb c) := db\<lparr>expires := e\<rparr>]\<rparr>)
     \<and> db_good (db\<lparr>expires := e\<rparr>) \<and> dict_map key_canon e = dict_map key_canon (expires db)"
proof (cases rule: expireIfNeed_cases [OF assms(4), of "e_now E" key])
  case (1 e)
  then show ?thesis using assms
    by (intro exI [of _ e]) (simp add: expire_accessed_def put_db_inside)
next
  case (2 d e)
  then show ?thesis using assms(5) by (auto simp: fresh_key_def)
qed

lemma set_proc_stores:
  assumes c: "cheap s i = Some c" "argv c = [nm, key, val]" "argc c = 3" "nul_free key" "nul_free val"
    and db: "load (dbs s) (cdb c) = Some db" "db_good db"
    and obj: "robjCreateStringObject val = Some obj"
  shows "\<exists>d. set_proc s i = Some (s\<lparr>dbs := (dbs s)[nat (cdb c) := db\<lparr>kv := d\<rparr>],
       cheap := (cheap s)(i \<mapsto> addWrite c resp_ok), dirty := dirty s + 1\<rparr>)
     \<and> db_good (db\<lparr>kv := d\<rparr>) \<and> dict_map key_canon d = (dict_map key_canon (kv db))(key_canon key \<mapsto> Some obj)"
proof -
  obtain d where d: "dbAdd db key (Some obj) = Some (DICT_OK, db\<lparr>kv := d\<rparr>)" "db_good (db\<lparr>kv := d\<rparr>)"
    "dict_map key_canon d = (dict_map key_canon (kv db))(key_canon key \<mapsto> Some obj)"
    by (rule dbAdd_sets [OF db(2)])
  have "argv_at c 1 = Some key" "argv_at c 2 = Some val"
    using c(2,4,5) by (simp_all add: argv_at_def load_def takeWhile_nul_free)
  then have "set_proc s i = Some (s\<lparr>dbs := (dbs s)[nat (cdb c) := db\<lparr>kv := d\<rparr>],
       cheap := (cheap s)(i \<mapsto> addWrite c resp_ok), dirty := dirty s + 1\<rparr>)"
    using c(1,3) db(1) obj d(1)
    by (simp add: set_proc_def put_db_inside reply_def upd_client_def put_client_def)
  with d(2,3) show ?thesis by blast
qed

lemma touchWatchKey_unwatched:
  assumes "cheap s i = Some c" "argv_at c 1 = Some key" "load (dbs s) (cdb c) = Some db" "db_good db" "watch_map db key = None"
  shows "touchWatchKey s i = Some s"
proof -
  have "dict_good watchtype key_canon (watched_keys db)" using assms(4) by (simp add: db_good_def)
  then have "dbIsWatching db key = Some False"
    using watch_keys.store.contains_law [of "watched_keys db" key] assms(5) by (simp add: dbIsWatching_def watch_map_def)
  then show ?thesis using assms by (simp add: touchWatchKey_def)
qed

lemma after_write_master:
  assumes "cheap s i = Some c" "server_flags s AND REDIS_CLUSTER_MASTER \<noteq> 0" "server_flags s AND REDIS_CLUSTER_SLAVE = 0"
    "cmd_flags cmd AND CMD_WRITE \<noteq> 0" "backlog_ok s" "links_ok s" "\<And>d. e_sock E d" "length (readBuf c) \<le> 1024"
  shows "\<exists>b bo el. after_write E s i cmd = Some (s\<lparr>repli_buffer := b, begin_offset := bo,
        last_offset := last_offset s + int (length (readBuf c)),
        cheap := feed_all (readBuf c) (clients s) (cheap s), eventLoop := el\<rparr>)
     \<and> length b = 1024 \<and> begin_offset s \<le> bo \<and> ae_ok el \<and> maxsize el = maxsize (eventLoop s)"
proof -
  obtain b bo where b: "addRepliBuf s (readBuf c) (int (length (readBuf c))) =
      Some (s\<lparr>repli_buffer := b, begin_offset := bo, last_offset := last_offset s + int (length (readBuf c))\<rparr>)"
      "length b = 1024" "begin_offset s \<le> bo"
    using addRepliBuf_ok [OF assms(5,8)] by blast
  let ?s = "s\<lparr>repli_buffer := b, begin_offset := bo, last_offset := last_offset s + int (length (readBuf c))\<rparr>"
  have "\<exists>el. propagate_to E (readBuf c) ?s (clients s) = Some (?s\<lparr>cheap := feed_all (readBuf c) (clients s) (cheap ?s), eventLoop := el\<rparr>)
    \<and> ae_ok el \<and> maxsize el = maxsize (eventLoop ?s)"
    using assms(6,7) by (intro propagate_spec) (auto simp: links_ok_def client_ok_def)
  then obtain el where el: "propagate_to E (readBuf c) ?s (clients s) = Some (?s\<lparr>cheap := feed_all (readBuf c) (clients s) (cheap s), eventLoop := el\<rparr>)"
    "ae_ok el" "maxsize el = maxsize (eventLoop s)" by auto
  then have "after_write E s i cmd = Some (?s\<lparr>cheap := feed_all (readBuf c) (clients s) (cheap s), eventLoop := el\<rparr>)"
    using assms(1-4) b(1) by (simp add: after_write_def commandPropagate_def)
  with b el show ?thesis by (intro exI [of _ b] exI [of _ bo] exI [of _ el]) simp
qed

section \<open>From the read buffer to the procedure\<close>

definition short_args :: "bytes list \<Rightarrow> bool" where
  "short_args args \<longleftrightarrow> (\<forall>a \<in> set args. nul_free a) \<and> length (array_text args) \<le> 1024"

lemma short_args_decode:
  assumes "short_args args"
  shows "resp_decode (array_text args @ rest @ replicate (Suc n) NUL) = Some (0, int (length args), args)"
proof (rule resp_decode_array)
  have "length a \<le> length (concat (map bulk_text args))" if "a \<in> set args" for a
    using that by (induction args) (auto simp: bulk_text_def)
  then show "\<forall>a \<in> set args. int (length a) \<le> INT_MAX"
    using assms by (fastforce simp: short_args_def array_text_def c_limits)
  have "length args \<le> length (concat (map bulk_text args))"
    by (induction args) (auto simp: bulk_text_def)
  then show "int (length args) \<le> INT_MAX" using assms by (simp add: short_args_def array_text_def c_limits)
qed simp

lemma query_step:
  assumes "cheap s i = Some c" "readBuf c = array_text args @ rest" "short_args args" "flags c AND REDIS_MULTI = 0"
  shows "query_fuel E (Suc n) s i =
    Option.bind (processCommand E (query_fuel E n) (put_client s i (c\<lparr>argv := args, argc := int (length args)\<rparr>)) i)
      (\<lambda>s1. Option.bind (cheap s1 i) (\<lambda>c1.
         Option.bind (create_event E s1 (fd c1) AE_WRITABLE sendToClient (Some i))
           (\<lambda>(r, s2). if r = AE_ERROR then clientToclose s2 i else Some s2)))"
  using assms(1,2,4) short_args_decode [OF assms(3), of rest "e_room E"] by (simp add: Let_def)

definition table_entry :: "bytes \<Rightarrow> redisCommand option" where
  "table_entry nm = find (\<lambda>cmd. strcasecmp_eq (cmd_name cmd) nm) commandsTable"

lemma lookup_unrestricted:
  assumes "commands_loaded s" "server_flags s AND REDIS_CLUSTER_SLAVE = 0 \<or> flags c AND REDIS_CLIENT_NORMAL = 0"
  shows "lookupCommand s c nm = Some (table_entry nm)"
  using assms by (auto simp: lookupCommand_find isSupportedCmd_def table_entry_def)

lemma table_entries:
  "table_entry ''SET'' = Some (commandsTable ! 0)" "table_entry ''GET'' = Some (commandsTable ! Suc 0)"
  "table_entry ''SYNC'' = Some (commandsTable ! 8)" "table_entry ''MULTI'' = Some (commandsTable ! 15)"
  "table_entry ''EXEC'' = Some (commandsTable ! 16)"
proof -
  have "map table_entry [''SET'', ''GET'', ''SYNC'', ''MULTI'', ''EXEC''] = map (\<lambda>n. Some (commandsTable ! n)) [0, 1, 8, 15, 16]"
    by code_simp
  then show "table_entry ''SET'' = Some (commandsTable ! 0)" "table_entry ''GET'' = Some (commandsTable ! Suc 0)"
    "table_entry ''SYNC'' = Some (commandsTable ! 8)" "table_entry ''MULTI'' = Some (commandsTable ! 15)"
    "table_entry ''EXEC'' = Some (commandsTable ! 16)" by (simp_all only: list.map list.inject One_nat_def)
qed

lemma table_procs:
  "cmd_proc (commandsTable ! 0) = commandSetProc" "cmd_flags (commandsTable ! 0) = 13"
  "cmd_proc (commandsTable ! Suc 0) = commandGetProc" "cmd_flags (commandsTable ! Suc 0) = 21"
  "cmd_proc (commandsTable ! 8) = commandSyncProc" "cmd_flags (commandsTable ! 8) = 5"
  "cmd_proc (commandsTable ! 15) = commandMultiProc" "cmd_flags (commandsTable ! 15) = 1"
  "cmd_proc (commandsTable ! 16) = commandExecProc" "cmd_flags (commandsTable ! 16) = 1"
  by (simp_all add: commandsTable_def cmd_flag_defs)

text \<open>A server and a client ready to serve one request of the client on its database.\<close>

definition ready :: "env \<Rightarrow> redisServer \<Rightarrow> cid \<Rightarrow> redisClient \<Rightarrow> redisDb \<Rightarrow> bool" where
  "ready E s i c db \<longleftrightarrow> commands_loaded s \<and> links_ok s \<and> backlog_ok s \<and> (\<forall>d. e_sock E d)
     \<and> cheap s i = Some c \<and> 0 \<le> fd c \<and> fd c < maxsize (eventLoop s)
     \<and> (flags c = REDIS_CLIENT_NORMAL \<or> flags c = 0) \<and> load (dbs s) (cdb c) = Some db \<and> db_good db"

lemma readyD:
  assumes "ready E s i c db"
  shows "commands_loaded s" "links_ok s" "backlog_ok s" "\<And>d. e_sock E d" "cheap s i = Some c"
    "0 \<le> fd c" "fd c < maxsize (eventLoop s)" "flags c AND REDIS_MULTI = 0"
    "load (dbs s) (cdb c) = Some db" "db_good db" "flags c AND REDIS_CLIENT_FAKE = 0" "flags c \<noteq> REDIS_CLIENT_SLAVE"
  using assms by (auto simp: ready_def client_flags)

lemma client_flag_tests:
  "REDIS_CLIENT_NORMAL AND REDIS_MULTI = 0" "REDIS_CLIENT_NORMAL AND REDIS_CLIENT_FAKE = 0"
  "REDIS_CLIENT_NORMAL \<noteq> REDIS_CLIENT_SLAVE" "(13 :: cint) AND CMD_WRITE \<noteq> 0"
  "(13 :: cint) AND (CMD_READ OR CMD_WRITE) \<noteq> 0" "(21 :: cint) AND CMD_WRITE = 0"
  "(21 :: cint) AND (CMD_READ OR CMD_WRITE) \<noteq> 0" "(1 :: cint) AND CMD_WRITE = 0"
  "(1 :: cint) AND (CMD_READ OR CMD_WRITE) = 0" "(5 :: cint) AND CMD_WRITE = 0"
  "(5 :: cint) AND (CMD_READ OR CMD_WRITE) = 0"
  by (simp_all add: client_flags cmd_flag_defs)

text \<open>What a master that executes \<open>SET\<close> hands on: with the append-only file on, the buffer is empty by then.\<close>

definition handed_on :: "redisServer \<Rightarrow> redisClient \<Rightarrow> bytes" where
  "handed_on s c = (if aofOn s then [] else readBuf c)"

text \<open>
  The server when the procedure of \<open>SET\<close> is done, before anything is handed on; requests that are replayed
  are not logged again.
\<close>

definition logged :: "redisServer \<Rightarrow> redisClient \<Rightarrow> bool" where
  "logged s c \<longleftrightarrow> aofOn s \<and> flags c AND REDIS_CLIENT_FAKE = 0"

definition set_done :: "redisServer \<Rightarrow> cid \<Rightarrow> redisClient \<Rightarrow> bytes \<Rightarrow> bytes \<Rightarrow> redisDb \<Rightarrow> redisServer" where
  "set_done s i c key val db' = s
     \<lparr>dbs := (dbs s)[nat (cdb c) := db'],
      cheap := (cheap s)(i \<mapsto> addWrite (c\<lparr>argv := [''SET'', key, val], argc := 3, readBuf := (if logged s c then [] else readBuf c)\<rparr>) resp_ok),
      dirty := dirty s + 1, active_buf := active_buf s @ (if logged s c then readBuf c else [])\<rparr>"

lemma set_executes:
  assumes ok: "commands_loaded s" "cheap s i = Some c" "load (dbs s) (cdb c) = Some db" "db_good db"
    and allowed: "server_flags s AND REDIS_CLUSTER_SLAVE = 0 \<or> flags c AND REDIS_CLIENT_NORMAL = 0"
    and nf: "nul_free key" "nul_free val"
    and key: "fresh_key E db key" "watch_map db key = None" and obj: "robjCreateStringObject val = Some obj"
  shows "\<exists>d e. (\<forall>q. processCommand E q (put_client s i (c\<lparr>argv := [''SET'', key, val], argc := 3\<rparr>)) i =
        Option.bind (after_write E (set_done s i c key val (db\<lparr>expires := e, kv := d\<rparr>)) i (commandsTable ! 0))
          (\<lambda>s'. finish_command s' i))
    \<and> db_good (db\<lparr>expires := e, kv := d\<rparr>)
    \<and> dict_map key_canon d = (dict_map key_canon (kv db))(key_canon key \<mapsto> Some obj)
    \<and> dict_map key_canon e = dict_map key_canon (expires db)"
proof -
  let ?cmd = "commandsTable ! 0"
  define c0 where "c0 = c\<lparr>argv := [''SET'', key, val], argc := 3\<rparr>"
  define c1 where "c1 = c0\<lparr>readBuf := (if logged s c then [] else readBuf c)\<rparr>"
  have argv: "argv_at c1 1 = Some key" "argv_at c0 0 = Some ''SET''"
    using nf by (simp_all add: c0_def c1_def argv_at_def load_def takeWhile_nul_free)
  define s1 where "s1 = s\<lparr>cheap := (cheap s)(i \<mapsto> c1), active_buf := active_buf s @ (if logged s c then readBuf c else [])\<rparr>"
  have 1: "append_aof (put_client s i c0) i ?cmd = Some s1"
    by (simp add: append_aof_def put_client_def c0_def c1_def s1_def logged_def client_flag_tests table_procs)
  have db1: "load (dbs s1) (cdb c1) = Some db" using ok(3) by (simp add: s1_def c1_def c0_def)
  have ch1: "cheap s1 i = Some c1" by (simp add: s1_def)
  obtain e where 2: "expire_accessed E s1 i ?cmd = Some (s1\<lparr>dbs := (dbs s1)[nat (cdb c1) := db\<lparr>expires := e\<rparr>]\<rparr>)"
      "db_good (db\<lparr>expires := e\<rparr>)" "dict_map key_canon e = dict_map key_canon (expires db)"
    using expire_accessed_fresh [OF ch1 argv(1) db1 ok(4) key(1), of ?cmd] by (auto simp: client_flag_tests table_procs)
  define s2 where "s2 = s1\<lparr>dbs := (dbs s1)[nat (cdb c1) := db\<lparr>expires := e\<rparr>]\<rparr>"
  have ch2: "cheap s2 i = Some c1" by (simp add: s2_def ch1)
  have db2: "load (dbs s2) (cdb c1) = Some (db\<lparr>expires := e\<rparr>)" using load_update [OF db1] by (simp add: s2_def)
  obtain k where 3: "set_proc s2 i = Some (s2\<lparr>dbs := (dbs s2)[nat (cdb c1) := db\<lparr>expires := e\<rparr>\<lparr>kv := k\<rparr>],
       cheap := (cheap s2)(i \<mapsto> addWrite c1 resp_ok), dirty := dirty s2 + 1\<rparr>)"
     "db_good (db\<lparr>expires := e\<rparr>\<lparr>kv := k\<rparr>)" "dict_map key_canon k = (dict_map key_canon (kv db))(key_canon key \<mapsto> Some obj)"
    using set_proc_stores [OF ch2 _ _ nf db2 2(2) obj, of "''SET''"] by (auto simp: c1_def c0_def)
  define db3 where "db3 = db\<lparr>expires := e\<rparr>\<lparr>kv := k\<rparr>"
  define s3 where "s3 = s2\<lparr>dbs := (dbs s2)[nat (cdb c1) := db3],
       cheap := (cheap s2)(i \<mapsto> addWrite c1 resp_ok), dirty := dirty s2 + 1\<rparr>"
  have ch3: "cheap s3 i = Some (addWrite c1 resp_ok)" by (simp add: s3_def)
  have 4: "touchWatchKey s3 i = Some s3"
  proof (rule touchWatchKey_unwatched [OF ch3])
    show "argv_at (addWrite c1 resp_ok) 1 = Some key" using argv by (simp add: argv_at_def addWrite_def)
    show "load (dbs s3) (cdb (addWrite c1 resp_ok)) = Some db3"
      using load_update [OF db2] by (simp add: s3_def addWrite_def)
    show "watch_map db3 key = None" using key(2) by (simp add: db3_def watch_map_def)
  qed (use 3(2) in \<open>simp add: db3_def\<close>)
  have done1: "s3 = set_done s i c key val db3"
    by (simp add: s3_def s2_def s1_def set_done_def c1_def c0_def)
  have lookup: "lookupCommand (put_client s i c0) c0 ''SET'' = Some (Some ?cmd)"
    using lookup_unrestricted [of "put_client s i c0" c0 "''SET''"] ok(1) allowed
    by (auto simp: put_client_def commands_loaded_def table_entries c0_def)
  have "processCommand E q (put_client s i c0) i = Option.bind (after_write E s3 i ?cmd) (\<lambda>s'. finish_command s' i)" for q
    using lookup 1 2(1) 3(1) 4 argv
    by (simp add: processCommand_def put_client_def table_procs run_proc_def s2_def [symmetric] s3_def [symmetric]
        db3_def [symmetric] client_flag_tests)
  with 2(3) 3(2,3) show ?thesis unfolding done1 db3_def c0_def by (intro exI [of _ k] exI [of _ e]) simp
qed

lemma set_request_spec:
  assumes r: "ready E s i c db" and role: "server_flags s AND REDIS_CLUSTER_MASTER \<noteq> 0" "server_flags s AND REDIS_CLUSTER_SLAVE = 0"
    and buf: "readBuf c = array_text [''SET'', key, val] @ rest" "short_args [''SET'', key, val]" "length (readBuf c) \<le> 1024"
    and key: "fresh_key E db key" "watch_map db key = None" and obj: "robjCreateStringObject val = Some obj"
  shows "\<exists>s' d e. query_fuel E (Suc n) s i = Some s'
    \<and> dbs s' = (dbs s)[nat (cdb c) := db\<lparr>expires := e, kv := d\<rparr>] \<and> db_good (db\<lparr>expires := e, kv := d\<rparr>)
    \<and> dict_map key_canon d = (dict_map key_canon (kv db))(key_canon key \<mapsto> Some obj)
    \<and> dict_map key_canon e = dict_map key_canon (expires db)
    \<and> cheap s' i = Some (addWrite c resp_ok\<lparr>readBuf := [], argv := [], argc := 0\<rparr>)
    \<and> (\<forall>j. j \<noteq> i \<longrightarrow> cheap s' j = feed_all (handed_on s c) (clients s) (cheap s) j)
    \<and> dirty s' = dirty s + 1 \<and> last_offset s' = last_offset s + int (length (handed_on s c))
    \<and> active_buf s' = active_buf s @ (if aofOn s then readBuf c else [])
    \<and> ready E s' i (addWrite c resp_ok\<lparr>readBuf := [], argv := [], argc := 0\<rparr>) (db\<lparr>expires := e, kv := d\<rparr>)
    \<and> server_flags s' = server_flags s \<and> clients s' = clients s \<and> aofOn s' = aofOn s"
proof -
  note d = readyD [OF r]
  let ?cmd = "commandsTable ! 0"
  have nf: "nul_free key" "nul_free val" using buf(2) by (simp_all add: short_args_def)
  obtain k e where 1: "\<And>q. processCommand E q (put_client s i (c\<lparr>argv := [''SET'', key, val], argc := 3\<rparr>)) i =
        Option.bind (after_write E (set_done s i c key val (db\<lparr>expires := e, kv := k\<rparr>)) i ?cmd) (\<lambda>s'. finish_command s' i)"
    "db_good (db\<lparr>expires := e, kv := k\<rparr>)" "dict_map key_canon k = (dict_map key_canon (kv db))(key_canon key \<mapsto> Some obj)"
    "dict_map key_canon e = dict_map key_canon (expires db)"
    using set_executes [OF d(1,5,9,10) _ nf key obj] role(2) by blast
  have lg: "logged s c = aofOn s" using d(11) by (simp add: logged_def)
  define c1 where "c1 = c\<lparr>argv := [''SET'', key, val], argc := 3, readBuf := handed_on s c\<rparr>"
  define s3 where "s3 = set_done s i c key val (db\<lparr>expires := e, kv := k\<rparr>)"
  have ch3: "cheap s3 i = Some (addWrite c1 resp_ok)" by (simp add: s3_def set_done_def c1_def lg handed_on_def)
  have lk: "links_ok s3" "backlog_ok s3" "clients s3 = clients s" "eventLoop s3 = eventLoop s"
    using d(2,3,5,6,7)
    by (auto simp: links_ok_def client_ok_def backlog_ok_def s3_def set_done_def addWrite_def c1_def)
  have fl: "server_flags s3 = server_flags s" by (simp add: s3_def set_done_def)
  have rb: "readBuf (addWrite c1 resp_ok) = handed_on s c" by (simp add: addWrite_def c1_def)
  have len: "length (handed_on s c) \<le> 1024" using buf(3) by (simp add: handed_on_def)
  obtain b bo el where 5: "after_write E s3 i ?cmd = Some (s3\<lparr>repli_buffer := b, begin_offset := bo,
        last_offset := last_offset s3 + int (length (handed_on s c)),
        cheap := feed_all (handed_on s c) (clients s) (cheap s3), eventLoop := el\<rparr>)" "ae_ok el" "maxsize el = maxsize (eventLoop s)"
      "length b = 1024" "begin_offset s3 \<le> bo"
    using after_write_master [OF ch3, of ?cmd E] role fl lk d(4) len unfolding rb by (auto simp: client_flag_tests table_procs)
  define s5 where "s5 = s3\<lparr>repli_buffer := b, begin_offset := bo,
        last_offset := last_offset s3 + int (length (handed_on s c)),
        cheap := feed_all (handed_on s c) (clients s) (cheap s3), eventLoop := el\<rparr>"
  define c5 where "c5 = addWrite c1 resp_ok"
  have f5: "feed (handed_on s c) c5 = c5"
    using d(12) by (simp add: feed_def c5_def c1_def addWrite_def)
  then have ch5: "cheap s5 i = Some c5" by (simp add: s5_def feed_all_def ch3 c5_def)
  define c6 where "c6 = addWrite c resp_ok\<lparr>readBuf := [], argv := [], argc := 0\<rparr>"
  define s6 where "s6 = put_client s5 i c6"
  have 6: "finish_command s5 i = Some s6"
    by (simp add: finish_command_def upd_client_def ch5 s6_def c6_def c5_def c1_def addWrite_def)
  have pc: "processCommand E q (put_client s i (c\<lparr>argv := [''SET'', key, val], argc := 3\<rparr>)) i = Some s6" for q
    using 1(1) [of q] 5(1) 6 unfolding s3_def [symmetric] s5_def [symmetric] by simp
  have "ae_ok (eventLoop s6)" "fd c6 = fd c" "fd c < maxsize (eventLoop s6)" "cheap s6 i = Some c6"
    using 5 d(7) by (simp_all add: s6_def put_client_def s5_def c6_def addWrite_def)
  with create_event_ok [of s6 AE_WRITABLE E "fd c" sendToClient "Some i"] d(4,6) obtain el' where
    ev: "create_event E s6 (fd c6) AE_WRITABLE sendToClient (Some i) = Some (AE_OK, s6\<lparr>eventLoop := el'\<rparr>)" "cheap s6 i = Some c6"
      "ae_ok el'" "maxsize el' = maxsize (eventLoop s)"
    using 5(3) by (auto simp: s6_def put_client_def s5_def)
  from query_step [OF d(5) buf(1,2) d(8)] pc ev(1,2) have q: "query_fuel E (Suc n) s i = Some (s6\<lparr>eventLoop := el'\<rparr>)"
    by simp
  define s7 where "s7 = s6\<lparr>eventLoop := el'\<rparr>"
  have co: "client_ok s7 j" if "client_ok s j" for j
    using that ev(4) d(6,7) by (auto simp: client_ok_def s7_def s6_def put_client_def s5_def s3_def set_done_def
        c6_def addWrite_def feed_all_def)
  have "ready E s7 i c6 (db\<lparr>expires := e, kv := k\<rparr>)"
    unfolding ready_def
  proof (intro conjI)
    show "commands_loaded s7" using d(1) by (simp add: commands_loaded_def s7_def s6_def put_client_def s5_def s3_def set_done_def)
    show "links_ok s7" using d(2) ev(3) co by (auto simp: links_ok_def s7_def s6_def put_client_def s5_def s3_def set_done_def)
    show "backlog_ok s7" using lk(2) 5(4,5) by (simp add: backlog_ok_def s7_def s6_def put_client_def s5_def)
    show "load (dbs s7) (cdb c6) = Some (db\<lparr>expires := e, kv := k\<rparr>)"
      using load_update [OF d(9)] by (simp add: s7_def s6_def put_client_def s5_def s3_def set_done_def c6_def addWrite_def)
  qed (use r ev(2,4) 1(2) in \<open>auto simp: ready_def s7_def c6_def addWrite_def\<close>)
  then have again: "ready E (s6\<lparr>eventLoop := el'\<rparr>) i (addWrite c resp_ok\<lparr>readBuf := [], argv := [], argc := 0\<rparr>)
      (db\<lparr>expires := e, kv := k\<rparr>)" by (simp add: s7_def c6_def)
  show ?thesis
  proof (intro exI conjI)
    show "query_fuel E (Suc n) s i = Some (s6\<lparr>eventLoop := el'\<rparr>)" by (rule q)
    show "dbs (s6\<lparr>eventLoop := el'\<rparr>) = (dbs s)[nat (cdb c) := db\<lparr>expires := e, kv := k\<rparr>]"
      by (simp add: s6_def put_client_def s5_def s3_def set_done_def)
    show "\<forall>j. j \<noteq> i \<longrightarrow> cheap (s6\<lparr>eventLoop := el'\<rparr>) j = feed_all (handed_on s c) (clients s) (cheap s) j"
      by (simp add: s6_def put_client_def s5_def s3_def set_done_def feed_all_def)
  qed (use 1(2-4) again in \<open>simp_all add: s6_def put_client_def s5_def s3_def set_done_def c6_def lg\<close>)
qed

section \<open>One read request\<close>

lemma get_request_spec:
  assumes r: "ready E s i c db" and role: "server_flags s AND REDIS_CLUSTER_SLAVE = 0"
    and buf: "readBuf c = array_text [''GET'', key] @ rest" "short_args [''GET'', key]"
    and key: "fresh_key E db key"
    and str: "case kv_value db key of None \<Rightarrow> msg = resp_keyNotFound
      | Some obj \<Rightarrow> Option.bind (robjGetValStr obj) respEncodeBulkString = Some msg"
  shows "\<exists>s' d e. query_fuel E (Suc n) s i = Some s'
    \<and> dbs s' = (dbs s)[nat (cdb c) := db\<lparr>expires := e, kv := d\<rparr>] \<and> db_good (db\<lparr>expires := e, kv := d\<rparr>)
    \<and> dict_map key_canon d = dict_map key_canon (kv db) \<and> dict_map key_canon e = dict_map key_canon (expires db)
    \<and> cheap s' = (cheap s)(i \<mapsto> addWrite c msg\<lparr>readBuf := [], argv := [], argc := 0\<rparr>)
    \<and> dirty s' = dirty s \<and> last_offset s' = last_offset s"
proof -
  note d = readyD [OF r]
  let ?cmd = "commandsTable ! Suc 0"
  define c0 where "c0 = c\<lparr>argv := [''GET'', key], argc := 2\<rparr>"
  have nf: "nul_free key" using buf(2) by (simp add: short_args_def)
  have argv: "argv_at c0 1 = Some key" "argv_at c0 0 = Some ''GET''"
    using nf by (simp_all add: c0_def argv_at_def load_def takeWhile_nul_free)
  define s1 where "s1 = put_client s i c0"
  have 1: "append_aof s1 i ?cmd = Some s1"
    by (simp add: append_aof_def s1_def put_client_def client_flag_tests table_procs)
  have ch1: "cheap s1 i = Some c0" and db1: "load (dbs s1) (cdb c0) = Some db"
    using d(9) by (simp_all add: s1_def put_client_def c0_def)
  obtain e where 2: "expire_accessed E s1 i ?cmd = Some (s1\<lparr>dbs := (dbs s1)[nat (cdb c0) := db\<lparr>expires := e\<rparr>]\<rparr>)"
      "db_good (db\<lparr>expires := e\<rparr>)" "dict_map key_canon e = dict_map key_canon (expires db)"
    using expire_accessed_fresh [OF ch1 argv(1) db1 d(10) key, of ?cmd] by (auto simp: client_flag_tests table_procs)
  define s2 where "s2 = s1\<lparr>dbs := (dbs s1)[nat (cdb c0) := db\<lparr>expires := e\<rparr>]\<rparr>"
  have ch2: "cheap s2 i = Some c0" by (simp add: s2_def ch1)
  have db2: "load (dbs s2) (cdb c0) = Some (db\<lparr>expires := e\<rparr>)" using load_update [OF db1] by (simp add: s2_def)
  obtain k where k: "dbGet (db\<lparr>expires := e\<rparr>) key = Some (kv_value (db\<lparr>expires := e\<rparr>) key, db\<lparr>expires := e\<rparr>\<lparr>kv := k\<rparr>)"
     "db_good (db\<lparr>expires := e\<rparr>\<lparr>kv := k\<rparr>)" "dict_map key_canon k = dict_map key_canon (kv (db\<lparr>expires := e\<rparr>))"
    by (rule dbGet_reads [OF 2(2)])
  have kv: "kv_value (db\<lparr>expires := e\<rparr>) key = kv_value db key" by (simp add: kv_value_def kv_map_def)
  define s3 where "s3 = s2\<lparr>dbs := (dbs s2)[nat (cdb c0) := db\<lparr>expires := e\<rparr>\<lparr>kv := k\<rparr>], cheap := (cheap s2)(i \<mapsto> addWrite c0 msg)\<rparr>"
  have 3: "get_proc s2 i = Some s3"
    using str k(1) ch2 db2 argv(1) unfolding kv
    by (auto simp: get_proc_def put_db_inside reply_def reply_bulk_def upd_client_def put_client_def s3_def bind_Some_iff
        split: option.splits)
  have ch3: "cheap s3 i = Some (addWrite c0 msg)" by (simp add: s3_def)
  define c6 where "c6 = addWrite c msg\<lparr>readBuf := [], argv := [], argc := 0\<rparr>"
  define s6 where "s6 = put_client s3 i c6"
  have 6: "finish_command s3 i = Some s6"
    by (simp add: finish_command_def upd_client_def ch3 s6_def c6_def c0_def addWrite_def)
  have lookup: "lookupCommand s1 c0 ''GET'' = Some (Some ?cmd)"
    using lookup_unrestricted [of s1 c0 "''GET''"] d(1) role
    by (simp add: s1_def put_client_def commands_loaded_def table_entries)
  have pc: "processCommand E q s1 i = Some s6" for q
    using lookup 1 2(1) 3 6 argv ch1
    by (simp add: processCommand_def table_procs run_proc_def s2_def [symmetric] client_flag_tests after_write_def)
  have "ae_ok (eventLoop s6)" "fd c6 = fd c" "fd c < maxsize (eventLoop s6)" "cheap s6 i = Some c6"
    using d(2,7) by (simp_all add: links_ok_def s6_def put_client_def s3_def s2_def s1_def c6_def addWrite_def)
  with create_event_ok [of s6 AE_WRITABLE E "fd c" sendToClient "Some i"] d(4,6) obtain el' where
    ev: "create_event E s6 (fd c6) AE_WRITABLE sendToClient (Some i) = Some (AE_OK, s6\<lparr>eventLoop := el'\<rparr>)" "cheap s6 i = Some c6"
    by auto
  from query_step [OF d(5) buf(1,2) d(8)] pc ev have q: "query_fuel E (Suc n) s i = Some (s6\<lparr>eventLoop := el'\<rparr>)"
    by (simp add: c0_def s1_def)
  show ?thesis
  proof (intro exI conjI)
    show "query_fuel E (Suc n) s i = Some (s6\<lparr>eventLoop := el'\<rparr>)" by (rule q)
    show "dbs (s6\<lparr>eventLoop := el'\<rparr>) = (dbs s)[nat (cdb c) := db\<lparr>expires := e, kv := k\<rparr>]"
      by (simp add: s6_def put_client_def s3_def s2_def s1_def c0_def)
  qed (use 2(3) k(2,3) in \<open>simp_all add: s6_def put_client_def s3_def s2_def s1_def c6_def\<close>)
qed

section \<open>A concrete server\<close>

text \<open>One normal client, one replica, one empty database.\<close>

definition demo_client :: redisClient where
  "demo_client = \<lparr>fd = 5, flags = REDIS_CLIENT_NORMAL, ip = ''10.0.0.9'', port = 4000, lastinteraction = 0,
     toclose = False, readBuf = [], writeBuf = [], dbid = 0, cdb = 0, argc = 0, argv = [],
     replState = REPL_STATE_MASTER_NONE, name = [], err_msg = [], last_errno = None,
     multcmds = replicate 10 [], multiCmdCount = 0\<rparr>"

definition demo_replica :: redisClient where
  "demo_replica = demo_client\<lparr>fd := 6, flags := REDIS_CLIENT_SLAVE\<rparr>"

definition demo_loop :: "(handler, cron, cid) aeEventLoop" where
  "demo_loop = aeCreateEventLoop
     \<lparr>maxfd = - 1, maxsize = 0, events = [], epoll = (\<lambda>_. None), timers = [], timeEventNextId = 0, stop = False\<rparr> 8"

definition demo_server :: "cint \<Rightarrow> bool \<Rightarrow> bytes \<Rightarrow> redisServer" where
  "demo_server role aof request = \<lparr>server_id = 1, server_flags = role, unixtime = 0, shutdownAsap = 0, maxclients = 8,
     cheap = [0 \<mapsto> demo_client\<lparr>readBuf := request\<rparr>, 1 \<mapsto> demo_replica], next_cid = 2, clients = [0, 1], clientsToClose = [],
     dbs = [dbInit 0], commands = load_from commandsTable dictCreate, eventLoop = demo_loop,
     repli_buffer = replicate 1024 NUL, begin_offset = 0, last_offset = 0, master = None, masterhost = [], masterport = 0,
     server_replState = REPL_STATE_SLAVE_NONE, offset = - 1, configfile = [], srv_port = 6666, aofOn = aof, rdbOn = False, dirty = 0,
     lastSave = 0, saveParams = [], rdbChildPid = - 1, isBgSaving = False, active_buf = []\<rparr>"

definition demo_env :: env where
  "demo_env = \<lparr>e_now = 100, e_sock = (\<lambda>_. True), e_connect = (\<lambda>_ _. 7), e_junk = demo_client, e_room = 0\<rparr>"

lemma demo_loop: "ae_ok demo_loop" "maxsize demo_loop = 8"
  unfolding demo_loop_def by (rule ae_create_ok; simp) (simp_all add: aeCreateEventLoop_def)

lemma demo_ready: "ready demo_env (demo_server role aof request) 0 (demo_client\<lparr>readBuf := request\<rparr>) (dbInit 0)"
  using demo_loop dbInit_good(1)
  by (auto simp: ready_def commands_loaded_def links_ok_def client_ok_def backlog_ok_def demo_server_def demo_env_def
      demo_client_def demo_replica_def load_def)

lemma demo_fresh [simp]: "fresh_key demo_env (dbInit 0) key"
  by (simp add: fresh_key_def dbInit_good)

section \<open>Properties of single requests\<close>

lemma kv_value_put:
  assumes "dict_map key_canon d = (dict_map key_canon (kv db))(key_canon k \<mapsto> Some v)" "nul_free k" "nul_free k'"
  shows "kv_value (db\<lparr>expires := e, kv := d\<rparr>) k' = (if k' = k then Some v else kv_value db k')"
  using assms key_canon_nul_free [OF assms(3,2)] by (auto simp: kv_value_def kv_map_def)

lemma feed_all_replica:
  assumes "cheap s j = Some r" "j \<in> set (clients s)" "flags r = REDIS_CLIENT_SLAVE" "nul_free buf"
  shows "feed_all buf (clients s) (cheap s) j = Some (addWrite r buf)"
  using assms by (simp add: feed_all_def feed_def takeWhile_nul_free)

text \<open>
  C1. On a master without the append-only file, a \<open>SET\<close> request stores the value under its key and
  under no other, answers \<open>+OK\<close>, counts one change, and adds to the write buffer of every replica and
  to the replication offset exactly the bytes it received.
\<close>

theorem set_on_master:
  assumes "ready E s i c db" "server_flags s AND REDIS_CLUSTER_MASTER \<noteq> 0" "server_flags s AND REDIS_CLUSTER_SLAVE = 0"
    "\<not> aofOn s" "readBuf c = array_text [''SET'', key, val]" "short_args [''SET'', key, val]"
    "fresh_key E db key" "watch_map db key = None" "robjCreateStringObject val = Some obj"
  shows "\<exists>s' db'. processClientQueryBuf E s i = Some s' \<and> load (dbs s') (cdb c) = Some db'
    \<and> (\<forall>k. nul_free k \<longrightarrow> kv_value db' k = (if k = key then Some obj else kv_value db k))
    \<and> (\<exists>c'. cheap s' i = Some c' \<and> writeBuf c' = writeBuf c @ resp_ok \<and> readBuf c' = [])
    \<and> (\<forall>j r. j \<noteq> i \<and> j \<in> set (clients s) \<and> cheap s j = Some r \<and> flags r = REDIS_CLIENT_SLAVE
          \<longrightarrow> cheap s' j = Some (addWrite r (readBuf c)))
    \<and> dirty s' = dirty s + 1 \<and> last_offset s' = last_offset s + int (length (readBuf c))"
proof -
  have nf: "nul_free key" "nul_free (readBuf c)"
    using assms(5,6) nul_free_array [of "[''SET'', key, val]"] by (simp_all add: short_args_def)
  have b: "readBuf c = array_text [''SET'', key, val] @ []" "length (readBuf c) \<le> 1024"
    using assms(5,6) by (simp_all add: short_args_def)
  obtain s' d e where "query_fuel E (Suc 1) s i = Some s'"
    "dbs s' = (dbs s)[nat (cdb c) := db\<lparr>expires := e, kv := d\<rparr>]"
    "dict_map key_canon d = (dict_map key_canon (kv db))(key_canon key \<mapsto> Some obj)"
    "cheap s' i = Some (addWrite c resp_ok\<lparr>readBuf := [], argv := [], argc := 0\<rparr>)"
    "\<forall>j. j \<noteq> i \<longrightarrow> cheap s' j = feed_all (readBuf c) (clients s) (cheap s) j"
    "dirty s' = dirty s + 1" "last_offset s' = last_offset s + int (length (readBuf c))"
    using set_request_spec [OF assms(1-3) b(1) assms(6) b(2) assms(7-9), of 1] assms(4) unfolding handed_on_def by auto
  moreover from this(2) have "load (dbs s') (cdb c) = Some (db\<lparr>expires := e, kv := d\<rparr>)"
    using load_update readyD(9) [OF assms(1)] by simp
  ultimately show ?thesis
    using kv_value_put [of d db key obj _ e] nf feed_all_replica [of s _ _ "readBuf c"]
    by (intro exI [of _ s'] exI [of _ "db\<lparr>expires := e, kv := d\<rparr>"]) (auto simp: addWrite_def processClientQueryBuf_def numeral_2_eq_2)
qed

lemma demo_set: "short_args [''SET'', ''k'', ''v'']" "\<exists>obj. robjCreateStringObject ''v'' = Some obj"
proof -
  show "\<exists>obj. robjCreateStringObject ''v'' = Some obj" using string_object_value [of "''v''"] by auto
  have "length (array_text [''SET'', ''k'', ''v'']) \<le> 1024" by code_simp
  then show "short_args [''SET'', ''k'', ''v'']" by (simp add: short_args_def)
qed

lemma demo_flags: "server_flags (demo_server REDIS_CLUSTER_MASTER aof req) AND REDIS_CLUSTER_MASTER \<noteq> 0"
  "server_flags (demo_server REDIS_CLUSTER_MASTER aof req) AND REDIS_CLUSTER_SLAVE = 0"
  "aofOn (demo_server role aof req) = aof"
  by (simp_all add: demo_server_def server_flags)

theorem set_on_master_witness:
  "\<exists>s'. processClientQueryBuf demo_env (demo_server REDIS_CLUSTER_MASTER False (array_text [''SET'', ''k'', ''v''])) 0 = Some s'
    \<and> cheap s' 1 = Some (addWrite demo_replica (array_text [''SET'', ''k'', ''v'']))"
proof -
  let ?r = "array_text [''SET'', ''k'', ''v'']"
  obtain obj where o: "robjCreateStringObject ''v'' = Some obj" using demo_set(2) by blast
  have "cheap (demo_server REDIS_CLUSTER_MASTER False ?r) 1 = Some demo_replica"
    "flags demo_replica = REDIS_CLIENT_SLAVE" "1 \<in> set (clients (demo_server REDIS_CLUSTER_MASTER False ?r))"
    by (simp_all add: demo_server_def demo_replica_def)
  with set_on_master [OF demo_ready [of REDIS_CLUSTER_MASTER False ?r] demo_flags(1,2) [of False ?r] _ _ demo_set(1) demo_fresh _ o]
  show ?thesis by (auto simp: demo_flags dbInit_good)
qed

text \<open>
  C14. With the append-only file on, the same request reaches the file and the client, but appending it
  empties the read buffer first: the replicas and the replication backlog receive nothing.
\<close>

theorem set_with_aof_not_propagated:
  assumes "ready E s i c db" "server_flags s AND REDIS_CLUSTER_MASTER \<noteq> 0" "server_flags s AND REDIS_CLUSTER_SLAVE = 0"
    "aofOn s" "readBuf c = array_text [''SET'', key, val]" "short_args [''SET'', key, val]"
    "fresh_key E db key" "watch_map db key = None" "robjCreateStringObject val = Some obj"
  shows "\<exists>s' db'. processClientQueryBuf E s i = Some s' \<and> load (dbs s') (cdb c) = Some db'
    \<and> kv_value db' key = Some obj \<and> active_buf s' = active_buf s @ readBuf c
    \<and> (\<forall>j. j \<noteq> i \<longrightarrow> cheap s' j = cheap s j) \<and> last_offset s' = last_offset s"
proof -
  have nf: "nul_free key" using assms(6) by (simp add: short_args_def)
  have b: "readBuf c = array_text [''SET'', key, val] @ []" "length (readBuf c) \<le> 1024"
    using assms(5,6) by (simp_all add: short_args_def)
  have idle: "feed_all [] (clients s) (cheap s) j = cheap s j" for j
    by (cases "cheap s j") (simp_all add: feed_all_def feed_def addWrite_def)
  obtain s' d e where "query_fuel E (Suc 1) s i = Some s'"
    "dbs s' = (dbs s)[nat (cdb c) := db\<lparr>expires := e, kv := d\<rparr>]"
    "dict_map key_canon d = (dict_map key_canon (kv db))(key_canon key \<mapsto> Some obj)"
    "\<forall>j. j \<noteq> i \<longrightarrow> cheap s' j = cheap s j" "last_offset s' = last_offset s" "active_buf s' = active_buf s @ readBuf c"
    using set_request_spec [OF assms(1-3) b(1) assms(6) b(2) assms(7-9), of 1] assms(4) unfolding handed_on_def
    by (auto simp: idle)
  moreover from this(2) have "load (dbs s') (cdb c) = Some (db\<lparr>expires := e, kv := d\<rparr>)"
    using load_update readyD(9) [OF assms(1)] by simp
  ultimately show ?thesis
    using kv_value_put [of d db key obj key e] nf
    by (intro exI [of _ s'] exI [of _ "db\<lparr>expires := e, kv := d\<rparr>"]) (simp add: processClientQueryBuf_def numeral_2_eq_2)
qed

theorem set_with_aof_not_propagated_witness:
  "\<exists>s'. processClientQueryBuf demo_env (demo_server REDIS_CLUSTER_MASTER True (array_text [''SET'', ''k'', ''v''])) 0 = Some s'
    \<and> cheap s' 1 = Some demo_replica \<and> last_offset s' = 0"
proof -
  let ?r = "array_text [''SET'', ''k'', ''v'']"
  obtain obj where o: "robjCreateStringObject ''v'' = Some obj" using demo_set(2) by blast
  have "cheap (demo_server REDIS_CLUSTER_MASTER True ?r) 1 = Some demo_replica"
    "last_offset (demo_server REDIS_CLUSTER_MASTER True ?r) = 0" by (simp_all add: demo_server_def)
  with set_with_aof_not_propagated [OF demo_ready [of REDIS_CLUSTER_MASTER True ?r] demo_flags(1,2) [of True ?r] _ _ demo_set(1) demo_fresh _ o]
  show ?thesis by (auto simp: demo_flags dbInit_good)
qed

text \<open>
  C16. When more than one request arrives in one read, only the first is executed and answered, but the
  replicas are sent all of them: master and replica diverge.
\<close>

theorem pipelined_requests_diverge:
  assumes "ready E s i c db" "server_flags s AND REDIS_CLUSTER_MASTER \<noteq> 0" "server_flags s AND REDIS_CLUSTER_SLAVE = 0"
    "\<not> aofOn s" "readBuf c = array_text [''SET'', key, val] @ array_text [''SET'', key2, val2]"
    "short_args [''SET'', key, val]" "short_args [''SET'', key2, val2]" "length (readBuf c) \<le> 1024" "key2 \<noteq> key"
    "fresh_key E db key" "watch_map db key = None" "robjCreateStringObject val = Some obj"
  shows "\<exists>s' db'. processClientQueryBuf E s i = Some s' \<and> load (dbs s') (cdb c) = Some db'
    \<and> kv_value db' key = Some obj \<and> kv_value db' key2 = kv_value db key2
    \<and> (\<exists>c'. cheap s' i = Some c' \<and> writeBuf c' = writeBuf c @ resp_ok \<and> readBuf c' = [])
    \<and> (\<forall>j r. j \<noteq> i \<and> j \<in> set (clients s) \<and> cheap s j = Some r \<and> flags r = REDIS_CLIENT_SLAVE
          \<longrightarrow> cheap s' j = Some (addWrite r (array_text [''SET'', key, val] @ array_text [''SET'', key2, val2])))"
proof -
  have nf: "nul_free key" "nul_free key2" "nul_free (readBuf c)"
    using assms(5-7) nul_free_array [of "[''SET'', key, val]"] nul_free_array [of "[''SET'', key2, val2]"]
    by (simp_all add: short_args_def)
  obtain s' d e where "query_fuel E (Suc 1) s i = Some s'"
    "dbs s' = (dbs s)[nat (cdb c) := db\<lparr>expires := e, kv := d\<rparr>]"
    "dict_map key_canon d = (dict_map key_canon (kv db))(key_canon key \<mapsto> Some obj)"
    "cheap s' i = Some (addWrite c resp_ok\<lparr>readBuf := [], argv := [], argc := 0\<rparr>)"
    "\<forall>j. j \<noteq> i \<longrightarrow> cheap s' j = feed_all (readBuf c) (clients s) (cheap s) j"
    using set_request_spec [OF assms(1-3,5,6,8,10-12), of 1] assms(4) unfolding handed_on_def by auto
  moreover from this(2) have "load (dbs s') (cdb c) = Some (db\<lparr>expires := e, kv := d\<rparr>)"
    using load_update readyD(9) [OF assms(1)] by simp
  ultimately show ?thesis
    using kv_value_put [of d db key obj _ e] nf assms(9) feed_all_replica [of s _ _ "readBuf c"] unfolding assms(5)
    by (intro exI [of _ s'] exI [of _ "db\<lparr>expires := e, kv := d\<rparr>"]) (auto simp: addWrite_def processClientQueryBuf_def numeral_2_eq_2)
qed

theorem pipelined_requests_diverge_witness:
  "\<exists>s' db'. processClientQueryBuf demo_env (demo_server REDIS_CLUSTER_MASTER False
      (array_text [''SET'', ''k'', ''v''] @ array_text [''SET'', ''l'', ''v''])) 0 = Some s'
    \<and> load (dbs s') 0 = Some db' \<and> kv_value db' ''l'' = None
    \<and> cheap s' 1 = Some (addWrite demo_replica (array_text [''SET'', ''k'', ''v''] @ array_text [''SET'', ''l'', ''v'']))"
proof -
  let ?r = "array_text [''SET'', ''k'', ''v''] @ array_text [''SET'', ''l'', ''v'']"
  obtain obj where o: "robjCreateStringObject ''v'' = Some obj" using demo_set(2) by blast
  have "length (array_text [''SET'', ''l'', ''v'']) \<le> 1024" by code_simp
  then have a: "short_args [''SET'', ''l'', ''v'']" by (simp add: short_args_def)
  have l: "length ?r \<le> 1024" by code_simp
  have "cheap (demo_server REDIS_CLUSTER_MASTER False ?r) 1 = Some demo_replica"
    "flags demo_replica = REDIS_CLIENT_SLAVE" "1 \<in> set (clients (demo_server REDIS_CLUSTER_MASTER False ?r))"
    by (simp_all add: demo_server_def demo_replica_def)
  with pipelined_requests_diverge [OF demo_ready [of REDIS_CLUSTER_MASTER False ?r] demo_flags(1,2) [of False ?r] _ _ demo_set(1) a _ _ demo_fresh _ o] l
  show ?thesis by (fastforce simp: demo_flags dbInit_good demo_client_def kv_value_def)
qed

end
