(* ===== verification/Transactions.thy ===== *)
theory Transactions
  imports Requests
begin

unbundle bit_operations_syntax

text \<open>
  Transactions, access control and resynchronisation, end to end: what \<open>MULTI\<close>, \<open>EXEC\<close> and the queue
  between them do to the client and the databases, which commands a replica accepts, and what \<open>SYNC\<close>
  answers a replica that lags behind.
\<close>

section \<open>Requests that do not touch a database\<close>

declare query_fuel.simps [simp del]

text \<open>A server with well-formed structures and a live client, whatever the client's flags are.\<close>

definition serving :: "env \<Rightarrow> redisServer \<Rightarrow> cid \<Rightarrow> redisClient \<Rightarrow> bool" where
  "serving E s i c \<longleftrightarrow> commands_loaded s \<and> links_ok s \<and> (\<forall>d. e_sock E d)
     \<and> cheap s i = Some c \<and> 0 \<le> fd c \<and> fd c < maxsize (eventLoop s)"

lemma ready_serving: "ready E s i c db \<Longrightarrow> serving E s i c"
  by (auto simp: ready_def serving_def)

lemma servingD:
  assumes "serving E s i c"
  shows "commands_loaded s" "ae_ok (eventLoop s)" "e_sock E d" "cheap s i = Some c" "0 \<le> fd c" "fd c < maxsize (eventLoop s)"
  using assms by (auto simp: serving_def links_ok_def)

text \<open>The client after a request, but for what the procedure changed.\<close>

definition request_over :: "redisClient \<Rightarrow> redisClient" where
  "request_over c = c\<lparr>readBuf := [], argv := [], argc := 0\<rparr>"

lemma request_over_fields [simp]:
  "fd (request_over c) = fd c" "flags (request_over c) = flags c" "writeBuf (request_over c) = writeBuf c"
  "readBuf (request_over c) = []" "cdb (request_over c) = cdb c" "multcmds (request_over c) = multcmds c"
  "multiCmdCount (request_over c) = multiCmdCount c" "replState (request_over c) = replState c"
  by (simp_all add: request_over_def)

lemma addWrite_fields [simp]:
  "fd (addWrite c m) = fd c" "flags (addWrite c m) = flags c" "writeBuf (addWrite c m) = writeBuf c @ m"
  "readBuf (addWrite c m) = readBuf c" "cdb (addWrite c m) = cdb c" "multcmds (addWrite c m) = multcmds c"
  "multiCmdCount (addWrite c m) = multiCmdCount c" "replState (addWrite c m) = replState c"
  by (simp_all add: addWrite_def)

definition rest_of_query :: "env \<Rightarrow> redisServer option \<Rightarrow> cid \<Rightarrow> redisServer option" where
  "rest_of_query E p i = Option.bind p (\<lambda>s1. Option.bind (cheap s1 i) (\<lambda>c1.
     Option.bind (create_event E s1 (fd c1) AE_WRITABLE sendToClient (Some i))
       (\<lambda>(r, s2). if r = AE_ERROR then clientToclose s2 i else Some s2)))"

text \<open>Outside a transaction, and for \<open>EXEC\<close> in one, the request is executed.\<close>

lemma query_executes:
  assumes "cheap s i = Some c" "readBuf c = array_text (nm # args) @ rest" "short_args (nm # args)"
    "flags c AND REDIS_MULTI = 0 \<or> strncasecmp_eq nm ''exec'' 4"
  shows "query_fuel E (Suc n) s i = rest_of_query E (processCommand E (query_fuel E n)
     (put_client s i (c\<lparr>argv := nm # args, argc := int (length (nm # args))\<rparr>)) i) i"
proof -
  have "nul_free nm" using assms(3) by (simp add: short_args_def)
  then show ?thesis
    using assms(1,2,4) short_args_decode [OF assms(3), of rest "e_room E"]
    by (auto simp: query_fuel.simps Let_def rest_of_query_def load_def takeWhile_nul_free)
qed

lemma rest_of_query_ok:
  assumes "ae_ok (eventLoop s)" "e_sock E (fd c)" "cheap s i = Some c" "0 \<le> fd c" "fd c < maxsize (eventLoop s)"
  shows "\<exists>el. rest_of_query E (Some s) i = Some (s\<lparr>eventLoop := el\<rparr>) \<and> ae_ok el \<and> maxsize el = maxsize (eventLoop s)"
  using create_event_ok [of s AE_WRITABLE E "fd c" sendToClient "Some i"] assms
  by (auto simp: rest_of_query_def)

lemma plain_request:
  assumes sv: "serving E s i c" and lookup: "lookupCommand s c nm = Some (Some cmd)"
    and buf: "readBuf c = array_text (nm # args) @ rest" "short_args (nm # args)"
    and fl: "flags c AND REDIS_MULTI = 0 \<or> strncasecmp_eq nm ''exec'' 4"
    and plain: "cmd_flags cmd AND CMD_WRITE = 0" "cmd_flags cmd AND (CMD_READ OR CMD_WRITE) = 0"
    and run: "run_proc E (query_fuel E n) (cmd_proc cmd) (put_client s i (c\<lparr>argv := nm # args, argc := int (length (nm # args))\<rparr>)) i = Some s2"
    and s2: "cheap s2 i = Some c2" "0 \<le> fd c2" "fd c2 < maxsize (eventLoop s2)" "ae_ok (eventLoop s2)"
  shows "\<exists>el. query_fuel E (Suc n) s i = Some (put_client s2 i (request_over c2)\<lparr>eventLoop := el\<rparr>)
     \<and> ae_ok el \<and> maxsize el = maxsize (eventLoop s2)"
proof -
  note d = servingD [OF sv]
  define c0 where "c0 = c\<lparr>argv := nm # args, argc := int (length (nm # args))\<rparr>"
  have nf: "nul_free nm" using buf(2) by (simp add: short_args_def)
  have a0: "argv_at c0 0 = Some nm" using nf by (simp add: c0_def argv_at_def load_def takeWhile_nul_free)
  have "lookupCommand (put_client s i c0) c0 nm = Some (Some cmd)"
    using lookup d(1) by (simp add: lookupCommand_find commands_loaded_def put_client_def isSupportedCmd_def c0_def)
  then have "processCommand E (query_fuel E n) (put_client s i c0) i = Some (put_client s2 i (request_over c2))"
    using a0 plain run [folded c0_def] s2(1)
    by (simp add: processCommand_def append_aof_def expire_accessed_def after_write_def finish_command_def upd_client_def
        put_client_def request_over_def)
  moreover have "\<exists>el. rest_of_query E (Some (put_client s2 i (request_over c2))) i
        = Some (put_client s2 i (request_over c2)\<lparr>eventLoop := el\<rparr>) \<and> ae_ok el \<and> maxsize el = maxsize (eventLoop s2)"
    using rest_of_query_ok [of "put_client s2 i (request_over c2)" E "request_over c2" i] s2 d(3)
    by (simp add: put_client_def)
  ultimately show ?thesis using query_executes [OF d(4) buf fl] by (simp add: c0_def)
qed


section \<open>Sessions\<close>

text \<open>
  One request after another arriving in the client's empty read buffer, which is what
  \<open>readFromClient\<close> makes of a sequence of reads.
\<close>

definition deliver :: "env \<Rightarrow> redisServer \<Rightarrow> cid \<Rightarrow> bytes \<Rightarrow> redisServer option" where
  "deliver E s i req = do { s1 \<leftarrow> upd_client s i (\<lambda>c. c\<lparr>readBuf := req\<rparr>); processClientQueryBuf E s1 i }"

fun deliver_all :: "env \<Rightarrow> redisServer \<Rightarrow> cid \<Rightarrow> bytes list \<Rightarrow> redisServer option" where
  "deliver_all E s i [] = Some s"
| "deliver_all E s i (r # rs) = do { s1 \<leftarrow> deliver E s i r; deliver_all E s1 i rs }"

lemma deliver_all_append:
  "deliver_all E s i (as @ bs) = Option.bind (deliver_all E s i as) (\<lambda>s1. deliver_all E s1 i bs)"
  by (induction as arbitrary: s) (auto split: Option.bind_splits)

text \<open>A server that differs in one client and in the event loop only.\<close>

definition with_client :: "redisServer \<Rightarrow> cid \<Rightarrow> redisClient \<Rightarrow> (handler, cron, cid) aeEventLoop \<Rightarrow> redisServer" where
  "with_client s i c el = s\<lparr>cheap := (cheap s)(i \<mapsto> c), eventLoop := el\<rparr>"

definition loop_ok :: "redisServer \<Rightarrow> (handler, cron, cid) aeEventLoop \<Rightarrow> bool" where
  "loop_ok s el \<longleftrightarrow> ae_ok el \<and> maxsize el = maxsize (eventLoop s)"

lemma with_client_fields [simp]:
  "cheap (with_client s i c el) = (cheap s)(i \<mapsto> c)" "eventLoop (with_client s i c el) = el"
  "commands (with_client s i c el) = commands s" "clients (with_client s i c el) = clients s"
  "dbs (with_client s i c el) = dbs s" "server_flags (with_client s i c el) = server_flags s"
  "aofOn (with_client s i c el) = aofOn s" "dirty (with_client s i c el) = dirty s"
  "last_offset (with_client s i c el) = last_offset s" "begin_offset (with_client s i c el) = begin_offset s"
  "repli_buffer (with_client s i c el) = repli_buffer s" "unixtime (with_client s i c el) = unixtime s"
  "active_buf (with_client s i c el) = active_buf s" "master (with_client s i c el) = master s"
  by (simp_all add: with_client_def)

lemma with_client_again [simp]:
  "with_client (with_client s i c el) i c' el' = with_client s i c' el'"
  "put_client (with_client s i c el) i c' = with_client s i c' el"
  "with_client s i c el\<lparr>eventLoop := el'\<rparr> = with_client s i c el'"
  "loop_ok (with_client s i c el) el' \<longleftrightarrow> ae_ok el' \<and> maxsize el' = maxsize el"
  by (simp_all add: with_client_def put_client_def loop_ok_def)

lemma put_client_with: "put_client s i c = with_client s i c (eventLoop s)"
  by (simp add: with_client_def put_client_def)

lemma links_ok_with:
  assumes "links_ok s" "loop_ok s el" "0 \<le> fd c" "fd c < maxsize (eventLoop s)"
  shows "links_ok (with_client s i c el)"
  using assms by (auto simp: links_ok_def loop_ok_def client_ok_def)

lemma serving_with:
  assumes "serving E s i c" "loop_ok s el" "fd c' = fd c"
  shows "serving E (with_client s i c' el) i c'"
  using assms links_ok_with [of s el c'] by (auto simp: serving_def loop_ok_def commands_loaded_def)

lemma ready_with:
  assumes "serving E s i c" "backlog_ok s" "loop_ok s el" "fd c' = fd c" "flags c' = REDIS_CLIENT_NORMAL \<or> flags c' = 0"
    "load (dbs s) (cdb c') = Some db" "db_good db"
  shows "ready E (with_client s i c' el) i c' db"
  using serving_with [OF assms(1,3,4)] assms(2-) by (auto simp: ready_def serving_def backlog_ok_def)

lemma deliver_client:
  assumes "cheap s i = Some c"
  shows "deliver E s i req = processClientQueryBuf E (with_client s i (c\<lparr>readBuf := req\<rparr>) (eventLoop s)) i"
  using assms by (simp add: deliver_def upd_client_def put_client_with)

lemma serving_deliver:
  assumes "serving E s i c"
  shows "serving E (with_client s i (c\<lparr>readBuf := req\<rparr>) (eventLoop s)) i (c\<lparr>readBuf := req\<rparr>)"
  using assms servingD(2) [OF assms] by (intro serving_with) (auto simp: loop_ok_def)

lemma deliver_two: "processClientQueryBuf E s i = query_fuel E (Suc 1) s i"
  by (simp add: processClientQueryBuf_def numeral_2_eq_2)

section \<open>The queue\<close>

text \<open>The names the table is searched for.\<close>

lemma exec_names: "strncasecmp_eq ''EXEC'' ''exec'' 4" "\<not> strncasecmp_eq ''MULTI'' ''exec'' 4"
  "\<not> strncasecmp_eq ''SET'' ''exec'' 4"
  by (simp_all add: strncasecmp_eq_def, code_simp+)

lemma short_command: "short_args [''EXEC'']" "short_args [''MULTI'']"
proof -
  have "length (array_text [''EXEC'']) \<le> 1024" "length (array_text [''MULTI'']) \<le> 1024" by code_simp+
  then show "short_args [''EXEC'']" "short_args [''MULTI'']" by (simp_all add: short_args_def)
qed

lemma flag_algebra:
  "(REDIS_CLIENT_NORMAL OR REDIS_MULTI) AND REDIS_MULTI \<noteq> 0"
  "((REDIS_CLIENT_NORMAL OR REDIS_MULTI) AND NOT REDIS_MULTI OR REDIS_EXEC) AND REDIS_DIRTY_CAS = 0"
  "REDIS_DIRTY_CAS AND NOT REDIS_EXEC = REDIS_DIRTY_CAS" "REDIS_DIRTY_CAS \<noteq> 0"
  "(0 :: cint) OR REDIS_MULTI = REDIS_MULTI" "REDIS_MULTI AND REDIS_MULTI \<noteq> 0"
  by (simp_all add: client_flags)

lemma flag_bits:
  "bit REDIS_DIRTY_CAS n \<longleftrightarrow> n = 7" "bit REDIS_EXEC n \<longleftrightarrow> n = 6" "bit REDIS_MULTI n \<longleftrightarrow> n = 5"
proof -
  have p: "bit (push_bit k (1 :: cint)) n \<longleftrightarrow> n = k \<and> k < 32" for k
    by (auto simp: bit_simps)
  show "bit REDIS_DIRTY_CAS n \<longleftrightarrow> n = 7" "bit REDIS_EXEC n \<longleftrightarrow> n = 6" "bit REDIS_MULTI n \<longleftrightarrow> n = 5"
    using p [of 7] p [of 6] p [of 5] by (simp_all add: client_flags)
qed

lemma exec_flags: "((fl AND NOT REDIS_MULTI) OR REDIS_EXEC) AND REDIS_DIRTY_CAS = fl AND REDIS_DIRTY_CAS"
  by (rule bit_word_eqI) (auto simp: bit_simps flag_bits)

lemma dirty_flags:
  assumes "fl AND REDIS_DIRTY_CAS \<noteq> 0"
  shows "fl AND REDIS_DIRTY_CAS = REDIS_DIRTY_CAS"
proof -
  have "bit fl 7"
  proof (rule ccontr)
    assume "\<not> bit fl 7"
    then have "fl AND REDIS_DIRTY_CAS = 0" by (intro bit_word_eqI) (auto simp: bit_simps flag_bits)
    with assms show False by simp
  qed
  then show ?thesis by (intro bit_word_eqI) (auto simp: bit_simps flag_bits)
qed

section \<open>Access control\<close>

lemma lookup_cases:
  assumes "commands_loaded s"
  shows "lookupCommand s c nm = Some (case table_entry nm of None \<Rightarrow> None
    | Some cmd \<Rightarrow> if isSupportedCmd s c cmd then Some cmd else None)"
proof -
  let ?P = "\<lambda>cmd. isSupportedCmd s c cmd \<and> strcasecmp_eq (cmd_name cmd) nm"
  have unique: "x = y" if "x \<in> set commandsTable" "y \<in> set commandsTable" "strcasecmp_eq (cmd_name x) nm"
      "strcasecmp_eq (cmd_name y) nm" for x y
  proof -
    have "inj_on (\<lambda>cmd. map tolower (cmd_name cmd)) (set commandsTable)"
      using command_names by (simp only: distinct_map)
    from inj_onD [OF this] show ?thesis using that by (simp add: strcasecmp_eq_def)
  qed
  show ?thesis
  proof (cases "table_entry nm")
    case None
    then have "find ?P commandsTable = None" by (auto simp: table_entry_def find_None_iff)
    with None show ?thesis by (simp add: lookupCommand_find [OF assms])
  next
    case (Some cmd)
    then have cmd: "cmd \<in> set commandsTable" "strcasecmp_eq (cmd_name cmd) nm"
      by (auto simp: table_entry_def find_Some_iff)
    show ?thesis
    proof (cases "find ?P commandsTable")
      case None
      then have "\<not> ?P cmd" using cmd(1) by (simp add: find_None_iff)
      with None Some cmd(2) show ?thesis by (simp add: lookupCommand_find [OF assms])
    next
      case (Some x)
      then have "x \<in> set commandsTable" "?P x" by (auto simp: find_Some_iff)
      then have "x = cmd" using unique cmd by blast
      with Some \<open>?P x\<close> \<open>table_entry nm = Some cmd\<close> show ?thesis by (simp add: lookupCommand_find [OF assms])
    qed
  qed
qed

lemma lookup_same:
  assumes "commands_loaded s" "commands s' = commands s" "server_flags s' = server_flags s" "flags c' = flags c"
  shows "lookupCommand s' c' nm = lookupCommand s c nm"
proof -
  have "isSupportedCmd s' c' = isSupportedCmd s c" using assms(3,4) by (simp add: fun_eq_iff isSupportedCmd_def)
  then show ?thesis using assms(1,2) by (cases "table_entry nm") (simp_all add: lookup_cases commands_loaded_def)
qed

lemma lookup_plain:
  assumes "commands_loaded s" "table_entry nm = Some cmd" "cmd_flags cmd AND CMD_WRITE = 0"
  shows "lookupCommand s c nm = Some (Some cmd)"
  using assms by (simp add: lookup_cases isSupportedCmd_def)

section \<open>EXEC\<close>

lemma exec_lookup: "commands_loaded s \<Longrightarrow> lookupCommand s c ''EXEC'' = Some (Some (commandsTable ! 16))"
  by (rule lookup_plain) (simp_all add: table_entries table_procs client_flag_tests)

text \<open>An \<open>EXEC\<close> request is what its procedure makes of the server.\<close>

lemma exec_request:
  assumes sv: "serving E s i c" and buf: "readBuf c = array_text [''EXEC''] @ rest"
    and run: "exec_proc (query_fuel E n) (put_client s i (c\<lparr>argv := [''EXEC''], argc := 1\<rparr>)) i = Some s2"
    and s2: "cheap s2 i = Some c2" "0 \<le> fd c2" "fd c2 < maxsize (eventLoop s2)" "ae_ok (eventLoop s2)"
  shows "\<exists>el. query_fuel E (Suc n) s i = Some (put_client s2 i (request_over c2)\<lparr>eventLoop := el\<rparr>)
     \<and> ae_ok el \<and> maxsize el = maxsize (eventLoop s2)"
  using servingD(1) [OF sv] run
  by (intro plain_request [OF sv exec_lookup buf _ _ _ _ _ s2])
     (simp_all add: short_command exec_names table_procs client_flag_tests run_proc_def)

lemma bulk_reply: "nul_free m \<Longrightarrow> length m \<le> 1000 \<Longrightarrow> reply_bulk s i m = reply s i (bulk_text m)"
  by (simp add: reply_bulk_def encode_bulk)

section \<open>MULTI and the queue\<close>

lemma multi_step:
  assumes sv: "serving E s i c" and fl: "flags c AND REDIS_MULTI = 0" and buf: "readBuf c = array_text [''MULTI'']"
  shows "\<exists>el. query_fuel E (Suc n) s i
    = Some (with_client s i (request_over (addWrite (c\<lparr>flags := flags c OR REDIS_MULTI\<rparr>) resp_ok)) el) \<and> loop_ok s el"
proof -
  let ?s1 = "with_client s i (c\<lparr>argv := [''MULTI''], argc := 1\<rparr>) (eventLoop s)"
  let ?c2 = "addWrite (c\<lparr>argv := [''MULTI''], argc := 1, flags := flags c OR REDIS_MULTI\<rparr>) resp_ok"
  have run: "multi_proc ?s1 i = Some (with_client s i ?c2 (eventLoop s))"
    by (simp add: multi_proc_def upd_client_def reply_def)
  have lookup: "lookupCommand s c ''MULTI'' = Some (Some (commandsTable ! 15))"
    using servingD(1) [OF sv] by (rule lookup_plain) (simp_all add: table_entries table_procs client_flag_tests)
  have "\<exists>el. query_fuel E (Suc n) s i = Some (put_client (with_client s i ?c2 (eventLoop s)) i (request_over ?c2)\<lparr>eventLoop := el\<rparr>)
      \<and> ae_ok el \<and> maxsize el = maxsize (eventLoop (with_client s i ?c2 (eventLoop s)))"
    using run servingD [OF sv] fl buf
    by (intro plain_request [OF sv lookup, where args = "[]" and rest = "[]"])
       (simp_all add: short_command table_procs client_flag_tests run_proc_def addWrite_def put_client_with)
  then obtain el where el: "query_fuel E (Suc n) s i = Some (with_client s i (request_over ?c2) el)" "loop_ok s el"
    by (auto simp: loop_ok_def)
  moreover have "request_over ?c2 = request_over (addWrite (c\<lparr>flags := flags c OR REDIS_MULTI\<rparr>) resp_ok)"
    by (simp add: request_over_def addWrite_def)
  ultimately show ?thesis by auto
qed

lemma multi_request:
  assumes sv: "serving E s i c" and fl: "flags c AND REDIS_MULTI = 0"
  shows "\<exists>el c'. deliver E s i (array_text [''MULTI'']) = Some (with_client s i c' el) \<and> loop_ok s el
    \<and> c' = request_over (addWrite (c\<lparr>flags := flags c OR REDIS_MULTI\<rparr>) resp_ok)"
proof -
  let ?c0 = "c\<lparr>readBuf := array_text [''MULTI'']\<rparr>"
  have "request_over (addWrite (?c0\<lparr>flags := flags c OR REDIS_MULTI\<rparr>) resp_ok)
      = request_over (addWrite (c\<lparr>flags := flags c OR REDIS_MULTI\<rparr>) resp_ok)"
    by (simp add: request_over_def addWrite_def)
  then show ?thesis
    using multi_step [OF serving_deliver [OF sv, of "array_text [''MULTI'']"], of 1] fl servingD(4) [OF sv]
    by (auto simp: deliver_client deliver_two loop_ok_def)
qed

text \<open>In a transaction a request goes to the queue, whatever it is; only the name \<open>EXEC\<close> is looked at.\<close>

lemma queue_step:
  assumes sv: "serving E s i c" and fl: "flags c AND REDIS_MULTI \<noteq> 0" and buf: "readBuf c = array_text (nm # args)"
    and req: "short_args (nm # args)" "\<not> strncasecmp_eq nm ''exec'' 4"
    and n: "multiCmdCount c = int n" "n < length (multcmds c)"
  shows "\<exists>el. query_fuel E (Suc m) s i = Some (with_client s i
      (addWrite (c\<lparr>multcmds := (multcmds c)[n := readBuf c], readBuf := [], multiCmdCount := int (Suc n)\<rparr>)
        (bulk_text ''queued'')) el) \<and> loop_ok s el"
proof -
  let ?c1 = "c\<lparr>multcmds := (multcmds c)[n := readBuf c], readBuf := [], multiCmdCount := int (Suc n)\<rparr>"
  let ?c2 = "addWrite ?c1 (bulk_text ''queued'')"
  have "nul_free nm" using req(1) by (simp add: short_args_def)
  have "clientMultiAdd c = Some ?c1"
    using n by (simp add: clientMultiAdd_def store_def)
  moreover have "reply_bulk (with_client s i ?c1 (eventLoop s)) i ''queued'' = Some (with_client s i ?c2 (eventLoop s))"
    by (simp add: bulk_reply reply_def upd_client_def)
  ultimately have "query_fuel E (Suc m) s i = rest_of_query E (Some (with_client s i ?c2 (eventLoop s))) i"
    using short_args_decode [OF req(1), of "[]" "e_room E"] fl req(2) \<open>nul_free nm\<close> servingD(4) [OF sv] buf
    by (auto simp: query_fuel.simps Let_def rest_of_query_def load_def takeWhile_nul_free put_client_with)
  moreover have "\<exists>el. rest_of_query E (Some (with_client s i ?c2 (eventLoop s))) i
      = Some (with_client s i ?c2 (eventLoop s)\<lparr>eventLoop := el\<rparr>) \<and> ae_ok el \<and> maxsize el = maxsize (eventLoop s)"
    using rest_of_query_ok [of "with_client s i ?c2 (eventLoop s)" E ?c2 i] servingD [OF sv]
    by (simp add: addWrite_def)
  ultimately show ?thesis by (auto simp: loop_ok_def)
qed

lemma queue_request:
  assumes sv: "serving E s i c" and fl: "flags c AND REDIS_MULTI \<noteq> 0"
    and req: "short_args (nm # args)" "\<not> strncasecmp_eq nm ''exec'' 4"
    and n: "multiCmdCount c = int n" "n < length (multcmds c)"
  shows "\<exists>el c'. deliver E s i (array_text (nm # args)) = Some (with_client s i c' el) \<and> loop_ok s el
    \<and> c' = addWrite (c\<lparr>multcmds := (multcmds c)[n := array_text (nm # args)], readBuf := [], multiCmdCount := int (Suc n)\<rparr>)
        (bulk_text ''queued'')"
proof -
  let ?c0 = "c\<lparr>readBuf := array_text (nm # args)\<rparr>"
  have "?c0\<lparr>multcmds := (multcmds c)[n := array_text (nm # args)], readBuf := [], multiCmdCount := int (Suc n)\<rparr>
      = c\<lparr>multcmds := (multcmds c)[n := array_text (nm # args)], readBuf := [], multiCmdCount := int (Suc n)\<rparr>" by simp
  then show ?thesis
    using queue_step [OF serving_deliver [OF sv, of "array_text (nm # args)"] _ _ req, of n 1] fl n servingD(4) [OF sv]
    by (auto simp: deliver_client deliver_two loop_ok_def)
qed

text \<open>A whole transaction of requests goes into consecutive slots.\<close>

lemma queue_all:
  assumes "serving E s i c" "flags c AND REDIS_MULTI \<noteq> 0" "multiCmdCount c = int n" "n + length reqs \<le> length (multcmds c)"
    "\<forall>(nm, args) \<in> set reqs. short_args (nm # args) \<and> \<not> strncasecmp_eq nm ''exec'' 4"
  shows "\<exists>el c'. deliver_all E s i (map (\<lambda>(nm, args). array_text (nm # args)) reqs) = Some (with_client s i c' el)
    \<and> loop_ok s el \<and> c' = c\<lparr>readBuf := readBuf c', writeBuf := writeBuf c @ concat (replicate (length reqs) (bulk_text ''queued'')),
         multcmds := take n (multcmds c) @ map (\<lambda>(nm, args). array_text (nm # args)) reqs @ drop (n + length reqs) (multcmds c),
         multiCmdCount := int (n + length reqs)\<rparr>"
  using assms
proof (induction reqs arbitrary: s c n)
  case Nil
  then show ?case using servingD(2,4) [OF Nil.prems(1)]
    by (intro exI [of _ "eventLoop s"] exI [of _ c]) (simp add: with_client_def loop_ok_def fun_upd_idem)
next
  case (Cons req reqs)
  obtain nm args where req: "req = (nm, args)" by fastforce
  define q where "q = (\<lambda>(nm, args). array_text (nm # args)) req"
  define c1 where "c1 = addWrite (c\<lparr>multcmds := (multcmds c)[n := q], readBuf := [], multiCmdCount := int (Suc n)\<rparr>)
        (bulk_text ''queued'')"
  obtain el1 where 1: "deliver E s i q = Some (with_client s i c1 el1)" "loop_ok s el1"
    using queue_request [OF Cons.prems(1,2), of nm args n] Cons.prems(3-5) req
    unfolding c1_def q_def by auto
  have c1: "fd c1 = fd c" "flags c1 = flags c" "multiCmdCount c1 = int (Suc n)" "length (multcmds c1) = length (multcmds c)"
    by (simp_all add: c1_def addWrite_def)
  have slots: "take (Suc n) (multcmds c1) = take n (multcmds c) @ [q]"
      "drop (Suc n + length reqs) (multcmds c1) = drop (Suc n + length reqs) (multcmds c)"
    using Cons.prems(4) by (simp_all add: c1_def addWrite_def take_Suc_conv_app_nth drop_update_cancel)
  have sv1: "serving E (with_client s i c1 el1) i c1" using Cons.prems(1) 1(2) c1(1) by (rule serving_with)
  from Cons.IH [OF sv1, of "Suc n"] c1 Cons.prems(2,4,5) obtain el c' where
    2: "deliver_all E (with_client s i c1 el1) i (map (\<lambda>(nm, args). array_text (nm # args)) reqs)
        = Some (with_client s i c' el)" "ae_ok el" "maxsize el = maxsize el1"
      "c' = c1\<lparr>readBuf := readBuf c', writeBuf := writeBuf c1 @ concat (replicate (length reqs) (bulk_text ''queued'')),
         multcmds := take (Suc n) (multcmds c1) @ map (\<lambda>(nm, args). array_text (nm # args)) reqs
            @ drop (Suc n + length reqs) (multcmds c1),
         multiCmdCount := int (Suc n + length reqs)\<rparr>"
    by auto
  have "c' = c\<lparr>readBuf := readBuf c', writeBuf := writeBuf c @ concat (replicate (length (req # reqs)) (bulk_text ''queued'')),
         multcmds := take n (multcmds c) @ map (\<lambda>(nm, args). array_text (nm # args)) (req # reqs)
            @ drop (n + length (req # reqs)) (multcmds c),
         multiCmdCount := int (n + length (req # reqs))\<rparr>"
    using 2(4) unfolding slots by (subst 2(4)) (simp add: c1_def addWrite_def q_def)
  with 1 2(1-3) show ?case by (intro exI [of _ el] exI [of _ c']) (simp add: q_def loop_ok_def)
qed

section \<open>Running the queue\<close>

definition set_text :: "bytes \<times> bytes \<Rightarrow> bytes" where
  "set_text w = array_text [''SET'', fst w, snd w]"

text \<open>The specification: the stored values after a sequence of writes.\<close>

definition writes :: "(bytes \<times> bytes) list \<Rightarrow> (bytes \<Rightarrow> robj option) \<Rightarrow> bytes \<Rightarrow> robj option" where
  "writes kvs m = foldl (\<lambda>m (k, v). m(k := robjCreateStringObject v)) m kvs"

lemma writes_simps [simp]: "writes [] m = m" "writes ((k, v) # kvs) m = writes kvs (m(k := robjCreateStringObject v))"
  by (simp_all add: writes_def)

lemma writes_cong:
  "(\<And>k. nul_free k \<Longrightarrow> m k = m' k) \<Longrightarrow> nul_free x \<Longrightarrow> writes kvs m x = writes kvs m' x"
proof (induction kvs arbitrary: m m')
  case (Cons w kvs)
  obtain k v where w: "w = (k, v)" by fastforce
  have "writes kvs (m(k := robjCreateStringObject v)) x = writes kvs (m'(k := robjCreateStringObject v)) x"
    by (rule Cons.IH) (use Cons.prems in auto)
  then show ?case by (simp add: w)
qed simp

text \<open>What a request to write needs of the database.\<close>

definition writable :: "env \<Rightarrow> redisDb \<Rightarrow> bytes \<times> bytes \<Rightarrow> bool" where
  "writable E db w \<longleftrightarrow> short_args [''SET'', fst w, snd w] \<and> fresh_key E db (fst w) \<and> watch_map db (fst w) = None"

lemma writable_object: "writable E db (k, v) \<Longrightarrow> \<exists>obj. robjCreateStringObject v = Some obj"
  using string_object_value [of v] by (auto simp: writable_def short_args_def)

lemma writable_text: "writable E db w \<Longrightarrow> nul_free (set_text w)"
  using nul_free_array [of "[''SET'', fst w, snd w]"] by (simp add: writable_def short_args_def set_text_def)

lemma writable_update:
  assumes "dict_map key_canon e = dict_map key_canon (expires db)"
  shows "writable E (db\<lparr>expires := e, kv := d\<rparr>) = writable E db"
proof
  fix w
  show "writable E (db\<lparr>expires := e, kv := d\<rparr>) w = writable E db w"
    unfolding writable_def fresh_key_def watch_map_def expires_map_def expire_at_def by (simp add: assms)
qed

lemma feed_append:
  assumes "nul_free a" "nul_free b"
  shows "feed_all b is (feed_all a is h) = feed_all (a @ b) is h"
proof -
  have "feed b (feed a c) = feed (a @ b) c" for c
    using assms by (simp add: feed_def addWrite_def takeWhile_nul_free)
  then show ?thesis by (auto simp: feed_all_def fun_eq_iff option.map_comp o_def)
qed

lemma feed_nothing: "feed_all [] is h = h"
proof -
  have "map_option (feed []) x = x" for x by (cases x) (simp_all add: feed_def addWrite_def)
  note idle = this
  show ?thesis by (rule ext) (simp add: feed_all_def idle)
qed

lemma feed_all_elsewhere: "(\<And>j. j \<noteq> i \<Longrightarrow> h j = h' j) \<Longrightarrow> j \<noteq> i \<Longrightarrow> feed_all b is h j = feed_all b is h' j"
  by (simp add: feed_all_def)

lemma ready_put:
  assumes "ready E s i c db" "fd c' = fd c" "flags c' = flags c" "cdb c' = cdb c"
  shows "ready E (put_client s i c') i c' db"
  using ready_with [OF ready_serving [OF assms(1)], of "eventLoop s" c' db] readyD [OF assms(1)] assms
  by (auto simp: put_client_with loop_ok_def links_ok_def ready_def)

lemma exec_loop_sets:
  assumes "ready E s i c db" "server_flags s AND REDIS_CLUSTER_MASTER \<noteq> 0" "server_flags s AND REDIS_CLUSTER_SLAVE = 0" "\<not> aofOn s"
    "\<forall>w \<in> set ws. writable E db w" "multiCmdCount c = int (n + length ws)" "n + length ws \<le> length (multcmds c)"
    "take (length ws) (drop n (multcmds c)) = map set_text ws" "length ws < fuel"
  shows "\<exists>s' c' db'. exec_loop (query_fuel E (Suc m)) fuel n s i = Some s' \<and> ready E s' i c' db' \<and> cdb c' = cdb c \<and> fd c' = fd c
    \<and> writeBuf c' = writeBuf c @ concat (replicate (length ws) resp_ok)
    \<and> (\<forall>k. nul_free k \<longrightarrow> kv_value db' k = writes ws (kv_value db) k)
    \<and> (\<forall>j. j \<noteq> i \<longrightarrow> cheap s' j = feed_all (concat (map set_text ws)) (clients s) (cheap s) j)
    \<and> dirty s' = dirty s + int (length ws) \<and> flags c' = flags c \<and> clients s' = clients s"
  using assms
proof (induction ws arbitrary: s c db n fuel)
  case Nil
  then obtain f where "fuel = Suc f" by (cases fuel) auto
  with Nil show ?case using readyD(5) [OF Nil.prems(1)]
    by (intro exI [of _ s] exI [of _ c] exI [of _ db]) (simp add: feed_nothing)
next
  case (Cons w ws)
  obtain key val where w: "w = (key, val)" by fastforce
  obtain f where f: "fuel = Suc f" "length ws < f" using Cons.prems(9) by (cases fuel) auto
  note d = readyD [OF Cons.prems(1)]
  have wr: "short_args [''SET'', key, val]" "fresh_key E db key" "watch_map db key = None"
    using Cons.prems(5) w by (simp_all add: writable_def)
  obtain obj where obj: "robjCreateStringObject val = Some obj" using writable_object [of E db key val] Cons.prems(5) w by auto
  have n: "n < length (multcmds c)" "multcmds c ! n = set_text w"
    "take (length ws) (drop (Suc n) (multcmds c)) = map set_text ws"
    using Cons.prems(7,8) by (auto simp: Cons_nth_drop_Suc [symmetric] simp del: Cons_nth_drop_Suc)
  define c0 where "c0 = c\<lparr>readBuf := set_text w, multcmds := (multcmds c)[n := []]\<rparr>"
  have r0: "ready E (put_client s i c0) i c0 db" by (rule ready_put [OF Cons.prems(1)]) (simp_all add: c0_def)
  have buf: "readBuf c0 = array_text [''SET'', key, val] @ []" by (simp add: c0_def set_text_def w)
  have len: "length (readBuf c0) \<le> 1024" using wr(1) buf by (simp add: short_args_def)
  obtain s1 k e where q: "query_fuel E (Suc m) (put_client s i c0) i = Some s1"
      "dict_map key_canon k = (dict_map key_canon (kv db))(key_canon key \<mapsto> Some obj)"
      "dict_map key_canon e = dict_map key_canon (expires db)"
      "cheap s1 i = Some (request_over (addWrite c0 resp_ok))"
      "\<forall>j. j \<noteq> i \<longrightarrow> cheap s1 j = feed_all (readBuf c0) (clients s) (cheap (put_client s i c0)) j"
      "dirty s1 = dirty s + 1" "ready E s1 i (request_over (addWrite c0 resp_ok)) (db\<lparr>expires := e, kv := k\<rparr>)"
      "server_flags s1 = server_flags s" "clients s1 = clients s" "aofOn s1 = aofOn s"
    using set_request_spec [OF r0 _ _ buf wr(1) len wr(2,3) obj, of m] Cons.prems(2,3,4)
    by (auto simp: handed_on_def put_client_def request_over_def)
  define c1 where "c1 = request_over (addWrite c0 resp_ok)"
  define db1 where "db1 = db\<lparr>expires := e, kv := k\<rparr>"
  have mc1: "multcmds c1 = (multcmds c)[n := []]" "writeBuf c1 = writeBuf c @ resp_ok" "flags c1 = flags c" "cdb c1 = cdb c"
    "fd c1 = fd c" "multiCmdCount c1 = int (Suc n + length ws)"
    using Cons.prems(6) by (simp_all add: c1_def c0_def addWrite_def)
  have "c1\<lparr>multcmds := (multcmds c)[n := []]\<rparr> = c1" by (simp flip: mc1(1))
  note same = this
  have step: "exec_loop (query_fuel E (Suc m)) fuel n s i = exec_loop (query_fuel E (Suc m)) f (Suc n) (put_client s1 i c1) i"
    using d(5) n q(1,4) Cons.prems(6) f(1) mc1(1)
    by (simp add: load_def store_def c0_def [symmetric] c1_def [symmetric] same)
  have r1: "ready E (put_client s1 i c1) i c1 db1"
    using ready_put [OF q(7)] by (simp add: c1_def db1_def)
  have "\<exists>s' c' db'. exec_loop (query_fuel E (Suc m)) f (Suc n) (put_client s1 i c1) i = Some s' \<and> ready E s' i c' db' \<and> cdb c' = cdb c1 \<and> fd c' = fd c1
    \<and> writeBuf c' = writeBuf c1 @ concat (replicate (length ws) resp_ok)
    \<and> (\<forall>k. nul_free k \<longrightarrow> kv_value db' k = writes ws (kv_value db1) k)
    \<and> (\<forall>j. j \<noteq> i \<longrightarrow> cheap s' j = feed_all (concat (map set_text ws)) (clients (put_client s1 i c1)) (cheap (put_client s1 i c1)) j)
    \<and> dirty s' = dirty (put_client s1 i c1) + int (length ws) \<and> flags c' = flags c1 \<and> clients s' = clients (put_client s1 i c1)"
    using Cons.prems(2-7) q(8-10) f(2) n mc1
    by (intro Cons.IH [OF r1]) (simp_all add: put_client_def db1_def writable_update [OF q(3)])
  then obtain s' c' db' where ih: "exec_loop (query_fuel E (Suc m)) f (Suc n) (put_client s1 i c1) i = Some s'" "ready E s' i c' db'"
    "cdb c' = cdb c1" "fd c' = fd c1" "writeBuf c' = writeBuf c1 @ concat (replicate (length ws) resp_ok)"
    "\<forall>k. nul_free k \<longrightarrow> kv_value db' k = writes ws (kv_value db1) k"
    "\<forall>j. j \<noteq> i \<longrightarrow> cheap s' j = feed_all (concat (map set_text ws)) (clients s1) (cheap s1) j"
    "dirty s' = dirty s1 + int (length ws)" "flags c' = flags c1" "clients s' = clients s1"
    by (auto simp: put_client_def feed_all_def)
  have nf: "nul_free key" using wr(1) by (simp add: short_args_def)
  have vals: "kv_value db' k' = writes (w # ws) (kv_value db) k'" if "nul_free k'" for k'
  proof -
    have "kv_value db1 x = ((kv_value db)(key := robjCreateStringObject val)) x" if "nul_free x" for x
      using kv_value_put [OF q(2) nf that, of e] obj by (simp add: db1_def)
    then have "writes ws (kv_value db1) k' = writes ws ((kv_value db)(key := robjCreateStringObject val)) k'"
      by (rule writes_cong) (use that in auto)
    then show ?thesis using ih(6) that by (simp add: w)
  qed
  have "feed_all (concat (map set_text ws)) (clients s1) (cheap s1) j = feed_all (concat (map set_text (w # ws))) (clients s) (cheap s) j"
    if "j \<noteq> i" for j
  proof -
    have nfs: "\<forall>x \<in> set (w # ws). nul_free (set_text x)" using Cons.prems(5) writable_text by blast
    have "feed_all (concat (map set_text ws)) (clients s1) (cheap s1) j
        = feed_all (concat (map set_text ws)) (clients s) (feed_all (set_text w) (clients s) (cheap s)) j"
      using q(5,9) that by (simp add: feed_all_def c0_def put_client_def)
    also have "\<dots> = feed_all (set_text w @ concat (map set_text ws)) (clients s) (cheap s) j"
      using nfs by (subst feed_append) (auto simp: nul_free_def)
    finally show ?thesis by simp
  qed
  with ih vals q(6,9) mc1 show ?case unfolding step
    by (intro exI [of _ s'] exI [of _ c'] exI [of _ db']) simp
qed

section \<open>Properties of transactions\<close>

text \<open>The queue of a client whose flags do not include \<open>REDIS_DIRTY_CAS\<close> is run with all flags gone.\<close>

lemma exec_proc_runs:
  assumes "cheap s i = Some c" "flags c AND REDIS_DIRTY_CAS = 0"
    and "exec_loop q 11 0 (put_client s i (c\<lparr>flags := 0\<rparr>)) i = Some s1" "cheap s1 i = Some c1"
  shows "exec_proc q s i = Some (put_client s1 i
     (addWrite c1 (bulk_text ''Exec ok'')\<lparr>flags := flags c1 AND NOT REDIS_EXEC, multiCmdCount := 0\<rparr>))"
  using assms by (simp add: exec_proc_def exec_flags bulk_reply reply_def upd_client_def put_client_def addWrite_def)

text \<open>From \<open>MULTI\<close> to the last queued write.\<close>

lemma transaction_queues:
  assumes "ready E s i c db" "multiCmdCount c = 0" "length (multcmds c) = 10" "length ws \<le> 10" "\<forall>w \<in> set ws. writable E db w"
  shows "\<exists>el c'. deliver_all E s i (array_text [''MULTI''] # map set_text ws) = Some (with_client s i c' el) \<and> loop_ok s el
    \<and> fd c' = fd c \<and> cdb c' = cdb c \<and> flags c' = flags c OR REDIS_MULTI \<and> multiCmdCount c' = int (length ws)
    \<and> take (length ws) (multcmds c') = map set_text ws \<and> length (multcmds c') = 10
    \<and> writeBuf c' = writeBuf c @ resp_ok @ concat (replicate (length ws) (bulk_text ''queued''))"
proof -
  let ?reqs = "map (\<lambda>(k, v). (''SET'', [k, v])) ws"
  have texts: "map (\<lambda>(nm, args). array_text (nm # args)) ?reqs = map set_text ws"
    by (simp add: set_text_def split_beta)
  have sv: "serving E s i c" by (rule ready_serving [OF assms(1)])
  obtain el1 c1 where 1: "deliver E s i (array_text [''MULTI'']) = Some (with_client s i c1 el1)" "loop_ok s el1"
    "c1 = request_over (addWrite (c\<lparr>flags := flags c OR REDIS_MULTI\<rparr>) resp_ok)"
    using multi_request [OF sv readyD(8) [OF assms(1)]] by blast
  have c1: "fd c1 = fd c" "cdb c1 = cdb c" "flags c1 = flags c OR REDIS_MULTI" "multiCmdCount c1 = int 0" "length (multcmds c1) = 10"
    "writeBuf c1 = writeBuf c @ resp_ok"
    using assms(2,3) by (simp_all add: 1(3) addWrite_def)
  have multi: "flags c1 AND REDIS_MULTI \<noteq> 0" using assms(1) c1(3) by (auto simp: ready_def client_flags)
  have sv1: "serving E (with_client s i c1 el1) i c1" by (rule serving_with [OF sv 1(2) c1(1)])
  have "\<forall>(nm, args) \<in> set ?reqs. short_args (nm # args) \<and> \<not> strncasecmp_eq nm ''exec'' 4"
    using assms(5) by (auto simp: writable_def exec_names)
  with queue_all [OF sv1 multi c1(4), of ?reqs] c1(5) assms(4) obtain el2 c2 where
    2: "deliver_all E (with_client s i c1 el1) i (map set_text ws) = Some (with_client s i c2 el2)"
      "ae_ok el2" "maxsize el2 = maxsize el1"
      "c2 = c1\<lparr>readBuf := readBuf c2, writeBuf := writeBuf c1 @ concat (replicate (length ws) (bulk_text ''queued'')),
         multcmds := map set_text ws @ drop (length ws) (multcmds c1), multiCmdCount := int (length ws)\<rparr>"
    unfolding texts by auto
  have c2: "fd c2 = fd c" "cdb c2 = cdb c" "flags c2 = flags c OR REDIS_MULTI" "multiCmdCount c2 = int (length ws)"
    "multcmds c2 = map set_text ws @ drop (length ws) (multcmds c1)"
    "writeBuf c2 = writeBuf c @ resp_ok @ concat (replicate (length ws) (bulk_text ''queued''))"
    by (subst 2(4), simp add: c1)+
  show ?thesis
    by (intro exI [of _ el2] exI [of _ c2]) (use 1(1,2) 2(1-3) c1(5) c2 assms(4) in \<open>simp add: loop_ok_def\<close>)
qed

text \<open>\<open>EXEC\<close> on a queue of writes.\<close>

lemma exec_applies_queue:
  assumes sv: "serving E s i c" and "backlog_ok s" "load (dbs s) (cdb c) = Some db" "db_good db"
    and role: "server_flags s AND REDIS_CLUSTER_MASTER \<noteq> 0" "server_flags s AND REDIS_CLUSTER_SLAVE = 0" "\<not> aofOn s"
    and queue: "flags c AND REDIS_DIRTY_CAS = 0" "multiCmdCount c = int (length ws)" "length (multcmds c) = 10" "length ws \<le> 10"
      "take (length ws) (multcmds c) = map set_text ws" "\<forall>w \<in> set ws. writable E db w"
  shows "\<exists>s' c' db'. deliver E s i (array_text [''EXEC'']) = Some s' \<and> cheap s' i = Some c' \<and> load (dbs s') (cdb c) = Some db'
    \<and> (\<forall>k. nul_free k \<longrightarrow> kv_value db' k = writes ws (kv_value db) k)
    \<and> writeBuf c' = writeBuf c @ concat (replicate (length ws) resp_ok) @ bulk_text ''Exec ok''
    \<and> flags c' = 0 \<and> dirty s' = dirty s + int (length ws)
    \<and> (\<forall>j. j \<noteq> i \<longrightarrow> cheap s' j = feed_all (concat (map set_text ws)) (clients s) (cheap s) j)"
proof -
  define c3 where "c3 = c\<lparr>readBuf := array_text [''EXEC'']\<rparr>"
  define s3 where "s3 = with_client s i c3 (eventLoop s)"
  define c4 where "c4 = c3\<lparr>argv := [''EXEC''], argc := 1, flags := 0\<rparr>"
  define s4 where "s4 = with_client s i c4 (eventLoop s)"
  have sv3: "serving E s3 i c3" using serving_deliver [OF sv] by (simp add: s3_def c3_def)
  have r4: "ready E s4 i c4 db"
    using assms(2-4) servingD(2) [OF sv] unfolding s4_def
    by (intro ready_with [OF sv]) (simp_all add: c4_def c3_def loop_ok_def)
  obtain s5 c5 db5 where 5: "exec_loop (query_fuel E (Suc 0)) 11 0 s4 i = Some s5" "ready E s5 i c5 db5"
     "cdb c5 = cdb c4" "writeBuf c5 = writeBuf c4 @ concat (replicate (length ws) resp_ok)"
     "\<forall>k. nul_free k \<longrightarrow> kv_value db5 k = writes ws (kv_value db) k"
     "\<forall>j. j \<noteq> i \<longrightarrow> cheap s5 j = feed_all (concat (map set_text ws)) (clients s4) (cheap s4) j"
     "dirty s5 = dirty s4 + int (length ws)" "flags c5 = flags c4"
    using exec_loop_sets [OF r4, of ws 0 11 0] role queue by (auto simp: c4_def c3_def s4_def)
  define c6 where "c6 = addWrite c5 (bulk_text ''Exec ok'')\<lparr>flags := 0, multiCmdCount := 0\<rparr>"
  have run: "exec_proc (query_fuel E 1) (put_client s3 i (c3\<lparr>argv := [''EXEC''], argc := 1\<rparr>)) i = Some (put_client s5 i c6)"
    using exec_proc_runs [of "with_client s i (c3\<lparr>argv := [''EXEC''], argc := 1\<rparr>) (eventLoop s)" i _ "query_fuel E 1" s5 c5]
      5(1,8) readyD(5) [OF 5(2)] queue(1) by (simp add: c6_def c4_def c3_def s4_def s3_def)
  have "\<exists>el. query_fuel E (Suc 1) s3 i = Some (put_client (put_client s5 i c6) i (request_over c6)\<lparr>eventLoop := el\<rparr>)
     \<and> ae_ok el \<and> maxsize el = maxsize (eventLoop (put_client s5 i c6))"
    by (rule exec_request [OF sv3 _ run, of "[]"])
      (use readyD(2,6,7) [OF 5(2)] in \<open>auto simp: c3_def c6_def put_client_def addWrite_def links_ok_def\<close>)
  then obtain el6 where q: "query_fuel E (Suc 1) s3 i = Some (with_client s5 i (request_over c6) el6)"
    by (auto simp: put_client_with)
  show ?thesis
  proof (intro exI conjI)
    show "deliver E s i (array_text [''EXEC'']) = Some (with_client s5 i (request_over c6) el6)"
      using q servingD(4) [OF sv] by (simp add: deliver_client deliver_two c3_def s3_def)
    show "cheap (with_client s5 i (request_over c6) el6) i = Some (request_over c6)" by simp
    show "load (dbs (with_client s5 i (request_over c6) el6)) (cdb c) = Some db5"
      using readyD(9) [OF 5(2)] 5(3) by (simp add: c4_def c3_def)
    show "\<forall>j. j \<noteq> i \<longrightarrow> cheap (with_client s5 i (request_over c6) el6) j = feed_all (concat (map set_text ws)) (clients s) (cheap s) j"
      using 5(6) by (simp add: s4_def feed_all_def)
  qed (use 5 in \<open>simp_all add: c6_def c4_def c3_def s4_def addWrite_def\<close>)
qed


lemma demo_writable: "writable demo_env (dbInit 0) (''k'', ''v'')" "writable demo_env (dbInit 0) (''k'', ''w'')"
proof -
  have "length (array_text [''SET'', ''k'', ''w'']) \<le> 1024" by code_simp
  then show "writable demo_env (dbInit 0) (''k'', ''v'')" "writable demo_env (dbInit 0) (''k'', ''w'')"
    using demo_set(1) by (simp_all add: writable_def short_args_def dbInit_good)
qed

lemma demo_queue: "multiCmdCount (demo_client\<lparr>readBuf := r\<rparr>) = 0" "length (multcmds (demo_client\<lparr>readBuf := r\<rparr>)) = 10"
  by (simp_all add: demo_client_def)


lemma dirty_exec_once:
  assumes sv: "serving E s i c" and fl: "flags c AND REDIS_DIRTY_CAS \<noteq> 0"
  shows "\<exists>s' c'. deliver E s i (array_text [''EXEC'']) = Some s' \<and> serving E s' i c' \<and> flags c' = REDIS_DIRTY_CAS
    \<and> writeBuf c' = writeBuf c @ bulk_text ''err dirty'' \<and> dbs s' = dbs s"
proof -
  define c3 where "c3 = c\<lparr>readBuf := array_text [''EXEC'']\<rparr>"
  define s3 where "s3 = with_client s i c3 (eventLoop s)"
  define c6 where "c6 = addWrite (c3\<lparr>argv := [''EXEC''], argc := 1\<rparr>) (bulk_text ''err dirty'')
    \<lparr>flags := REDIS_DIRTY_CAS, multiCmdCount := 0\<rparr>"
  have sv3: "serving E s3 i c3" using serving_deliver [OF sv] by (simp add: s3_def c3_def)
  have run: "exec_proc (query_fuel E 1) (put_client s3 i (c3\<lparr>argv := [''EXEC''], argc := 1\<rparr>)) i = Some (put_client s3 i c6)"
    using dirty_flags [OF fl]
    by (simp add: exec_proc_def exec_flags bulk_reply reply_def upd_client_def flag_algebra addWrite_def s3_def c3_def c6_def)
  have "\<exists>el. query_fuel E (Suc 1) s3 i = Some (put_client (put_client s3 i c6) i (request_over c6)\<lparr>eventLoop := el\<rparr>)
     \<and> ae_ok el \<and> maxsize el = maxsize (eventLoop (put_client s3 i c6))"
    by (rule exec_request [OF sv3 _ run, of "[]"])
      (use servingD [OF sv3] in \<open>auto simp: c3_def c6_def s3_def addWrite_def\<close>)
  then obtain el where el: "query_fuel E (Suc 1) s3 i = Some (with_client s i (request_over c6) el)" "loop_ok s el"
    by (auto simp: s3_def loop_ok_def)
  show ?thesis
  proof (intro exI conjI)
    show "deliver E s i (array_text [''EXEC'']) = Some (with_client s i (request_over c6) el)"
      using el(1) servingD(4) [OF sv] by (simp add: deliver_client deliver_two c3_def s3_def)
    show "serving E (with_client s i (request_over c6) el) i (request_over c6)"
      by (rule serving_with [OF sv el(2)]) (simp add: c6_def c3_def addWrite_def)
  qed (simp_all add: c6_def c3_def addWrite_def)
qed



section \<open>Properties of access control\<close>

lemma refused_request:
  assumes sv: "serving E s i c" and lookup: "lookupCommand s c nm = Some None"
    and req: "short_args (nm # args)" and fl: "flags c AND REDIS_MULTI = 0"
  shows "\<exists>el. deliver E s i (array_text (nm # args)) = Some (with_client s i (request_over (addWrite c resp_invalidCommand)) el)
     \<and> loop_ok s el"
proof -
  note d = servingD [OF sv]
  define c0 where "c0 = c\<lparr>readBuf := array_text (nm # args), argv := nm # args, argc := int (length (nm # args))\<rparr>"
  define s0 where "s0 = with_client s i c0 (eventLoop s)"
  define s5 where "s5 = with_client s i (request_over (addWrite c resp_invalidCommand)) (eventLoop s)"
  have "nul_free nm" using req by (simp add: short_args_def)
  then have "argv_at c0 0 = Some nm" by (simp add: c0_def argv_at_def load_def takeWhile_nul_free)
  moreover have "lookupCommand s0 c0 nm = Some None"
    using lookup lookup_same [OF d(1), of s0 c0] by (simp add: s0_def c0_def)
  ultimately have "processCommand E q s0 i = Some s5" for q
    by (simp add: processCommand_def reply_def upd_client_def finish_command_def s0_def s5_def c0_def addWrite_def request_over_def)
  moreover have "\<exists>el. rest_of_query E (Some s5) i = Some (s5\<lparr>eventLoop := el\<rparr>) \<and> ae_ok el \<and> maxsize el = maxsize (eventLoop s)"
    using rest_of_query_ok [of s5 E "request_over (addWrite c resp_invalidCommand)" i] d by (simp add: s5_def addWrite_def)
  moreover have "deliver E s i (array_text (nm # args)) = rest_of_query E (processCommand E (query_fuel E 1) s0 i) i"
    using query_executes [of "with_client s i (c\<lparr>readBuf := array_text (nm # args)\<rparr>) (eventLoop s)" i _ nm args "[]" E 1] req fl d(4)
    by (simp add: deliver_client deliver_two s0_def c0_def)
  ultimately show ?thesis by (auto simp: s5_def loop_ok_def)
qed


text \<open>
  C26. The guard does not survive a transaction: after \<open>MULTI\<close> and \<open>EXEC\<close>, even with nothing in between, the
  same client of the same replica finds every command of the table, writes included.
\<close>

theorem exec_lifts_write_guard:
  assumes "serving E s i c" "server_flags s AND REDIS_CLUSTER_SLAVE \<noteq> 0" "flags c = REDIS_CLIENT_NORMAL" "multiCmdCount c = 0"
  shows "lookupCommand s c ''SET'' = Some None \<and> (\<exists>s' c'. deliver_all E s i [array_text [''MULTI''], array_text [''EXEC'']] = Some s' \<and> cheap s' i = Some c'
      \<and> server_flags s' = server_flags s \<and> (\<forall>nm. lookupCommand s' c' nm = Some (table_entry nm)))"
proof -
  have fl: "flags c AND REDIS_CLIENT_NORMAL \<noteq> 0" "flags c AND REDIS_MULTI = 0" using assms(3) by (simp_all add: client_flags)
  have guard: "lookupCommand s c ''SET'' = Some None"
    using assms(2) fl(1) servingD(1) [OF assms(1)]
    by (simp add: lookup_cases isSupportedCmd_def table_entries table_procs client_flag_tests)
  obtain el1 c1 where 1: "deliver E s i (array_text [''MULTI'']) = Some (with_client s i c1 el1)" "loop_ok s el1"
    "c1 = request_over (addWrite (c\<lparr>flags := flags c OR REDIS_MULTI\<rparr>) resp_ok)"
    using multi_request [OF assms(1) fl(2)] by blast
  have c1: "flags c1 = REDIS_CLIENT_NORMAL OR REDIS_MULTI" "multiCmdCount c1 = 0" "fd c1 = fd c"
    using assms(3,4) by (simp_all add: 1(3) addWrite_def)
  have sv1: "serving E (with_client s i c1 el1) i c1" by (rule serving_with [OF assms(1) 1(2) c1(3)])
  define c3 where "c3 = c1\<lparr>readBuf := array_text [''EXEC'']\<rparr>"
  define s3 where "s3 = with_client s i c3 el1"
  define c4 where "c4 = c3\<lparr>argv := [''EXEC''], argc := 1, flags := 0\<rparr>"
  define c6 where "c6 = addWrite c4 (bulk_text ''Exec ok'')\<lparr>flags := 0, multiCmdCount := 0\<rparr>"
  have sv3: "serving E s3 i c3" using serving_deliver [OF sv1] by (simp add: s3_def c3_def)
  have "exec_loop q 11 0 (with_client s i c4 el1) i = Some (with_client s i c4 el1)" for q
    using c1(2) by (simp add: eval_nat_numeral c4_def c3_def)
  then have run: "exec_proc (query_fuel E 1) (put_client s3 i (c3\<lparr>argv := [''EXEC''], argc := 1\<rparr>)) i = Some (put_client s3 i c6)"
    using exec_proc_runs [of "with_client s i (c3\<lparr>argv := [''EXEC''], argc := 1\<rparr>) el1" i _ "query_fuel E 1" "with_client s i c4 el1" c4]
    by (simp add: c6_def c4_def c3_def s3_def c1 client_flags)
  have "\<exists>el. query_fuel E (Suc 1) s3 i = Some (put_client (put_client s3 i c6) i (request_over c6)\<lparr>eventLoop := el\<rparr>)
     \<and> ae_ok el \<and> maxsize el = maxsize (eventLoop (put_client s3 i c6))"
    by (rule exec_request [OF sv3 _ run, of "[]"])
      (use servingD [OF sv3] in \<open>auto simp: c3_def c4_def c6_def s3_def addWrite_def\<close>)
  then obtain el where "query_fuel E (Suc 1) s3 i = Some (with_client s i (request_over c6) el)" by (auto simp: s3_def)
  then have q: "deliver_all E s i [array_text [''MULTI''], array_text [''EXEC'']] = Some (with_client s i (request_over c6) el)"
    using 1(1) by (simp add: deliver_client deliver_two s3_def c3_def)
  have "lookupCommand (with_client s i (request_over c6) el) (request_over c6) nm = Some (table_entry nm)" for nm
    by (rule lookup_unrestricted) (use servingD(1) [OF assms(1)] in \<open>simp_all add: commands_loaded_def c6_def\<close>)
  with q guard show ?thesis
    by (intro conjI exI [of _ "with_client s i (request_over c6) el"] exI [of _ "request_over c6"]) simp_all
qed

lemma demo_serving: "serving demo_env (demo_server role aof []) 0 (demo_client\<lparr>readBuf := []\<rparr>)"
  by (rule ready_serving [OF demo_ready])

lemma demo_slave: "server_flags (demo_server REDIS_CLUSTER_SLAVE aof []) AND REDIS_CLUSTER_SLAVE \<noteq> 0"
  "flags (demo_client\<lparr>readBuf := r\<rparr>) = REDIS_CLIENT_NORMAL"
  by (simp_all add: demo_server_def server_flags demo_client_def)


theorem exec_lifts_write_guard_witness:
  "\<exists>s' c'. deliver_all demo_env (demo_server REDIS_CLUSTER_SLAVE False []) 0 [array_text [''MULTI''], array_text [''EXEC'']] = Some s'
     \<and> lookupCommand s' c' ''SET'' = Some (Some (commandsTable ! 0))"
proof -
  have "multiCmdCount (demo_client\<lparr>readBuf := []\<rparr>) = 0" by (simp add: demo_client_def)
  from exec_lifts_write_guard [OF demo_serving [of _ False] demo_slave this] show ?thesis by (metis table_entries(1))
qed

section \<open>The end of the queue\<close>

lemma queue_full:
  assumes "cheap s i = Some c" "flags c AND REDIS_MULTI \<noteq> 0" "readBuf c = array_text (nm # args)"
    "short_args (nm # args)" "\<not> strncasecmp_eq nm ''exec'' 4" "multiCmdCount c = int (length (multcmds c))"
  shows "query_fuel E (Suc n) s i = None"
proof -
  have "nul_free nm" using assms(4) by (simp add: short_args_def)
  then show ?thesis
    using assms short_args_decode [OF assms(4), of "[]" "e_room E"]
    by (simp add: query_fuel.simps Let_def load_def takeWhile_nul_free clientMultiAdd_def store_def)
qed

text \<open>C27. The queue has ten slots and no check: the eleventh request of a transaction is written behind its end.\<close>

theorem eleventh_queued_request_overruns:
  assumes "serving E s i c" "flags c AND REDIS_MULTI \<noteq> 0" "multiCmdCount c = 0" "length (multcmds c) = 10" "length reqs = 10"
    "\<forall>(nm, args) \<in> set (reqs @ [(nm', args')]). short_args (nm # args) \<and> \<not> strncasecmp_eq nm ''exec'' 4"
  shows "\<exists>s'. deliver_all E s i (map (\<lambda>(nm, args). array_text (nm # args)) reqs) = Some s'
    \<and> deliver E s' i (array_text (nm' # args')) = None"
proof -
  obtain el c' where 1: "deliver_all E s i (map (\<lambda>(nm, args). array_text (nm # args)) reqs) = Some (with_client s i c' el)"
    "c' = c\<lparr>readBuf := readBuf c', writeBuf := writeBuf c @ concat (replicate (length reqs) (bulk_text ''queued'')),
         multcmds := take 0 (multcmds c) @ map (\<lambda>(nm, args). array_text (nm # args)) reqs @ drop (0 + length reqs) (multcmds c),
         multiCmdCount := int (0 + length reqs)\<rparr>"
    using queue_all [OF assms(1,2), of 0 reqs] assms(3-6) by auto
  have c': "flags c' = flags c" "multiCmdCount c' = 10" "length (multcmds c') = 10"
    by (subst 1(2), simp add: assms)+
  have "query_fuel E (Suc 1) (with_client s i (c'\<lparr>readBuf := array_text (nm' # args')\<rparr>) el) i = None"
    using assms(2,6) c' by (intro queue_full [where c = "c'\<lparr>readBuf := array_text (nm' # args')\<rparr>"]) auto
  with 1(1) show ?thesis by (auto simp: deliver_client deliver_two)
qed

lemma demo_multi:
  "serving demo_env (with_client (demo_server REDIS_CLUSTER_MASTER False []) 0 (demo_client\<lparr>flags := REDIS_MULTI\<rparr>) demo_loop) 0
     (demo_client\<lparr>flags := REDIS_MULTI\<rparr>)"
proof -
  have "eventLoop (demo_server REDIS_CLUSTER_MASTER False []) = demo_loop" by (simp add: demo_server_def)
  then show ?thesis by (intro serving_with [OF demo_serving]) (simp_all add: loop_ok_def demo_loop)
qed

theorem eleventh_queued_request_overruns_witness:
  "\<exists>s'. deliver_all demo_env
      (with_client (demo_server REDIS_CLUSTER_MASTER False []) 0 (demo_client\<lparr>flags := REDIS_MULTI\<rparr>) demo_loop) 0
      (replicate 10 (array_text [''MULTI''])) = Some s' \<and> deliver demo_env s' 0 (array_text [''MULTI'']) = None"
proof -
  have "flags (demo_client\<lparr>flags := REDIS_MULTI\<rparr>) AND REDIS_MULTI \<noteq> 0" by (simp add: client_flags)
  from eleventh_queued_request_overruns [OF demo_multi this, of "replicate 10 (''MULTI'', [])" "''MULTI''" "[]"]
  show ?thesis by (simp add: demo_client_def short_command exec_names map_replicate)
qed

text \<open>In the loop of \<open>EXEC\<close>, a queue that is being filled again never ends before its last slot.\<close>

lemma requeue_overruns:
  assumes "serving E s i c" "flags c AND REDIS_MULTI \<noteq> 0" "short_args (nm # args)" "\<not> strncasecmp_eq nm ''exec'' 4"
    "n < 10" "multiCmdCount c = int (Suc n)" "length (multcmds c) = 10" "multcmds c ! n = array_text (nm # args)"
  shows "exec_loop (query_fuel E (Suc m)) fuel n s i = None"
  using assms
proof (induction "10 - n" arbitrary: n s c fuel)
  case (Suc k)
  show ?case
  proof (cases fuel)
    case (Suc f)
    define c0 where "c0 = c\<lparr>readBuf := array_text (nm # args), multcmds := (multcmds c)[n := []]\<rparr>"
    define s0 where "s0 = with_client s i c0 (eventLoop s)"
    have sv0: "serving E s0 i c0"
      using Suc.prems(1) servingD(2) [OF Suc.prems(1)] unfolding s0_def by (intro serving_with) (simp_all add: loop_ok_def c0_def)
    have step: "exec_loop (query_fuel E (Suc m)) fuel n s i = Option.bind (query_fuel E (Suc m) s0 i) (\<lambda>s1. Option.bind (cheap s1 i)
        (\<lambda>c1. Option.bind (store (multcmds c1) (int n) []) (\<lambda>cmds2.
           exec_loop (query_fuel E (Suc m)) f (n + 1) (put_client s1 i (c1\<lparr>multcmds := cmds2\<rparr>)) i)))"
      using Suc.prems servingD(4) [OF Suc.prems(1)] Suc
      by (simp add: load_def store_def s0_def c0_def put_client_with)
    show ?thesis
    proof (cases "n = 9")
      case True
      then have "query_fuel E (Suc m) s0 i = None"
        using Suc.prems servingD(4) [OF sv0] by (intro queue_full [where c = c0]) (simp_all add: c0_def)
      then show ?thesis by (simp add: step)
    next
      case False
      obtain el c1 where q: "query_fuel E (Suc m) s0 i = Some (with_client s i c1 el)" "ae_ok el" "maxsize el = maxsize (eventLoop s)"
        "c1 = addWrite (c0\<lparr>multcmds := (multcmds c0)[Suc n := array_text (nm # args)], readBuf := [], multiCmdCount := int (Suc (Suc n))\<rparr>)
           (bulk_text ''queued'')"
        using queue_step [OF sv0 _ _ Suc.prems(3,4), of "Suc n" m] Suc.prems(2,5-8) False
        by (auto simp: c0_def s0_def loop_ok_def)
      have c1: "multcmds c1 = (multcmds c)[n := [], Suc n := array_text (nm # args)]" "fd c1 = fd c" "flags c1 = flags c"
        "multiCmdCount c1 = int (Suc (Suc n))" unfolding q(4) by (simp_all add: c0_def)
      define c2 where "c2 = c1\<lparr>multcmds := (multcmds c1)[n := []]\<rparr>"
      have "exec_loop (query_fuel E (Suc m)) f (Suc n) (with_client s i c2 el) i = None"
      proof (rule Suc.hyps(1))
        show "serving E (with_client s i c2 el) i c2"
          by (rule serving_with [OF Suc.prems(1)]) (simp_all add: loop_ok_def q(2,3) c2_def c1)
      qed (use Suc.hyps(2) Suc.prems False in \<open>simp_all add: c2_def c1\<close>)
      then show ?thesis using q(1) Suc.prems(5,7) c1 by (simp add: step store_def c2_def)
    qed
  qed simp
qed simp

text \<open>
  A queued \<open>MULTI\<close> is executed by \<open>EXEC\<close> and opens a transaction inside it: the next command is queued
  again instead of executed, the queue grows as fast as the loop advances, and the loop runs behind its
  end.
\<close>

theorem queued_multi_overruns:
  assumes "serving E s i c" "flags c AND REDIS_DIRTY_CAS = 0" "multiCmdCount c = 2" "length (multcmds c) = 10"
    "multcmds c ! 0 = array_text [''MULTI'']" "multcmds c ! 1 = array_text (nm # args)"
    "short_args (nm # args)" "\<not> strncasecmp_eq nm ''exec'' 4"
  shows "deliver E s i (array_text [''EXEC'']) = None"
proof -
  define c0 where "c0 = c\<lparr>readBuf := array_text [''EXEC''], argv := [''EXEC''], argc := 1\<rparr>"
  define s0 where "s0 = with_client s i c0 (eventLoop s)"
  define c1 where "c1 = c0\<lparr>flags := 0, readBuf := array_text [''MULTI''], multcmds := (multcmds c)[0 := []]\<rparr>"
  define s1 where "s1 = with_client s i c1 (eventLoop s)"
  have sv1: "serving E s1 i c1"
    using assms(1) servingD(2) [OF assms(1)] unfolding s1_def by (intro serving_with) (simp_all add: loop_ok_def c1_def c0_def)
  obtain el where q: "query_fuel E 1 s1 i = Some (with_client s i (request_over (addWrite (c1\<lparr>flags := REDIS_MULTI\<rparr>) resp_ok)) el)"
      "loop_ok s el"
    using multi_step [OF sv1, of 0] by (auto simp: c1_def s1_def loop_ok_def)
  define c2 where "c2 = request_over (addWrite (c1\<lparr>flags := REDIS_MULTI\<rparr>) resp_ok)\<lparr>multcmds := (multcmds c)[0 := []]\<rparr>"
  have sv2: "serving E (with_client s i c2 el) i c2"
    by (rule serving_with [OF assms(1) q(2)]) (simp add: c2_def addWrite_def c1_def c0_def request_over_def)
  have c2: "flags c2 AND REDIS_MULTI \<noteq> 0" "multiCmdCount c2 = int (Suc 1)" "length (multcmds c2) = 10"
    "multcmds c2 ! 1 = array_text (nm # args)"
    using assms(3,4,6) by (simp_all add: c2_def c1_def c0_def addWrite_def request_over_def client_flags)
  have again: "exec_loop (query_fuel E (Suc 0)) 10 1 (with_client s i c2 el) i = None"
    by (rule requeue_overruns [OF sv2 c2(1) assms(7,8) _ c2(2-4)]) simp
  have "query_fuel E (Suc 0) (with_client s i
      (c\<lparr>argv := [''EXEC''], argc := 1, flags := 0, readBuf := array_text [''MULTI''], multcmds := (multcmds c)[0 := []]\<rparr>)
      (eventLoop s)) i = Some (with_client s i (request_over (addWrite (c1\<lparr>flags := REDIS_MULTI\<rparr>) resp_ok)) el)"
    using q(1) by (simp add: s1_def c1_def c0_def)
  then have "exec_loop (query_fuel E (Suc 0)) (Suc 10) 0 (with_client s i (c0\<lparr>flags := 0\<rparr>) (eventLoop s)) i
      = exec_loop (query_fuel E (Suc 0)) 10 1 (with_client s i c2 el) i"
    using assms(3-5)
    by (subst exec_loop.simps(2)) (auto simp: load_def store_def put_client_with c0_def c1_def c2_def request_over_def addWrite_def)
  then have "exec_proc (query_fuel E 1) s0 i = None"
    using again assms(2) by (simp add: exec_proc_def s0_def c0_def exec_flags)
  moreover have "lookupCommand s0 c0 ''EXEC'' = Some (Some (commandsTable ! 16))"
    using servingD(1) [OF assms(1)] by (intro exec_lookup) (simp add: s0_def commands_loaded_def)
  moreover have "argv_at c0 0 = Some ''EXEC''" by (simp add: c0_def argv_at_def load_def takeWhile_nul_free)
  ultimately have "processCommand E (query_fuel E 1) s0 i = None"
    by (simp add: processCommand_def append_aof_def expire_accessed_def table_procs client_flag_tests run_proc_def s0_def)
  moreover have "deliver E s i (array_text [''EXEC'']) = rest_of_query E (processCommand E (query_fuel E 1) s0 i) i"
    using query_executes [of "with_client s i (c\<lparr>readBuf := array_text [''EXEC'']\<rparr>) (eventLoop s)" i _ "''EXEC''" "[]" "[]" E 1]
      servingD(4) [OF assms(1)] short_command exec_names
    by (simp add: deliver_client deliver_two s0_def c0_def)
  ultimately show ?thesis by (simp add: rest_of_query_def)
qed

theorem queued_multi_overruns_witness:
  "deliver demo_env (with_client (demo_server REDIS_CLUSTER_MASTER False []) 0
      (demo_client\<lparr>multcmds := [array_text [''MULTI''], array_text [''MULTI'']] @ replicate 8 [], multiCmdCount := 2\<rparr>) demo_loop) 0
    (array_text [''EXEC'']) = None"
proof (rule queued_multi_overruns [where nm = "''MULTI''" and args = "[]"])
  let ?c = "demo_client\<lparr>multcmds := [array_text [''MULTI''], array_text [''MULTI'']] @ replicate 8 [], multiCmdCount := 2\<rparr>"
  have "eventLoop (demo_server REDIS_CLUSTER_MASTER False []) = demo_loop" by (simp add: demo_server_def)
  then show "serving demo_env (with_client (demo_server REDIS_CLUSTER_MASTER False []) 0 ?c demo_loop) 0 ?c"
    by (intro serving_with [OF demo_serving]) (simp_all add: loop_ok_def demo_loop)
qed (simp_all add: short_command exec_names demo_client_def client_flags)

section \<open>Resynchronisation\<close>

lemma sync_lookup: "commands_loaded s \<Longrightarrow> lookupCommand s c ''SYNC'' = Some (Some (commandsTable ! 8))"
  by (rule lookup_plain) (simp_all add: table_entries table_procs client_flag_tests)

lemma sync_request:
  assumes sv: "serving E s i c" and fl: "flags c AND REDIS_MULTI = 0" and short: "short_args [''SYNC'', arg]"
    and run: "sync_proc (with_client s i (c\<lparr>readBuf := array_text [''SYNC'', arg], argv := [''SYNC'', arg], argc := 2\<rparr>) (eventLoop s)) i
      = Some (with_client s i c2 (eventLoop s))" and "fd c2 = fd c"
  shows "\<exists>el. deliver E s i (array_text [''SYNC'', arg]) = Some (with_client s i (request_over c2) el) \<and> loop_ok s el"
proof -
  let ?c0 = "c\<lparr>readBuf := array_text [''SYNC'', arg]\<rparr>"
  let ?s0 = "with_client s i ?c0 (eventLoop s)"
  have sv0: "serving E ?s0 i ?c0" by (rule serving_deliver [OF sv])
  have "\<exists>el. query_fuel E (Suc 1) ?s0 i = Some (put_client (with_client s i c2 (eventLoop s)) i (request_over c2)\<lparr>eventLoop := el\<rparr>)
      \<and> ae_ok el \<and> maxsize el = maxsize (eventLoop (with_client s i c2 (eventLoop s)))"
    using run servingD [OF sv] fl short assms(5)
    by (intro plain_request [OF sv0 sync_lookup, where args = "[arg]" and rest = "[]"])
       (simp_all add: table_procs client_flag_tests run_proc_def commands_loaded_def)
  then show ?thesis using servingD(4) [OF sv] by (auto simp: deliver_client deliver_two loop_ok_def)
qed

text \<open>What the procedure answers, by the position of the offset against the backlog.\<close>

lemma sync_proc_partial:
  assumes "cheap s i = Some c" "argv_at c 1 = Some (dec_nat ofs)" "backlog_holds s hist" "ofs < length hist"
  shows "sync_proc s i = Some (put_client s i
    (addWrite (c\<lparr>replState := REPL_STATE_MASTER_SEND_APPENDSYNC\<rparr>) (resp_appendsync @ drop ofs hist)))"
proof -
  have h: "length (repli_buffer s) = 1024" "begin_offset s = 0" "last_offset s = int (length hist)" "length hist < 1024"
    "take (length hist) (drop 1 (repli_buffer s)) = hist"
    using assms(3) by (auto simp: backlog_holds_def)
  have n: "nat (int ofs + 1) = Suc ofs" "nat (int (length hist) - int ofs) = length hist - ofs" using assms(4) by auto
  have "take (length hist - ofs) (drop (Suc ofs) (repli_buffer s)) = drop ofs (take (length hist) (drop 1 (repli_buffer s)))"
    by (simp add: drop_take)
  then have "load_block (repli_buffer s) (int ofs + 1) (int (length hist) - int ofs) = Some (drop ofs hist)"
    using h(1,4,5) assms(4) by (simp add: load_block_def n)
  moreover have "load_block (drop ofs hist) 0 (int (length hist) - int ofs) = Some (drop ofs hist)"
    using assms(4) by (simp add: load_block_def n)
  moreover have "atoi (dec_nat ofs) = Some (int ofs)"
    using atoi_dec_int [of "int ofs"] h(4) assms(4) by (simp add: c_limits dec_int_of_nat)
  ultimately show ?thesis
    using assms(1,2,4) h(2,3)
    by (simp add: sync_proc_def reply_def upd_client_def put_client_def addWrite_def addWriteBuf_def)
qed

lemma short_sync:
  assumes "nul_free d" "length d \<le> 100"
  shows "short_args [''SYNC'', d]"
proof -
  have "length (dec_nat (length d)) \<le> 3" using assms(2) by (intro length_dec_nat_le) simp_all
  moreover have "length (dec_int 2) \<le> 1" "length (dec_int 4) \<le> 1"
    using length_dec_nat_le [of 2 1] length_dec_nat_le [of 4 1] by (simp_all add: dec_int_def)
  ultimately show ?thesis using assms by (simp add: short_args_def array_text_def bulk_text_def dec_int_of_nat)
qed

definition demo_history :: "bytes \<Rightarrow> int \<Rightarrow> redisServer" where
  "demo_history hist n = demo_server REDIS_CLUSTER_MASTER False []
     \<lparr>repli_buffer := NUL # hist @ replicate (1023 - length hist) NUL, last_offset := n\<rparr>"

lemma demo_history:
  "serving demo_env (demo_history hist n) 0 (demo_client\<lparr>readBuf := []\<rparr>)"
  "flags (demo_client\<lparr>readBuf := r\<rparr>) AND REDIS_MULTI = 0"
  "length hist \<le> 1023 \<Longrightarrow> backlog_holds (demo_history hist (int (length hist))) hist"
proof -
  have "serving demo_env (demo_server REDIS_CLUSTER_MASTER False []) 0 (demo_client\<lparr>readBuf := []\<rparr>)" by (rule demo_serving)
  then show "serving demo_env (demo_history hist n) 0 (demo_client\<lparr>readBuf := []\<rparr>)"
    by (auto simp: serving_def demo_history_def commands_loaded_def links_ok_def client_ok_def)
qed (simp_all add: demo_client_def client_flags backlog_holds_def demo_history_def demo_server_def)

text \<open>
  C7. As long as the backlog holds the whole history, \<open>SYNC\<close> with the offset of a replica that lags behind is
  answered with exactly the writes that replica has missed.
\<close>

theorem sync_sends_missing_writes:
  assumes "serving E s i c" "flags c AND REDIS_MULTI = 0" "backlog_holds s hist" "ofs < length hist"
  shows "\<exists>s' c'. deliver E s i (array_text [''SYNC'', dec_nat ofs]) = Some s' \<and> cheap s' = (cheap s)(i \<mapsto> c')
    \<and> writeBuf c' = writeBuf c @ resp_appendsync @ drop ofs hist \<and> replState c' = REPL_STATE_MASTER_SEND_APPENDSYNC"
proof -
  have len: "length (dec_nat ofs) \<le> 4" using assms(3,4) by (intro length_dec_nat_le) (simp_all add: backlog_holds_def)
  define c1 where "c1 = c\<lparr>readBuf := array_text [''SYNC'', dec_nat ofs], argv := [''SYNC'', dec_nat ofs], argc := 2\<rparr>"
  define c2 where "c2 = addWrite (c1\<lparr>replState := REPL_STATE_MASTER_SEND_APPENDSYNC\<rparr>) (resp_appendsync @ drop ofs hist)"
  have "argv_at c1 1 = Some (dec_nat ofs)"
    by (simp add: c1_def argv_at_def load_def takeWhile_nul_free nul_free_dec_nat)
  moreover have "backlog_holds (with_client s i c1 (eventLoop s)) hist" using assms(3) by (simp add: backlog_holds_def)
  ultimately have "sync_proc (with_client s i c1 (eventLoop s)) i = Some (with_client s i c2 (eventLoop s))"
    using sync_proc_partial [of "with_client s i c1 (eventLoop s)" i c1 ofs hist] assms(4) by (simp add: c2_def)
  then obtain el where "deliver E s i (array_text [''SYNC'', dec_nat ofs]) = Some (with_client s i (request_over c2) el)"
    using sync_request [OF assms(1,2), of "dec_nat ofs" c2] short_sync [of "dec_nat ofs"] len nul_free_dec_nat
    by (auto simp: c1_def c2_def addWrite_def)
  then show ?thesis
    by (intro exI [of _ "with_client s i (request_over c2) el"] exI [of _ "request_over c2"])
      (simp add: c2_def c1_def addWrite_def)
qed

theorem sync_sends_missing_writes_witness:
  "\<exists>s' c'. deliver demo_env (demo_history ''abcd'' 4) 0 (array_text [''SYNC'', dec_nat 1]) = Some s' \<and> cheap s' 0 = Some c'
     \<and> writeBuf c' = resp_appendsync @ ''bcd''"
proof -
  have "backlog_holds (demo_history ''abcd'' 4) ''abcd''" using demo_history(3) [of "''abcd''"] by simp
  moreover have "(1 :: nat) < length ''abcd''" "drop 1 ''abcd'' = ''bcd''" by simp_all
  ultimately show ?thesis using sync_sends_missing_writes [OF demo_history(1,2)] by (fastforce simp: demo_client_def)
qed

text \<open>
  C28. Once 1024 bytes have been written, the offset is used as an index without reduction, so every partial
  resynchronisation reads behind the backlog.
\<close>

theorem sync_overreads_full_backlog:
  assumes "serving E s i c" "flags c AND REDIS_MULTI = 0" "length (repli_buffer s) = 1024" "1024 \<le> last_offset s"
    "0 \<le> ofs" "ofs \<le> INT_MAX" "begin_offset s \<le> ofs" "ofs < last_offset s"
  shows "deliver E s i (array_text [''SYNC'', dec_int ofs]) = None"
proof -
  let ?req = "array_text [''SYNC'', dec_int ofs]"
  define c1 where "c1 = c\<lparr>readBuf := ?req, argv := [''SYNC'', dec_int ofs], argc := 2\<rparr>"
  define s1 where "s1 = with_client s i c1 (eventLoop s)"
  have "dec_int ofs = dec_nat (nat ofs)" using assms(5) by (simp add: dec_int_def)
  then have "length (dec_int ofs) \<le> 10" using assms(6) length_dec_nat_le [of "nat ofs" 10] by (simp add: c_limits)
  then have short: "short_args [''SYNC'', dec_int ofs]" by (intro short_sync) (simp_all add: nul_free_dec_int)
  have arg: "argv_at c1 1 = Some (dec_int ofs)" "argv_at c1 0 = Some ''SYNC''"
    by (simp_all add: c1_def argv_at_def load_def takeWhile_nul_free nul_free_dec_int)
  have "load_block (repli_buffer s) (ofs + 1) (last_offset s - ofs) = None"
    using assms(3,4) by (auto simp: load_block_def)
  moreover have "atoi (dec_int ofs) = Some ofs" using assms(5,6) by (intro atoi_dec_int) (simp_all add: c_limits)
  ultimately have "sync_proc s1 i = None"
    using assms(5,7,8) arg by (simp add: sync_proc_def s1_def reply_def upd_client_def addWrite_def)
  moreover have "lookupCommand s1 c1 ''SYNC'' = Some (Some (commandsTable ! 8))"
    using servingD(1) [OF assms(1)] by (intro sync_lookup) (simp add: s1_def commands_loaded_def)
  ultimately have "processCommand E q s1 i = None" for q
    using arg by (simp add: processCommand_def append_aof_def expire_accessed_def table_procs client_flag_tests run_proc_def s1_def)
  moreover have "deliver E s i ?req = rest_of_query E (processCommand E (query_fuel E 1) s1 i) i"
    using query_executes [of "with_client s i (c\<lparr>readBuf := ?req\<rparr>) (eventLoop s)" i _ "''SYNC''" "[dec_int ofs]" "[]" E 1]
      short assms(2) servingD(4) [OF assms(1)]
    by (simp add: deliver_client deliver_two s1_def c1_def)
  ultimately show ?thesis by (simp add: rest_of_query_def)
qed

theorem sync_overreads_full_backlog_witness:
  "deliver demo_env (demo_history [] 1024) 0 (array_text [''SYNC'', dec_int 5]) = None"
  by (rule sync_overreads_full_backlog [OF demo_history(1,2)])
    (simp_all add: demo_history_def demo_server_def c_limits)

fun record_all :: "redisServer \<Rightarrow> bytes list \<Rightarrow> redisServer option" where
  "record_all s [] = Some s"
| "record_all s (b # bs) = do { s1 \<leftarrow> addRepliBuf s b (int (length b)); record_all s1 bs }"

text \<open>C15. Below 1024 bytes the backlog of a fresh server records the writes one after the other, as \<open>SYNC\<close> needs them.\<close>

theorem backlog_records_writes:
  assumes "length (repli_buffer s) = 1024" "begin_offset s = 0" "last_offset s = 0" "length (concat bufs) < 1024"
  shows "\<exists>s'. record_all s bufs = Some s' \<and> backlog_holds s' (concat bufs) \<and> last_offset s' = int (length (concat bufs))"
proof -
  have "\<exists>s'. record_all s bufs = Some s' \<and> backlog_holds s' (hist @ concat bufs)"
    if "backlog_holds s hist" "length hist + length (concat bufs) < 1024" for s hist
    using that
  proof (induction bufs arbitrary: s hist)
    case (Cons b bufs)
    obtain s1 where "addRepliBuf s b (int (length b)) = Some s1" "backlog_holds s1 (hist @ b)"
      using addRepliBuf_appends [OF Cons.prems(1), of b] Cons.prems(2) by auto
    then show ?case using Cons.IH [of s1 "hist @ b"] Cons.prems(2) by auto
  qed auto
  from this [of s "[]"] show ?thesis using assms by (auto simp: backlog_holds_def)
qed

theorem backlog_records_writes_witness:
  "\<exists>s'. record_all (demo_server REDIS_CLUSTER_MASTER False []) [''ab'', ''cd''] = Some s' \<and> backlog_holds s' ''abcd''"
  using backlog_records_writes [of "demo_server REDIS_CLUSTER_MASTER False []" "[''ab'', ''cd'']"]
  by (auto simp: demo_server_def)

section \<open>Reading\<close>

text \<open>
  C29. A \<open>GET\<close> request answers with the stored value as a bulk string, or with the error reply when there is
  none; the stored values, the offset and the other clients are as before.
\<close>

theorem get_answers_stored_value:
  assumes "ready E s i c db" "server_flags s AND REDIS_CLUSTER_SLAVE = 0" "short_args [''GET'', key]" "fresh_key E db key"
    "case kv_value db key of None \<Rightarrow> msg = resp_keyNotFound | Some obj \<Rightarrow> Option.bind (robjGetValStr obj) respEncodeBulkString = Some msg"
  shows "\<exists>s' c' db'. deliver E s i (array_text [''GET'', key]) = Some s' \<and> cheap s' = (cheap s)(i \<mapsto> c')
    \<and> writeBuf c' = writeBuf c @ msg \<and> load (dbs s') (cdb c) = Some db' \<and> kv_value db' = kv_value db
    \<and> last_offset s' = last_offset s"
proof -
  note d = readyD [OF assms(1)]
  let ?c0 = "c\<lparr>readBuf := array_text [''GET'', key]\<rparr>"
  let ?s0 = "with_client s i ?c0 (eventLoop s)"
  have r0: "ready E ?s0 i ?c0 db"
    using ready_put [OF assms(1), of ?c0] by (simp add: put_client_with)
  have b: "readBuf ?c0 = array_text [''GET'', key] @ []" and fl: "server_flags ?s0 AND REDIS_CLUSTER_SLAVE = 0"
    using assms(2) by simp_all
  obtain s' x e where x: "query_fuel E (Suc 1) ?s0 i = Some s'"
    "dbs s' = (dbs s)[nat (cdb c) := db\<lparr>expires := e, kv := x\<rparr>]" "dict_map key_canon x = dict_map key_canon (kv db)"
    "cheap s' = (cheap s)(i \<mapsto> addWrite ?c0 msg\<lparr>readBuf := [], argv := [], argc := 0\<rparr>)" "last_offset s' = last_offset s"
    using get_request_spec [OF r0 fl b assms(3-5), of 1] by auto
  have "kv_value (db\<lparr>expires := e, kv := x\<rparr>) = kv_value db"
    by (rule ext) (simp add: kv_value_def kv_map_def x(3))
  moreover have "load (dbs s') (cdb c) = Some (db\<lparr>expires := e, kv := x\<rparr>)" using x(2) load_update d(9) by simp
  ultimately show ?thesis
    using x(1,4,5) d(5)
    by (intro exI [of _ s'] exI [of _ "addWrite ?c0 msg\<lparr>readBuf := [], argv := [], argc := 0\<rparr>"]
        exI [of _ "db\<lparr>expires := e, kv := x\<rparr>"]) (simp add: deliver_client deliver_two addWrite_def)
qed

theorem get_answers_stored_value_witness:
  "\<exists>s' c'. deliver demo_env (demo_server REDIS_CLUSTER_MASTER False []) 0 (array_text [''GET'', ''k'']) = Some s'
     \<and> cheap s' 0 = Some c' \<and> writeBuf c' = resp_keyNotFound"
proof -
  have "length (array_text [''GET'', ''k'']) \<le> 1024" by code_simp
  then have a: "short_args [''GET'', ''k'']" by (simp add: short_args_def)
  have "kv_value (dbInit 0) ''k'' = None" by (simp add: kv_value_def dbInit_good)
  with get_answers_stored_value [OF demo_ready [of REDIS_CLUSTER_MASTER False "[]"] demo_flags(2) [of False "[]"] a demo_fresh,
      of resp_keyNotFound]
  show ?thesis by (fastforce simp: demo_client_def)
qed

end
