(* ===== verification/Rdb.thy ===== *)
theory Rdb
  imports Commands
begin

unbundle bit_operations_syntax

text \<open>
  The snapshot file of \<open>src/rdb.c\<close> (\<open>include/rdb.h\<close>): the length prefixes, the encoding of keys and
  values, \<open>rdbSave\<close>, \<open>rdbLoad\<close> and the condition that starts a background save.

  A file is the list of its bytes; writing appends, reading takes from the front of what is left, and
  at the end of the file \<open>fread\<close> returns fewer bytes than it was asked for.  A byte that was not read
  and is used all the same is uninitialised memory, which is \<open>None\<close>.  \<open>compute_sha256\<close> is the digest of
  OpenSSL and a parameter.  Failing system calls on the file itself are not part of the model.
\<close>

section \<open>Bytes of the file\<close>

definition RDB_MAX_SIZE :: nat where "RDB_MAX_SIZE = 4096"
definition RDB_CHECKSUM_LEN :: nat where "RDB_CHECKSUM_LEN = 32"
definition RDB_ENC_INT8 :: byte where "RDB_ENC_INT8 = CHR 0xFC"
definition RDB_ENC_INT16 :: byte where "RDB_ENC_INT16 = CHR 0xFD"
definition RDB_ENC_INT32 :: byte where "RDB_ENC_INT32 = CHR 0xFE"
definition RDB_EOF :: byte where "RDB_EOF = CHR 0xFF"
definition RDB_SELECTDB :: byte where "RDB_SELECTDB = CHR 0xFE"
definition RDB_EXPIRETIME :: byte where "RDB_EXPIRETIME = CHR 0xFD"

lemmas rdb_codes = RDB_ENC_INT8_def RDB_ENC_INT16_def RDB_ENC_INT32_def RDB_EOF_def RDB_SELECTDB_def RDB_EXPIRETIME_def

text \<open>The low byte of an integer, its low bytes in memory order, and back.\<close>

definition low_byte :: "int \<Rightarrow> byte" where
  "low_byte i = char_of (nat (i mod 256))"

fun le_bytes :: "nat \<Rightarrow> int \<Rightarrow> bytes" where
  "le_bytes 0 i = []"
| "le_bytes (Suc n) i = low_byte i # le_bytes n (i div 256)"

fun le_value :: "bytes \<Rightarrow> int" where
  "le_value [] = 0"
| "le_value (b # bs) = int (char_code b) + 256 * le_value bs"

text \<open>The value of \<open>k\<close> bits read as a signed integer.\<close>

definition signed_value :: "nat \<Rightarrow> int \<Rightarrow> int" where
  "signed_value k v = (v + 2 ^ (k - 1)) mod 2 ^ k - 2 ^ (k - 1)"

definition word_byte :: "32 word \<Rightarrow> byte" where
  "word_byte w = low_byte (uint w)"

definition byte_word :: "byte \<Rightarrow> 32 word" where
  "byte_word b = word_of_nat (char_code b)"

text \<open>\<open>fread\<close> of \<open>n\<close> bytes: what was read, and what is left of the file.\<close>

definition fread :: "nat \<Rightarrow> bytes \<Rightarrow> bytes \<times> bytes" where
  "fread n fp = (take n fp, drop n fp)"

section \<open>Saving\<close>

definition rdbSaveType :: "byte \<Rightarrow> bytes" where
  "rdbSaveType t = [t]"

definition rdbSaveLen :: "32 word \<Rightarrow> bytes" where
  "rdbSaveLen len =
     (if len < push_bit 6 1 then [word_byte (len AND 0x3F)]
      else if len < push_bit 14 1 then [word_byte (0x80 OR (drop_bit 8 len AND 0x3F)), word_byte (len AND 0xFF)]
      else word_byte 0xFE # le_bytes 4 (uint len))"

definition rdbSaveStringObject :: "robj \<Rightarrow> bytes option" where
  "rdbSaveStringObject obj = (case encoding obj of
       REDIS_ENCODING_INT \<Rightarrow>
         (case optr obj of
            LongPtr p \<Rightarrow> (let val = to_int p in Some (
              if val \<le> 2 ^ 7 then rdbSaveType RDB_ENC_INT8 @ le_bytes 1 val
              else if val \<le> 2 ^ 15 then rdbSaveType RDB_ENC_INT16 @ le_bytes 2 val
              else rdbSaveType RDB_ENC_INT32 @ le_bytes 4 val))
          | _ \<Rightarrow> None)
     | _ \<Rightarrow>
         (if encoding obj = REDIS_ENCODING_EMBSTR \<or> encoding obj = REDIS_ENCODING_RAW then
           (case optr obj of
              SdsPtr s \<Rightarrow> (let len = to_int (slen s) in do {
                buf \<leftarrow> load_block (sbuf s) 0 len;
                Some (rdbSaveLen (word_of_int len) @ buf)
              })
            | _ \<Rightarrow> None)
          else Some []))"

definition rdbSaveValue :: "robj \<Rightarrow> bytes option" where
  "rdbSaveValue obj = (if otype obj = REDIS_STRING then rdbSaveStringObject obj else Some [])"

definition rdbSaveKey :: "bytes \<Rightarrow> bytes" where
  "rdbSaveKey key = rdbSaveLen (word_of_int (int (length key))) @ key"

definition type_byte :: "robj_type \<Rightarrow> byte" where
  "type_byte t = (case t of REDIS_STRING \<Rightarrow> CHR 0x00 | REDIS_LIST \<Rightarrow> CHR 0x01 | REDIS_HASH \<Rightarrow> CHR 0x02
     | REDIS_SET \<Rightarrow> CHR 0x03 | REDIS_ZSET \<Rightarrow> CHR 0x04)"

text \<open>One entry: its expiry time when it has one, its type, its key, its value.\<close>

definition save_entry :: "redisDb \<Rightarrow> (bytes, robj) dictEntry \<Rightarrow> (bytes \<times> redisDb) option" where
  "save_entry db entry = do {
     let key = fst entry;
     has \<leftarrow> dictContains expiretype (expires db) key;
     (ex, db1) \<leftarrow> (if has then do {
          (t, e) \<leftarrow> dictFetchValue expiretype (expires db) key;
          Some (CHR 0xFD # le_bytes 8 (ptr_long t), db\<lparr>expires := e\<rparr>)
        } else Some ([], db));
     val \<leftarrow> snd entry;
     v \<leftarrow> rdbSaveValue val;
     Some (ex @ rdbSaveType (type_byte (otype val)) @ rdbSaveKey key @ v, db1)
   }"

text \<open>The loop over the entries; the fuel is one more than their number.\<close>

fun save_entries :: "nat \<Rightarrow> redisDb \<Rightarrow> (bytes, robj) dictIterator \<Rightarrow> bytes option" where
  "save_entries 0 db di = None"
| "save_entries (Suc n) db di = do {
     (r, di') \<leftarrow> dictIterNext (kv db) di;
     (case r of
        None \<Rightarrow> Some []
      | Some entry \<Rightarrow> do {
          (b, db') \<leftarrow> save_entry db entry;
          bs \<leftarrow> save_entries n db' di';
          Some (b @ bs)
        })
   }"

fun save_dbs :: "redisDb list \<Rightarrow> bytes option" where
  "save_dbs [] = Some []"
| "save_dbs (db # ds) =
     (if dictIsEmpty (kv db) then save_dbs ds
      else do {
        es \<leftarrow> save_entries (Suc (nat (dictSize (kv db)))) db dictGetIterator;
        rest \<leftarrow> save_dbs ds;
        Some (rdbSaveType RDB_SELECTDB @ [low_byte (db_id db)] @ es @ rest)
      })"

text \<open>The digest is taken of the first 4096 bytes.\<close>

definition rdbSave :: "(bytes \<Rightarrow> bytes) \<Rightarrow> redisDb list \<Rightarrow> bytes option" where
  "rdbSave sha ds = do {
     body \<leftarrow> save_dbs ds;
     let file = ''REDIS0001'' @ body @ rdbSaveType RDB_EOF;
     Some (file @ sha (fst (fread RDB_MAX_SIZE file)))
   }"

text \<open>\<open>fork\<close> is the value the call returns in the parent.  A failed fork is recorded like a running child.\<close>

definition bgsave :: "int \<Rightarrow> redisServer \<Rightarrow> redisServer" where
  "bgsave fork s = s\<lparr>rdbChildPid := fork, isBgSaving := True\<rparr>"

definition save_due :: "env \<Rightarrow> redisServer \<Rightarrow> saveparam \<Rightarrow> bool" where
  "save_due E s p \<longleftrightarrow> e_now E - lastSave s \<ge> seconds p \<and> dirty s \<ge> changes p"

fun save_conditions :: "env \<Rightarrow> int \<Rightarrow> redisServer \<Rightarrow> saveparam list \<Rightarrow> redisServer" where
  "save_conditions E fork s [] = s"
| "save_conditions E fork s (p # ps) = (if save_due E s p then bgsave fork s else save_conditions E fork s ps)"

definition bgSaveIfNeeded :: "env \<Rightarrow> int \<Rightarrow> redisServer \<Rightarrow> redisServer" where
  "bgSaveIfNeeded E fork s = (if isBgSaving s then s else save_conditions E fork s (saveParams s))"

section \<open>Loading\<close>

definition rdbLoadLen :: "bytes \<Rightarrow> 32 word \<times> bytes" where
  "rdbLoadLen fp = (case fread 1 fp of (b0, fp1) \<Rightarrow>
     if b0 = [] then (0, fp1)
     else let c = byte_word (hd b0) in
       if c AND 0xC0 = 0x00 then (c AND 0x3F, fp1)
       else if c AND 0xC0 = 0x80 then
         (case fread 1 fp1 of (b1, fp2) \<Rightarrow>
            if b1 = [] then (0, fp2) else (push_bit 8 (c AND 0x3F) OR byte_word (hd b1), fp2))
       else if c = 0xFE then
         (case fread 4 fp1 of (b4, fp2) \<Rightarrow> if length b4 < 4 then (0, fp2) else (word_of_int (le_value b4), fp2))
       else (0, fp1))"

text \<open>\<open>snprintf (buf, 11, "%d", val)\<close> keeps ten characters.\<close>

definition load_number :: "nat \<Rightarrow> bytes \<Rightarrow> (bytes \<Rightarrow> int) \<Rightarrow> (robj option \<times> bytes) option" where
  "load_number n fp f = (case fread n fp of (b, fp') \<Rightarrow> do {
     assert_c (length b = n);
     obj \<leftarrow> robjCreateStringObject (take 10 (dec_int (f b)));
     Some (Some obj, fp')
   })"

definition rdbLoadStringObject :: "bytes \<Rightarrow> (robj option \<times> bytes) option" where
  "rdbLoadStringObject fp = (case fread 1 fp of (b, fp1) \<Rightarrow> do {
     assert_c (b \<noteq> []);
     (let c = hd b in
      if c = RDB_ENC_INT8 then load_number 1 fp1 le_value
      else if c = RDB_ENC_INT16 then load_number 2 fp1 (\<lambda>b. signed_value 16 (le_value b))
      else if c = RDB_ENC_INT32 then load_number 4 fp1 (\<lambda>b. signed_value 32 (le_value b))
      else (case rdbLoadLen fp of (len, fp2) \<Rightarrow> case fread (unat len) fp2 of (buf, fp3) \<Rightarrow> do {
        assert_c (length buf = unat len);
        obj \<leftarrow> robjCreateStringObject (takeWhile (\<lambda>c. c \<noteq> NUL) buf);
        Some (Some obj, fp3)
      }))
   })"

definition rdbLoadType :: "bytes \<Rightarrow> (byte \<times> bytes) option" where
  "rdbLoadType fp = (case fread 1 fp of (b, fp') \<Rightarrow> do { assert_c (b \<noteq> []); Some (hd b, fp') })"

text \<open>The key is read into an array of 1024 bytes.\<close>

definition rdbLoadKey :: "bytes \<Rightarrow> (bytes \<times> bytes) option" where
  "rdbLoadKey fp = (case rdbLoadLen fp of (len, fp1) \<Rightarrow> case fread (unat len) fp1 of (buf, fp2) \<Rightarrow> do {
     assert_c (length buf \<le> 1024);
     Some (buf, fp2)
   })"

definition rdbLoadObject :: "byte \<Rightarrow> bytes \<Rightarrow> (robj option \<times> bytes) option" where
  "rdbLoadObject t fp = (if t = type_byte REDIS_STRING then rdbLoadStringObject fp else None)"

text \<open>
  The loop; every turn but the last reads at least one byte, so the length of the file bounds their
  number.  \<open>dbid\<close> (\<open>sel\<close>) is uninitialised until the first \<open>RDB_SELECTDB\<close>.
\<close>

fun load_loop :: "nat \<Rightarrow> bytes \<Rightarrow> redisDb list \<Rightarrow> int option \<Rightarrow> int \<Rightarrow> (redisDb list \<times> bytes) option" where
  "load_loop 0 fp ds sel ex = None"
| "load_loop (Suc n) fp ds sel ex = do {
     (t, fp1) \<leftarrow> rdbLoadType fp;
     if t = RDB_EOF then Some (ds, fp1)
     else if t = RDB_SELECTDB then
       (case fread 1 fp1 of (b, fp2) \<Rightarrow> do {
          assert_c (b \<noteq> []);
          assert_c (char_code (hd b) \<le> length ds);
          load_loop n fp2 ds (Some (int (char_code (hd b)))) ex
        })
     else if t = RDB_EXPIRETIME then
       (case fread 8 fp1 of (b, fp2) \<Rightarrow> do {
          assert_c (length b = 8);
          load_loop n fp2 ds sel (signed_value 64 (le_value b))
        })
     else do {
       (key, fp2) \<leftarrow> rdbLoadKey fp1;
       (val, fp3) \<leftarrow> rdbLoadObject t fp2;
       j \<leftarrow> sel;
       db \<leftarrow> load ds j;
       (r, db1) \<leftarrow> dbAdd db key val;
       db2 \<leftarrow> (if ex > 0 then map_option snd (dbSetExpire db1 key ex) else Some db1);
       ds' \<leftarrow> store ds j db2;
       load_loop n fp3 ds' sel (if ex > 0 then 0 else ex)
     }
   }"

text \<open>
  A file that does not start with the magic text is ignored; of a file too short for it, the rest of
  the compared array is uninitialised.
\<close>

definition rdbLoad :: "(bytes \<Rightarrow> bytes) \<Rightarrow> bytes \<Rightarrow> redisDb list \<Rightarrow> redisDb list option" where
  "rdbLoad sha file ds = (case fread 9 file of (buf, fp) \<Rightarrow>
     if buf \<noteq> take (length buf) ''REDIS0001'' then Some ds
     else if length buf < 9 then None
     else do {
       (ds', fp') \<leftarrow> load_loop (Suc (length fp)) fp ds None 0;
       let datalen = length file - length fp';
       let hash = fst (fread RDB_CHECKSUM_LEN fp');
       assert_c (length hash = RDB_CHECKSUM_LEN);
       assert_c (datalen \<le> RDB_MAX_SIZE);
       assert_c (sha (fst (fread datalen file)) = hash);
       Some ds'
     })"

text \<open>
  The received file: the stream is neither flushed nor closed, so of the \<open>n\<close> bytes only those the
  buffering of the stream has passed on (\<open>through\<close>, none of a short file) can be read back.
\<close>

definition receiveRDBfile :: "nat \<Rightarrow> bytes \<Rightarrow> int \<Rightarrow> bytes option" where
  "receiveRDBfile through buf n = do { b \<leftarrow> load_block buf 0 n; Some (take through b) }"

section \<open>Bytes and lengths\<close>

lemma char_code_low_byte [simp]: "char_code (low_byte i) = nat (i mod 256)"
proof -
  have "nat (i mod 256) < 256" by (simp add: nat_less_iff)
  then show ?thesis by (simp add: char_code_def low_byte_def)
qed

lemma length_le_bytes [simp]: "length (le_bytes n i) = n"
  by (induction n arbitrary: i) simp_all

lemma le_value_bytes: "le_value (le_bytes n i) = i mod 256 ^ n"
proof (induction n arbitrary: i)
  case (Suc n)
  have "i mod 256 + 256 * (i div 256 mod 256 ^ n) = i mod 256 ^ Suc n"
    using mod_mult2_eq' [of i 256 "256 ^ n"] zmod_zmult2_eq [of "256 ^ n" i 256] by simp
  with Suc show ?case by simp
qed simp

lemma le_value_bytes_id: "0 \<le> i \<Longrightarrow> i < 256 ^ n \<Longrightarrow> le_value (le_bytes n i) = i"
  by (simp add: le_value_bytes)

lemma signed_value_id: "0 < k \<Longrightarrow> - (2 ^ (k - 1)) \<le> v \<Longrightarrow> v < 2 ^ (k - 1) \<Longrightarrow> signed_value k (v mod 2 ^ k) = v"
proof -
  assume k: "0 < k" "- (2 ^ (k - 1)) \<le> v" "v < 2 ^ (k - 1)"
  have e: "(2 :: int) ^ k = 2 * 2 ^ (k - 1)" using k(1) by (cases k) simp_all
  have "(v mod 2 ^ k + 2 ^ (k - 1)) mod 2 ^ k = (v + 2 ^ (k - 1)) mod 2 ^ k" by (rule mod_add_left_eq)
  also have "\<dots> = v + 2 ^ (k - 1)" using k e by (intro mod_pos_pos_trivial) simp_all
  finally show ?thesis by (simp add: signed_value_def)
qed

lemma byte_word_byte: "byte_word (word_byte w) = take_bit 8 w"
proof -
  have "uint (byte_word (word_byte w)) = take_bit 32 (uint w mod 256)"
    by (simp add: byte_word_def word_byte_def uint_word_of_int_eq)
  also have "\<dots> = uint w mod 256" by (rule take_bit_int_eq_self) (simp_all add: order.strict_trans [OF pos_mod_bound])
  also have "\<dots> = uint (take_bit 8 w)" by (simp add: unsigned_take_bit_eq take_bit_eq_mod [where ?'a = int])
  finally show ?thesis by (simp only: word_uint_eq_iff)
qed

lemma low_bits: "(w :: 32 word) < 2 ^ k \<Longrightarrow> bit w n \<Longrightarrow> n < k"
proof -
  assume "w < 2 ^ k" "bit w n"
  then have "bit (w AND mask k) n" using less_mask_eq [of w k] by simp
  then show "n < k" by (simp add: bit_simps)
qed

lemma mask_bits:
  "bit (0x3F :: int) n \<longleftrightarrow> n < 6" "bit (0xFF :: int) n \<longleftrightarrow> n < 8" "bit (0x80 :: int) n \<longleftrightarrow> n = 7"
  "bit (0xC0 :: int) n \<longleftrightarrow> n = 6 \<or> n = 7"
proof -
  have a: "bit (mask k :: int) n \<longleftrightarrow> n < k" for k by (auto simp: bit_mask_iff)
  have b: "bit (push_bit k 1 :: int) n \<longleftrightarrow> n = k" for k by (auto simp: bit_simps)
  have m: "mask 6 = (0x3F :: int)" "mask 8 = (0xFF :: int)" "push_bit 7 1 = (0x80 :: int)"
    by (simp_all add: mask_eq_exp_minus_1)
  show "bit (0x3F :: int) n \<longleftrightarrow> n < 6" using a [of 6] unfolding m .
  show "bit (0xFF :: int) n \<longleftrightarrow> n < 8" using a [of 8] unfolding m .
  show "bit (0x80 :: int) n \<longleftrightarrow> n = 7" using b [of 7] unfolding m .
  have "(0xC0 :: int) = push_bit 6 1 OR push_bit 7 1" by simp
  then show "bit (0xC0 :: int) n \<longleftrightarrow> n = 6 \<or> n = 7" using b [of 6] b [of 7] by (simp only: bit_or_iff)
qed

lemma rdb_length: "rdbLoadLen (rdbSaveLen w @ rest) = (w, rest)"
proof -
  consider "w < 2 ^ 6" | "\<not> w < 2 ^ 6" "w < 2 ^ 14" | "\<not> w < 2 ^ 6" "\<not> w < 2 ^ 14" by blast
  then show ?thesis
  proof cases
    case 1
    note low = low_bits [OF 1]
    have "take_bit 8 w = w" by (rule bit_word_eqI) (auto simp: bit_simps dest: low)
    moreover have "w AND 0xC0 = 0" by (rule bit_word_eqI) (auto simp: bit_simps mask_bits dest: low)
    moreover have "w AND 0x3F = w" by (rule bit_word_eqI) (auto simp: bit_simps mask_bits dest: low)
    ultimately show ?thesis using 1 by (simp add: rdbSaveLen_def rdbLoadLen_def fread_def byte_word_byte)
  next
    case 2
    note low = low_bits [OF 2(2)]
    define c where "c = 0x80 OR (drop_bit 8 w AND 0x3F)"
    have c1: "take_bit 8 c = c" by (rule bit_word_eqI) (auto simp: bit_simps mask_bits c_def)
    have c2: "c AND 0xC0 = 0x80" by (rule bit_word_eqI) (auto simp: bit_simps mask_bits c_def)
    have c3: "take_bit 8 (w AND 0xFF) = w AND 0xFF" by (rule bit_word_eqI) (auto simp: bit_simps mask_bits c_def)
    have m: "c AND 0x3F = drop_bit 8 w"
    proof (rule bit_word_eqI)
      fix n assume "n < LENGTH(32)"
      have "bit w (8 + n) \<Longrightarrow> 8 + n < 14" by (rule low)
      then show "bit (c AND 0x3F) n \<longleftrightarrow> bit (drop_bit 8 w) n" by (auto simp: bit_simps mask_bits c_def)
    qed
    have c4: "push_bit 8 (c AND 0x3F) OR (w AND 0xFF) = w"
      unfolding m by (rule bit_word_eqI) (auto simp: bit_simps mask_bits not_less)
    have "rdbSaveLen w = [word_byte c, word_byte (w AND 0xFF)]" using 2 by (simp add: rdbSaveLen_def c_def)
    moreover have "byte_word (word_byte c) = c" "byte_word (word_byte (w AND 0xFF)) = w AND 0xFF"
      by (simp_all only: byte_word_byte c1 c3)
    ultimately show ?thesis by (simp add: rdbLoadLen_def fread_def Let_def c2 c4 [simplified])
  next
    case 3
    have c: "byte_word (word_byte 0xFE) = 0xFE" by (simp add: byte_word_byte take_bit_eq_mask mask_eq_exp_minus_1)
    have "uint w < 2 ^ 32" using uint_bounded [of w] by simp
    then have "le_value (le_bytes 4 (uint w)) = uint w" by (intro le_value_bytes_id) simp_all
    with 3 show ?thesis by (simp add: rdbSaveLen_def rdbLoadLen_def fread_def c Let_def)
  qed
qed

text \<open>A prefix of at most two bytes starts with none of the codes of a number.\<close>

lemma short_length_code:
  assumes "w < 2 ^ 14"
  shows "\<exists>b bs. rdbSaveLen w = b # bs \<and> b \<noteq> RDB_ENC_INT8 \<and> b \<noteq> RDB_ENC_INT16 \<and> b \<noteq> RDB_ENC_INT32"
proof -
  have hi: "b \<noteq> RDB_ENC_INT8 \<and> b \<noteq> RDB_ENC_INT16 \<and> b \<noteq> RDB_ENC_INT32" if "\<not> bit (byte_word b) 6" for b
    using that by (auto simp: rdb_codes byte_word_def char_code_def bit_simps)
  define c where "c = 0x80 OR (drop_bit 8 w AND 0x3F)"
  have "\<not> bit (byte_word (word_byte (w AND 0x3F))) 6" "\<not> bit (byte_word (word_byte c)) 6"
    unfolding byte_word_byte by (simp_all add: bit_simps mask_bits c_def)
  note codes = this [THEN hi]
  show ?thesis
  proof (cases "w < 2 ^ 6")
    case True
    then have "rdbSaveLen w = [word_byte (w AND 0x3F)]" by (simp add: rdbSaveLen_def)
    with codes(1) show ?thesis by blast
  next
    case False
    then have "rdbSaveLen w = [word_byte c, word_byte (w AND 0xFF)]" using assms by (simp add: rdbSaveLen_def c_def)
    with codes(2) show ?thesis by blast
  qed
qed

section \<open>Keys and values\<close>

lemma length_word: "n < 2 ^ 32 \<Longrightarrow> unat (word_of_int (int n) :: 32 word) = n"
  by (simp add: unsigned_of_nat take_bit_nat_eq_self)

lemma rdb_key: "length key \<le> 1024 \<Longrightarrow> rdbLoadKey (rdbSaveKey key @ rest) = Some (key, rest)"
  using length_word [of "length key"] by (simp add: rdbLoadKey_def rdbSaveKey_def rdb_length fread_def)

text \<open>
  The texts whose object survives: shorter than 16384 bytes, and a number only when it is not negative,
  fits an \<open>int\<close> and is not 32768.
\<close>

definition storable :: "bytes \<Rightarrow> bool" where
  "storable t \<longleftrightarrow> nul_free t \<and> length t < 2 ^ 14 \<and>
     (snd (string2l (Some t)) \<longrightarrow> (let v = fst (string2l (Some t)) in 0 \<le> v \<and> v \<le> INT_MAX \<and> v \<noteq> 2 ^ 15))"

lemma to_int_id: "INT_MIN \<le> v \<Longrightarrow> v \<le> INT_MAX \<Longrightarrow> to_int v = v"
  by (simp add: to_int_def c_limits)

lemma reload_number:
  assumes "0 \<le> v" "v \<le> INT_MAX"
  shows "robjCreateStringObject (take 10 (dec_int v)) = Some (createLongString v)"
proof -
  have "length (dec_int v) \<le> 10"
    using assms length_dec_nat_le [of "nat v" 10] by (simp add: dec_int_def c_limits)
  then show ?thesis
    using assms string2l_dec_int [of v] by (simp add: robjCreateStringObject_def c_limits)
qed

lemma rdb_number:
  assumes "0 \<le> v" "v \<le> INT_MAX" "v \<noteq> 2 ^ 15"
  shows "\<exists>b. rdbSaveStringObject (createLongString v) = Some b
    \<and> (\<forall>rest. rdbLoadStringObject (b @ rest) = Some (Some (createLongString v), rest))"
proof -
  have v: "to_int v = v" using assms by (simp add: to_int_id c_limits)
  note defs = rdbSaveStringObject_def createLongString_def v rdbLoadStringObject_def rdbSaveType_def fread_def load_number_def
  consider "v \<le> 2 ^ 7" | "\<not> v \<le> 2 ^ 7" "v \<le> 2 ^ 15" | "\<not> v \<le> 2 ^ 15" by blast
  then show ?thesis
  proof cases
    case 1
    then have "le_value (le_bytes 1 v) = v" using assms(1) by (intro le_value_bytes_id) simp_all
    then show ?thesis using 1 assms(1) reload_number [OF assms(1,2)] by (simp add: defs Let_def)
  next
    case 2
    then have "le_value (le_bytes 2 v) = v" using assms(1) by (intro le_value_bytes_id) simp_all
    moreover have "signed_value 16 v = v" using signed_value_id [of 16 v] 2(2) assms(1,3) by simp
    ultimately show ?thesis using 2 reload_number [OF assms(1,2)] by (simp add: defs Let_def rdb_codes)
  next
    case 3
    have "le_value (le_bytes 4 v) = v" using assms(1,2) by (intro le_value_bytes_id) (simp_all add: c_limits)
    moreover have "signed_value 32 v = v" using signed_value_id [of 32 v] assms(1,2) by (simp add: c_limits)
    ultimately show ?thesis using 3 reload_number [OF assms(1,2)] by (simp add: defs Let_def rdb_codes)
  qed
qed

lemma rdb_text:
  assumes "encoding obj = REDIS_ENCODING_EMBSTR \<or> encoding obj = REDIS_ENCODING_RAW" "optr obj = SdsPtr s" "slen s = int (length t)"
    "sbuf s = t @ r" "nul_free t" "length t < 2 ^ 14" "robjCreateStringObject t = Some obj"
  shows "\<exists>b. rdbSaveStringObject obj = Some b \<and> (\<forall>rest. rdbLoadStringObject (b @ rest) = Some (Some obj, rest))"
proof -
  let ?w = "word_of_int (int (length t)) :: 32 word"
  have w: "unat ?w = length t" using assms(6) by (intro length_word) simp
  have "to_int (int (length t)) = int (length t)" using assms(6) by (intro to_int_id) (simp_all add: c_limits)
  then have save: "rdbSaveStringObject obj = Some (rdbSaveLen ?w @ t)"
    using assms(1-4) by (auto simp: rdbSaveStringObject_def Let_def load_block_def)
  have "?w < 2 ^ 14" using w assms(6) by (simp add: word_less_nat_alt)
  then obtain b bs where b: "rdbSaveLen ?w = b # bs" "b \<noteq> RDB_ENC_INT8" "b \<noteq> RDB_ENC_INT16" "b \<noteq> RDB_ENC_INT32"
    using short_length_code by blast
  have "rdbLoadLen (b # bs @ t @ rest) = (?w, t @ rest)" for rest
    using rdb_length [of ?w "t @ rest"] b(1) by simp
  then have "rdbLoadStringObject ((rdbSaveLen ?w @ t) @ rest) = Some (Some obj, rest)" for rest
    using b w assms(5,7) by (simp add: rdbLoadStringObject_def fread_def Let_def takeWhile_nul_free)
  with save show ?thesis by blast
qed

lemma rdb_value:
  assumes "storable t" "robjCreateStringObject t = Some obj"
  shows "\<exists>b. rdbSaveValue obj = Some b \<and> otype obj = REDIS_STRING
    \<and> (\<forall>rest. rdbLoadObject (type_byte REDIS_STRING) (b @ rest) = Some (Some obj, rest))"
proof -
  obtain v ok where v: "string2l (Some t) = (v, ok)" by fastforce
  have t: "nul_free t" "length t < 2 ^ 14" using assms(1) by (simp_all add: storable_def)
  have "\<exists>b. rdbSaveStringObject obj = Some b \<and> otype obj = REDIS_STRING
    \<and> (\<forall>rest. rdbLoadStringObject (b @ rest) = Some (Some obj, rest))"
  proof (cases ok)
    case True
    then have "obj = createLongString v" "0 \<le> v" "v \<le> INT_MAX" "v \<noteq> 2 ^ 15"
      using assms v by (simp_all add: robjCreateStringObject_def storable_def)
    then show ?thesis using rdb_number by (auto simp: createLongString_def)
  next
    case False
    show ?thesis
    proof (cases "length t < 32")
      case True
      then have o: "obj = \<lparr>otype = REDIS_STRING, encoding = REDIS_ENCODING_EMBSTR, refcount = Some 0,
          optr = SdsPtr \<lparr>slen = int (length t), sfree = int (length t), sbuf = t @ [NUL]\<rparr>\<rparr>"
        using assms(2) v False embedded_string [of t] t(2) by (simp add: robjCreateStringObject_def)
      show ?thesis using rdb_text [OF _ _ _ _ t assms(2)] by (auto simp: o)
    next
      case long: False
      have o: "obj = \<lparr>otype = REDIS_STRING, encoding = REDIS_ENCODING_RAW, refcount = None,
          optr = SdsPtr (the (the (sdsnew (Some t))))\<rparr>"
        using assms(2) v False long raw_string [of t] by (simp add: robjCreateStringObject_def)
      have "\<exists>r. sbuf (the (the (sdsnew (Some t)))) = t @ r" "slen (the (the (sdsnew (Some t)))) = int (length t)"
        by (simp_all add: sdsnew_eq)
      then show ?thesis using rdb_text [OF _ _ _ _ t assms(2)] by (auto simp: o)
    qed
  qed
  then show ?thesis by (auto simp: rdbSaveValue_def rdbLoadObject_def)
qed

section \<open>Entries\<close>

abbreviation kvm :: "redisDb \<Rightarrow> nat \<times> bytes \<Rightarrow> robj option option" where
  "kvm db \<equiv> dict_map key_canon (kv db)"

abbreviation exm :: "redisDb \<Rightarrow> nat \<times> bytes \<Rightarrow> int option option" where
  "exm db \<equiv> dict_map key_canon (expires db)"

text \<open>An entry of a database that a snapshot keeps: its key, the text of its value, its expiry time.\<close>

definition kept_time :: "int option option \<Rightarrow> bool" where
  "kept_time t \<longleftrightarrow> t = None \<or> (\<exists>x. t = Some (Some x) \<and> 0 < x \<and> x < 2 ^ 63)"

definition kept_entry :: "redisDb \<Rightarrow> (bytes, robj) dictEntry \<Rightarrow> bool" where
  "kept_entry db e \<longleftrightarrow> nul_free (fst e) \<and> length (fst e) \<le> 1024 \<and> kept_time (exm db (key_canon (fst e)))
     \<and> (\<exists>t obj. snd e = Some obj \<and> storable t \<and> robjCreateStringObject t = Some obj)"

definition time_bytes :: "int option option \<Rightarrow> bytes" where
  "time_bytes t = (case t of Some (Some x) \<Rightarrow> CHR 0xFD # le_bytes 8 x | _ \<Rightarrow> [])"

lemma save_entry_bytes:
  assumes "db_good db" "kept_entry db e"
  shows "\<exists>obj v x. snd e = Some obj \<and> rdbSaveValue obj = Some v \<and> otype obj = REDIS_STRING
    \<and> (\<forall>rest. rdbLoadObject (type_byte REDIS_STRING) (v @ rest) = Some (Some obj, rest))
    \<and> save_entry db e = Some (time_bytes (exm db (key_canon (fst e))) @ type_byte REDIS_STRING # rdbSaveKey (fst e) @ v, db\<lparr>expires := x\<rparr>)
    \<and> db_good (db\<lparr>expires := x\<rparr>) \<and> dict_map key_canon x = exm db"
proof -
  obtain t obj where t: "snd e = Some obj" "storable t" "robjCreateStringObject t = Some obj" and
    k: "kept_time (exm db (key_canon (fst e)))" using assms(2) by (auto simp: kept_entry_def)
  obtain v where v: "rdbSaveValue obj = Some v" "otype obj = REDIS_STRING"
    "\<forall>rest. rdbLoadObject (type_byte REDIS_STRING) (v @ rest) = Some (Some obj, rest)" using rdb_value [OF t(2,3)] by blast
  have g: "dict_good expiretype key_canon (expires db)" using assms(1) by (simp add: db_good_def)
  note has = expire_keys.store.contains_law [OF g, of "fst e"]
  show ?thesis
  proof (cases "exm db (key_canon (fst e))")
    case None
    then show ?thesis using has v t(1) assms(1)
      by (intro exI [of _ obj] exI [of _ v] exI [of _ "expires db"]) (simp add: save_entry_def time_bytes_def rdbSaveType_def)
  next
    case (Some y)
    then obtain z where z: "exm db (key_canon (fst e)) = Some (Some z)" using k by (auto simp: kept_time_def)
    obtain x where x: "dictFetchValue expiretype (expires db) (fst e) = Some (Some z, x)" "dict_good expiretype key_canon x"
      "dict_map key_canon x = exm db" using expire_keys.store.fetch_law [OF g, of "fst e"] z by auto
    then show ?thesis using has v t(1) assms(1) z
      by (intro exI [of _ obj] exI [of _ v] exI [of _ x])
        (simp add: save_entry_def time_bytes_def rdbSaveType_def db_good_def ptr_long_def)
  qed
qed

lemma kept_entry_cong: "dict_map key_canon x = exm db \<Longrightarrow> kept_entry (db\<lparr>expires := x\<rparr>) = kept_entry db"
  by (rule ext) (simp add: kept_entry_def)

text \<open>Reading it back into a database that has no expiry time for the key.\<close>

lemma load_time:
  assumes "kept_time t"
  shows "\<exists>m ex. (\<forall>n rest. load_loop (n + m) (time_bytes t @ rest) ds sel 0 = load_loop n rest ds sel ex)
    \<and> m \<le> length (time_bytes t) \<and> (if t = None then ex = 0 else 0 < ex \<and> t = Some (Some ex))"
proof (cases t)
  case None
  then show ?thesis by (intro exI [of _ 0] exI [of _ "0 :: int"]) (simp add: time_bytes_def)
next
  case (Some y)
  then obtain x where x: "t = Some (Some x)" "0 < x" "x < 2 ^ 63" using assms by (auto simp: kept_time_def)
  have "le_value (le_bytes 8 x) = x" using x(2,3) by (intro le_value_bytes_id) simp_all
  moreover have "signed_value 64 x = x" using signed_value_id [of 64 x] x(2,3) by simp
  ultimately have "load_loop (n + 1) (time_bytes t @ rest) ds sel 0 = load_loop n rest ds sel x" for n rest
    using x(1) by (simp add: time_bytes_def rdbLoadType_def fread_def rdb_codes)
  then show ?thesis using x by (intro exI [of _ 1] exI [of _ x]) (simp add: time_bytes_def)
qed

lemma load_entry:
  assumes x: "load ds j = Some x" "db_good x" "exm x (key_canon key) = None"
    and e: "length key \<le> 1024" "kept_time t"
    and v: "\<forall>rest. rdbLoadObject (type_byte REDIS_STRING) (v @ rest) = Some (Some obj, rest)"
  shows "\<exists>m x'. (\<forall>n rest. load_loop (n + m) (time_bytes t @ type_byte REDIS_STRING # rdbSaveKey key @ v @ rest) ds (Some j) 0
        = load_loop n rest (ds[nat j := x']) (Some j) 0)
    \<and> m \<le> length (time_bytes t @ type_byte REDIS_STRING # rdbSaveKey key @ v) \<and> db_good x'
    \<and> kvm x' = (kvm x)(key_canon key \<mapsto> Some obj) \<and> exm x' = exm x ++ (if t = None then Map.empty else [key_canon key \<mapsto> the t])"
proof -
  obtain m ex where m: "\<And>n rest. load_loop (n + m) (time_bytes t @ rest) ds (Some j) 0 = load_loop n rest ds (Some j) ex"
    "m \<le> length (time_bytes t)" "if t = None then ex = 0 else 0 < ex \<and> t = Some (Some ex)"
    using load_time [OF e(2), of ds "Some j"] by blast
  obtain d where d: "dbAdd x key (Some obj) = Some (DICT_OK, x\<lparr>kv := d\<rparr>)" "db_good (x\<lparr>kv := d\<rparr>)"
    "dict_map key_canon d = (kvm x)(key_canon key \<mapsto> Some obj)" by (rule dbAdd_sets [OF x(2)])
  have none: "expires_map (x\<lparr>kv := d\<rparr>) key = None" using x(3) by (simp add: expires_map_def)
  obtain f where f: "dbSetExpire (x\<lparr>kv := d\<rparr>) key ex = Some (DICT_OK, x\<lparr>kv := d, expires := f\<rparr>)"
    "db_good (x\<lparr>kv := d, expires := f\<rparr>)" "dict_map key_canon f = (exm x)(key_canon key \<mapsto> long_ptr ex)"
    by (rule dbSetExpire_adds [OF d(2), of key ex]) (use none in simp)
  define x' where "x' = (if t = None then x\<lparr>kv := d\<rparr> else x\<lparr>kv := d, expires := f\<rparr>)"
  have st: "store ds j y = Some (ds[nat j := y])" for y using x(1) by (auto simp: load_Some store_def)
  have codes: "type_byte REDIS_STRING \<noteq> RDB_EOF" "type_byte REDIS_STRING \<noteq> RDB_SELECTDB" "type_byte REDIS_STRING \<noteq> RDB_EXPIRETIME"
    by (simp_all add: type_byte_def rdb_codes)
  have step: "load_loop (Suc n) (type_byte REDIS_STRING # rdbSaveKey key @ v @ rest) ds (Some j) ex
      = load_loop n rest (ds[nat j := x']) (Some j) 0" for n rest
    using codes rdb_key [OF e(1), of "v @ rest"] v x(1) d(1) f(1) m(3) st
    by (simp add: rdbLoadType_def fread_def x'_def split: if_splits)
  have "load_loop (n + Suc m) (time_bytes t @ type_byte REDIS_STRING # rdbSaveKey key @ v @ rest) ds (Some j) 0
      = load_loop n rest (ds[nat j := x']) (Some j) 0" for n rest
    using m(1) [of "Suc n"] step by simp
  moreover have "Suc m \<le> length (time_bytes t @ type_byte REDIS_STRING # rdbSaveKey key @ v)" using m(2) by simp
  moreover have "exm x' = exm x ++ (if t = None then Map.empty else [key_canon key \<mapsto> the t])"
    using m(3) f(3) by (auto simp: x'_def long_ptr_def)
  ultimately show ?thesis using d(2,3) f(2)
    by (intro exI [of _ "Suc m"] exI [of _ x']) (auto simp: x'_def)
qed

section \<open>A whole database\<close>

text \<open>What saving a list of entries writes.\<close>

fun save_list :: "redisDb \<Rightarrow> (bytes, robj) dictEntry list \<Rightarrow> bytes option" where
  "save_list db [] = Some []"
| "save_list db (e # es) = do { (b, db') \<leftarrow> save_entry db e; bs \<leftarrow> save_list db' es; Some (b @ bs) }"

lemma save_entry_kv: "save_entry db e = Some (b, db') \<Longrightarrow> kv db' = kv db"
  by (auto simp: save_entry_def bind_Some_iff Let_def split: if_splits)

lemma save_entries_list: "iter_collect n (kv db) di = Some es \<Longrightarrow> save_entries n db di = save_list db es"
proof (induction n arbitrary: db di es)
  case (Suc n)
  obtain r di' where step: "dictIterNext (kv db) di = Some (r, di')" using Suc.prems by (auto simp: bind_Some_iff)
  show ?case
  proof (cases r)
    case None
    then show ?thesis using Suc.prems step by auto
  next
    case (Some e)
    with Suc.prems step obtain es' where es: "es = e # es'" "iter_collect n (kv db) di' = Some es'"
      by (auto simp: bind_Some_iff)
    show ?thesis
    proof (cases "save_entry db e")
      case None
      then show ?thesis using step Some es by simp
    next
      case (Some x)
      obtain b db' where x: "x = (b, db')" by fastforce
      then have "iter_collect n (kv db') di' = Some es'" using save_entry_kv Some es(2) by metis
      from Suc.IH [OF this] show ?thesis using step \<open>r = Some e\<close> es(1) Some x by simp
    qed
  qed
qed simp

definition keys_of :: "(bytes, robj) dictEntry list \<Rightarrow> (nat \<times> bytes) set" where
  "keys_of es = (key_canon \<circ> fst) ` set es"

lemma load_entries:
  assumes "db_good db" "\<forall>e \<in> set es. kept_entry db e" "distinct (map (key_canon \<circ> fst) es)"
    and "load ds j = Some x" "db_good x" "\<forall>c \<in> keys_of es. exm x c = None"
  shows "\<exists>b m x'. save_list db es = Some b
    \<and> (\<forall>n rest. load_loop (n + m) (b @ rest) ds (Some j) 0 = load_loop n rest (ds[nat j := x']) (Some j) 0)
    \<and> m \<le> length b \<and> db_good x' \<and> kvm x' = kvm x ++ canon_map key_canon es \<and> exm x' = exm x ++ (exm db |` keys_of es)"
  using assms
proof (induction es arbitrary: db ds x)
  case Nil
  then have "ds[nat j := x] = ds" by (auto simp: load_Some)
  with Nil show ?case
    by (intro exI [of _ "[]"] exI [of _ 0] exI [of _ x]) (simp add: keys_of_def)
next
  case (Cons e es)
  have k: "kept_entry db e" using Cons.prems(2) by simp
  let ?c = "key_canon (fst e)"
  obtain obj v y where v: "snd e = Some obj" "\<forall>rest. rdbLoadObject (type_byte REDIS_STRING) (v @ rest) = Some (Some obj, rest)"
    "save_entry db e = Some (time_bytes (exm db ?c) @ type_byte REDIS_STRING # rdbSaveKey (fst e) @ v, db\<lparr>expires := y\<rparr>)"
    "db_good (db\<lparr>expires := y\<rparr>)" "dict_map key_canon y = exm db"
    using save_entry_bytes [OF Cons.prems(1) k] by blast
  have kk: "length (fst e) \<le> 1024" "kept_time (exm db ?c)" using k by (simp_all add: kept_entry_def)
  have "exm x ?c = None" using Cons.prems(6) by (simp add: keys_of_def)
  from load_entry [OF Cons.prems(4,5) this kk v(2)] obtain m1 x1 where 1:
    "\<And>n rest. load_loop (n + m1) (time_bytes (exm db ?c) @ type_byte REDIS_STRING # rdbSaveKey (fst e) @ v @ rest) ds (Some j) 0
        = load_loop n rest (ds[nat j := x1]) (Some j) 0"
    "m1 \<le> length (time_bytes (exm db ?c) @ type_byte REDIS_STRING # rdbSaveKey (fst e) @ v)" "db_good x1"
    "kvm x1 = (kvm x)(?c \<mapsto> Some obj)" "exm x1 = exm x ++ (if exm db ?c = None then Map.empty else [?c \<mapsto> the (exm db ?c)])"
    by blast
  have fresh: "?c \<notin> keys_of es" using Cons.prems(3) by (auto simp: keys_of_def)
  have "\<forall>e \<in> set es. kept_entry (db\<lparr>expires := y\<rparr>) e" using Cons.prems(2) by (simp add: kept_entry_cong [OF v(5)])
  moreover have "\<forall>c \<in> keys_of es. exm x1 c = None"
  proof
    fix c assume c: "c \<in> keys_of es"
    then have "c \<noteq> ?c" using fresh by auto
    then have "exm x1 c = exm x c" by (simp add: 1(5) map_add_def)
    with c Cons.prems(6) show "exm x1 c = None" by (auto simp: keys_of_def)
  qed
  moreover have "load (ds[nat j := x1]) j = Some x1" using Cons.prems(4) by (auto simp: load_def nat_less_iff split: if_splits)
  ultimately obtain b m2 x2 where 2: "save_list (db\<lparr>expires := y\<rparr>) es = Some b"
    "\<And>n rest. load_loop (n + m2) (b @ rest) (ds[nat j := x1]) (Some j) 0 = load_loop n rest (ds[nat j := x2]) (Some j) 0"
    "m2 \<le> length b" "db_good x2" "kvm x2 = kvm x1 ++ canon_map key_canon es" "exm x2 = exm x1 ++ (exm db |` keys_of es)"
    using Cons.IH [OF v(4), of "ds[nat j := x1]" x1] Cons.prems(3) 1(3) v(5) by auto
  let ?b = "time_bytes (exm db ?c) @ type_byte REDIS_STRING # rdbSaveKey (fst e) @ v"
  have kv: "kvm x2 = kvm x ++ canon_map key_canon (e # es)"
  proof -
    have "?c \<notin> dom (canon_map key_canon es)" using fresh by (auto simp: keys_of_def dom_def canon_map_None)
    then show ?thesis using 1(4) 2(5) v(1) by (simp add: map_add_upd_left map_add_upd [symmetric] del: map_add_upd fun_upd_apply)
  qed
  have ex: "exm x2 = exm x ++ (exm db |` keys_of (e # es))"
  proof
    fix c
    have "c = ?c \<Longrightarrow> c \<notin> keys_of es" using fresh by simp
    moreover have "c \<in> keys_of (e # es) \<longleftrightarrow> c = ?c \<or> c \<in> keys_of es" by (auto simp: keys_of_def)
    ultimately show "exm x2 c = (exm x ++ (exm db |` keys_of (e # es))) c"
      unfolding 2(6) 1(5) by (cases "c = ?c"; cases "c \<in> keys_of es"; cases "exm db c")
        (simp_all add: map_add_def restrict_map_def)
  qed
  have run: "load_loop (n + (m2 + m1)) ((?b @ b) @ rest) ds (Some j) 0 = load_loop n rest (ds[nat j := x2]) (Some j) 0" for n rest
    using 1(1) [of "n + m2" "b @ rest"] 2(2) by (simp add: add.assoc)
  have "save_list db (e # es) = Some (?b @ b)" "m2 + m1 \<le> length (?b @ b)" using v(3) 2(1,3) 1(2) by simp_all
  with run kv ex 2(4) show ?case by blast
qed

text \<open>
  A database a snapshot keeps: not in the middle of a rehash, and with entries that survive.  A database
  as it is before loading, and what it must be after.
\<close>

definition snapshot_db :: "int \<Rightarrow> redisDb \<Rightarrow> bool" where
  "snapshot_db i db \<longleftrightarrow> db_good db \<and> \<not> dictIsRehashing (kv db) \<and> db_id db = i \<and> (\<forall>e \<in> set (entries (kv db)). kept_entry db e)"

definition empty_db :: "redisDb \<Rightarrow> bool" where
  "empty_db x \<longleftrightarrow> db_good x \<and> kvm x = Map.empty \<and> exm x = Map.empty"

definition restored :: "redisDb \<Rightarrow> redisDb \<Rightarrow> bool" where
  "restored db x \<longleftrightarrow> kvm x = kvm db \<and> exm x = exm db |` dom (kvm db)"

lemma snapshot_entries:
  assumes "snapshot_db i db"
  shows "save_entries (Suc (nat (dictSize (kv db)))) db dictGetIterator = save_list db (entries (kv db))"
    and "distinct (map (key_canon \<circ> fst) (entries (kv db)))" "keys_of (entries (kv db)) = dom (kvm db)"
    and "dictIsEmpty (kv db) \<longleftrightarrow> entries (kv db) = []"
proof -
  have ok: "dict_ok kvtype key_canon (kv db)" "dict_live (kv db)" "\<not> dictIsRehashing (kv db)"
    using assms by (simp_all add: snapshot_db_def db_good_def dict_good_def)
  have n: "dictSize (kv db) = int (length (entries (kv db)))"
    using ok(1) by (auto simp: dict_ok_def ht_ok_def dictSize_def entries_def)
  have "collects (kv db) dictGetIterator (entries (kv db))"
    using collects_dict [OF ok(1,2)] ok(1,3) by (auto simp: dictIsRehashing_def dict_ok_def entries_def)
  then have "iter_collect (Suc (nat (dictSize (kv db)))) (kv db) dictGetIterator = Some (entries (kv db))"
    by (rule collects_run) (simp add: n)
  then show "save_entries (Suc (nat (dictSize (kv db)))) db dictGetIterator = save_list db (entries (kv db))"
    by (rule save_entries_list)
  show "distinct (map (key_canon \<circ> fst) (entries (kv db)))" using ok(1) by (auto simp: dict_ok_def)
  show "keys_of (entries (kv db)) = dom (kvm db)"
    by (auto simp: keys_of_def dict_map_alt dom_def canon_map_None)
  show "dictIsEmpty (kv db) \<longleftrightarrow> entries (kv db) = []"
    using n ok(1,3) by (simp add: dictIsEmpty_def dictSize_def dictIsRehashing_def dict_ok_def)
qed

lemma load_one_db:
  assumes db: "snapshot_db (int i) db" "entries (kv db) \<noteq> []" "i < 256" and x: "i < length ds" "empty_db (ds ! i)"
  shows "\<exists>b m x'. save_entries (Suc (nat (dictSize (kv db)))) db dictGetIterator = Some b \<and> restored db x'
    \<and> (\<forall>n rest sel. load_loop (n + m) (RDB_SELECTDB # low_byte (db_id db) # b @ rest) ds sel 0
        = load_loop n rest (ds[i := x']) (Some (int i)) 0) \<and> m \<le> length b + 2"
proof -
  note e = snapshot_entries [OF db(1)]
  have db': "db_good db" "\<forall>e \<in> set (entries (kv db)). kept_entry db e" "db_id db = int i" using db(1) by (simp_all add: snapshot_db_def)
  have ld: "load ds (int i) = Some (ds ! i)" "db_good (ds ! i)" "\<forall>c \<in> keys_of (entries (kv db)). exm (ds ! i) c = None"
    using x by (simp_all add: load_nat empty_db_def)
  obtain b m x' where l: "save_list db (entries (kv db)) = Some b"
    "\<And>n rest. load_loop (n + m) (b @ rest) ds (Some (int i)) 0 = load_loop n rest (ds[i := x']) (Some (int i)) 0"
    "m \<le> length b" "kvm x' = kvm (ds ! i) ++ canon_map key_canon (entries (kv db))"
    "exm x' = exm (ds ! i) ++ (exm db |` keys_of (entries (kv db)))"
    using load_entries [OF db'(1,2) e(2) ld] by auto
  have "restored db x'"
    using l(4,5) x(2) by (simp add: restored_def empty_db_def e(3) dict_map_alt)
  moreover have "load_loop (n + Suc m) (RDB_SELECTDB # low_byte (db_id db) # b @ rest) ds sel 0
      = load_loop n rest (ds[i := x']) (Some (int i)) 0" for n rest sel
    using l(2) db(3) x(1) by (simp add: rdbLoadType_def fread_def rdb_codes db'(3))
  ultimately show ?thesis using l(1,3) e(1)
    by (intro exI [of _ b] exI [of _ "Suc m"] exI [of _ x']) simp
qed

lemma load_dbs:
  assumes "\<forall>k < length dbl. snapshot_db (int (i + k)) (dbl ! k)" "i + length dbl \<le> 256" "i + length dbl \<le> length ds"
    "\<forall>k < length dbl. empty_db (ds ! (i + k))"
  shows "\<exists>b m ds'. save_dbs dbl = Some b \<and> (\<forall>n rest sel. load_loop (Suc n + m) (b @ RDB_EOF # rest) ds sel 0 = Some (ds', rest))
    \<and> m \<le> length b \<and> length ds' = length ds \<and> (\<forall>k < length dbl. restored (dbl ! k) (ds' ! (i + k))) \<and> (\<forall>k < i. ds' ! k = ds ! k)"
  using assms
proof (induction dbl arbitrary: i ds)
  case Nil
  then show ?case
    by (intro exI [of _ "[]"] exI [of _ 0] exI [of _ ds]) (simp add: rdbLoadType_def fread_def)
next
  case (Cons db dbl)
  have snap: "snapshot_db (int i) db" using Cons.prems(1) by force
  have here: "i < 256" "i < length ds" "empty_db (ds ! i)" using Cons.prems(2,3,4) by auto
  have later: "\<forall>k < length dbl. snapshot_db (int (Suc i + k)) (dbl ! k)" "\<forall>k < length dbl. empty_db (ds ! (Suc i + k))"
  proof -
    have "snapshot_db (int (i + Suc k)) ((db # dbl) ! Suc k) \<and> empty_db (ds ! (i + Suc k))" if "k < length dbl" for k
      using Cons.prems(1,4) that by (metis Suc_less_eq length_Cons)
    then show "\<forall>k < length dbl. snapshot_db (int (Suc i + k)) (dbl ! k)" "\<forall>k < length dbl. empty_db (ds ! (Suc i + k))"
      by simp_all
  qed
  show ?case
  proof (cases "entries (kv db) = []")
    case True
    obtain b m ds' where 1: "save_dbs dbl = Some b" "\<And>n rest sel. load_loop (Suc n + m) (b @ RDB_EOF # rest) ds sel 0 = Some (ds', rest)"
      "m \<le> length b" "length ds' = length ds" "\<forall>k < length dbl. restored (dbl ! k) (ds' ! (Suc i + k))" "\<forall>k < Suc i. ds' ! k = ds ! k"
      using Cons.IH [OF later(1) _ _ later(2)] Cons.prems(2,3) by auto
    have "restored db (ds' ! i)"
      using 1(6) here(3) True by (simp add: restored_def empty_db_def dict_map_alt)
    then have "\<forall>k < length (db # dbl). restored ((db # dbl) ! k) (ds' ! (i + k))"
      using 1(5) by (auto simp: nth_Cons split: nat.splits)
    with 1 True snapshot_entries(4) [OF snap] show ?thesis by (intro exI [of _ b] exI [of _ m] exI [of _ ds']) simp
  next
    case False
    obtain b m x' where 1: "save_entries (Suc (nat (dictSize (kv db)))) db dictGetIterator = Some b" "restored db x'"
      "\<And>n rest sel. load_loop (n + m) (RDB_SELECTDB # low_byte (db_id db) # b @ rest) ds sel 0
        = load_loop n rest (ds[i := x']) (Some (int i)) 0" "m \<le> length b + 2"
      using load_one_db [OF snap False here] by blast
    have later': "\<forall>k < length dbl. empty_db (ds[i := x'] ! (Suc i + k))" using later(2) by simp
    obtain b' m' ds' where 2: "save_dbs dbl = Some b'"
      "\<And>n rest sel. load_loop (Suc n + m') (b' @ RDB_EOF # rest) (ds[i := x']) sel 0 = Some (ds', rest)"
      "m' \<le> length b'" "length ds' = length ds" "\<forall>k < length dbl. restored (dbl ! k) (ds' ! (Suc i + k))"
      "\<forall>k < Suc i. ds' ! k = ds[i := x'] ! k"
      using Cons.IH [OF later(1) _ _ later'] Cons.prems(2,3) by auto
    have "ds' ! i = x'" using 2(6) here(2) by simp
    then have r: "\<forall>k < length (db # dbl). restored ((db # dbl) ! k) (ds' ! (i + k))"
      using 1(2) 2(5) by (auto simp: nth_Cons split: nat.splits)
    have "load_loop (Suc n + (m' + m)) ((RDB_SELECTDB # low_byte (db_id db) # b @ b') @ RDB_EOF # rest) ds sel 0 = Some (ds', rest)"
      for n rest sel using 1(3) [of "Suc n + m'" "b' @ RDB_EOF # rest"] 2(2) by (simp add: add.assoc)
    with False snapshot_entries(4) [OF snap] 1(1,4) 2 r show ?thesis
      by (intro exI [of _ "RDB_SELECTDB # low_byte (db_id db) # b @ b'"] exI [of _ "m' + m"] exI [of _ ds'])
        (simp add: rdbSaveType_def)
  qed
qed

section \<open>The properties of the snapshot\<close>

text \<open>
  Every 32 bit length is read back from its prefix, whatever follows, and a prefix takes one, two or
  five bytes.
\<close>

theorem rdb_length_roundtrip:
  "rdbLoadLen (rdbSaveLen w @ rest) = (w, rest) \<and> length (rdbSaveLen w) \<in> {1, 2, 5}"
  using rdb_length [of w rest] by (auto simp: rdbSaveLen_def)

lemma load_magic: "fread 9 (''REDIS0001'' @ x) = (''REDIS0001'', x)"
  by (simp add: fread_def)

lemma snapshot_loads:
  assumes saved: "\<forall>k < length dbl. snapshot_db (int k) (dbl ! k)" "length dbl \<le> 256"
    and fresh: "length ds = length dbl" "\<forall>k < length dbl. empty_db (ds ! k)"
    and digest: "\<forall>d. length (sha d) = RDB_CHECKSUM_LEN"
    and size: "\<forall>b. save_dbs dbl = Some b \<longrightarrow> 10 + length b \<le> RDB_MAX_SIZE"
  shows "\<exists>file ds'. rdbSave sha dbl = Some file \<and> rdbLoad sha file ds = Some ds' \<and> length ds' = length dbl
    \<and> (\<forall>k < length dbl. restored (dbl ! k) (ds' ! k))"
proof -
  obtain b m ds' where l: "save_dbs dbl = Some b" "\<And>n rest sel. load_loop (Suc n + m) (b @ RDB_EOF # rest) ds sel 0 = Some (ds', rest)"
    "m \<le> length b" "length ds' = length ds" "\<forall>k < length dbl. restored (dbl ! k) (ds' ! k)"
    using load_dbs [of dbl 0 ds] saved fresh by auto
  define body where "body = ''REDIS0001'' @ b @ [RDB_EOF]"
  have small: "length body \<le> RDB_MAX_SIZE" using size l(1) by (simp add: body_def)
  define h where "h = sha body"
  have h: "length h = RDB_CHECKSUM_LEN" using digest by (simp add: h_def)
  have "rdbSave sha dbl = Some (body @ h)"
    using l(1) small by (simp add: rdbSave_def rdbSaveType_def fread_def h_def body_def)
  moreover have "rdbLoad sha (body @ h) ds = Some ds'"
  proof -
    have start: "fread 9 (body @ h) = (''REDIS0001'', b @ RDB_EOF # h)" using load_magic by (simp add: body_def)
    have "load_loop (Suc (length (b @ RDB_EOF # h))) (b @ RDB_EOF # h) ds None 0 = Some (ds', h)"
      using l(2) [of "length (b @ RDB_EOF # h) - m" h None] l(3) by simp
    moreover have "length (body @ h) - length h = length body" "fst (fread RDB_CHECKSUM_LEN h) = h"
      "fst (fread (length body) (body @ h)) = body" using h by (simp_all add: fread_def)
    ultimately show ?thesis using small h unfolding rdbLoad_def start by (simp add: h_def del: load_loop.simps)
  qed
  ultimately show ?thesis using l(4,5) fresh(1) by auto
qed

text \<open>
  C10. Saving databases and loading the file into as many empty ones restores them: every key with its
  value, and the expiry time of every key that has one.  The file must fit the buffer of the loader
  (4096 bytes, digest apart), no dictionary may be in the middle of a rehash, and the values must be
  texts shorter than 16384 bytes which, when they are numbers, are not negative, fit an \<open>int\<close> and are
  not 32768; the next properties say what becomes of the others.
\<close>

theorem rdb_snapshot_restored:
  assumes saved: "\<forall>k < length dbl. snapshot_db (int k) (dbl ! k)" "length dbl \<le> 256"
    and fresh: "length ds = length dbl" "\<forall>k < length dbl. empty_db (ds ! k)"
    and digest: "\<forall>d. length (sha d) = RDB_CHECKSUM_LEN"
    and size: "\<forall>b. save_dbs dbl = Some b \<longrightarrow> 10 + length b \<le> RDB_MAX_SIZE"
  shows "\<exists>file ds'. rdbSave sha dbl = Some file \<and> rdbLoad sha file ds = Some ds' \<and> length ds' = length dbl
    \<and> (\<forall>k < length dbl. restored (dbl ! k) (ds' ! k))"
  using snapshot_loads [OF saved fresh digest size] .

text \<open>A database with one key that expires.\<close>

definition one_key :: "redisDb option" where
  "one_key = do {
     (r1, db1) \<leftarrow> dbAdd (dbInit 0) ''k'' (Some (createLongString 7));
     (r2, db2) \<leftarrow> dbSetExpire db1 ''k'' 900;
     Some db2
   }"

lemma one_key_bytes:
  "(case one_key of None \<Rightarrow> None | Some db \<Rightarrow> save_dbs [db])
     = Some ([CHR 0xFE, CHR 0x00, CHR 0xFD] @ le_bytes 8 900 @ [CHR 0x00, CHR 0x01] @ ''k'' @ [CHR 0xFC, CHR 0x07])"
  by code_simp

lemma one_key_entries: "map_option (\<lambda>db. (entries (kv db), rehashidx (kv db), db_id db, entries (expires db))) one_key
    = Some ([(''k'', Some (createLongString 7))], - 1, 0, [(''k'', Some 900)])"
  by code_simp

lemma one_key_snapshot:
  obtains db where "one_key = Some db" "snapshot_db 0 db"
proof -
  obtain d where d: "dbAdd (dbInit 0) ''k'' (Some (createLongString 7)) = Some (DICT_OK, (dbInit 0)\<lparr>kv := d\<rparr>)"
    "db_good ((dbInit 0)\<lparr>kv := d\<rparr>)" by (rule dbAdd_sets [OF dbInit_good(1)])
  have "expires_map ((dbInit 0)\<lparr>kv := d\<rparr>) ''k'' = None" using dbInit_good(3) by (simp add: expires_map_def)
  then obtain f where f: "dbSetExpire ((dbInit 0)\<lparr>kv := d\<rparr>) ''k'' 900 = Some (DICT_OK, (dbInit 0)\<lparr>kv := d, expires := f\<rparr>)"
    "db_good ((dbInit 0)\<lparr>kv := d, expires := f\<rparr>)"
    "dict_map key_canon f = [key_canon ''k'' \<mapsto> long_ptr 900]"
    using dbSetExpire_adds [OF d(2), of "''k''" 900] by (auto simp: dbInit_def dictCreate_good)
  define db where "db = (dbInit 0)\<lparr>kv := d, expires := f\<rparr>"
  have one: "one_key = Some db" using d(1) f(1) by (simp add: one_key_def db_def)
  have "robjCreateStringObject ''7'' = Some (createLongString 7)" "storable ''7''" by code_simp+
  moreover have "kept_time (Some (Some 900))" unfolding kept_time_def by (intro disjI2 exI [of _ 900]) simp
  ultimately have "snapshot_db 0 db"
    using one_key_entries f(2,3) unfolding one by (auto simp: snapshot_db_def dictIsRehashing_def kept_entry_def
      long_ptr_def nul_free_def db_def [symmetric]) (simp add: db_def)
  with one show thesis by (rule that)
qed

theorem rdb_snapshot_restored_witness:
  "\<exists>db file ds'. one_key = Some db \<and> kvm db \<noteq> Map.empty \<and> rdbSave (\<lambda>_. replicate 32 NUL) [db] = Some file
     \<and> rdbLoad (\<lambda>_. replicate 32 NUL) file [dbInit 0] = Some ds' \<and> length ds' = 1 \<and> restored db (ds' ! 0)"
proof -
  obtain db where db: "one_key = Some db" "snapshot_db 0 db" by (rule one_key_snapshot)
  have "entries (kv db) = [(''k'', Some (createLongString 7))]" using one_key_entries by (simp add: db(1))
  then have "kvm db \<noteq> Map.empty" by (simp add: dict_map_alt)
  moreover have "empty_db (dbInit 0)" using dbInit_good(1) by (simp add: empty_db_def dbInit_def dictCreate_good)
  moreover have "\<forall>b. save_dbs [db] = Some b \<longrightarrow> 10 + length b \<le> RDB_MAX_SIZE"
    using one_key_bytes by (simp add: db(1) RDB_MAX_SIZE_def)
  ultimately show ?thesis
    using rdb_snapshot_restored [of "[db]" "[dbInit 0]" "\<lambda>_. replicate 32 NUL"] db by (auto simp: RDB_CHECKSUM_LEN_def)
qed

text \<open>
  A small negative number does not survive a snapshot: it is saved as one byte, which is read back as
  an unsigned one, so that 256 is added to it.
\<close>

theorem rdb_negative_corrupted:
  assumes "- 256 < v" "v < 0"
  shows "\<exists>b. rdbSaveStringObject (createLongString v) = Some b
    \<and> (\<forall>rest. rdbLoadStringObject (b @ rest) = Some (Some (createLongString (v + 256)), rest))"
proof -
  have v: "to_int v = v" using assms by (simp add: to_int_id c_limits)
  have "(v + 256) mod 256 = v + 256" using assms by (intro mod_pos_pos_trivial) simp_all
  then have "le_value (le_bytes 1 v) = v + 256" by (simp add: le_value_bytes)
  moreover have "robjCreateStringObject (take 10 (dec_int (v + 256))) = Some (createLongString (v + 256))"
    using assms by (intro reload_number) (simp_all add: c_limits)
  ultimately show ?thesis using assms by (simp add: rdbSaveStringObject_def createLongString_def v
      rdbLoadStringObject_def rdbSaveType_def fread_def load_number_def)
qed

theorem rdb_negative_corrupted_witness:
  "\<exists>b. rdbSaveStringObject (createLongString (- 1)) = Some b
     \<and> rdbLoadStringObject b = Some (Some (createLongString 255), [])"
  using rdb_negative_corrupted [of "- 1"] by (auto dest: spec [of _ "[]"])

text \<open>
  A text of 16384 bytes or more does not survive either: the first byte of its five byte length is the
  code of a 32 bit number, so the loader reads the length as the value and takes the text itself for
  the next entries of the file.
\<close>

theorem rdb_long_text_misread:
  assumes "encoding obj = REDIS_ENCODING_RAW" "optr obj = SdsPtr s" "slen s = int (length t)" "sbuf s = t @ r"
    and "2 ^ 14 \<le> length t" "length t \<le> nat INT_MAX"
  shows "\<exists>b. rdbSaveStringObject obj = Some b
    \<and> (\<forall>rest. rdbLoadStringObject (b @ rest) = Some (Some (createLongString (int (length t))), t @ rest))"
proof -
  let ?n = "int (length t)" let ?w = "word_of_int ?n :: 32 word"
  have n: "0 \<le> ?n" "?n \<le> INT_MAX" using assms(6) by (simp_all add: c_limits)
  have w: "uint ?w = ?n" using n by (subst uint_word_of_int_eq, intro take_bit_int_eq_self) (simp_all add: c_limits)
  then have "\<not> ?w < 2 ^ 6" "\<not> ?w < 2 ^ 14" using assms(5) by (simp_all add: word_less_def)
  then have save: "rdbSaveStringObject obj = Some (word_byte 0xFE # le_bytes 4 ?n @ t)"
    using assms(1-4) w to_int_id [of ?n] n by (simp add: rdbSaveStringObject_def rdbSaveLen_def load_block_def c_limits)
  have "word_byte 0xFE = RDB_ENC_INT32" by code_simp
  moreover have "le_value (le_bytes 4 ?n) = ?n" using n by (intro le_value_bytes_id) (simp_all add: c_limits)
  moreover have "signed_value 32 ?n = ?n" using signed_value_id [of 32 ?n] n by (simp add: c_limits)
  ultimately show ?thesis using save reload_number [OF n]
    by (simp add: rdbLoadStringObject_def fread_def load_number_def rdb_codes)
qed

theorem rdb_long_text_misread_witness:
  "\<exists>b. rdbSaveStringObject \<lparr>otype = REDIS_STRING, encoding = REDIS_ENCODING_RAW, refcount = None,
        optr = SdsPtr \<lparr>slen = 16384, sfree = 0, sbuf = replicate 16384 CHR ''a'' @ [NUL]\<rparr>\<rparr> = Some b
     \<and> rdbLoadStringObject b = Some (Some (createLongString 16384), replicate 16384 CHR ''a'')"
  using rdb_long_text_misread [of "\<lparr>otype = REDIS_STRING, encoding = REDIS_ENCODING_RAW, refcount = None,
        optr = SdsPtr \<lparr>slen = 16384, sfree = 0, sbuf = replicate 16384 CHR ''a'' @ [NUL]\<rparr>\<rparr>" _ "replicate 16384 CHR ''a''" "[NUL]"]
  by (auto simp: c_limits dest: spec [of _ "[]"])

text \<open>A failed \<open>fork\<close> is taken for a running child: no later condition starts a save again.\<close>

lemma failed_fork_blocks_saves:
  assumes "p \<in> set (saveParams s)" "save_due E s p"
  shows "bgSaveIfNeeded E' fork (bgSaveIfNeeded E (- 1) s) = bgSaveIfNeeded E (- 1) s"
proof -
  have "isBgSaving (save_conditions E (- 1) s ps)" if "\<exists>p \<in> set ps. save_due E s p" for ps
    using that by (induction ps) (auto simp: bgsave_def)
  then show ?thesis using assms by (auto simp: bgSaveIfNeeded_def)
qed

end
