(* ===== verification/Repli.thy ===== *)
theory Repli
  imports Transactions Rdb
begin

unbundle bit_operations_syntax

text \<open>
  The replica's side of the replication (\<open>src/repli.c\<close>) and the replay of the append-only file
  (\<open>aof_load\<close> of \<open>src/aof.c\<close>): what the replica sends, the state machine of its read handler, the
  replay of received commands through a fake client, and its periodic job.  \<open>connectMaster\<close>,
  \<open>reconnectMaster\<close> and \<open>slaveUpdateOffset\<close> are in \<open>Commands\<close>.

  The handlers take from outside what the system calls return: the bytes received, the number of bytes
  \<open>send\<close> accepted, the digest, and how much of an unflushed file another stream can read
  (\<open>receiveRDBfile\<close>).  The read and the write buffer are their contents, as in \<open>Client\<close>.
\<close>

section \<open>What the replica sends\<close>

definition MASTER_SLAVE_TIMEOUT :: int where "MASTER_SLAVE_TIMEOUT = 60"
definition NET_BUF_MAX_SIZE :: nat where "NET_BUF_MAX_SIZE = 1024"

definition send_to_master :: "redisServer \<Rightarrow> bytes \<Rightarrow> redisServer option" where
  "send_to_master s msg = do { m \<leftarrow> master s; reply s m msg }"

definition sendPingToMaster :: "redisServer \<Rightarrow> redisServer option" where
  "sendPingToMaster s = send_to_master s resp_ping"

definition sendSyncToMaster :: "redisServer \<Rightarrow> redisServer option" where
  "sendSyncToMaster s = do {
     buf \<leftarrow> respEncodeArrayString [''SYNC'', take 15 (dec_int (offset s))];
     send_to_master s buf
   }"

definition sendReplAckToMaster :: "redisServer \<Rightarrow> redisServer option" where
  "sendReplAckToMaster s = do {
     buf \<leftarrow> respEncodeArrayString [''REPLACK'', take 1023 (dec_int (offset s))];
     send_to_master s buf
   }"

definition sendReplconfToMaster :: "redisServer \<Rightarrow> redisServer option" where
  "sendReplconfToMaster s = do {
     buf \<leftarrow> respEncodeArrayString [''REPLCONF'', ''listen-port'', dec_int (srv_port s)];
     send_to_master s buf
   }"

text \<open>
  Which message the write handler adds, by the state.  \<open>sent\<close> is the result of \<open>send\<close> on the message;
  the error field tested after it is never assigned (\<open>err\<close>).  Closing a descriptor takes it out of the
  \<open>epoll\<close> set.  Whatever was accepted, the write buffer is emptied.
\<close>

definition close_fd :: "redisServer \<Rightarrow> int \<Rightarrow> redisServer" where
  "close_fd s d = s\<lparr>eventLoop := (eventLoop s)\<lparr>epoll := (epoll (eventLoop s))(d := None)\<rparr>\<rparr>"

definition state_message :: "redisServer \<Rightarrow> redisServer option" where
  "state_message s = (case server_replState s of
       REPL_STATE_SLAVE_CONNECTING \<Rightarrow> sendPingToMaster s
     | REPL_STATE_SLAVE_SEND_REPLCONF \<Rightarrow> sendReplconfToMaster s
     | REPL_STATE_SLAVE_SEND_SYNC \<Rightarrow> sendSyncToMaster s
     | REPL_STATE_SLAVE_CONNECTED \<Rightarrow> sendReplAckToMaster s
     | _ \<Rightarrow> Some s)"

definition repliWriteHandler_proc :: "(bytes \<Rightarrow> int) \<Rightarrow> bool \<Rightarrow> redisServer \<Rightarrow> int \<Rightarrow> cid \<Rightarrow> (bytes \<times> redisServer) option" where
  "repliWriteHandler_proc sent err s d i = do {
     s1 \<leftarrow> state_message s;
     c \<leftarrow> cheap s1 i;
     if writeBuf c = [] then do { s2 \<leftarrow> delete_event s1 d AE_WRITABLE; Some ([], s2) }
     else do {
       let msg = takeWhile (\<lambda>x. x \<noteq> NUL) (writeBuf c);
       let nwritten = (if sent msg = - 1 then 0 else nat (sent msg));
       if nwritten = 0 \<and> err then Some ([], close_fd s1 d)
       else do {
         s2 \<leftarrow> delete_event (put_client s1 i (c\<lparr>writeBuf := []\<rparr>)) d AE_WRITABLE;
         Some (take nwritten msg, s2)
       }
     }
   }"

section \<open>The read buffer of the replica\<close>

text \<open>\<open>sdsrange\<close> on the contents; a negative length is written outside the buffer.\<close>

definition range_text :: "bytes \<Rightarrow> int \<Rightarrow> int \<Rightarrow> bytes option" where
  "range_text b start0 end0 = (
     let len = int (length b);
         start = (if start0 < 0 then len + start0 else start0);
         end = (if end0 < 0 then len + end0 else end0)
     in if start < 0 \<or> end \<ge> len then Some b
        else if end - start + 1 < 0 then None
        else Some (take (nat (end - start + 1)) (drop (nat start) b)))"

lemma range_text_sds:
  assumes "sds_ok s" "sdsrange s start end = Some s'"
  shows "range_text (content s) start end = Some (content s')"
proof -
  define a where "a = (if start < 0 then slen s + start else start)"
  define e where "e = (if end < 0 then slen s + end else end)"
  have ok: "0 \<le> slen s" "slen s < int (length (sbuf s))" "content s = take (nat (slen s)) (sbuf s)"
    using assms(1) by (simp_all add: sds_ok_def content_def)
  have len: "int (length (content s)) = slen s" using ok by simp
  have spec: "range_text (content s) start end = (if a < 0 \<or> e \<ge> slen s then Some (content s)
      else if e - a + 1 < 0 then None else Some (take (nat (e - a + 1)) (drop (nat a) (content s))))"
    by (simp add: range_text_def len a_def e_def Let_def)
  show ?thesis
  proof (cases "a < 0 \<or> e \<ge> slen s")
    case True
    then have "s' = s" using assms(2) by (simp add: sdsrange_def a_def [symmetric] e_def [symmetric] Let_def)
    with True show ?thesis unfolding spec by simp
  next
    case False
    then have "\<not> e - a + 1 < 0" using assms(2) unfolding sdsrange_def a_def [symmetric] e_def [symmetric] Let_def
      by (auto simp: bind_Some_iff split: if_splits)
    note n = this
    show ?thesis
    proof (cases "0 \<le> e")
      case True
      have "sdsrange s a e = sdsrange s start end"
        using True False by (simp add: sdsrange_def a_def [symmetric] e_def [symmetric] Let_def)
      with True False n assms show ?thesis using sdsrange_facts [of s a e] by (simp add: spec) (metis option.inject)
    next
      case neg: False
      have "e - a + 1 = 0" using n neg False by simp
      moreover from calculation have "slen s' = 0" using assms(2) False unfolding sdsrange_def a_def [symmetric] e_def [symmetric] Let_def
        by (auto simp: bind_Some_iff)
      then have "content s' = []" by (simp add: content_def)
      ultimately show ?thesis using n False unfolding spec by simp
    qed
  qed
qed

text \<open>\<open>sdsrange (buf, n, sdslen (buf) - 1)\<close>, on the read buffer of a client.\<close>

definition drop_read :: "redisServer \<Rightarrow> cid \<Rightarrow> int \<Rightarrow> redisServer option" where
  "drop_read s i n = do {
     c \<leftarrow> cheap s i;
     b \<leftarrow> range_text (readBuf c) n (int (length (readBuf c)) - 1);
     Some (put_client s i (c\<lparr>readBuf := b\<rparr>))
   }"

text \<open>\<open>strncmp (buf, text, strlen (text)) == 0\<close>, on a text without terminator.\<close>

definition starts :: "bytes \<Rightarrow> bytes \<Rightarrow> bool" where
  "starts p b \<longleftrightarrow> take (length p) b = p"

section \<open>Replaying commands through a fake client\<close>

text \<open>
  The loop of \<open>aof_load\<close> and of \<open>doAppendSync\<close>: as long as the buffer starts with a complete message, the
  message goes to the fake client and out of the buffer.  Every turn takes at least one byte, so the
  length of the buffer bounds their number.
\<close>

fun replay :: "env \<Rightarrow> nat \<Rightarrow> redisServer \<Rightarrow> cid \<Rightarrow> bytes \<Rightarrow> (bytes \<times> redisServer) option" where
  "replay E 0 s fkc buf = None"
| "replay E (Suc n) s fkc buf = do {
     r \<leftarrow> respParse (buf @ [NUL]) 0 (int (length buf));
     (case r of
        None \<Rightarrow> Some (buf, s)
      | Some e \<Rightarrow> do {
          msg \<leftarrow> load_block buf 0 (e + 1);
          s1 \<leftarrow> upd_client s fkc (\<lambda>c. c\<lparr>readBuf := readBuf c @ msg\<rparr>);
          s2 \<leftarrow> processClientQueryBuf E s1 fkc;
          buf' \<leftarrow> range_text buf (e + 1) (int (length buf) - 1);
          replay E n s2 fkc buf'
        })
   }"

definition aof_load :: "env \<Rightarrow> redisServer \<Rightarrow> bytes \<Rightarrow> redisServer option" where
  "aof_load E s file = (let (fkc, s1) = new_client E s (redisFakeClientCreate (e_junk E)) in
     map_option snd (replay E (Suc (length file)) s1 fkc file))"

text \<open>The received buffer is put back at the end; no command looks at it in between.\<close>

definition doAppendSync :: "env \<Rightarrow> redisServer \<Rightarrow> redisServer option" where
  "doAppendSync E s = do {
     m \<leftarrow> master s;
     c \<leftarrow> cheap s m;
     let (fkc, s1) = new_client E s (redisFakeClientCreate (e_junk E));
     (rest, s2) \<leftarrow> replay E (Suc (length (readBuf c))) s1 fkc (readBuf c);
     s3 \<leftarrow> upd_client s2 m (\<lambda>c. c\<lparr>readBuf := rest\<rparr>);
     Some (slaveUpdateOffset s3 (offset s3 + int (length (readBuf c)) - int (length rest)))
   }"

section \<open>The read handler\<close>

definition watch_writable :: "env \<Rightarrow> redisServer \<Rightarrow> int \<Rightarrow> cid \<Rightarrow> redisServer option" where
  "watch_writable E s d i = do {
     (r, s1) \<leftarrow> create_event E s d AE_WRITABLE repliWriteHandler (Some i);
     if r = AE_ERROR then reconnectMaster E s1 else Some s1
   }"

definition receive_pong :: "env \<Rightarrow> redisServer \<Rightarrow> int \<Rightarrow> cid \<Rightarrow> redisServer option" where
  "receive_pong E s d i = do {
     c \<leftarrow> cheap s i;
     if \<not> starts resp_pong (readBuf c) then Some s
     else do {
       s1 \<leftarrow> drop_read (s\<lparr>server_replState := REPL_STATE_SLAVE_SEND_REPLCONF\<rparr>) i 7;
       watch_writable E s1 d i
     }
   }"

definition master_setting :: "redisServer \<Rightarrow> bytes" where
  "master_setting s = take 127 (masterhost s @ '':'' @ dec_int (masterport s))"

definition receive_replconf_ok :: "env \<Rightarrow> redisServer \<Rightarrow> int \<Rightarrow> cid \<Rightarrow> redisServer option" where
  "receive_replconf_ok E s d i = do {
     c \<leftarrow> cheap s i;
     if \<not> starts resp_ok (readBuf c) then Some s
     else do {
       let conf = update_config (configfile s) ''role'' ''slave'';
       let conf' = update_config conf ''master'' (master_setting s);
       s1 \<leftarrow> drop_read (s\<lparr>server_replState := REPL_STATE_SLAVE_SEND_SYNC, configfile := conf'\<rparr>) i 5;
       watch_writable E s1 d i
     }
   }"

text \<open>The three tests follow each other, each on what the one before has left of the buffer.\<close>

definition sync_answer :: "bytes \<Rightarrow> REPL_STATE \<Rightarrow> redisServer \<Rightarrow> cid \<Rightarrow> redisServer option" where
  "sync_answer text st s i = do {
     c \<leftarrow> cheap s i;
     if starts text (readBuf c) then do {
       s1 \<leftarrow> drop_read s i (int (length text));
       Some (s1\<lparr>server_replState := st\<rparr>)
     } else Some s
   }"

definition receive_sync :: "redisServer \<Rightarrow> cid \<Rightarrow> redisServer option" where
  "receive_sync s i = do {
     s1 \<leftarrow> sync_answer resp_fullsync REPL_STATE_SLAVE_RECEIVE_RDB s i;
     s2 \<leftarrow> sync_answer resp_appendsync REPL_STATE_SLAVE_RECEIVE_APPENDSYNC s1 i;
     sync_answer resp_nosync REPL_STATE_SLAVE_CONNECTED s2 i
   }"

definition receive_appendsync :: "env \<Rightarrow> redisServer \<Rightarrow> redisServer option" where
  "receive_appendsync E s = do {
     s1 \<leftarrow> doAppendSync E s;
     Some (s1\<lparr>server_replState := REPL_STATE_SLAVE_CONNECTED\<rparr>)
   }"

text \<open>
  The snapshot: the length is scanned behind the first byte, the file written and loaded.  \<open>through\<close> is
  how much of the file just written the loading stream sees.
\<close>

definition receive_rdb :: "env \<Rightarrow> (bytes \<Rightarrow> bytes) \<Rightarrow> nat \<Rightarrow> redisServer \<Rightarrow> int \<Rightarrow> cid \<Rightarrow> redisServer option" where
  "receive_rdb E sha through s d i = do {
     c \<leftarrow> cheap s i;
     sc \<leftarrow> scan_n (readBuf c @ [NUL]) 1;
     (case sc of
        NoConv \<Rightarrow> Some (put_client s i (c\<lparr>readBuf := []\<rparr>)\<lparr>server_replState := REPL_STATE_SLAVE_SEND_SYNC\<rparr>)
      | Conv len lenLength \<Rightarrow> do {
          s1 \<leftarrow> drop_read s i (1 + int lenLength + 2);
          c1 \<leftarrow> cheap s1 i;
          file \<leftarrow> receiveRDBfile through (readBuf c1 @ [NUL]) len;
          ds \<leftarrow> rdbLoad sha file (dbs s1);
          let s2 = slaveUpdateOffset (s1\<lparr>dbs := ds, server_replState := REPL_STATE_SLAVE_CONNECTED\<rparr>) 0;
          s3 \<leftarrow> drop_read s2 i (len + 2);
          watch_writable E s3 d i
        })
   }"

definition receive_connected :: "env \<Rightarrow> redisServer \<Rightarrow> int \<Rightarrow> cid \<Rightarrow> redisServer option" where
  "receive_connected E s d i = do {
     c \<leftarrow> cheap s i;
     if \<not> starts resp_ok (readBuf c) then Some s
     else do {
       s1 \<leftarrow> drop_read s i (int (length resp_ok));
       (r, s2) \<leftarrow> create_event E s1 d AE_READABLE readFromClient (Some i);
       if r = AE_ERROR then reconnectMaster E s2 else Some s2
     }
   }"

text \<open>One turn of the loop: the new state, and whether another turn follows.\<close>

definition repli_turn :: "env \<Rightarrow> (bytes \<Rightarrow> bytes) \<Rightarrow> nat \<Rightarrow> redisServer \<Rightarrow> int \<Rightarrow> cid \<Rightarrow> (redisServer \<times> bool) option" where
  "repli_turn E sha through s d i = do {
     s1 \<leftarrow> (case server_replState s of
              REPL_STATE_SLAVE_CONNECTING \<Rightarrow> receive_pong E s d i
            | REPL_STATE_SLAVE_SEND_REPLCONF \<Rightarrow> receive_replconf_ok E s d i
            | REPL_STATE_SLAVE_SEND_SYNC \<Rightarrow> receive_sync s i
            | REPL_STATE_SLAVE_RECEIVE_APPENDSYNC \<Rightarrow> receive_appendsync E s
            | REPL_STATE_SLAVE_RECEIVE_RDB \<Rightarrow> receive_rdb E sha through s d i
            | REPL_STATE_SLAVE_CONNECTED \<Rightarrow> receive_connected E s d i
            | _ \<Rightarrow> Some s);
     c \<leftarrow> cheap s1 i;
     r \<leftarrow> respParse (readBuf c @ [NUL]) 0 (int (length (readBuf c)));
     Some (s1, r \<noteq> None)
   }"

text \<open>The loop may not end, which is the value \<open>None\<close>.\<close>

partial_function (option) repli_read_loop ::
    "env \<Rightarrow> (bytes \<Rightarrow> bytes) \<Rightarrow> nat \<Rightarrow> redisServer \<Rightarrow> int \<Rightarrow> cid \<Rightarrow> redisServer option" where
  "repli_read_loop E sha through s d i = do {
     c \<leftarrow> cheap s i;
     if readBuf c = [] then Some s
     else do {
       t \<leftarrow> repli_turn E sha through s d i;
       if snd t then repli_read_loop E sha through (fst t) d i else Some (fst t)
     }
   }"

definition repliReadHandler_proc ::
    "env \<Rightarrow> (bytes \<Rightarrow> bytes) \<Rightarrow> nat \<Rightarrow> bytes \<Rightarrow> redisServer \<Rightarrow> int \<Rightarrow> cid \<Rightarrow> redisServer option" where
  "repliReadHandler_proc E sha through data s d i = do {
     assert_c (data \<noteq> []);
     s1 \<leftarrow> upd_client s i (\<lambda>c. c\<lparr>readBuf := readBuf c @ data\<rparr>);
     s2 \<leftarrow> repli_read_loop E sha through s1 d i;
     m \<leftarrow> master s2;
     upd_client s2 m (\<lambda>c. c\<lparr>lastinteraction := unixtime s2\<rparr>)
   }"

section \<open>The periodic job\<close>

definition slaveCron :: "env \<Rightarrow> redisServer \<Rightarrow> (int \<times> redisServer) option" where
  "slaveCron E s = do {
     assert_c (server_flags s AND REDIS_CLUSTER_SLAVE \<noteq> 0);
     s1 \<leftarrow> (if server_replState s = REPL_STATE_SLAVE_CONNECTED then do {
              m \<leftarrow> master s;
              c \<leftarrow> cheap s m;
              (r, s') \<leftarrow> create_event E s (fd c) AE_WRITABLE repliWriteHandler (Some m);
              (if r = AE_ERROR then reconnectMaster E s' else Some s')
            } else Some s);
     s2 \<leftarrow> (case master s1 of
              None \<Rightarrow> Some s1
            | Some m \<Rightarrow> do {
                c \<leftarrow> cheap s1 m;
                if unixtime s1 - lastinteraction c > MASTER_SLAVE_TIMEOUT then reconnectMaster E s1 else Some s1
              });
     Some (5000, s2)
   }"

section \<open>The state machine\<close>

lemma keeps_state [simp]:
  "server_replState (put_client s i c) = server_replState s"
  "server_replState (slaveUpdateOffset s n) = server_replState s"
  "upd_client s i f = Some s' \<Longrightarrow> server_replState s' = server_replState s"
  "delete_event s d msk = Some s' \<Longrightarrow> server_replState s' = server_replState s"
  "create_event E s d msk h data = Some (r, s') \<Longrightarrow> server_replState s' = server_replState s"
  "drop_read s i n = Some s' \<Longrightarrow> server_replState s' = server_replState s"
  "restore_offset s = Some s' \<Longrightarrow> server_replState s' = server_replState s"
  by (auto simp: put_client_def slaveUpdateOffset_def upd_client_def delete_event_def create_event_def drop_read_def
      restore_offset_def bind_Some_iff split: option.splits)

lemma freeClient_state: "freeClient s p = Some s' \<Longrightarrow> server_replState s' = server_replState s"
  by (auto simp: freeClient_def bind_Some_iff split: option.splits dest!: keeps_state(4))

text \<open>Connecting again leaves the state as it is, when no connection is made, or starts the handshake.\<close>

lemma connectMaster_state:
  assumes "connectMaster E s = Some s'"
  shows "server_replState s' = server_replState s \<or> server_replState s' = REPL_STATE_SLAVE_CONNECTING"
proof (rule connectMaster.raw_induct [OF _ assms])
  fix rec E s s'
  assume IH: "\<And>E s s'. rec E s = Some s' \<Longrightarrow> server_replState s' = server_replState s \<or> server_replState s' = REPL_STATE_SLAVE_CONNECTING"
    and run: "(let d = e_connect E (masterhost s) (masterport s) in
      if d < 0 then Some s
      else do {
        let s1 = (if master s = None
                  then (let (m, s') = new_client E s (redisClientCreate (e_junk E) d (masterhost s) (masterport s))
                        in s'\<lparr>master := Some m\<rparr>)
                  else s);
        m \<leftarrow> master s1;
        s2 \<leftarrow> upd_client s1 m (\<lambda>c. c\<lparr>flags := (flags c AND NOT REDIS_CLIENT_NORMAL) OR REDIS_CLIENT_MASTER\<rparr>);
        s3 \<leftarrow> restore_offset (s2\<lparr>server_replState := REPL_STATE_SLAVE_CONNECTING\<rparr>);
        r1 \<leftarrow> create_event E s3 d AE_READABLE repliReadHandler (master s3);
        s4 \<leftarrow> (if fst r1 = AE_ERROR then do {
                 s' \<leftarrow> freeClient (snd r1) (master (snd r1));
                 rec E (s'\<lparr>master := None\<rparr>)
               } else Some (snd r1));
        r2 \<leftarrow> create_event E s4 d AE_WRITABLE repliWriteHandler (master s4);
        (if fst r2 = AE_ERROR then do {
           s' \<leftarrow> freeClient (snd r2) (master (snd r2));
           rec E (s'\<lparr>master := None\<rparr>)
         } else Some (snd r2))
      }) = Some s'"
  let ?C = REPL_STATE_SLAVE_CONNECTING
  have again: "server_replState t' = ?C" if "server_replState (snd r) = ?C"
      "(if fst r = AE_ERROR then do { s' \<leftarrow> freeClient (snd r) (master (snd r)); rec E (s'\<lparr>master := None\<rparr>) } else Some (snd r)) = Some t'"
    for r :: "int \<times> redisServer" and t'
    using that by (auto simp: bind_Some_iff split: if_splits dest!: freeClient_state IH)
  show "server_replState s' = server_replState s \<or> server_replState s' = ?C"
  proof (cases "e_connect E (masterhost s) (masterport s) < 0")
    case True
    then show ?thesis using run by (simp add: Let_def)
  next
    case False
    let ?d = "e_connect E (masterhost s) (masterport s)"
    from run False obtain s2 s3 r1 s4 r2 where c: "restore_offset (s2\<lparr>server_replState := ?C\<rparr>) = Some s3"
      "create_event E s3 ?d AE_READABLE repliReadHandler (master s3) = Some r1"
      "(if fst r1 = AE_ERROR then do { s' \<leftarrow> freeClient (snd r1) (master (snd r1)); rec E (s'\<lparr>master := None\<rparr>) } else Some (snd r1)) = Some s4"
      "create_event E s4 ?d AE_WRITABLE repliWriteHandler (master s4) = Some r2"
      "(if fst r2 = AE_ERROR then do { s' \<leftarrow> freeClient (snd r2) (master (snd r2)); rec E (s'\<lparr>master := None\<rparr>) } else Some (snd r2)) = Some s'"
      by (simp only: Let_def if_False bind_Some_iff) blast
    have "server_replState s3 = ?C" using keeps_state(7) [OF c(1)] by simp
    then have "server_replState (snd r1) = ?C" using keeps_state(5) [of E s3 ?d _ _ _ "fst r1" "snd r1"] c(2) by simp
    then have "server_replState s4 = ?C" using c(3) by (rule again)
    then have "server_replState (snd r2) = ?C" using keeps_state(5) [of E s4 ?d _ _ _ "fst r2" "snd r2"] c(4) by simp
    then show ?thesis using again [OF _ c(5)] by simp
  qed
qed

lemma reconnectMaster_state:
  "reconnectMaster E s = Some s' \<Longrightarrow> server_replState s' = server_replState s \<or> server_replState s' = REPL_STATE_SLAVE_CONNECTING"
  by (auto simp: reconnectMaster_def bind_Some_iff dest!: freeClient_state connectMaster_state)

lemma register_state:
  assumes "do { (r, s1) \<leftarrow> create_event E s d msk h data; if r = AE_ERROR then reconnectMaster E s1 else Some s1 } = Some s'"
  shows "server_replState s' = server_replState s \<or> server_replState s' = REPL_STATE_SLAVE_CONNECTING"
  using assms by (auto simp: bind_Some_iff split: if_splits dest!: keeps_state(5) reconnectMaster_state)

lemma watch_writable_state:
  "watch_writable E s d i = Some s' \<Longrightarrow> server_replState s' = server_replState s \<or> server_replState s' = REPL_STATE_SLAVE_CONNECTING"
  unfolding watch_writable_def by (rule register_state)

lemma sync_answer_state:
  "sync_answer t st s i = Some s' \<Longrightarrow> server_replState s' = server_replState s \<or> server_replState s' = st"
  by (auto simp: sync_answer_def bind_Some_iff split: if_splits)

text \<open>Where a turn can lead, by the state it starts in.\<close>

inductive turn_edge :: "REPL_STATE \<Rightarrow> REPL_STATE \<Rightarrow> bool" where
  wait: "turn_edge st st"
| pong: "turn_edge REPL_STATE_SLAVE_CONNECTING REPL_STATE_SLAVE_SEND_REPLCONF"
| replconf: "turn_edge REPL_STATE_SLAVE_SEND_REPLCONF REPL_STATE_SLAVE_SEND_SYNC"
| sync: "st \<in> {REPL_STATE_SLAVE_RECEIVE_RDB, REPL_STATE_SLAVE_RECEIVE_APPENDSYNC, REPL_STATE_SLAVE_CONNECTED} \<Longrightarrow>
    turn_edge REPL_STATE_SLAVE_SEND_SYNC st"
| append: "turn_edge REPL_STATE_SLAVE_RECEIVE_APPENDSYNC REPL_STATE_SLAVE_CONNECTED"
| rdb: "turn_edge REPL_STATE_SLAVE_RECEIVE_RDB REPL_STATE_SLAVE_CONNECTED"
| rdb_again: "turn_edge REPL_STATE_SLAVE_RECEIVE_RDB REPL_STATE_SLAVE_SEND_SYNC"
| reconnect: "turn_edge st REPL_STATE_SLAVE_CONNECTING"

inductive_cases turn_edgeE: "turn_edge st st'"

lemma receive_pong_edge: "receive_pong E s d i = Some s' \<Longrightarrow> server_replState s = REPL_STATE_SLAVE_CONNECTING \<Longrightarrow>
    turn_edge (server_replState s) (server_replState s')"
  by (auto simp: receive_pong_def bind_Some_iff turn_edge.simps split: if_splits dest!: watch_writable_state keeps_state(6))

lemma receive_replconf_edge: "receive_replconf_ok E s d i = Some s' \<Longrightarrow> server_replState s = REPL_STATE_SLAVE_SEND_REPLCONF \<Longrightarrow>
    turn_edge (server_replState s) (server_replState s')"
  by (auto simp: receive_replconf_ok_def bind_Some_iff turn_edge.simps Let_def split: if_splits
      dest!: watch_writable_state keeps_state(6))

lemma receive_sync_edge: "receive_sync s i = Some s' \<Longrightarrow> server_replState s = REPL_STATE_SLAVE_SEND_SYNC \<Longrightarrow>
    turn_edge (server_replState s) (server_replState s')"
  by (auto simp: receive_sync_def bind_Some_iff turn_edge.simps dest!: sync_answer_state)

lemma receive_append_edge: "receive_appendsync E s = Some s' \<Longrightarrow> server_replState s = REPL_STATE_SLAVE_RECEIVE_APPENDSYNC \<Longrightarrow>
    turn_edge (server_replState s) (server_replState s')"
  by (auto simp: receive_appendsync_def bind_Some_iff turn_edge.simps)

lemma receive_rdb_edge: "receive_rdb E sha th s d i = Some s' \<Longrightarrow> server_replState s = REPL_STATE_SLAVE_RECEIVE_RDB \<Longrightarrow>
    turn_edge (server_replState s) (server_replState s')"
proof -
  assume run: "receive_rdb E sha th s d i = Some s'" and st: "server_replState s = REPL_STATE_SLAVE_RECEIVE_RDB"
  then obtain c sc where c: "cheap s i = Some c" "scan_n (readBuf c @ [NUL]) 1 = Some sc" by (auto simp: receive_rdb_def bind_Some_iff)
  show ?thesis
  proof (cases sc)
    case NoConv
    then show ?thesis using run st c by (auto simp: receive_rdb_def turn_edge.simps)
  next
    case (Conv len n)
    then show ?thesis using run st c by (auto simp: receive_rdb_def bind_Some_iff turn_edge.simps Let_def
      dest!: watch_writable_state keeps_state(6))
  qed
qed

lemma receive_connected_edge: "receive_connected E s d i = Some s' \<Longrightarrow> server_replState s = REPL_STATE_SLAVE_CONNECTED \<Longrightarrow>
    turn_edge (server_replState s) (server_replState s')"
  by (auto simp: receive_connected_def bind_Some_iff turn_edge.simps split: if_splits
      dest!: reconnectMaster_state keeps_state(5,6))

lemma repli_turn_edge:
  assumes "repli_turn E sha th s d i = Some (s', again)"
  shows "turn_edge (server_replState s) (server_replState s')"
  using assms unfolding repli_turn_def
  by (cases "server_replState s")
    (auto simp: bind_Some_iff turn_edge.wait dest: receive_pong_edge receive_replconf_edge receive_sync_edge
      receive_append_edge receive_rdb_edge receive_connected_edge)

text \<open>The states the loop goes through, turn by turn.\<close>

inductive turn_path :: "env \<Rightarrow> (bytes \<Rightarrow> bytes) \<Rightarrow> nat \<Rightarrow> int \<Rightarrow> cid \<Rightarrow> redisServer \<Rightarrow> REPL_STATE list \<Rightarrow> redisServer \<Rightarrow> bool"
  for E sha th d i where
  start: "turn_path E sha th d i s [server_replState s] s"
| turn: "turn_path E sha th d i s path s1 \<Longrightarrow> repli_turn E sha th s1 d i = Some (s2, again) \<Longrightarrow>
    turn_path E sha th d i s (path @ [server_replState s2]) s2"

text \<open>What the handshake has been through when the loop is in a state.\<close>

definition handshake_done :: "REPL_STATE list \<Rightarrow> REPL_STATE \<Rightarrow> bool" where
  "handshake_done path st \<longleftrightarrow> st \<in> {REPL_STATE_SLAVE_CONNECTING, REPL_STATE_SLAVE_SEND_REPLCONF, REPL_STATE_SLAVE_SEND_SYNC,
      REPL_STATE_SLAVE_RECEIVE_RDB, REPL_STATE_SLAVE_RECEIVE_APPENDSYNC, REPL_STATE_SLAVE_CONNECTED}
    \<and> (st \<noteq> REPL_STATE_SLAVE_CONNECTING \<longrightarrow> REPL_STATE_SLAVE_SEND_REPLCONF \<in> set path)
    \<and> (st \<notin> {REPL_STATE_SLAVE_CONNECTING, REPL_STATE_SLAVE_SEND_REPLCONF} \<longrightarrow> REPL_STATE_SLAVE_SEND_SYNC \<in> set path)"

lemma handshake_edge: "handshake_done path st \<Longrightarrow> turn_edge st st' \<Longrightarrow> handshake_done (path @ [st']) st'"
  by (auto simp: handshake_done_def elim!: turn_edgeE)

lemma turn_path_handshake:
  assumes "turn_path E sha th d i s path s'" "server_replState s = REPL_STATE_SLAVE_CONNECTING"
  shows "handshake_done path (server_replState s')"
  using assms
proof (induction rule: turn_path.induct)
  case (start s)
  then show ?case by (simp add: handshake_done_def)
next
  case (turn s path s1 s2 again)
  from handshake_edge [OF turn.IH [OF turn.prems] repli_turn_edge [OF turn.hyps(2)]] show ?case .
qed


text \<open>A replica in the middle of the handshake, with all the answers of a master it has nothing to fetch from.\<close>

definition demo_link :: "REPL_STATE \<Rightarrow> bytes \<Rightarrow> redisServer" where
  "demo_link st buf = (demo_server REDIS_CLUSTER_SLAVE False [])
     \<lparr>cheap := [3 \<mapsto> demo_client\<lparr>fd := 5, readBuf := buf\<rparr>], clients := [], master := Some 3, server_replState := st,
      configfile := ''role=master'' @ [LF] @ ''offset=62'' @ [LF]\<rparr>"

definition no_digest :: "bytes \<Rightarrow> bytes" where
  "no_digest b = replicate 32 NUL"

definition demo_turn :: "redisServer \<Rightarrow> (redisServer \<times> bool) option" where
  "demo_turn s = repli_turn demo_env no_digest 0 s 5 3"

lemma demo_turns:
  "(let answers = resp_pong @ resp_ok @ resp_nosync; s0 = demo_link REPL_STATE_SLAVE_CONNECTING answers; r1 = demo_turn s0;
        r2 = demo_turn (fst (the r1)); r3 = demo_turn (fst (the r2))
    in map (map_option (\<lambda>r. (server_replState (fst r), snd r))) [r1, r2, r3])
   = [Some (REPL_STATE_SLAVE_SEND_REPLCONF, True), Some (REPL_STATE_SLAVE_SEND_SYNC, True), Some (REPL_STATE_SLAVE_CONNECTED, False)]"
  by code_simp


section \<open>Answers the replica does not wait for\<close>

definition awaited :: "REPL_STATE \<Rightarrow> bytes list" where
  "awaited st = (case st of
       REPL_STATE_SLAVE_CONNECTING \<Rightarrow> [resp_pong]
     | REPL_STATE_SLAVE_SEND_REPLCONF \<Rightarrow> [resp_ok]
     | REPL_STATE_SLAVE_SEND_SYNC \<Rightarrow> [resp_fullsync, resp_appendsync, resp_nosync]
     | REPL_STATE_SLAVE_CONNECTED \<Rightarrow> [resp_ok]
     | _ \<Rightarrow> [])"

definition waiting :: "REPL_STATE \<Rightarrow> bool" where
  "waiting st \<longleftrightarrow> st \<in> {REPL_STATE_SLAVE_CONNECTING, REPL_STATE_SLAVE_SEND_REPLCONF, REPL_STATE_SLAVE_SEND_SYNC, REPL_STATE_SLAVE_CONNECTED}"

definition stuck :: "redisServer \<Rightarrow> cid \<Rightarrow> bool" where
  "stuck s i \<longleftrightarrow> waiting (server_replState s) \<and> (\<exists>c e. cheap s i = Some c
     \<and> list_all (\<lambda>t. \<not> starts t (readBuf c)) (awaited (server_replState s))
     \<and> respParse (readBuf c @ [NUL]) 0 (int (length (readBuf c))) = Some (Some e))"

lemma stuck_turn: "stuck s i \<Longrightarrow> repli_turn E sha th s d i = Some (s, True)"
  by (auto simp: stuck_def waiting_def awaited_def repli_turn_def receive_pong_def receive_replconf_ok_def receive_sync_def
      sync_answer_def receive_connected_def)

lemma stuck_loop:
  assumes "repli_read_loop E sha th s d i = Some s'"
  shows "stuck s i \<longrightarrow> readBuf (the (cheap s i)) = []"
proof (rule repli_read_loop.raw_induct [OF _ assms], rule impI)
  fix rec E sha th s d i s'
  assume IH: "\<And>E sha th s d i s'. rec E sha th s d i = Some s' \<Longrightarrow> stuck s i \<longrightarrow> readBuf (the (cheap s i)) = []"
    and run: "do {
       c \<leftarrow> cheap s i;
       if readBuf c = [] then Some s
       else do {
         t \<leftarrow> repli_turn E sha th s d i;
         if snd t then rec E sha th (fst t) d i else Some (fst t)
       }
     } = Some s'" and st: "stuck s i"
  show "readBuf (the (cheap s i)) = []"
    using run stuck_turn [OF st, of E sha th d] IH [of E sha th s d i s'] st
    by (auto simp: bind_Some_iff split: if_splits)
qed

text \<open>
  C20. A complete message other than the one the replica is waiting for hangs the server: the turn changes
  nothing and asks for another one, so the loop never ends.  A write the master propagates before it
  has acknowledged the first heartbeat is such a message.
\<close>

theorem unexpected_message_spins:
  assumes "cheap s i = Some c" "waiting (server_replState s)" "list_all (\<lambda>t. \<not> starts t (readBuf c)) (awaited (server_replState s))"
    and "respParse (readBuf c @ [NUL]) 0 (int (length (readBuf c))) = Some (Some e)" "readBuf c \<noteq> []"
  shows "repli_turn E sha th s d i = Some (s, True) \<and> repli_read_loop E sha th s d i = None"
proof -
  have "stuck s i" using assms(1-4) by (auto simp: stuck_def)
  then show ?thesis using stuck_turn stuck_loop [of E sha th s d i] assms(1,5) by (cases "repli_read_loop E sha th s d i") auto
qed

theorem unexpected_message_spins_witness:
  "repli_read_loop demo_env no_digest 0 (demo_link REPL_STATE_SLAVE_CONNECTED (array_text [''SET'', ''k'', ''v''])) 5 3 = None"
proof -
  let ?b = "array_text [''SET'', ''k'', ''v'']"
  have l: "length ?b = 27" by code_simp
  then have p: "respParse (?b @ [NUL]) 0 (int (length ?b)) = Some (Some (int (length ?b) - 1))"
    using parse_request [of "[''SET'', ''k'', ''v'']" "[NUL]" "int (length ?b)"] by simp
  have "\<not> starts resp_ok ?b" by code_simp
  moreover have "?b \<noteq> []" by (simp add: array_text_def)
  moreover have "cheap (demo_link REPL_STATE_SLAVE_CONNECTED ?b) 3 = Some (demo_client\<lparr>fd := 5, readBuf := ?b\<rparr>)"
    "server_replState (demo_link REPL_STATE_SLAVE_CONNECTED ?b) = REPL_STATE_SLAVE_CONNECTED" by (simp_all add: demo_link_def)
  ultimately show ?thesis
    using unexpected_message_spins [of "demo_link REPL_STATE_SLAVE_CONNECTED ?b" 3 "demo_client\<lparr>fd := 5, readBuf := ?b\<rparr>" _ demo_env no_digest 0 5] p
    by (simp add: waiting_def awaited_def)
qed

section \<open>The full resynchronisation\<close>

definition rdb_message :: "bytes \<Rightarrow> bytes" where
  "rdb_message file = CHR ''$'' # dec_nat (length file) @ CRLF @ file @ CRLF"

lemma scan_rdb_message:
  assumes "length file \<le> nat INT_MAX"
  shows "scan_n (rdb_message file @ [NUL]) 1 = Some (Conv (int (length file)) (length (dec_nat (length file))))"
proof -
  let ?d = "dec_int (int (length file))"
  have "cstring (''$'' @ ?d @ CRLF @ file @ CRLF @ [NUL]) (int (length ''$'')) = Some (?d @ takeWhile (\<lambda>c. c \<noteq> NUL) (CRLF @ file @ CRLF @ [NUL]))"
    by (rule cstring_at) (auto simp: nul_free_dec_int)
  moreover have "no_digit_start (takeWhile (\<lambda>c. c \<noteq> NUL) (CRLF @ file @ CRLF @ [NUL]))" by (simp add: no_digit_start_def isdigit_def char_code_def)
  ultimately show ?thesis
    using scan_d_dec_int [of "takeWhile (\<lambda>c. c \<noteq> NUL) (CRLF @ file @ CRLF @ [NUL])" "int (length file)"] assms
    by (simp add: scan_n_def rdb_message_def dec_int_of_nat c_limits)
qed

lemma range_text_drop: "n \<le> length b \<Longrightarrow> range_text b (int n) (int (length b) - 1) = Some (drop n b)"
  by (cases b) (auto simp: range_text_def Let_def nat_diff_distrib)

lemma drop_read_drop:
  assumes "cheap s i = Some c" "n \<le> length (readBuf c)"
  shows "drop_read s i (int n) = Some (put_client s i (c\<lparr>readBuf := drop n (readBuf c)\<rparr>))"
  using assms range_text_drop [OF assms(2)] by (simp add: drop_read_def)

section \<open>Receiving the snapshot\<close>

lemma watch_writable_ok:
  assumes "ae_ok (eventLoop s)" "e_sock E d" "0 \<le> d" "d < maxsize (eventLoop s)"
  shows "\<exists>el. watch_writable E s d i = Some (s\<lparr>eventLoop := el\<rparr>)"
  using create_event_ok [of s AE_WRITABLE E d handler.repliWriteHandler "Some i"] assms by (auto simp: watch_writable_def)

lemma load_received: "load_block (snap @ rest) 0 (int (length snap)) = Some snap"
  by (simp add: load_block_def)

text \<open>A replica that has read the snapshot message, with its length, into the read buffer.\<close>

lemma receive_rdb_runs:
  assumes c: "cheap s i = Some c" "readBuf c = rdb_message snap" "length snap \<le> nat INT_MAX"
  shows "receive_rdb E sha th s d i = do {
      ds \<leftarrow> rdbLoad sha (take th snap) (dbs s);
      watch_writable E (slaveUpdateOffset (put_client s i (c\<lparr>readBuf := []\<rparr>)
        \<lparr>dbs := ds, server_replState := REPL_STATE_SLAVE_CONNECTED\<rparr>) 0) d i
    }"
proof -
  let ?d = "dec_nat (length snap)"
  have n1: "1 + int (length ?d) + 2 = int (length ?d + 3)" by simp
  have m: "rdb_message snap = (''$'' @ ?d @ CRLF) @ snap @ CRLF" "length (''$'' @ ?d @ CRLF) = length ?d + 3"
    by (simp_all add: rdb_message_def)
  have "drop (length x) (x @ y) = y" for x y :: bytes by simp
  then have "drop (length ?d + 3) (readBuf c) = snap @ CRLF" unfolding c(2) m(1) m(2) [symmetric] .
  moreover have "length ?d + 3 \<le> length (readBuf c)" by (simp add: c(2) rdb_message_def)
  ultimately have 1: "drop_read s i (1 + int (length ?d) + 2) = Some (put_client s i (c\<lparr>readBuf := snap @ CRLF\<rparr>))"
    unfolding n1 using drop_read_drop [OF c(1), of "length ?d + 3"] by simp
  have 2: "receiveRDBfile th ((snap @ CRLF) @ [NUL]) (int (length snap)) = Some (take th snap)"
    using load_received [of snap "CRLF @ [NUL]"] by (simp add: receiveRDBfile_def)
  have 3: "drop_read (slaveUpdateOffset (put_client s i (c\<lparr>readBuf := snap @ CRLF\<rparr>)
        \<lparr>dbs := ds, server_replState := REPL_STATE_SLAVE_CONNECTED\<rparr>) 0) i (int (length snap) + 2)
      = Some (slaveUpdateOffset (put_client s i (c\<lparr>readBuf := []\<rparr>)\<lparr>dbs := ds, server_replState := REPL_STATE_SLAVE_CONNECTED\<rparr>) 0)" for ds
    using drop_read_drop [of "slaveUpdateOffset (put_client s i (c\<lparr>readBuf := snap @ CRLF\<rparr>)
        \<lparr>dbs := ds, server_replState := REPL_STATE_SLAVE_CONNECTED\<rparr>) 0" i "c\<lparr>readBuf := snap @ CRLF\<rparr>" "length snap + 2"]
    by (simp add: slaveUpdateOffset_def put_client_def add.commute)
  show ?thesis
    using c 2 3 by (simp add: receive_rdb_def scan_rdb_message [OF c(3)] 1 [simplified] Let_def) (simp add: put_client_def)
qed


text \<open>
  C21. The received file is neither flushed nor closed before it is loaded: while its first nine bytes are
  still in the buffer of the stream, the loader compares uninitialised memory, and the turn has no
  defined result.
\<close>

theorem full_resync_unflushed:
  assumes "cheap s i = Some c" "readBuf c = rdb_message snap" "server_replState s = REPL_STATE_SLAVE_RECEIVE_RDB"
    and "rdbSave sha' dbl = Some snap" "length snap \<le> nat INT_MAX" "through < 9"
  shows "repli_turn E sha through s d i = None"
proof -
  obtain r where "snap = ''REDIS0001'' @ r" using assms(4) by (auto simp: rdbSave_def bind_Some_iff Let_def)
  then have "take through snap = take through (''REDIS0001'' @ r)" by (simp only:)
  also have "\<dots> = take through ''REDIS0001''" using assms(6) by (simp del: append_Cons)
  finally have "take (length (take through snap)) ''REDIS0001'' = take through snap" "length (take through snap) = through"
    using assms(6) by simp_all
  then have "rdbLoad sha (take through snap) (dbs s) = None" using assms(6) by (simp add: rdbLoad_def fread_def)
  then show ?thesis
    using receive_rdb_runs [OF assms(1,2,5), of E sha through d] assms(3) by (simp add: repli_turn_def)
qed

lemma demo_link_fields:
  "cheap (demo_link st b) 3 = Some (demo_client\<lparr>fd := 5, readBuf := b\<rparr>)" "server_replState (demo_link st b) = st"
  "eventLoop (demo_link st b) = demo_loop" "dbs (demo_link st b) = [dbInit 0]" "e_sock demo_env d"
  by (simp_all add: demo_link_def demo_server_def demo_env_def)

text \<open>The snapshot of one key, and what the saving and loading server need to know of it.\<close>

lemma demo_snapshot:
  obtains db f where "one_key = Some db" "snapshot_db 0 db" "rdbSave no_digest [db] = Some f" "length f \<le> 100"
    "\<forall>b. save_dbs [db] = Some b \<longrightarrow> 10 + length b \<le> RDB_MAX_SIZE" "\<forall>b. length (no_digest b) = RDB_CHECKSUM_LEN" "empty_db (dbInit 0)"
proof -
  obtain db where db: "one_key = Some db" "snapshot_db 0 db" by (rule one_key_snapshot)
  have b: "save_dbs [db] = Some ([CHR 0xFE, CHR 0x00, CHR 0xFD] @ le_bytes 8 900 @ [CHR 0x00, CHR 0x01] @ ''k'' @ [CHR 0xFC, CHR 0x07])"
    using one_key_bytes by (simp add: db(1))
  show thesis
  proof (rule that [OF db])
    show "rdbSave no_digest [db] = Some (''REDIS0001'' @ ([CHR 0xFE, CHR 0x00, CHR 0xFD] @ le_bytes 8 900
        @ [CHR 0x00, CHR 0x01] @ ''k'' @ [CHR 0xFC, CHR 0x07]) @ [RDB_EOF] @ replicate 32 NUL)"
      unfolding rdbSave_def b by (simp add: rdbSaveType_def no_digest_def)
    show "\<forall>x. save_dbs [db] = Some x \<longrightarrow> 10 + length x \<le> RDB_MAX_SIZE" unfolding b by (simp add: RDB_MAX_SIZE_def)
  qed (use dbInit_good(1) in \<open>simp_all add: no_digest_def RDB_CHECKSUM_LEN_def empty_db_def dbInit_def dictCreate_good\<close>)
qed


theorem full_resync_unflushed_witness:
  "\<exists>db snap. one_key = Some db \<and> rdbSave no_digest [db] = Some snap
     \<and> repli_turn demo_env no_digest 0 (demo_link REPL_STATE_SLAVE_RECEIVE_RDB (rdb_message snap)) 5 3 = None"
proof -
  obtain db snap where f: "one_key = Some db" "rdbSave no_digest [db] = Some snap" "length snap \<le> 100" by (rule demo_snapshot)
  then have "length snap \<le> nat INT_MAX" by (simp add: c_limits)
  with f(1,2) show ?thesis
    using full_resync_unflushed [where s = "demo_link REPL_STATE_SLAVE_RECEIVE_RDB (rdb_message snap)" and i = 3
        and c = "demo_client\<lparr>fd := 5, readBuf := rdb_message snap\<rparr>" and snap = snap and through = 0]
    by (auto simp: demo_link_fields)
qed

end
