(* ===== verification/Server.thy ===== *)
theory Server
  imports Repli
begin

unbundle bit_operations_syntax

text \<open>
  The event handlers and the periodic jobs of the server (\<open>src/redis.c\<close>, \<open>acceptTcpHandler\<close> of
  \<open>src/net.c\<close>): accepting, reading from and writing to a client, sending the snapshot to a replica,
  closing clients, the heartbeat check, the signal handlers, and the set-up of the server from its
  configuration.

  What a system call returns is an argument of the handler: the accepted connection, the bytes read
  (\<open>None\<close> for an error, the empty list for the end of the connection), the number of bytes a write
  accepts, the contents of the snapshot file, the process that ended.
\<close>

section \<open>Accepting and reading\<close>

text \<open>A new connection is its descriptor, address and port.\<close>

definition acceptTcpHandler_proc :: "env \<Rightarrow> redisServer \<Rightarrow> (int \<times> bytes \<times> int) option \<Rightarrow> redisServer option" where
  "acceptTcpHandler_proc E s conn = (case conn of
       None \<Rightarrow> Some s
     | Some (cfd, cip, cport) \<Rightarrow> do {
         let (i, s1) = new_client E s (redisClientCreate (e_junk E) cfd cip cport);
         let s2 = s1\<lparr>clients := clients s1 @ [i]\<rparr>;
         (r, s3) \<leftarrow> create_event E s2 cfd AE_READABLE handler.readFromClient (Some i);
         if r = AE_ERROR then clientToclose s3 i else Some s3
       })"

definition checkSockReadWrite :: "int \<Rightarrow> bool" where
  "checkSockReadWrite n = (if n = 0 then False else if n < 0 then False else True)"

text \<open>What \<open>read\<close> returned: its result and the array of 1024 bytes it was to fill, zero at first.\<close>

definition read_result :: "bytes option \<Rightarrow> int" where
  "read_result data = (case data of None \<Rightarrow> - 1 | Some b \<Rightarrow> int (length b))"

definition read_array :: "bytes option \<Rightarrow> bytes" where
  "read_array data = (case data of None \<Rightarrow> replicate 1024 NUL | Some b \<Rightarrow> b @ replicate (1024 - length b) NUL)"

text \<open>\<open>sdscat\<close> takes the array for a string: it has no terminator when 1024 bytes came in.\<close>

definition readFromClient_proc :: "env \<Rightarrow> redisServer \<Rightarrow> cid \<Rightarrow> bytes option \<Rightarrow> redisServer option" where
  "readFromClient_proc E s i data = (if checkSockReadWrite (read_result data) then do {
       txt \<leftarrow> cstring (read_array data) 0;
       s1 \<leftarrow> upd_client s i (\<lambda>c. c\<lparr>readBuf := readBuf c @ txt\<rparr>);
       s2 \<leftarrow> processClientQueryBuf E s1 i;
       upd_client s2 i (\<lambda>c. c\<lparr>readBuf := []\<rparr>)
     } else clientToclose s i)"

section \<open>Writing\<close>

text \<open>
  The snapshot on its way to a replica: what reaches the connection, and the server.  \<open>sent\<close> is what the
  call returns for each piece; the error field of the stream is never assigned (\<open>err\<close>).
\<close>

definition saveRDBToSlave :: "(bytes \<Rightarrow> int) \<Rightarrow> bool \<Rightarrow> bytes option \<Rightarrow> redisServer \<Rightarrow> cid \<Rightarrow> (bytes \<times> redisServer) option" where
  "saveRDBToSlave sent err snap s i = do {
     c \<leftarrow> cheap s i;
     (case snap of
        None \<Rightarrow> Some ([], s)
      | Some f \<Rightarrow>
          let length_buf = ''$'' @ dec_nat (length f) @ CRLF;
              nwritten = (if sent length_buf = - 1 then 0 else sent length_buf)
          in if nwritten = 0 \<and> err then Some ([], close_fd s (fd c))
             else if nwritten \<noteq> int (length length_buf) then Some (take (nat nwritten) length_buf, s)
             else if sent f < 0 then Some (length_buf, s)
             else Some (length_buf @ take (nat (sent f)) f @ take (nat (sent CRLF)) CRLF, s))
   }"

text \<open>A write that is not complete leaves the whole buffer to be sent again.\<close>

definition sendToClient_proc :: "(bytes \<Rightarrow> int) \<Rightarrow> bool \<Rightarrow> bytes option \<Rightarrow> redisServer \<Rightarrow> int \<Rightarrow> cid \<Rightarrow> (bytes \<times> redisServer) option" where
  "sendToClient_proc sent err snap s d i = do {
     c \<leftarrow> cheap s i;
     let msg = writeBuf c;
     let nwritten = sent msg;
     if \<not> checkSockReadWrite nwritten then do { s1 \<leftarrow> clientToclose s i; Some ([], s1) }
     else if nwritten \<noteq> int (length msg) then Some (take (nat nwritten) msg, s)
     else do {
       let s1 = put_client s i (c\<lparr>writeBuf := []\<rparr>);
       (out, s2) \<leftarrow> (if replState c = REPL_STATE_MASTER_SEND_FULLSYNC then
            saveRDBToSlave sent err snap (put_client s i (c\<lparr>writeBuf := [], replState := REPL_STATE_MASTER_SEND_RDB\<rparr>)) i
          else Some ([], s1));
       s3 \<leftarrow> delete_event s2 d AE_WRITABLE;
       s4 \<leftarrow> (if toclose c then do { s' \<leftarrow> clientToclose s3 i; delete_event s' d AE_READABLE } else Some s3);
       Some (msg @ out, s4)
     }
   }"

section \<open>Periodic jobs\<close>

text \<open>The scan of the client list: the clients that stay, and those to be closed.\<close>

fun scan_clients :: "redisServer \<Rightarrow> cid list \<Rightarrow> (cid list \<times> cid list) option" where
  "scan_clients s [] = Some ([], [])"
| "scan_clients s (i # is) = do {
     c \<leftarrow> cheap s i;
     (keep, closing) \<leftarrow> scan_clients s is;
     Some (if flags c AND CLIENT_TO_CLOSE \<noteq> 0 then (keep, i # closing) else (i # keep, closing))
   }"

fun free_clients :: "redisServer \<Rightarrow> cid list \<Rightarrow> redisServer option" where
  "free_clients s [] = Some s"
| "free_clients s (i # is) = do {
     s1 \<leftarrow> freeClient s (Some i);
     free_clients (s1\<lparr>clientsToClose := is\<rparr>) is
   }"

definition closeClients :: "redisServer \<Rightarrow> redisServer option" where
  "closeClients s = do {
     (keep, closing) \<leftarrow> scan_clients s (clients s);
     let s1 = s\<lparr>clients := keep, clientsToClose := clientsToClose s @ closing\<rparr>;
     free_clients s1 (clientsToClose s1)
   }"

fun check_slaves :: "redisServer \<Rightarrow> cid list \<Rightarrow> redisServer option" where
  "check_slaves s [] = Some s"
| "check_slaves s (i # is) = do {
     c \<leftarrow> cheap s i;
     s1 \<leftarrow> (if flags c AND REDIS_CLIENT_SLAVE \<noteq> 0 \<and> unixtime s - lastinteraction c > MASTER_SLAVE_TIMEOUT
            then clientToclose s i else Some s);
     check_slaves s1 is
   }"

definition masterCheckSlave :: "redisServer \<Rightarrow> redisServer option" where
  "masterCheckSlave s = check_slaves s (clients s)"

definition masterCron :: "env \<Rightarrow> int \<Rightarrow> redisServer \<Rightarrow> (int \<times> redisServer) option" where
  "masterCron E fork s = do {
     let s1 = (if rdbOn s then bgSaveIfNeeded E fork s else s);
     s2 \<leftarrow> masterCheckSlave s1;
     Some (10000, s2)
   }"

definition updateServerTime :: "env \<Rightarrow> redisServer \<Rightarrow> redisServer" where
  "updateServerTime E s = s\<lparr>unixtime := e_now E\<rparr>"

text \<open>The last save, before the process ends.\<close>

definition prepareShutdown :: "env \<Rightarrow> int \<Rightarrow> redisServer \<Rightarrow> redisServer" where
  "prepareShutdown E fork s = bgSaveIfNeeded E fork s"

text \<open>The period until the next call, or \<open>None\<close> when the process has ended.\<close>

definition serverCron_proc :: "env \<Rightarrow> int \<Rightarrow> redisServer \<Rightarrow> (int option \<times> redisServer) option" where
  "serverCron_proc E fork s = do {
     (p1, s1) \<leftarrow> (if server_flags s AND REDIS_CLUSTER_MASTER \<noteq> 0 then masterCron E fork s else Some (3000, s));
     (p2, s2) \<leftarrow> (if server_flags s1 AND REDIS_CLUSTER_SLAVE \<noteq> 0 then slaveCron E s1 else Some (p1, s1));
     s3 \<leftarrow> closeClients (updateServerTime E s2);
     Some (if shutdownAsap s3 \<noteq> 0 then (None, prepareShutdown E fork s3) else (Some p2, s3))
   }"

section \<open>Signals\<close>

text \<open>The children that have ended, with whether they ended normally with status 0.\<close>

fun sigChildHandler :: "redisServer \<Rightarrow> (int \<times> bool) list \<Rightarrow> redisServer" where
  "sigChildHandler s [] = s"
| "sigChildHandler s ((pid, ok) # rest) = sigChildHandler
     (if rdbChildPid s = pid
      then s\<lparr>lastSave := (if ok then unixtime s else lastSave s), rdbChildPid := - 1, dirty := 0, isBgSaving := False\<rparr>
      else s) rest"

text \<open>\<open>None\<close>: the process ends.\<close>

definition sigIntHandler :: "redisServer \<Rightarrow> redisServer option" where
  "sigIntHandler s = (if shutdownAsap s = 0 then Some (s\<lparr>shutdownAsap := 1\<rparr>)
     else if shutdownAsap s = 1 then None else Some s)"

section \<open>The sentinel\<close>

definition sentinelReadInfo_proc :: "redisServer \<Rightarrow> cid \<Rightarrow> bytes option \<Rightarrow> redisServer option" where
  "sentinelReadInfo_proc s i data = (if checkSockReadWrite (read_result data) then do {
       txt \<leftarrow> cstring (read_array data) 0;
       upd_client s i (\<lambda>c. c\<lparr>lastinteraction := unixtime s, readBuf := []\<rparr>)
     } else clientToclose s i)"

fun ask_all :: "env \<Rightarrow> redisServer \<Rightarrow> cid list \<Rightarrow> redisServer option" where
  "ask_all E s [] = Some s"
| "ask_all E s (i # is) = do {
     c \<leftarrow> cheap s i;
     s1 \<leftarrow> reply s i resp_info;
     (r1, s2) \<leftarrow> create_event E s1 (fd c) AE_READABLE handler.sentinelReadInfo (Some i);
     (r2, s3) \<leftarrow> create_event E s2 (fd c) AE_WRITABLE handler.sendToClient (Some i);
     ask_all E s3 is
   }"

definition sentinelInfoCron_proc :: "env \<Rightarrow> redisServer \<Rightarrow> (int \<times> redisServer) option" where
  "sentinelInfoCron_proc E s = do {
     s1 \<leftarrow> (if server_flags s AND REDIS_CLUSTER_SENTINEL \<noteq> 0 then ask_all E s (clients s) else Some s);
     Some (5000, s1)
   }"

section \<open>Setting the server up\<close>

text \<open>A setting that is missing is a null pointer to its readers.\<close>

definition conf_value :: "redisServer \<Rightarrow> bytes \<Rightarrow> bytes option" where
  "conf_value s key = do { r \<leftarrow> get_config (configfile s) key; r }"

definition appendServerSaveParam :: "redisServer \<Rightarrow> int \<Rightarrow> int \<Rightarrow> redisServer" where
  "appendServerSaveParam s sec n = s\<lparr>saveParams := saveParams s @ [\<lparr>seconds = sec, changes = n\<rparr>]\<rparr>"

definition role_flags :: "bytes \<Rightarrow> cint \<Rightarrow> cint" where
  "role_flags role fl0 = (
     let fl1 = (if strncasecmp_eq role ''sentinel'' 8 then fl0 OR REDIS_CLUSTER_SENTINEL else fl0);
         fl2 = (if strncasecmp_eq role ''master'' 6 then fl1 OR REDIS_CLUSTER_MASTER else fl1)
     in if strncasecmp_eq role ''slave'' 5 then fl2 OR REDIS_CLUSTER_SLAVE else fl2)"

definition load_master :: "redisServer \<Rightarrow> redisServer option" where
  "load_master s = do {
     m \<leftarrow> conf_value s ''master'';
     (addr, rest) \<leftarrow> strtok1 CHR '':'' m;
     (p, _) \<leftarrow> strtok1 CHR '':'' rest;
     n \<leftarrow> atoi p;
     Some (s\<lparr>masterhost := addr, masterport := n\<rparr>)
   }"

text \<open>The number of databases, the path of the snapshot file, and the server.\<close>

definition initServerConfig :: "bytes \<Rightarrow> redisServer \<Rightarrow> (int \<times> bytes \<times> redisServer) option" where
  "initServerConfig root s = do {
     role \<leftarrow> conf_value s ''role'';
     let s1 = s\<lparr>server_flags := role_flags role (server_flags s)\<rparr>;
     p \<leftarrow> conf_value s1 ''port'';
     pn \<leftarrow> atoi p;
     consistency \<leftarrow> conf_value s1 ''consistency'';
     let s2 = s1\<lparr>srv_port := pn, rdbOn := rdbOn s1 \<or> strncasecmp_eq consistency ''rdb'' 3,
       aofOn := aofOn s1 \<or> strncasecmp_eq consistency ''aof'' 3\<rparr>;
     d \<leftarrow> conf_value s2 ''dbnum'';
     dbnum \<leftarrow> atoi d;
     r \<leftarrow> conf_value s2 ''rdb_file'';
     s3 \<leftarrow> (if server_flags s2 AND REDIS_CLUSTER_SLAVE \<noteq> 0 then load_master s2 else Some s2);
     let s4 = appendServerSaveParam (appendServerSaveParam (appendServerSaveParam (s3\<lparr>saveParams := []\<rparr>) 900 1) 300 10000) 10 1;
     s5 \<leftarrow> loadCommands (s4\<lparr>maxclients := 10000\<rparr>);
     Some (dbnum, fullPath root r, s5)
   }"

text \<open>The sentinel's connection to the server it monitors; the result of the connection is not tested.\<close>

definition initSentinel :: "env \<Rightarrow> reading \<Rightarrow> redisServer \<Rightarrow> redisServer option" where
  "initSentinel E now s = do {
     monitor \<leftarrow> conf_value s ''monitor'';
     (nm, r1) \<leftarrow> strtok1 CHR '','' monitor;
     (host, r2) \<leftarrow> strtok1 CHR '','' r1;
     (p, _) \<leftarrow> strtok1 CHR '','' r2;
     n \<leftarrow> atoi p;
     let d = e_connect E host n;
     assert_c (d \<noteq> 0);
     let (i, s1) = new_client E s ((redisClientCreate (e_junk E) d host n)\<lparr>flags := REDIS_CLIENT_MASTER, name := nm\<rparr>);
     Some (s1\<lparr>clients := clients s1 @ [i], eventLoop := snd (aeCreateTimeEvent now (eventLoop s1) 10000 sentinelInfoCron None)\<rparr>)
   }"

text \<open>
  \<open>listen\<close> is the listening descriptor, \<open>snap\<close> and \<open>aof\<close> the two files.  The program also ends
  here, without a result, when it cannot listen.
\<close>

definition initServer :: "env \<Rightarrow> reading \<Rightarrow> int \<Rightarrow> int \<Rightarrow> (bytes \<Rightarrow> bytes) \<Rightarrow> bytes option \<Rightarrow> bytes \<Rightarrow> int \<Rightarrow> redisServer \<Rightarrow> redisServer option" where
  "initServer E now pid listen sha snap aof dbnum s = do {
     let s1 = s\<lparr>server_id := pid, unixtime := e_now E, dbs := map (\<lambda>k. dbInit (int k)) [0..<nat dbnum],
       dirty := 0, lastSave := e_now E, rdbChildPid := - 1, isBgSaving := False\<rparr>;
     ds \<leftarrow> (if rdbOn s1 then do { f \<leftarrow> snap; rdbLoad sha f (dbs s1) } else Some (dbs s1));
     let s2 = s1\<lparr>dbs := ds, clients := [], clientsToClose := [], eventLoop := aeCreateEventLoop (eventLoop s1) (maxclients s1)\<rparr>;
     assert_c (listen \<noteq> - 1);
     (r, s3) \<leftarrow> create_event E s2 listen AE_READABLE handler.acceptTcpHandler None;
     assert_c (r \<noteq> AE_ERROR);
     let s4 = s3\<lparr>eventLoop := snd (aeCreateTimeEvent now (eventLoop s3) 1000 serverCron None)\<rparr>;
     s5 \<leftarrow> (if server_flags s4 AND REDIS_CLUSTER_SENTINEL \<noteq> 0 then initSentinel E now s4 else Some s4);
     s6 \<leftarrow> (if aofOn s5 then aof_load E (s5\<lparr>active_buf := []\<rparr>) aof else Some s5);
     let s7 = s6\<lparr>repli_buffer := replicate (nat MASTER_REPLI_RINGBUFFER_SIZE) NUL, begin_offset := 0, last_offset := 0\<rparr>;
     if server_flags s7 AND REDIS_CLUSTER_SLAVE \<noteq> 0 then connectMaster E s7 else Some s7
   }"

end
