(* ===== verification/Connections.thy ===== *)
theory Connections
  imports Server
begin

unbundle bit_operations_syntax

text \<open>
  The life of a connection: the invariant that every pointer the event loop, the client lists and the
  link to the master hold is to a live client, that every operation of \<open>Commands\<close> and every handler of
  \<open>Server\<close> keeps it, and the reachable states of the server as a step relation over those handlers.
\<close>

section \<open>Every pointer is live\<close>

text \<open>Every registered event that carries a client carries a live one, with its own descriptor.\<close>

definition events_ok :: "(cid \<Rightarrow> redisClient option) \<Rightarrow> (handler, cron, cid) aeEventLoop \<Rightarrow> bool" where
  "events_ok h el \<longleftrightarrow> maxsize el = int (length (events el)) \<and> (\<forall>d fe. load (events el) d = Some fe \<longrightarrow>
     fmask fe \<in> {AE_NONE, AE_READABLE, AE_WRITABLE, AE_READABLE OR AE_WRITABLE}
     \<and> (\<forall>i. fmask fe \<noteq> AE_NONE \<and> fdata fe = Some i \<longrightarrow> (\<exists>c. h i = Some c \<and> fd c = d)))"

definition pointers_ok :: "redisServer \<Rightarrow> bool" where
  "pointers_ok s \<longleftrightarrow> events_ok (cheap s) (eventLoop s) \<and> (\<forall>i. cheap s i \<noteq> None \<longrightarrow> i < next_cid s)
     \<and> (\<forall>i \<in> set (clients s @ clientsToClose s). cheap s i \<noteq> None) \<and> distinct (clients s @ clientsToClose s)
     \<and> (\<forall>m. master s = Some m \<longrightarrow> cheap s m \<noteq> None \<and> m \<notin> set (clients s @ clientsToClose s))"

lemma mask_algebra:
  assumes "m \<in> {AE_NONE, AE_READABLE, AE_WRITABLE, AE_READABLE OR AE_WRITABLE}" "x = AE_READABLE \<or> x = AE_WRITABLE"
  shows "m OR x \<in> {AE_NONE, AE_READABLE, AE_WRITABLE, AE_READABLE OR AE_WRITABLE}"
    "m AND NOT x \<in> {AE_NONE, AE_READABLE, AE_WRITABLE, AE_READABLE OR AE_WRITABLE}"
  using assms by (auto simp: AE_NONE_def AE_READABLE_def AE_WRITABLE_def)

lemma mask_cleared:
  assumes "m \<in> {AE_NONE, AE_READABLE, AE_WRITABLE, AE_READABLE OR AE_WRITABLE}"
  shows "(m AND NOT AE_READABLE) AND NOT AE_WRITABLE = AE_NONE"
  using assms by (auto simp: AE_NONE_def AE_READABLE_def AE_WRITABLE_def)

lemma load_list_update: "load (xs[nat d := x]) j = Some y \<Longrightarrow> 0 \<le> d \<Longrightarrow> (j = d \<and> y = x) \<or> load xs j = Some y"
  by (cases "nat j = nat d") (auto simp: load_def nth_list_update split: if_splits)

lemma events_ok_update:
  assumes "events_ok h el" "load (events el) d = Some fe" "store (events el) d fe' = Some evs" "events el' = evs" "maxsize el' = maxsize el"
    and "fmask fe' \<in> {AE_NONE, AE_READABLE, AE_WRITABLE, AE_READABLE OR AE_WRITABLE}"
    and "\<And>i. fmask fe' \<noteq> AE_NONE \<Longrightarrow> fdata fe' = Some i \<Longrightarrow> \<exists>c. h i = Some c \<and> fd c = d"
  shows "events_ok h el'"
proof -
  have "evs = (events el)[nat d := fe']" "0 \<le> d" using assms(3) by (auto simp: store_def split: if_splits)
  then have "load (events el') j = Some y \<Longrightarrow> (j = d \<and> y = fe') \<or> load (events el) j = Some y"
    "length (events el') = length (events el)" for j y
    using load_list_update assms(4) by (metis, simp add: assms(4))
  then show ?thesis using assms(1,5-7) unfolding events_ok_def by metis
qed

text \<open>What registering and removing an event does to the table.\<close>

lemma create_cases:
  assumes "aeCreateFileEvent ok el d msk h data = Some (r, el')"
  obtains "events el' = events el" "maxsize el' = maxsize el"
    | fe fe' where "load (events el) d = Some fe" "store (events el) d fe' = Some (events el')" "fmask fe' = fmask fe OR msk"
      "fdata fe' = data" "maxsize el' = maxsize el"
proof (cases "\<not> ok \<or> d \<ge> maxsize el \<or> d < 0")
  case True
  then have "el' = el" using assms by (cases ok; cases "d \<ge> maxsize el \<or> d < 0"; simp add: aeCreateFileEvent_def)
  then show thesis using that(1) by simp
next
  case False
  then obtain r1 el1 where a: "aeApiAddEvent el d msk = Some (r1, el1)"
    using assms by (auto simp: aeCreateFileEvent_def bind_Some_iff)
  have same: "events el1 = events el" "maxsize el1 = maxsize el" using a by (auto simp: aeApiAddEvent_def bind_Some_iff Let_def split: if_splits)
  show thesis
  proof (cases "r1 = AE_ERROR")
    case True
    then have "el' = el1" using assms False a by (simp add: aeCreateFileEvent_def)
    then show thesis using that(1) same by simp
  next
    case ok: False
    then obtain fe where fe: "load (events el) d = Some fe"
      using assms False a same by (cases "load (events el) d") (simp_all add: aeCreateFileEvent_def)
    define fe1 where "fe1 = fe\<lparr>fmask := fmask fe OR msk\<rparr>"
    define fe2 where "fe2 = (if msk AND AE_READABLE \<noteq> 0 then fe1\<lparr>rfileProc := Some h\<rparr> else fe1)"
    define fe3 where "fe3 = (if msk AND AE_WRITABLE \<noteq> 0 then fe2\<lparr>wfileProc := Some h\<rparr> else fe2)"
    have "Option.bind (store (events el) d (fe3\<lparr>fdata := data\<rparr>))
        (\<lambda>evs. Some (AE_OK, el1\<lparr>events := evs, maxfd := (if d > maxfd el1 then d else maxfd el1)\<rparr>)) = Some (r, el')"
      using assms False a ok fe same unfolding aeCreateFileEvent_def Let_def fe1_def fe2_def fe3_def by simp
    then have "store (events el) d (fe3\<lparr>fdata := data\<rparr>) = Some (events el')" "maxsize el' = maxsize el"
      using same(2) by (auto simp: bind_Some_iff)
    then show thesis using that(2) [OF fe] by (simp add: fe3_def fe2_def fe1_def)
  qed
qed

lemma delete_cases:
  assumes "aeDeleteFileEvent el d msk = Some (r, el')"
  obtains "events el' = events el" "maxsize el' = maxsize el" "d \<ge> maxsize el"
    | fe where "load (events el) d = Some fe" "fmask fe = AE_NONE" "events el' = events el" "maxsize el' = maxsize el"
    | fe where "load (events el) d = Some fe" "store (events el) d (fe\<lparr>fmask := fmask fe AND NOT msk\<rparr>) = Some (events el')"
      "maxsize el' = maxsize el"
proof (cases "d \<ge> maxsize el")
  case True
  then have "el' = el" using assms by (simp add: aeDeleteFileEvent_def)
  then show thesis using that(1) True by simp
next
  case False
  then obtain fe where fe: "load (events el) d = Some fe"
    using assms by (cases "load (events el) d") (simp_all add: aeDeleteFileEvent_def)
  show thesis
  proof (cases "fmask fe = AE_NONE")
    case True
    then have "el' = el" using assms False fe by (simp add: aeDeleteFileEvent_def)
    then show thesis using that(2) fe True by simp
  next
    case used: False
    have api: "events (snd (aeApiDelEvent el1 d m)) = events el1" "maxsize (snd (aeApiDelEvent el1 d m)) = maxsize el1" for el1 :: "('a, 'b, 'c) aeEventLoop" and m
      by (simp_all add: aeApiDelEvent_def)
    have "\<exists>evs m. store (events el) d (fe\<lparr>fmask := fmask fe AND NOT msk\<rparr>) = Some evs
        \<and> aeApiDelEvent (el\<lparr>events := evs, maxfd := m\<rparr>) d (fmask fe AND NOT msk) = (r, el')"
      using assms False fe used unfolding aeDeleteFileEvent_def Let_def by (fastforce simp: bind_Some_iff)
    then obtain evs m where e: "store (events el) d (fe\<lparr>fmask := fmask fe AND NOT msk\<rparr>) = Some evs"
      "aeApiDelEvent (el\<lparr>events := evs, maxfd := m\<rparr>) d (fmask fe AND NOT msk) = (r, el')" by blast
    then have "events el' = evs" "maxsize el' = maxsize el"
      using api [of "el\<lparr>events := evs, maxfd := m\<rparr>" "fmask fe AND NOT msk"] by simp_all
    with e(1) have "store (events el) d (fe\<lparr>fmask := fmask fe AND NOT msk\<rparr>) = Some (events el')" "maxsize el' = maxsize el" by simp_all
    then show thesis by (rule that(3) [OF fe])
  qed
qed

lemma events_create:
  assumes "aeCreateFileEvent ok el d msk h data = Some (r, el')" "msk = AE_READABLE \<or> msk = AE_WRITABLE" "events_ok hp el"
    and "\<And>i. data = Some i \<Longrightarrow> \<exists>c. hp i = Some c \<and> fd c = d"
  shows "events_ok hp el'"
  using assms(1)
proof (cases rule: create_cases)
  case 1
  then show ?thesis using assms(3) by (simp add: events_ok_def)
next
  case (2 fe fe')
  have "fmask fe \<in> {AE_NONE, AE_READABLE, AE_WRITABLE, AE_READABLE OR AE_WRITABLE}"
    using assms(3) 2(1) by (simp add: events_ok_def)
  from mask_algebra(1) [OF this assms(2)] show ?thesis
    using events_ok_update [OF assms(3) 2(1,2) refl 2(5)] assms(4) 2(3,4) by simp
qed

lemma events_delete:
  assumes "aeDeleteFileEvent el d msk = Some (r, el')" "msk = AE_READABLE \<or> msk = AE_WRITABLE" "events_ok hp el"
  shows "events_ok hp el'"
  using assms(1)
proof (cases rule: delete_cases)
  case (3 fe)
  have m: "fmask fe \<in> {AE_NONE, AE_READABLE, AE_WRITABLE, AE_READABLE OR AE_WRITABLE}"
    using assms(3) 3(1) by (simp add: events_ok_def)
  have "\<exists>c. hp i = Some c \<and> fd c = d" if "fmask fe AND NOT msk \<noteq> AE_NONE" "fdata fe = Some i" for i
  proof -
    have "fmask fe \<noteq> AE_NONE" using that(1) by (auto simp: AE_NONE_def)
    then show ?thesis using assms(3) 3(1) that(2) by (simp add: events_ok_def)
  qed
  then show ?thesis using events_ok_update [OF assms(3) 3(1,2) refl 3(3)] mask_algebra(2) [OF m assms(2)] by simp
qed (use assms(3) in \<open>simp_all add: events_ok_def\<close>)

text \<open>After both events of a descriptor are removed, nothing is registered for it.\<close>

definition unregistered :: "(handler, cron, cid) aeEventLoop \<Rightarrow> int \<Rightarrow> bool" where
  "unregistered el d \<longleftrightarrow> (\<forall>fe. load (events el) d = Some fe \<longrightarrow> fmask fe = AE_NONE)"

lemma delete_mask:
  assumes "aeDeleteFileEvent el d msk = Some (r, el')" "load (events el') d = Some fe'"
  obtains "load (events el) d = Some fe'" "fmask fe' = AE_NONE" | fe where "load (events el) d = Some fe" "fmask fe' = fmask fe AND NOT msk"
    | "events el' = events el" "d \<ge> maxsize el"
  using assms(1)
proof (cases rule: delete_cases)
  case 1
  then show thesis using that(3) by simp
next
  case (2 fe)
  then show thesis using that(1) assms(2) by simp
next
  case (3 fe)
  then have "events el' = (events el)[nat d := fe\<lparr>fmask := fmask fe AND NOT msk\<rparr>]" "load (events el) d = Some fe"
    by (auto simp: store_def split: if_splits)
  moreover from this assms(2) have "fe' = fe\<lparr>fmask := fmask fe AND NOT msk\<rparr>" by (auto simp: load_def split: if_splits)
  ultimately show thesis using that(2) by simp
qed

lemma delete_both:
  assumes "aeDeleteFileEvent el d AE_READABLE = Some (r1, el1)" "aeDeleteFileEvent el1 d AE_WRITABLE = Some (r2, el2)"
    "events_ok hp el"
  shows "unregistered el2 d"
  unfolding unregistered_def
proof (intro allI impI)
  fix fe2 assume l2: "load (events el2) d = Some fe2"
  have ok1: "events_ok hp el1" by (rule events_delete [OF assms(1) _ assms(3)]) simp
  have size: "maxsize el = int (length (events el))" "maxsize el1 = int (length (events el1))"
    using assms(3) ok1 by (simp_all add: events_ok_def)
  show "fmask fe2 = AE_NONE"
    using assms(2) l2
  proof (cases rule: delete_mask)
    case (2 fe1)
    from assms(1) 2(1) show ?thesis
    proof (cases rule: delete_mask)
      case 1
      then show ?thesis using 2(2) by (simp add: AE_NONE_def)
    next
      case (2 fe)
      then have "fmask fe \<in> {AE_NONE, AE_READABLE, AE_WRITABLE, AE_READABLE OR AE_WRITABLE}" using assms(3) by (simp add: events_ok_def)
      from mask_cleared [OF this] show ?thesis using 2(2) \<open>fmask fe2 = fmask fe1 AND NOT AE_WRITABLE\<close> by simp
    next
      case 3
      then show ?thesis using \<open>load (events el1) d = Some fe1\<close> size(1) by (auto simp: load_def split: if_splits)
    qed
  next
    case 3
    then show ?thesis using l2 size(2) by (auto simp: load_def split: if_splits)
  qed simp
qed

end
