(* ===== verification/Tables.thy ===== *)
theory Tables
  imports Server
begin

unbundle bit_operations_syntax

text \<open>
  The tables of the databases stay well formed: every operation of \<open>Dict\<close> that returns keeps
  \<open>dict_ok\<close> (chains in the buckets their keys hash to, counts that agree, distinct keys, the old table
  empty below the rehash index), and so does every operation of \<open>Db\<close> and the loading of a snapshot.
\<close>

section \<open>Dictionaries\<close>

context hash_keys
begin

lemma rehash_step_dead_any:
  assumes "dict_ok T canon d" "\<not> dict_live d"
  shows "dictRehashStep T (d\<lparr>ht1 := h\<rparr>) = None"
proof -
  have h: "ht_ok T (ht0 d)" "0 \<le> rehashidx d" "ht_used (ht0 d) = 0"
    using assms ht_okD(2) [of T "ht0 d"] by (auto simp: dict_ok_def dict_live_def split: if_splits simp del: length_concat)
  let ?t = "ht_table (ht0 d)"
  have "\<forall>k < length ?t. ?t ! k = []" using ht_okD(2) [OF h(1)] h(3) by simp
  from skip_empty_all [OF h(2) ht_okD(1) [OF h(1)] this] obtain m where
    "skip_empty ?t (ht_size (ht0 d)) (rehashidx d) = Some m" "ht_size (ht0 d) \<le> m" by blast
  then show ?thesis using ht_okD(1) [OF h(1)] by (simp add: dictRehashStep_def load_def)
qed

lemma add_keeps:
  assumes "dict_ok T canon d" "dictAdd T d k v = Some (r, d')"
  shows "dict_ok T canon d'"
proof (cases "dict_live d")
  case True
  then show ?thesis using add_any [of d k v] assms by (auto simp: dict_good_def)
next
  case False
  have "dict_map canon d (canon k) \<noteq> None"
  proof
    assume none: "dict_map canon d (canon k) = None"
    obtain f where f: "dictFind T d k = Some f" "dict_map canon d (canon k) = map_option snd f" by (rule find_spec [OF assms(1)])
    have re: "dictIsRehashing d" using False by (simp add: dict_live_def dictIsRehashing_def)
    have "dictAddEntry T d e = None" for e
      using re rehash_step_dead_any [OF assms(1) False] by (simp add: dictAddEntry_def dictExpandIfNeed_def Let_def)
    then show False using assms(2) f none by (simp add: dictAdd_def dictAddRaw_def)
  qed
  then show ?thesis using add_dup [OF assms(1)] assms by simp
qed

lemma replace_keeps: "dict_ok T canon d \<Longrightarrow> dictReplace T d k v = Some (r, d') \<Longrightarrow> dict_ok T canon d'"
  using replace_spec [of d k v] set_val_ok(1) [of d k v] by (cases "dict_map canon d (canon k) = None") auto

lemma fetch_keeps:
  assumes "dict_ok T canon d" "dictFetchValue T d k = Some (v, d')"
  shows "dict_ok T canon d'"
proof (cases "dict_live d")
  case True
  then show ?thesis using store.fetch_law [of d k] assms by (auto simp: dict_good_def)
next
  case False
  then show ?thesis using dead_operations(1) [OF assms(1)] assms(2) by simp
qed

lemma delete_keeps:
  assumes "dict_ok T canon d" "dictDelete T d k = Some (r, fr, d')"
  shows "dict_ok T canon d'"
proof (cases "dict_live d")
  case True
  then show ?thesis using assms delete_spec [OF assms(1) True, of k] by auto
next
  case False
  then show ?thesis using dead_operations(2) [OF assms(1)] assms(2) by simp
qed

end

section \<open>Databases\<close>

definition db_ok :: "redisDb \<Rightarrow> bool" where
  "db_ok db \<longleftrightarrow> dict_ok kvtype key_canon (kv db) \<and> dict_ok expiretype key_canon (expires db)
     \<and> dict_ok watchtype key_canon (watched_keys db)"

lemma dbInit_ok: "db_ok (dbInit i)"
  using dbInit_good(1) by (simp add: db_ok_def db_good_def dict_good_def)

lemma dbAdd_ok: "db_ok db \<Longrightarrow> dbAdd db k v = Some (r, db') \<Longrightarrow> db_ok db'"
  by (auto simp: dbAdd_def db_ok_def bind_Some_iff split: if_splits dest: kv_keys.add_keeps kv_keys.replace_keeps)

lemma dbGet_ok: "db_ok db \<Longrightarrow> dbGet db k = Some (v, db') \<Longrightarrow> db_ok db'"
  by (auto simp: dbGet_def db_ok_def bind_Some_iff dest: kv_keys.fetch_keeps)

lemma dbDelete_ok: "db_ok db \<Longrightarrow> dbDelete db k = Some (r, db') \<Longrightarrow> db_ok db'"
  by (auto simp: dbDelete_def db_ok_def bind_Some_iff dest: kv_keys.delete_keeps)

lemma dbSetExpire_ok: "db_ok db \<Longrightarrow> dbSetExpire db k t = Some (r, db') \<Longrightarrow> db_ok db'"
  by (auto simp: dbSetExpire_def db_ok_def bind_Some_iff dest: expire_keys.add_keeps)

lemma dbGetTTL_ok: "db_ok db \<Longrightarrow> dbGetTTL now db k = Some (r, db') \<Longrightarrow> db_ok db'"
  by (auto simp: dbGetTTL_def db_ok_def bind_Some_iff dest: expire_keys.fetch_keeps)

lemma expireIfNeed_ok:
  assumes ok: "db_ok db" and r: "expireIfNeed now db k = Some db'"
  shows "db_ok db'"
proof (cases "db' = db")
  case False
  then obtain v e where e: "dictFetchValue expiretype (expires db) k = Some (v, e)"
    "(if now > ptr_long v then do {
           (r, _, d) \<leftarrow> dictDelete kvtype (kv db) k;
           (if r > 0 then do { (r2, _, e2) \<leftarrow> dictDelete expiretype e k; Some (db\<lparr>kv := d, expires := e2\<rparr>) }
            else Some (db\<lparr>kv := d, expires := e\<rparr>)) }
      else Some (db\<lparr>expires := e\<rparr>)) = Some db'"
    using r by (auto simp: expireIfNeed_def bind_Some_iff Let_def split: if_splits)
  have ek: "dict_ok expiretype key_canon e" using expire_keys.fetch_keeps [OF _ e(1)] ok by (simp add: db_ok_def)
  show ?thesis
  proof (cases "now > ptr_long v")
    case True
    then obtain r1 fr d where d: "dictDelete kvtype (kv db) k = Some (r1, fr, d)"
      "(if r1 > 0 then do { (r2, _, e2) \<leftarrow> dictDelete expiretype e k; Some (db\<lparr>kv := d, expires := e2\<rparr>) }
        else Some (db\<lparr>kv := d, expires := e\<rparr>)) = Some db'"
      using e(2) by (auto simp: bind_Some_iff)
    have "dict_ok kvtype key_canon d" using kv_keys.delete_keeps [OF _ d(1)] ok by (simp add: db_ok_def)
    then show ?thesis using d(2) ek ok expire_keys.delete_keeps [OF ek, of k]
      by (auto simp: db_ok_def bind_Some_iff split: if_splits)
  next
    case False
    then show ?thesis using e(2) ek ok by (auto simp: db_ok_def)
  qed
qed (use ok in simp)

lemma dbAddWatch_ok:
  assumes ok: "db_ok db" and r: "dbAddWatch db k c = Some db'"
  shows "db_ok db'"
proof -
  obtain present w1 cl w2 l where w: "dictContains watchtype (watched_keys db) k = Some present"
    "(if \<not> present then map_option snd (dictAdd watchtype (watched_keys db) k (Some [])) else Some (watched_keys db)) = Some w1"
    "dictFetchValue watchtype w1 k = Some (cl, w2)" "db' = db\<lparr>watched_keys := dictSetVal watchtype w2 k (Some (l @ [c]))\<rparr>"
    using r by (auto simp: dbAddWatch_def bind_Some_iff)
  have "dict_ok watchtype key_canon (watched_keys db)" using ok by (simp add: db_ok_def)
  then have "dict_ok watchtype key_canon w1" using w(2) watch_keys.add_keeps [of "watched_keys db" k] by (auto split: if_splits)
  from watch_keys.set_val_ok(1) [OF watch_keys.fetch_keeps [OF this w(3)]] show ?thesis
    using ok by (simp add: w(4) db_ok_def)
qed

lemma watchers_reset_ok:
  assumes "db_ok db" "dictFetchValue watchtype (watched_keys db) k = Some (l, w)"
  shows "db_ok (db\<lparr>watched_keys := dictSetVal watchtype w k v\<rparr>)"
proof -
  have "dict_ok watchtype key_canon (watched_keys db)" using assms(1) by (simp add: db_ok_def)
  from watch_keys.set_val_ok(1) [OF watch_keys.fetch_keeps [OF this assms(2)]] show ?thesis
    using assms(1) by (simp add: db_ok_def)
qed

section \<open>Loading a snapshot\<close>

definition dbs_ok :: "redisDb list \<Rightarrow> bool" where
  "dbs_ok ds \<longleftrightarrow> (\<forall>db \<in> set ds. db_ok db)"

lemma dbs_ok_load: "dbs_ok ds \<Longrightarrow> load ds j = Some db \<Longrightarrow> db_ok db"
  by (auto simp: dbs_ok_def load_def split: if_splits)

lemma dbs_ok_store: "dbs_ok ds \<Longrightarrow> db_ok db \<Longrightarrow> store ds j db = Some ds' \<Longrightarrow> dbs_ok ds'"
  by (auto simp: dbs_ok_def store_def split: if_splits dest!: subsetD [OF set_update_subset_insert])

lemma load_loop_ok: "dbs_ok ds \<Longrightarrow> load_loop n fp ds sel ex = Some (ds', fp') \<Longrightarrow> dbs_ok ds'"
proof (induction n arbitrary: fp ds sel ex)
  case (Suc n)
  obtain t fp1 where t: "rdbLoadType fp = Some (t, fp1)" using Suc.prems(2) by (auto simp: bind_Some_iff)
  consider "t = RDB_EOF" | "t \<noteq> RDB_EOF" "t = RDB_SELECTDB" | "t \<noteq> RDB_EOF" "t \<noteq> RDB_SELECTDB" "t = RDB_EXPIRETIME"
    | "t \<noteq> RDB_EOF" "t \<noteq> RDB_SELECTDB" "t \<noteq> RDB_EXPIRETIME" by blast
  then show ?case
  proof cases
    case 1
    then show ?thesis using Suc.prems t by simp
  next
    case 2
    then show ?thesis using Suc.prems t Suc.IH [of ds] by (auto simp: bind_Some_iff split: prod.splits)
  next
    case 3
    then show ?thesis using Suc.prems t Suc.IH [of ds] by (auto simp: bind_Some_iff split: prod.splits)
  next
    case 4
    then obtain key fp2 val fp3 j db r db1 db2 ds1 sel' ex' where e: "load ds j = Some db" "dbAdd db key val = Some (r, db1)"
        "(if ex > 0 then map_option snd (dbSetExpire db1 key ex) else Some db1) = Some db2" "store ds j db2 = Some ds1"
        "load_loop n fp3 ds1 sel' ex' = Some (ds', fp')"
      using Suc.prems(2) t by (auto simp: bind_Some_iff)
    have "db_ok db1" by (rule dbAdd_ok [OF dbs_ok_load [OF Suc.prems(1) e(1)] e(2)])
    then have "db_ok db2" using e(3) by (auto split: if_splits dest: dbSetExpire_ok)
    from Suc.IH [OF dbs_ok_store [OF Suc.prems(1) this e(4)] e(5)] show ?thesis .
  qed
qed simp

lemma rdbLoad_ok: "dbs_ok ds \<Longrightarrow> rdbLoad sha f ds = Some ds' \<Longrightarrow> dbs_ok ds'"
  by (auto simp: rdbLoad_def bind_Some_iff Let_def split: if_splits prod.splits dest: load_loop_ok)

end
