(* ===== verification/Safety.thy ===== *)
theory Safety
  imports Connections Tables
begin

unbundle bit_operations_syntax

text \<open>
  A calculus of partial correctness for the operations on the server, and with it the proof that every
  operation of \<open>Commands\<close>, every handler of \<open>Repli\<close> and \<open>Server\<close> and every periodic job keeps the pointers
  of the server live (\<open>pointers_ok\<close> of \<open>Connections\<close>).  \<open>kept s0 s\<close> also says what became of the clients of
  \<open>s0\<close>: a client keeps its descriptor or is gone for good.
\<close>

section \<open>Partial correctness of operations\<close>

text \<open>\<open>holds m Q\<close>: whatever the operation returns satisfies \<open>Q\<close>.  It is computed by rewriting down to the
  operations on the state, for each of which there is one rule.\<close>

definition holds :: "'a option \<Rightarrow> ('a \<Rightarrow> bool) \<Rightarrow> bool" where
  "holds m Q \<longleftrightarrow> (\<forall>x. m = Some x \<longrightarrow> Q x)"

named_theorems wp

lemma holds_bind [simp]: "holds (Option.bind m f) Q \<longleftrightarrow> holds m (\<lambda>x. holds (f x) Q)"
  by (auto simp: holds_def bind_Some_iff)

lemma holds_None [simp]: "holds None Q"
  by (simp add: holds_def)

lemma holds_Some [simp]: "holds (Some x) Q \<longleftrightarrow> Q x"
  by (simp add: holds_def)

lemma holds_if [simp]: "holds (if b then m else m') Q \<longleftrightarrow> (if b then holds m Q else holds m' Q)"
  by simp

lemma holds_assert [simp]: "holds (assert_c b) Q \<longleftrightarrow> (b \<longrightarrow> Q ())"
  by (auto simp: holds_def assert_c_def)

lemma holds_map_option [simp]: "holds (map_option g m) Q \<longleftrightarrow> holds m (\<lambda>x. Q (g x))"
  by (auto simp: holds_def)

lemmas holds_simps = holds_bind holds_None holds_Some holds_if holds_assert

lemma holdsI: "(\<And>x. m = Some x \<Longrightarrow> Q x) \<Longrightarrow> holds m Q"
  by (simp add: holds_def)

lemma holdsD: "holds m Q \<Longrightarrow> m = Some x \<Longrightarrow> Q x"
  by (simp add: holds_def)

lemma wp_pair [wp]: "(\<And>a b. p = (a, b) \<Longrightarrow> holds (f a b) Q) \<Longrightarrow> holds (case p of (a, b) \<Rightarrow> f a b) Q"
  by (cases p) simp

lemma wp_case [wp]:
  "(p = None \<Longrightarrow> holds m Q) \<Longrightarrow> (\<And>x. p = Some x \<Longrightarrow> holds (f x) Q) \<Longrightarrow> holds (case p of None \<Rightarrow> m | Some x \<Rightarrow> f x) Q"
  by (cases p) simp_all

text \<open>The descriptors of the live clients.\<close>

definition fds :: "redisServer \<Rightarrow> cid \<Rightarrow> int option" where
  "fds s i = map_option fd (cheap s i)"

text \<open>The invariant of the server: its pointers are live and the tables of its databases well formed.\<close>

definition server_ok :: "redisServer \<Rightarrow> bool" where
  "server_ok s \<longleftrightarrow> pointers_ok s \<and> dbs_ok (dbs s)"

text \<open>
  The invariant, relative to an earlier state: a client of that state is still there with its
  descriptor, or gone for good.
\<close>

definition kept :: "redisServer \<Rightarrow> redisServer \<Rightarrow> bool" where
  "kept s0 s \<longleftrightarrow> server_ok s \<and> next_cid s0 \<le> next_cid s \<and> (\<forall>j < next_cid s0. fds s j = fds s0 j \<or> fds s j = None)"

lemma kept_refl: "server_ok s \<Longrightarrow> kept s s"
  by (simp add: kept_def)

lemma kept_ok: "kept s0 s \<Longrightarrow> server_ok s"
  by (simp add: kept_def)

lemma kept_dbs: "kept s0 s \<Longrightarrow> dbs_ok (dbs s)"
  by (simp add: kept_def server_ok_def)

lemma pointers_ok_cong:
  assumes "fds s' = fds s" "events_ok (cheap s) (eventLoop s')" "next_cid s' = next_cid s" "clients s' = clients s"
    "clientsToClose s' = clientsToClose s" "master s' = master s" "pointers_ok s"
  shows "pointers_ok s'"
proof -
  have live: "cheap s' i = None \<longleftrightarrow> cheap s i = None" for i using fun_cong [OF assms(1), of i] by (cases "cheap s' i"; cases "cheap s i") (auto simp: fds_def)
  have "\<exists>c'. cheap s' i = Some c' \<and> fd c' = d" if "cheap s i = Some c" "fd c = d" for i c d
    using fun_cong [OF assms(1), of i] that by (auto simp: fds_def)
  then have "events_ok (cheap s') (eventLoop s')" using assms(2) unfolding events_ok_def by metis
  then show ?thesis using assms(3-7) by (simp add: pointers_ok_def live)
qed

lemma kept_cong:
  assumes "kept s0 s" "fds s' = fds s" "events_ok (cheap s) (eventLoop s')" "next_cid s' = next_cid s" "clients s' = clients s"
    "clientsToClose s' = clientsToClose s" "master s' = master s" "dbs s' = dbs s"
  shows "kept s0 s'"
  using assms pointers_ok_cong [OF assms(2-7)] by (simp add: kept_def server_ok_def)

lemma kept_events: "kept s0 s \<Longrightarrow> events_ok (cheap s) (eventLoop s)"
  by (simp add: kept_def server_ok_def pointers_ok_def)

text \<open>Fields that hold no pointer.\<close>

lemma fds_fields [simp]:
  "fds (s\<lparr>dbs := a\<rparr>) = fds s" "fds (s\<lparr>dirty := b\<rparr>) = fds s" "fds (s\<lparr>offset := b\<rparr>) = fds s" "fds (s\<lparr>configfile := f\<rparr>) = fds s"
  "fds (s\<lparr>server_replState := t\<rparr>) = fds s" "fds (s\<lparr>active_buf := f\<rparr>) = fds s" "fds (s\<lparr>repli_buffer := f\<rparr>) = fds s"
  "fds (s\<lparr>begin_offset := b\<rparr>) = fds s" "fds (s\<lparr>last_offset := b\<rparr>) = fds s" "fds (s\<lparr>unixtime := b\<rparr>) = fds s"
  "fds (s\<lparr>eventLoop := el\<rparr>) = fds s" "fds (s\<lparr>master := m\<rparr>) = fds s" "fds (s\<lparr>clients := is\<rparr>) = fds s" "fds (s\<lparr>clientsToClose := is\<rparr>) = fds s"
  "fds (s\<lparr>commands := k\<rparr>) = fds s" "fds (s\<lparr>server_flags := fl\<rparr>) = fds s" "fds (s\<lparr>masterhost := f\<rparr>) = fds s"
  "fds (s\<lparr>masterport := b\<rparr>) = fds s" "fds (s\<lparr>isBgSaving := q\<rparr>) = fds s" "fds (s\<lparr>rdbChildPid := b\<rparr>) = fds s"
  "fds (s\<lparr>lastSave := b\<rparr>) = fds s" "fds (s\<lparr>server_id := b\<rparr>) = fds s" "fds (s\<lparr>shutdownAsap := b\<rparr>) = fds s"
  by (simp_all add: fds_def fun_eq_iff)

lemma kept_fields [simp]:
  "kept s0 (s\<lparr>dirty := b\<rparr>) = kept s0 s" "kept s0 (s\<lparr>offset := b\<rparr>) = kept s0 s"
  "kept s0 (s\<lparr>configfile := f\<rparr>) = kept s0 s" "kept s0 (s\<lparr>server_replState := t\<rparr>) = kept s0 s" "kept s0 (s\<lparr>active_buf := f\<rparr>) = kept s0 s"
  "kept s0 (s\<lparr>repli_buffer := f\<rparr>) = kept s0 s" "kept s0 (s\<lparr>begin_offset := b\<rparr>) = kept s0 s" "kept s0 (s\<lparr>last_offset := b\<rparr>) = kept s0 s"
  "kept s0 (s\<lparr>unixtime := b\<rparr>) = kept s0 s" "kept s0 (s\<lparr>commands := k\<rparr>) = kept s0 s" "kept s0 (s\<lparr>server_flags := fl\<rparr>) = kept s0 s"
  "kept s0 (s\<lparr>masterhost := f\<rparr>) = kept s0 s" "kept s0 (s\<lparr>masterport := b\<rparr>) = kept s0 s" "kept s0 (s\<lparr>isBgSaving := q\<rparr>) = kept s0 s"
  "kept s0 (s\<lparr>rdbChildPid := b\<rparr>) = kept s0 s" "kept s0 (s\<lparr>lastSave := b\<rparr>) = kept s0 s" "kept s0 (s\<lparr>server_id := b\<rparr>) = kept s0 s"
  "kept s0 (s\<lparr>shutdownAsap := b\<rparr>) = kept s0 s"
  by (simp_all add: kept_def server_ok_def pointers_ok_def)

lemma kept_set_dbs: "kept s0 s \<Longrightarrow> dbs_ok a \<Longrightarrow> kept s0 (s\<lparr>dbs := a\<rparr>)"
  by (simp add: kept_def server_ok_def pointers_ok_def)

section \<open>One rule per primitive\<close>

lemma fds_put: "cheap s i = Some c \<Longrightarrow> fd c' = fd c \<Longrightarrow> fds (put_client s i c') = fds s"
  by (auto simp: fds_def put_client_def fun_eq_iff)

lemma kept_put: "kept s0 s \<Longrightarrow> fds s i = Some (fd c') \<Longrightarrow> kept s0 (put_client s i c')"
  by (rule kept_cong) (auto simp: put_client_def fds_def fun_eq_iff dest: kept_events)

lemma fds_client: "cheap s i = Some c \<Longrightarrow> fds s i = Some (fd c)"
  by (simp add: fds_def)

lemma wp_cheap [wp]: "(\<And>c. cheap s i = Some c \<Longrightarrow> fds s i = Some (fd c) \<Longrightarrow> Q c) \<Longrightarrow> holds (cheap s i) Q"
  by (simp add: holds_def fds_def)

lemma wp_upd [wp]:
  assumes "kept s0 s" "\<And>c. fd (f c) = fd c" "\<And>s'. kept s0 s' \<Longrightarrow> fds s' = fds s \<Longrightarrow> master s' = master s \<Longrightarrow> Q s'"
  shows "holds (upd_client s i f) Q"
proof (unfold upd_client_def holds_simps, rule wp_cheap)
  fix c assume "cheap s i = Some c"
  then show "Q (put_client s i (f c))"
    using assms(2) fds_put [of s i c "f c"] kept_put [OF assms(1), of i "f c"] fds_client [of s i c]
    by (intro assms(3)) (simp_all add: put_client_def)
qed

lemma wp_reply [wp]: "kept s0 s \<Longrightarrow> (\<And>s'. kept s0 s' \<Longrightarrow> fds s' = fds s \<Longrightarrow> master s' = master s \<Longrightarrow> Q s') \<Longrightarrow> holds (reply s i m) Q"
  unfolding reply_def by (rule wp_upd) (simp_all add: addWrite_def)

lemma wp_reply_bulk [wp]: "kept s0 s \<Longrightarrow> (\<And>s'. kept s0 s' \<Longrightarrow> fds s' = fds s \<Longrightarrow> Q s') \<Longrightarrow> holds (reply_bulk s i m) Q"
  unfolding reply_bulk_def by (simp, rule holdsI, rule wp_reply)

lemma wp_put_db [wp]:
  assumes "kept s0 s" "db_ok db" "\<And>s'. kept s0 s' \<Longrightarrow> fds s' = fds s \<Longrightarrow> cheap s' = cheap s \<Longrightarrow> Q s'"
  shows "holds (put_db s j db) Q"
  unfolding put_db_def
proof (simp only: holds_simps, rule holdsI)
  fix ds assume "store (dbs s) j db = Some ds"
  then have "dbs_ok ds" using dbs_ok_store [OF kept_dbs [OF assms(1)] assms(2)] by simp
  from kept_set_dbs [OF assms(1) this] show "Q (s\<lparr>dbs := ds\<rparr>)" by (rule assms(3)) simp_all
qed

lemma wp_load_db [wp]: "kept s0 s \<Longrightarrow> (\<And>db. db_ok db \<Longrightarrow> Q db) \<Longrightarrow> holds (load (dbs s) j) Q"
  by (auto simp: holds_def dest: dbs_ok_load [OF kept_dbs])

lemma wp_rdbLoad [wp]: "kept s0 s \<Longrightarrow> (\<And>ds. dbs_ok ds \<Longrightarrow> Q ds) \<Longrightarrow> holds (rdbLoad sha f (dbs s)) Q"
  by (auto simp: holds_def dest: rdbLoad_ok [OF kept_dbs])

text \<open>The operations on a database.\<close>

lemma wp_db [wp]:
  "db_ok db \<Longrightarrow> (\<And>r db'. db_ok db' \<Longrightarrow> P (r, db')) \<Longrightarrow> holds (dbAdd db k v) P"
  "db_ok db \<Longrightarrow> (\<And>r db'. db_ok db' \<Longrightarrow> G (r, db')) \<Longrightarrow> holds (dbGet db k) G"
  "db_ok db \<Longrightarrow> (\<And>r db'. db_ok db' \<Longrightarrow> P (r, db')) \<Longrightarrow> holds (dbDelete db k) P"
  "db_ok db \<Longrightarrow> (\<And>r db'. db_ok db' \<Longrightarrow> P (r, db')) \<Longrightarrow> holds (dbSetExpire db k n) P"
  "db_ok db \<Longrightarrow> (\<And>r db'. db_ok db' \<Longrightarrow> P (r, db')) \<Longrightarrow> holds (dbGetTTL now db k) P"
  "db_ok db \<Longrightarrow> (\<And>db'. db_ok db' \<Longrightarrow> Q db') \<Longrightarrow> holds (expireIfNeed now db k) Q"
  "db_ok db \<Longrightarrow> (\<And>db'. db_ok db' \<Longrightarrow> Q db') \<Longrightarrow> holds (dbAddWatch db k c) Q"
  by (auto simp: holds_def dest: dbAdd_ok dbGet_ok dbDelete_ok dbSetExpire_ok dbGetTTL_ok expireIfNeed_ok dbAddWatch_ok)

lemma wp_watchers [wp]:
  assumes "db_ok db" "\<And>l w. (\<And>v. db_ok (db\<lparr>watched_keys := dictSetVal watchtype w k v\<rparr>)) \<Longrightarrow> Q (l, w)"
  shows "holds (dictFetchValue watchtype (watched_keys db) k) Q"
proof (rule holdsI)
  fix x assume a: "dictFetchValue watchtype (watched_keys db) k = Some x"
  obtain l w where x: "x = (l, w)" by (cases x)
  show "Q x" unfolding x by (rule assms(2) [OF watchers_reset_ok [OF assms(1) a [unfolded x]]])
qed

lemma wp_create [wp]:
  assumes "kept s0 s" "msk = AE_READABLE \<or> msk = AE_WRITABLE" "\<And>i. data = Some i \<Longrightarrow> fds s i = Some d"
    and "\<And>r s'. kept s0 s' \<Longrightarrow> fds s' = fds s \<Longrightarrow> master s' = master s \<Longrightarrow> masterhost s' = masterhost s \<Longrightarrow> masterport s' = masterport s \<Longrightarrow> Q (r, s')"
  shows "holds (create_event E s d msk h data) Q"
  unfolding create_event_def
proof (simp only: holds_bind, rule holdsI)
  fix x assume ax: "aeCreateFileEvent (e_sock E d) (eventLoop s) d msk h data = Some x"
  obtain r el where x: "x = (r, el)" by (cases x)
  note a = ax [unfolded x]
  have "\<exists>c. cheap s i = Some c \<and> fd c = d" if "data = Some i" for i using assms(3) [OF that] by (auto simp: fds_def)
  from events_create [OF a assms(2) kept_events [OF assms(1)] this] have "kept s0 (s\<lparr>eventLoop := el\<rparr>)"
    by (intro kept_cong [OF assms(1)]) simp_all
  then have "Q (r, s\<lparr>eventLoop := el\<rparr>)" by (rule assms(4)) simp_all
  then show "holds (case x of (r, el) \<Rightarrow> Some (r, s\<lparr>eventLoop := el\<rparr>)) Q" by (simp add: x)
qed

lemma wp_delete [wp]:
  assumes "kept s0 s" "msk = AE_READABLE \<or> msk = AE_WRITABLE" "\<And>s'. kept s0 s' \<Longrightarrow> fds s' = fds s \<Longrightarrow> Q s'"
  shows "holds (delete_event s d msk) Q"
  unfolding delete_event_def
proof (simp only: holds_bind, rule holdsI)
  fix x assume ax: "aeDeleteFileEvent (eventLoop s) d msk = Some x"
  obtain r el where x: "x = (r, el)" by (cases x)
  note a = ax [unfolded x]
  from events_delete [OF a assms(2) kept_events [OF assms(1)]] have "kept s0 (s\<lparr>eventLoop := el\<rparr>)"
    by (intro kept_cong [OF assms(1)]) simp_all
  then have "Q (s\<lparr>eventLoop := el\<rparr>)" by (rule assms(3)) simp
  then show "holds (case x of (r, el) \<Rightarrow> Some (s\<lparr>eventLoop := el\<rparr>)) Q" by (simp add: x)
qed

lemma wp_clientToclose [wp]:
  "kept s0 s \<Longrightarrow> (\<And>s'. kept s0 s' \<Longrightarrow> fds s' = fds s \<Longrightarrow> Q s') \<Longrightarrow> holds (clientToclose s i) Q"
  unfolding clientToclose_def
  by (auto simp: Let_def fds_put intro!: wp intro: kept_put)

section \<open>The commands\<close>

lemma addWriteBuf_fd: "addWriteBuf c b n = Some c' \<Longrightarrow> fd c' = fd c"
  by (auto simp: addWriteBuf_def bind_Some_iff)

lemma clientMultiAdd_fd: "clientMultiAdd c = Some c' \<Longrightarrow> fd c' = fd c"
  by (auto simp: clientMultiAdd_def bind_Some_iff)

lemma wp_any: "(\<And>x. m = Some x \<Longrightarrow> Q x) \<Longrightarrow> holds m Q"
  by (rule holdsI)

lemmas wp_pure [wp] =
  wp_any [where m = "master s" for s]
  wp_any [where m = "map_option f m" for f m]
  wp_any [where m = "argv_at c k" for c k]
  wp_any [where m = "load (xs :: bytes list) j" for xs j]
  wp_any [where m = "store (xs :: bytes list) j y" for xs j y]
  wp_any [where m = "load_block b k n" for b k n]
  wp_any [where m = "robjCreateStringObject v" for v]
  wp_any [where m = "robjGetValStr v" for v]
  wp_any [where m = "dbIsWatching db k" for db k]
  wp_any [where m = "dictContains T d k" for T d k]
  wp_any [where m = "strtok1 a t" for a t]
  wp_any [where m = "atoi t" for t]
  wp_any [where m = "respEncodeBulkString t" for t]
  wp_any [where m = "respEncodeArrayString ts" for ts]
  wp_any [where m = "resp_decode t" for t]
  wp_any [where m = "addWriteBuf c b n" for b c n]
  wp_any [where m = "clientMultiAdd c" for c]
  wp_any [where m = "generateInfoRespContent s" for s]
  wp_any [where m = "lookupCommand s c nm" for c nm s]
  wp_any [where m = "get_config f k" for f k]
  wp_any [where m = "load_from cs d" for cs d]
  wp_any [where m = "range_text b k n" for b k n]
  wp_any [where m = "scan_n b k" for b k]
  wp_any [where m = "receiveRDBfile n b k" for b k n]
  wp_any [where m = "respParse b k n" for b k n]

lemma wp_set_proc [wp]: "kept s0 s \<Longrightarrow> (\<And>s'. kept s0 s' \<Longrightarrow> fds s' = fds s \<Longrightarrow> Q s') \<Longrightarrow> holds (set_proc s i) Q"
  unfolding set_proc_def
  by (auto intro!: wp kept_put simp: fds_put)

lemma wp_get_proc [wp]: "kept s0 s \<Longrightarrow> (\<And>s'. kept s0 s' \<Longrightarrow> fds s' = fds s \<Longrightarrow> Q s') \<Longrightarrow> holds (get_proc s i) Q"
  unfolding get_proc_def
  by (auto intro!: wp kept_put simp: Let_def fds_put kept_put dest!: addWriteBuf_fd)

lemma wp_del_proc [wp]: "kept s0 s \<Longrightarrow> (\<And>s'. kept s0 s' \<Longrightarrow> fds s' = fds s \<Longrightarrow> Q s') \<Longrightarrow> holds (del_proc s i) Q"
  unfolding del_proc_def
  by (auto intro!: wp kept_put simp: Let_def fds_put kept_put dest!: addWriteBuf_fd)

lemma wp_object_proc [wp]: "kept s0 s \<Longrightarrow> (\<And>s'. kept s0 s' \<Longrightarrow> fds s' = fds s \<Longrightarrow> Q s') \<Longrightarrow> holds (object_proc s i) Q"
  unfolding object_proc_def
  by (auto intro!: wp kept_put simp: Let_def fds_put kept_put dest!: addWriteBuf_fd)

lemma wp_bye_proc [wp]: "kept s0 s \<Longrightarrow> (\<And>s'. kept s0 s' \<Longrightarrow> fds s' = fds s \<Longrightarrow> Q s') \<Longrightarrow> holds (bye_proc s i) Q"
  unfolding bye_proc_def
  by (auto intro!: wp kept_put simp: Let_def fds_put kept_put dest!: addWriteBuf_fd)

lemma wp_ping_proc [wp]: "kept s0 s \<Longrightarrow> (\<And>s'. kept s0 s' \<Longrightarrow> fds s' = fds s \<Longrightarrow> Q s') \<Longrightarrow> holds (ping_proc s i) Q"
  unfolding ping_proc_def
  by (auto intro!: wp kept_put simp: Let_def fds_put kept_put dest!: addWriteBuf_fd)

lemma wp_sync_proc [wp]: "kept s0 s \<Longrightarrow> (\<And>s'. kept s0 s' \<Longrightarrow> fds s' = fds s \<Longrightarrow> Q s') \<Longrightarrow> holds (sync_proc s i) Q"
  unfolding sync_proc_def
  by (auto intro!: wp kept_put simp: Let_def fds_put kept_put dest!: addWriteBuf_fd)

lemma wp_replconf_proc [wp]: "kept s0 s \<Longrightarrow> (\<And>s'. kept s0 s' \<Longrightarrow> fds s' = fds s \<Longrightarrow> Q s') \<Longrightarrow> holds (replconf_proc s i) Q"
  unfolding replconf_proc_def
  by (auto intro!: wp kept_put simp: Let_def fds_put kept_put dest!: addWriteBuf_fd)

lemma wp_replack_proc [wp]: "kept s0 s \<Longrightarrow> (\<And>s'. kept s0 s' \<Longrightarrow> fds s' = fds s \<Longrightarrow> Q s') \<Longrightarrow> holds (replack_proc s i) Q"
  unfolding replack_proc_def
  by (auto intro!: wp kept_put simp: Let_def fds_put kept_put dest!: addWriteBuf_fd)

lemma wp_heartbeat_proc [wp]: "kept s0 s \<Longrightarrow> (\<And>s'. kept s0 s' \<Longrightarrow> fds s' = fds s \<Longrightarrow> Q s') \<Longrightarrow> holds (heartbeat_proc s i) Q"
  unfolding heartbeat_proc_def
  by (auto intro!: wp kept_put simp: Let_def fds_put kept_put dest!: addWriteBuf_fd)

lemma wp_info_proc [wp]: "kept s0 s \<Longrightarrow> (\<And>s'. kept s0 s' \<Longrightarrow> fds s' = fds s \<Longrightarrow> Q s') \<Longrightarrow> holds (info_proc s i) Q"
  unfolding info_proc_def
  by (auto intro!: wp kept_put simp: Let_def fds_put kept_put dest!: addWriteBuf_fd)

lemma wp_select_proc [wp]: "kept s0 s \<Longrightarrow> (\<And>s'. kept s0 s' \<Longrightarrow> fds s' = fds s \<Longrightarrow> Q s') \<Longrightarrow> holds (select_proc s i) Q"
  unfolding select_proc_def
  by (auto intro!: wp kept_put simp: Let_def fds_put kept_put dest!: addWriteBuf_fd)

lemma wp_expire_proc [wp]: "kept s0 s \<Longrightarrow> (\<And>s'. kept s0 s' \<Longrightarrow> fds s' = fds s \<Longrightarrow> Q s') \<Longrightarrow> holds (expire_proc E s i) Q"
  unfolding expire_proc_def
  by (auto intro!: wp kept_put simp: Let_def fds_put kept_put dest!: addWriteBuf_fd)

lemma wp_ttl_proc [wp]: "kept s0 s \<Longrightarrow> (\<And>s'. kept s0 s' \<Longrightarrow> fds s' = fds s \<Longrightarrow> Q s') \<Longrightarrow> holds (ttl_proc E s i) Q"
  unfolding ttl_proc_def
  by (auto intro!: wp kept_put simp: Let_def fds_put kept_put dest!: addWriteBuf_fd)

lemma wp_multi_proc [wp]: "kept s0 s \<Longrightarrow> (\<And>s'. kept s0 s' \<Longrightarrow> fds s' = fds s \<Longrightarrow> Q s') \<Longrightarrow> holds (multi_proc s i) Q"
  unfolding multi_proc_def
  by (auto intro!: wp kept_put simp: Let_def fds_put kept_put dest!: addWriteBuf_fd)

section \<open>Clients coming and going\<close>

lemma new_client_eq: "new_client E s c = (next_cid s, s\<lparr>next_cid := Suc (next_cid s), cheap := (cheap s)(next_cid s \<mapsto> c)\<rparr>)"
  by (simp add: new_client_def put_client_def)

lemma kept_new:
  assumes "kept s0 s"
  shows "kept s0 (s\<lparr>next_cid := Suc (next_cid s), cheap := (cheap s)(next_cid s \<mapsto> c)\<rparr>)"
    "fds (s\<lparr>next_cid := Suc (next_cid s), cheap := (cheap s)(next_cid s \<mapsto> c)\<rparr>) = (fds s)(next_cid s \<mapsto> fd c)"
proof -
  have fresh: "cheap s (next_cid s) = None" using assms by (auto simp: kept_def server_ok_def pointers_ok_def)
  show "fds (s\<lparr>next_cid := Suc (next_cid s), cheap := (cheap s)(next_cid s \<mapsto> c)\<rparr>) = (fds s)(next_cid s \<mapsto> fd c)" (is "fds ?s = _")
    by (simp add: fds_def fun_eq_iff)
  then have eq: "fds ?s j = fds s j" if "j < next_cid s0" for j
    using that assms by (auto simp: kept_def)
  have "events_ok (cheap ?s) (eventLoop ?s)"
    using kept_events [OF assms] fresh unfolding events_ok_def by fastforce
  then have "pointers_ok ?s" using assms by (auto simp: kept_def server_ok_def pointers_ok_def less_Suc_eq)
  then show "kept s0 ?s" using assms eq by (simp add: kept_def server_ok_def)
qed

lemma kept_lists:
  assumes "kept s0 s" "fds s i \<noteq> None" "i \<notin> set (clients s @ clientsToClose s)"
  shows "kept s0 (s\<lparr>master := Some i\<rparr>)" "master s \<noteq> Some i \<Longrightarrow> kept s0 (s\<lparr>clients := clients s @ [i]\<rparr>)"
  using assms by (auto simp: kept_def server_ok_def pointers_ok_def fds_def)

lemma kept_no_master: "kept s0 s \<Longrightarrow> kept s0 (s\<lparr>master := None\<rparr>)"
  by (simp add: kept_def server_ok_def pointers_ok_def)

lemma fresh_unlisted: "kept s0 s \<Longrightarrow> next_cid s \<notin> set (clients s @ clientsToClose s) \<and> master s \<noteq> Some (next_cid s)"
  by (fastforce simp: kept_def server_ok_def pointers_ok_def)

text \<open>Freeing a client: no event that carries it stays registered.\<close>

lemma free_facts:
  assumes "freeClient s (Some i) = Some s'" "events_ok (cheap s) (eventLoop s)"
  shows "s' = s\<lparr>eventLoop := eventLoop s', cheap := (cheap s)(i := None)\<rparr>" "events_ok (cheap s') (eventLoop s')"
proof -
  from assms(1) obtain c r1 el1 r2 el2 where c: "cheap s i = Some c"
      "aeDeleteFileEvent (eventLoop s) (fd c) AE_READABLE = Some (r1, el1)" "aeDeleteFileEvent el1 (fd c) AE_WRITABLE = Some (r2, el2)"
      "s' = s\<lparr>eventLoop := el2, cheap := (cheap s)(i := None)\<rparr>"
    by (auto simp: freeClient_def delete_event_def bind_Some_iff)
  show "s' = s\<lparr>eventLoop := eventLoop s', cheap := (cheap s)(i := None)\<rparr>" using c(4) by simp
  have ok2: "events_ok (cheap s) el2" using events_delete [OF c(3)] events_delete [OF c(2)] assms(2) by blast
  have "unregistered el2 (fd c)" using delete_both [OF c(2,3) assms(2)] .
  have "events_ok ((cheap s)(i := None)) el2"
    unfolding events_ok_def
  proof (intro conjI allI impI)
    show "maxsize el2 = int (length (events el2))" using ok2 by (simp add: events_ok_def)
    fix d fe assume fe: "load (events el2) d = Some fe"
    then show "fmask fe \<in> {AE_NONE, AE_READABLE, AE_WRITABLE, AE_READABLE OR AE_WRITABLE}" using ok2 by (simp add: events_ok_def)
    fix j assume j: "fmask fe \<noteq> AE_NONE \<and> fdata fe = Some j"
    then have "\<exists>c'. cheap s j = Some c' \<and> fd c' = d" using ok2 fe by (simp add: events_ok_def)
    then obtain c' where c': "cheap s j = Some c'" "fd c' = d" by blast
    have "j \<noteq> i"
    proof
      assume "j = i"
      then have "d = fd c" using c' c(1) by simp
      then show False using \<open>unregistered el2 (fd c)\<close> fe j by (simp add: unregistered_def)
    qed
    then show "\<exists>c. ((cheap s)(i := None)) j = Some c \<and> fd c = d" using c' by simp
  qed
  then show "events_ok (cheap s') (eventLoop s')" using c(4) by simp
qed

lemma fds_gone: "cheap s' = (cheap s)(i := None) \<Longrightarrow> fds s' = (fds s)(i := None)"
  by (simp add: fds_def fun_eq_iff)

lemma wp_free_master [wp]:
  assumes "kept s0 s" "p = master s"
    "\<And>s'. kept s0 (s'\<lparr>master := None\<rparr>) \<Longrightarrow> masterhost s' = masterhost s \<Longrightarrow> masterport s' = masterport s \<Longrightarrow> Q s'"
  shows "holds (freeClient s p) Q"
proof (rule holdsI)
  fix s' assume "freeClient s p = Some s'"
  then have f: "freeClient s (master s) = Some s'" by (simp add: assms(2))
  show "Q s'"
  proof (cases "master s")
    case None
    then have "s' = s" using f by (simp add: freeClient_def)
    then show ?thesis using assms(3) [of s'] kept_no_master [OF assms(1)] by simp
  next
    case (Some m)
    note ff = free_facts [OF f [unfolded Some] kept_events [OF assms(1)]]
    obtain el where s': "s' = s\<lparr>eventLoop := el, cheap := (cheap s)(m := None)\<rparr>" using ff(1) by blast
    have "kept s0 (s'\<lparr>master := None\<rparr>)"
      using assms(1) Some ff(2) unfolding s' by (auto simp: kept_def server_ok_def pointers_ok_def fds_def)
    then show ?thesis using assms(3) s' by simp
  qed
qed

lemma wp_restore_offset [wp]:
  assumes "kept s0 s" "\<And>s'. kept s0 s' \<Longrightarrow> fds s' = fds s \<Longrightarrow> master s' = master s \<Longrightarrow> masterhost s' = masterhost s \<Longrightarrow> masterport s' = masterport s \<Longrightarrow> Q s'"
  shows "holds (restore_offset s) Q"
  unfolding restore_offset_def using assms by (auto intro!: wp_any split: option.splits)

lemma kept_slaveUpdateOffset [simp]: "kept s0 (slaveUpdateOffset s n) = kept s0 s" "fds (slaveUpdateOffset s n) = fds s"
  "master (slaveUpdateOffset s n) = master s"
  by (simp_all add: slaveUpdateOffset_def)

text \<open>What \<open>connectMaster\<close> establishes, from no master.\<close>

definition linked :: "env \<Rightarrow> redisServer \<Rightarrow> redisServer \<Rightarrow> redisServer \<Rightarrow> bool" where
  "linked E s0 s s' \<longleftrightarrow> kept s0 s' \<and> masterhost s' = masterhost s \<and> masterport s' = masterport s
     \<and> (\<forall>m. master s' = Some m \<longrightarrow> fds s' m = Some (e_connect E (masterhost s) (masterport s)))"

lemma linked_trans: "linked E s0 s1 s2 \<Longrightarrow> masterhost s1 = masterhost s \<Longrightarrow> masterport s1 = masterport s \<Longrightarrow> linked E s0 s s2"
  by (simp add: linked_def)

text \<open>One registration with its second attempt, and the whole step after the client is there; \<open>rec\<close> connects again.\<close>

definition register_or_retry :: "(env \<Rightarrow> redisServer \<Rightarrow> redisServer option) \<Rightarrow> env \<Rightarrow> redisServer \<Rightarrow> int \<Rightarrow> cint \<Rightarrow> handler \<Rightarrow> redisServer option" where
  "register_or_retry rec E s d msk h = do {
     r \<leftarrow> create_event E s d msk h (master s);
     (if fst r = AE_ERROR then do {
        s' \<leftarrow> freeClient (snd r) (master (snd r));
        rec E (s'\<lparr>master := None\<rparr>)
      } else Some (snd r))
   }"

definition connect_steps :: "(env \<Rightarrow> redisServer \<Rightarrow> redisServer option) \<Rightarrow> env \<Rightarrow> redisServer \<Rightarrow> cid \<Rightarrow> int \<Rightarrow> redisServer option" where
  "connect_steps rec E s1 m d = do {
     s2 \<leftarrow> upd_client s1 m (\<lambda>c. c\<lparr>flags := (flags c AND NOT REDIS_CLIENT_NORMAL) OR REDIS_CLIENT_MASTER\<rparr>);
     s3 \<leftarrow> restore_offset (s2\<lparr>server_replState := REPL_STATE_SLAVE_CONNECTING\<rparr>);
     s4 \<leftarrow> register_or_retry rec E s3 d AE_READABLE repliReadHandler;
     register_or_retry rec E s4 d AE_WRITABLE repliWriteHandler
   }"

lemma wp_attempt:
  assumes rec: "\<And>s s'. rec E s = Some s' \<Longrightarrow> kept s0 s \<Longrightarrow> master s = None \<Longrightarrow> linked E s0 s s'"
    and "kept s0 s3" "\<And>m. master s3 = Some m \<Longrightarrow> fds s3 m = Some d" "d = e_connect E (masterhost s3) (masterport s3)"
    and "msk = AE_READABLE \<or> msk = AE_WRITABLE"
    and Q: "\<And>s'. linked E s0 s3 s' \<Longrightarrow> Q s'"
  shows "holds (register_or_retry rec E s3 d msk h) Q"
proof -
  have again: "holds (rec E (s'\<lparr>master := None\<rparr>)) Q"
    if "kept s0 (s'\<lparr>master := None\<rparr>)" "masterhost s' = masterhost s3" "masterport s' = masterport s3" for s'
  proof (rule holdsI)
    fix x assume "rec E (s'\<lparr>master := None\<rparr>) = Some x"
    from rec [OF this that(1)] have "linked E s0 (s'\<lparr>master := None\<rparr>) x" by simp
    from linked_trans [OF this] show "Q x" using that(2,3) by (intro Q) simp
  qed
  have ok: "Q s'" if "kept s0 s'" "fds s' = fds s3" "master s' = master s3" "masterhost s' = masterhost s3" "masterport s' = masterport s3" for s'
    using that assms(3,4) by (intro Q) (simp add: linked_def)
  show ?thesis
    using assms(2,3,5) again ok unfolding register_or_retry_def by (simp only: holds_bind) (rule wp_create, assumption+, auto intro!: wp)
qed

lemma connect_fresh:
  assumes "kept s0 s" "master s = None" "d = e_connect E (masterhost s) (masterport s)"
  shows "kept s0 (snd (new_client E s (redisClientCreate j d h p))\<lparr>master := Some (next_cid s)\<rparr>)"
    "fds (snd (new_client E s (redisClientCreate j d h p))\<lparr>master := Some (next_cid s)\<rparr>) (next_cid s) = Some d"
proof -
  note n = kept_new [OF assms(1), of "redisClientCreate j d h p"]
  show "fds (snd (new_client E s (redisClientCreate j d h p))\<lparr>master := Some (next_cid s)\<rparr>) (next_cid s) = Some d"
    using n(2) by (simp add: new_client_eq redisClientCreate_def)
  show "kept s0 (snd (new_client E s (redisClientCreate j d h p))\<lparr>master := Some (next_cid s)\<rparr>)"
    using kept_lists(1) [OF n(1), of "next_cid s"] n(2) fresh_unlisted [OF assms(1)] by (simp add: new_client_eq)
qed

lemma wp_connect_step:
  assumes "\<And>s s'. rec E s = Some s' \<Longrightarrow> kept s0 s \<Longrightarrow> master s = None \<Longrightarrow> linked E s0 s s'"
    and "kept s0 s1" "master s1 = Some m" "fds s1 m = Some d" "d = e_connect E (masterhost s1) (masterport s1)"
    and Q: "\<And>s'. linked E s0 s1 s' \<Longrightarrow> Q s'"
  shows "holds (connect_steps rec E s1 m d) Q"
proof -
  have attempts: "holds (do { s4 \<leftarrow> register_or_retry rec E s3 d AE_READABLE repliReadHandler;
      register_or_retry rec E s4 d AE_WRITABLE repliWriteHandler }) Q"
    if "kept s0 s3" "fds s3 = fds s1" "master s3 = master s1" "masterhost s3 = masterhost s1" "masterport s3 = masterport s1" for s3
  proof -
    have m3: "fds s3 m' = Some d" if "master s3 = Some m'" for m' using assms(3,4) that \<open>master s3 = master s1\<close> \<open>fds s3 = fds s1\<close> by simp
    have d3: "d = e_connect E (masterhost s3) (masterport s3)" using assms(5) that by simp
    have second: "holds (register_or_retry rec E s4 d AE_WRITABLE repliWriteHandler) Q" if l: "linked E s0 s3 s4" for s4
    proof (rule wp_attempt [OF assms(1)])
      show "kept s0 s4" "d = e_connect E (masterhost s4) (masterport s4)" using l d3 by (simp_all add: linked_def)
      show "fds s4 m' = Some d" if "master s4 = Some m'" for m' using l that d3 by (simp add: linked_def)
      show "Q s'" if "linked E s0 s4 s'" for s'
        using linked_trans [OF that, of s1] l \<open>masterhost s3 = masterhost s1\<close> \<open>masterport s3 = masterport s1\<close>
        by (intro Q) (simp add: linked_def)
    qed simp_all
    show ?thesis
      by (simp only: holds_bind, rule wp_attempt [OF assms(1) that(1) m3 d3]) (simp_all only: second, simp_all)
  qed
  have upd: "holds (upd_client s1 m f) Q'"
    if "\<And>c. fd (f c) = fd c" "\<And>s'. kept s0 s' \<Longrightarrow> fds s' = fds s1 \<Longrightarrow> master s' = master s1 \<Longrightarrow> masterhost s' = masterhost s1 \<Longrightarrow> masterport s' = masterport s1 \<Longrightarrow> Q' s'" for f Q'
  proof (unfold upd_client_def holds_simps, rule wp_cheap)
    fix c assume c: "cheap s1 m = Some c"
    show "Q' (put_client s1 m (f c))"
      using c that(1) fds_put [OF c, of "f c"] kept_put [OF assms(2), of m "f c"] fds_client [OF c]
      by (intro that(2)) (simp_all add: put_client_def)
  qed
  show ?thesis
    unfolding connect_steps_def
    by (subst holds_bind, rule upd, simp, subst holds_bind, rule wp_restore_offset, simp, rule attempts) simp_all
qed

lemma connectMaster_links:
  assumes "connectMaster E s = Some s'" "kept s0 s" "master s = None"
  shows "linked E s0 s s'"
proof -
  have "\<forall>s0. kept s0 s \<and> master s = None \<longrightarrow> linked E s0 s s'"
  proof (rule connectMaster.raw_induct [OF _ assms(1)], goal_cases)
    case (1 rec E s s')
    note IH = 1(1) and body = 1(2)
    show ?case
    proof (intro allI impI)
      fix s0 assume "kept s0 s \<and> master s = None"
      then have k: "kept s0 s" "master s = None" by simp_all
      define d where "d = e_connect E (masterhost s) (masterport s)"
      define s1 where "s1 = snd (new_client E s (redisClientCreate (e_junk E) d (masterhost s) (masterport s)))\<lparr>master := Some (next_cid s)\<rparr>"
      note f = connect_fresh [OF k d_def, of "e_junk E" "masterhost s" "masterport s", folded s1_def]
      have s1: "masterhost s1 = masterhost s" "masterport s1 = masterport s" "master s1 = Some (next_cid s)"
        by (simp_all add: s1_def new_client_eq)
      have s1': "(let (m, s') = new_client E s (redisClientCreate (e_junk E) d (masterhost s) (masterport s)) in s'\<lparr>master := Some m\<rparr>) = s1"
        by (simp add: s1_def new_client_eq)
      show "linked E s0 s s'"
      proof (cases "d < 0")
        case True
        then show ?thesis using body k by (simp add: d_def [symmetric] linked_def)
      next
        case False
        have rec: "rec E s = Some s' \<Longrightarrow> kept s0 s \<Longrightarrow> master s = None \<Longrightarrow> linked E s0 s s'" for s s' using IH by blast
        from wp_connect_step [OF rec f(1) s1(3) f(2), where Q = "linked E s0 s"] s1(1,2)
        have "holds (connect_steps rec E s1 (next_cid s) d) (linked E s0 s)" using linked_trans by (simp add: d_def)
        moreover have "connect_steps rec E s1 (next_cid s) d = Some s'"
          using body False k(2) s1(3) unfolding d_def [symmetric] Let_def s1' [unfolded Let_def] connect_steps_def register_or_retry_def by simp
        ultimately show ?thesis by (rule holdsD)
      qed
    qed
  qed
  with assms(2,3) show ?thesis by blast
qed

lemma wp_connectMaster [wp]:
  "kept s0 s \<Longrightarrow> master s = None \<Longrightarrow> (\<And>s'. kept s0 s' \<Longrightarrow> Q s') \<Longrightarrow> holds (connectMaster E s) Q"
  by (rule holdsI) (auto dest: connectMaster_links simp: linked_def)

lemma wp_reconnectMaster [wp]: "kept s0 s \<Longrightarrow> (\<And>s'. kept s0 s' \<Longrightarrow> Q s') \<Longrightarrow> holds (reconnectMaster E s) Q"
  unfolding reconnectMaster_def by (auto intro!: wp)

section \<open>Every request\<close>

lemma wp_loadCommands [wp]:
  "kept s0 s \<Longrightarrow> (\<And>s'. kept s0 s' \<Longrightarrow> fds s' = fds s \<Longrightarrow> master s' = master s \<Longrightarrow> Q s') \<Longrightarrow> holds (loadCommands s) Q"
  unfolding loadCommands_def by (auto intro!: wp)

lemma wp_slaveof_proc [wp]: "kept s0 s \<Longrightarrow> (\<And>s'. kept s0 s' \<Longrightarrow> Q s') \<Longrightarrow> holds (slaveof_proc E s i) Q"
  unfolding slaveof_proc_def masterToSlave_def by (auto intro!: wp)

lemma wp_watch_from [wp]:
  "kept s0 s \<Longrightarrow> (\<And>s'. kept s0 s' \<Longrightarrow> fds s' = fds s \<Longrightarrow> Q s') \<Longrightarrow> holds (watch_from s i k n) Q"
  by (induction n arbitrary: s k) (auto intro!: wp)

lemma wp_watch_proc [wp]: "kept s0 s \<Longrightarrow> (\<And>s'. kept s0 s' \<Longrightarrow> Q s') \<Longrightarrow> holds (watch_proc s i) Q"
  unfolding watch_proc_def by (auto intro!: wp)

lemma wp_exec_loop [wp]:
  assumes "\<And>s Q. kept s0 s \<Longrightarrow> (\<And>s'. kept s0 s' \<Longrightarrow> Q s') \<Longrightarrow> holds (query s i) Q"
  shows "kept s0 s \<Longrightarrow> (\<And>s'. kept s0 s' \<Longrightarrow> Q s') \<Longrightarrow> holds (exec_loop query fuel n s i) Q"
proof (induction fuel arbitrary: n s)
  case (Suc fuel)
  then show ?case by (auto intro!: wp assms kept_put simp: kept_put)
qed simp

lemma wp_exec_proc [wp]:
  assumes "\<And>s Q. kept s0 s \<Longrightarrow> (\<And>s'. kept s0 s' \<Longrightarrow> Q s') \<Longrightarrow> holds (query s i) Q"
  shows "kept s0 s \<Longrightarrow> (\<And>s'. kept s0 s' \<Longrightarrow> Q s') \<Longrightarrow> holds (exec_proc query s i) Q"
  unfolding exec_proc_def by (auto intro!: wp assms kept_put simp: Let_def)

lemma wp_run_proc [wp]:
  assumes "\<And>s Q. kept s0 s \<Longrightarrow> (\<And>s'. kept s0 s' \<Longrightarrow> Q s') \<Longrightarrow> holds (query s i) Q" "kept s0 s" "\<And>s'. kept s0 s' \<Longrightarrow> Q s'"
  shows "holds (run_proc E query p s i) Q"
  unfolding run_proc_def by (cases p) (auto intro!: wp assms)

lemma wp_mark_dirty [wp]:
  "kept s0 s \<Longrightarrow> (\<And>s'. kept s0 s' \<Longrightarrow> fds s' = fds s \<Longrightarrow> Q s') \<Longrightarrow> holds (mark_dirty s ws) Q"
  by (induction ws arbitrary: s) (auto intro!: wp)

lemma wp_touchWatchKey [wp]: "kept s0 s \<Longrightarrow> (\<And>s'. kept s0 s' \<Longrightarrow> Q s') \<Longrightarrow> holds (touchWatchKey s i) Q"
  unfolding touchWatchKey_def by (auto intro!: wp wp_any [where m = "l :: cid list option" for l])

lemma wp_addRepliBuf [wp]:
  "kept s0 s \<Longrightarrow> (\<And>s'. kept s0 s' \<Longrightarrow> fds s' = fds s \<Longrightarrow> Q s') \<Longrightarrow> holds (addRepliBuf s b n) Q"
  unfolding addRepliBuf_def by (auto intro!: wp_any simp: Let_def)

lemma wp_propagate_to [wp]:
  "kept s0 s \<Longrightarrow> (\<And>s'. kept s0 s' \<Longrightarrow> Q s') \<Longrightarrow> holds (propagate_to E b s is) Q"
  by (induction "is" arbitrary: s) (auto intro!: wp)

lemma wp_commandPropagate [wp]:
  "kept s0 s \<Longrightarrow> (\<And>s'. kept s0 s' \<Longrightarrow> Q s') \<Longrightarrow> holds (commandPropagate E s b) Q"
  unfolding commandPropagate_def by (auto intro!: wp)

lemma wp_append_aof [wp]: "kept s0 s \<Longrightarrow> (\<And>s'. kept s0 s' \<Longrightarrow> Q s') \<Longrightarrow> holds (append_aof s i cmd) Q"
  unfolding append_aof_def by (auto intro!: wp simp: kept_put)

lemma wp_expire_accessed [wp]: "kept s0 s \<Longrightarrow> (\<And>s'. kept s0 s' \<Longrightarrow> Q s') \<Longrightarrow> holds (expire_accessed E s i cmd) Q"
  unfolding expire_accessed_def by (auto intro!: wp)

lemma wp_after_write [wp]: "kept s0 s \<Longrightarrow> (\<And>s'. kept s0 s' \<Longrightarrow> Q s') \<Longrightarrow> holds (after_write E s i cmd) Q"
  unfolding after_write_def by (auto intro!: wp)

lemma wp_finish_command [wp]: "kept s0 s \<Longrightarrow> (\<And>s'. kept s0 s' \<Longrightarrow> Q s') \<Longrightarrow> holds (finish_command s i) Q"
  unfolding finish_command_def by (auto intro!: wp)

lemma wp_processCommand [wp]:
  assumes "\<And>s Q. kept s0 s \<Longrightarrow> (\<And>s'. kept s0 s' \<Longrightarrow> Q s') \<Longrightarrow> holds (query s i) Q" "kept s0 s" "\<And>s'. kept s0 s' \<Longrightarrow> Q s'"
  shows "holds (processCommand E query s i) Q"
  unfolding processCommand_def by (auto intro!: wp assms)

lemma wp_query_fuel [wp]:
  "kept s0 s \<Longrightarrow> (\<And>s'. kept s0 s' \<Longrightarrow> Q s') \<Longrightarrow> holds (query_fuel E n s i) Q"
proof (induction n arbitrary: s Q)
  case (Suc n)
  have end_query: "holds (do { c1 \<leftarrow> cheap s1 i; (r, s2) \<leftarrow> create_event E s1 (fd c1) AE_WRITABLE sendToClient (Some i);
      if r = AE_ERROR then clientToclose s2 i else Some s2 }) Q" if "kept s0 s1" for s1
    using that Suc.prems(2) by (auto intro!: wp)
  show ?case
    using Suc.prems
    by (auto intro!: wp Suc.IH end_query [simplified] kept_put simp: Let_def dest!: clientMultiAdd_fd)
qed simp

lemma wp_processClientQueryBuf [wp]:
  "kept s0 s \<Longrightarrow> (\<And>s'. kept s0 s' \<Longrightarrow> Q s') \<Longrightarrow> holds (processClientQueryBuf E s i) Q"
  unfolding processClientQueryBuf_def by (rule wp_query_fuel)

section \<open>Every handler and every job\<close>

lemma kept_alive:
  "kept s0 s \<Longrightarrow> fds s0 i = Some d \<Longrightarrow> i < next_cid s0 \<Longrightarrow> cheap s i = Some c \<Longrightarrow> fds s i = Some d"
  by (fastforce simp: kept_def fds_def)

lemma kept_close_fd [simp]: "kept s0 (close_fd s d) = kept s0 s" "fds (close_fd s d) = fds s"
  by (simp_all add: close_fd_def kept_def server_ok_def pointers_ok_def events_ok_def fds_def)

lemma wp_drop_read [wp]:
  "kept s0 s \<Longrightarrow> (\<And>s'. kept s0 s' \<Longrightarrow> fds s' = fds s \<Longrightarrow> Q s') \<Longrightarrow> holds (drop_read s i n) Q"
  unfolding drop_read_def by (auto intro!: wp simp: kept_put fds_put)

lemma wp_watch_writable [wp]:
  "kept s0 s \<Longrightarrow> fds s i = Some d \<Longrightarrow> (\<And>s'. kept s0 s' \<Longrightarrow> Q s') \<Longrightarrow> holds (watch_writable E s d i) Q"
  unfolding watch_writable_def by (auto intro!: wp)

lemma wp_replay [wp]:
  "kept s0 s \<Longrightarrow> (\<And>b s'. kept s0 s' \<Longrightarrow> Q (b, s')) \<Longrightarrow> holds (replay E n s i b) Q"
proof (induction n arbitrary: s b)
  case (Suc n)
  then show ?case by (auto intro!: wp)
qed simp

lemma wp_doAppendSync [wp]: "kept s0 s \<Longrightarrow> (\<And>s'. kept s0 s' \<Longrightarrow> Q s') \<Longrightarrow> holds (doAppendSync E s) Q"
  unfolding doAppendSync_def new_client_eq by (auto intro!: wp kept_new(1) simp: Let_def simp del: replay.simps)

lemma wp_aof_load [wp]: "kept s0 s \<Longrightarrow> (\<And>s'. kept s0 s' \<Longrightarrow> Q s') \<Longrightarrow> holds (aof_load E s b) Q"
  unfolding aof_load_def new_client_eq by (auto intro!: wp kept_new(1) simp del: replay.simps)

lemma wp_sync_answer [wp]: "kept s0 s \<Longrightarrow> (\<And>s'. kept s0 s' \<Longrightarrow> Q s') \<Longrightarrow> holds (sync_answer t st s i) Q"
  unfolding sync_answer_def by (auto intro!: wp)

lemma wp_repli_turn [wp]:
  assumes "kept s0 s" "fds s0 i = Some d" "i < next_cid s0" "\<And>s' b. kept s0 s' \<Longrightarrow> Q (s', b)"
  shows "holds (repli_turn E sha through s d i) Q"
proof -
  note alive = kept_alive [OF assms(1-3)]
  have goon: "holds (do { c \<leftarrow> cheap s1 i; r \<leftarrow> respParse (readBuf c @ [NUL]) 0 (int (length (readBuf c))); Some (s1, r \<noteq> None) }) Q"
    if "kept s0 s1" for s1
    using assms(4) [OF that] by (auto intro!: wp)
  have pong: "holds (receive_pong E s d i) P" if "\<And>s'. kept s0 s' \<Longrightarrow> P s'" for P
    unfolding receive_pong_def using assms(1) that alive by (auto intro!: wp)
  have replconf: "holds (receive_replconf_ok E s d i) P" if "\<And>s'. kept s0 s' \<Longrightarrow> P s'" for P
    unfolding receive_replconf_ok_def Let_def using assms(1) that alive by (auto intro!: wp)
  have sync: "holds (receive_sync s i) P" if "\<And>s'. kept s0 s' \<Longrightarrow> P s'" for P
    unfolding receive_sync_def using assms(1) that by (auto intro!: wp)
  have append: "holds (receive_appendsync E s) P" if "\<And>s'. kept s0 s' \<Longrightarrow> P s'" for P
    unfolding receive_appendsync_def using assms(1) that by (auto intro!: wp)
  have conn: "holds (receive_connected E s d i) P" if "\<And>s'. kept s0 s' \<Longrightarrow> P s'" for P
    unfolding receive_connected_def using assms(1) that alive by (auto intro!: wp)
  have rdb: "holds (receive_rdb E sha through s d i) P" if "\<And>s'. kept s0 s' \<Longrightarrow> P s'" for P
    unfolding receive_rdb_def Let_def using assms(1) that alive
    by (auto intro!: wp simp: kept_put kept_set_dbs split: scan.split)
  have stay: "holds (Some s) P" if "\<And>s'. kept s0 s' \<Longrightarrow> P s'" for P using assms(1) that by simp
  show ?thesis
    unfolding repli_turn_def holds_bind
    by (cases "server_replState s"; simp only: REPL_STATE.case) 
      (rule pong replconf sync append conn rdb stay; rule goon [unfolded holds_bind]; assumption)+
qed

lemma wp_repli_read_loop [wp]:
  assumes "kept s0 s" "fds s0 i = Some d" "i < next_cid s0" "\<And>s'. kept s0 s' \<Longrightarrow> Q s'"
  shows "holds (repli_read_loop E sha through s d i) Q"
proof (rule holdsI)
  fix s' assume loop: "repli_read_loop E sha through s d i = Some s'"
  have "kept s0 s \<longrightarrow> fds s0 i = Some d \<and> i < next_cid s0 \<longrightarrow> kept s0 s'"
  proof (rule repli_read_loop.raw_induct [OF _ loop], goal_cases)
    case (1 rec E sha through s d i s')
    note IH = 1(1) and body = 1(2)
    show ?case
    proof (intro impI)
      assume k: "kept s0 s" and i: "fds s0 i = Some d \<and> i < next_cid s0"
      have rec: "holds (rec E sha through t d i) (kept s0)" if "kept s0 t" for t
        using IH that i by (blast intro: holdsI)
      have "holds (do { c \<leftarrow> cheap s i; if readBuf c = [] then Some s else do {
          t \<leftarrow> repli_turn E sha through s d i; if snd t then rec E sha through (fst t) d i else Some (fst t) } }) (kept s0)"
        using k i rec by (auto intro!: wp)
      from holdsD [OF this body] show "kept s0 s'" .
    qed
  qed
  with assms show "Q s'" by blast
qed

lemma wp_repliReadHandler [wp]:
  assumes "kept s s" "fds s i = Some d" "\<And>s'. kept s s' \<Longrightarrow> Q s'"
  shows "holds (repliReadHandler_proc E sha through data s d i) Q"
proof -
  have "i < next_cid s" using assms(1,2) by (auto simp: kept_def server_ok_def pointers_ok_def fds_def)
  then show ?thesis unfolding repliReadHandler_proc_def using assms by (auto intro!: wp)
qed

lemma wp_state_message [wp]: "kept s0 s \<Longrightarrow> (\<And>s'. kept s0 s' \<Longrightarrow> Q s') \<Longrightarrow> holds (state_message s) Q"
  unfolding state_message_def sendPingToMaster_def sendReplconfToMaster_def sendSyncToMaster_def
    sendReplAckToMaster_def send_to_master_def
  by (cases "server_replState s") (auto intro!: wp)

lemma wp_repliWriteHandler [wp]:
  "kept s0 s \<Longrightarrow> (\<And>b s'. kept s0 s' \<Longrightarrow> Q (b, s')) \<Longrightarrow> holds (repliWriteHandler_proc sent err s d i) Q"
  unfolding repliWriteHandler_proc_def by (auto intro!: wp kept_put simp: Let_def)

lemma wp_slaveCron [wp]: "kept s0 s \<Longrightarrow> (\<And>n s'. kept s0 s' \<Longrightarrow> Q (n, s')) \<Longrightarrow> holds (slaveCron E s) Q"
  unfolding slaveCron_def by (auto intro!: wp)

lemma wp_accept [wp]:
  assumes "kept s0 s" "\<And>s'. kept s0 s' \<Longrightarrow> Q s'"
  shows "holds (acceptTcpHandler_proc E s conn) Q"
proof (cases conn)
  case None
  then show ?thesis using assms by (simp add: acceptTcpHandler_proc_def)
next
  case (Some x)
  obtain d cip p where x: "x = (d, cip, p)" by (cases x)
  define s2 where "s2 = (snd (new_client E s (redisClientCreate (e_junk E) d cip p)))\<lparr>clients := clients s @ [next_cid s]\<rparr>"
  note n = kept_new [OF assms(1), of "redisClientCreate (e_junk E) d cip p"]
  have k: "kept s0 s2" using kept_lists(2) [OF n(1), of "next_cid s"] n(2) fresh_unlisted [OF assms(1)]
    by (simp add: s2_def new_client_eq)
  have f: "fds s2 (next_cid s) = Some d" using n(2) by (simp add: s2_def new_client_eq redisClientCreate_def)
  have "holds (do { (r, s3) \<leftarrow> create_event E s2 d AE_READABLE handler.readFromClient (Some (next_cid s));
         if r = AE_ERROR then clientToclose s3 (next_cid s) else Some s3 }) Q"
    using k f assms(2) by (auto intro!: wp)
  then show ?thesis by (simp add: acceptTcpHandler_proc_def Some x s2_def new_client_eq Let_def)
qed

lemma wp_readFromClient [wp]:
  "kept s0 s \<Longrightarrow> (\<And>s'. kept s0 s' \<Longrightarrow> Q s') \<Longrightarrow> holds (readFromClient_proc E s i data) Q"
  unfolding readFromClient_proc_def by (auto intro!: wp wp_any [where m = "cstring b k" for b k])

lemma wp_saveRDBToSlave [wp]:
  "kept s0 s \<Longrightarrow> (\<And>b s'. kept s0 s' \<Longrightarrow> Q (b, s')) \<Longrightarrow> holds (saveRDBToSlave sent err snap s i) Q"
  unfolding saveRDBToSlave_def by (auto intro!: wp simp: Let_def)

lemma wp_sendToClient [wp]:
  "kept s0 s \<Longrightarrow> (\<And>b s'. kept s0 s' \<Longrightarrow> Q (b, s')) \<Longrightarrow> holds (sendToClient_proc sent err snap s d i) Q"
  unfolding sendToClient_proc_def by (auto intro!: wp kept_put simp: Let_def)

lemma wp_sentinelReadInfo [wp]:
  "kept s0 s \<Longrightarrow> (\<And>s'. kept s0 s' \<Longrightarrow> Q s') \<Longrightarrow> holds (sentinelReadInfo_proc s i data) Q"
  unfolding sentinelReadInfo_proc_def by (auto intro!: wp wp_any [where m = "cstring b k" for b k])

lemma wp_ask_all [wp]: "kept s0 s \<Longrightarrow> (\<And>s'. kept s0 s' \<Longrightarrow> Q s') \<Longrightarrow> holds (ask_all E s is) Q"
  by (induction "is" arbitrary: s) (auto intro!: wp)

lemma wp_sentinelInfoCron [wp]:
  "kept s0 s \<Longrightarrow> (\<And>n s'. kept s0 s' \<Longrightarrow> Q (n, s')) \<Longrightarrow> holds (sentinelInfoCron_proc E s) Q"
  unfolding sentinelInfoCron_proc_def by (auto intro!: wp)

section \<open>Closing\<close>

lemma scan_clients_filter:
  "scan_clients s is = Some (keep, closing) \<Longrightarrow>
   keep = filter (\<lambda>i. flags (the (cheap s i)) AND CLIENT_TO_CLOSE = 0) is
   \<and> closing = filter (\<lambda>i. flags (the (cheap s i)) AND CLIENT_TO_CLOSE \<noteq> 0) is"
  by (induction "is" arbitrary: keep closing) (auto simp: bind_Some_iff split: if_splits prod.splits)

lemma kept_scan:
  assumes "kept s0 s" "scan_clients s (clients s) = Some (keep, closing)"
  shows "kept s0 (s\<lparr>clients := keep, clientsToClose := clientsToClose s @ closing\<rparr>)"
  using assms(1) scan_clients_filter [OF assms(2)] by (auto simp: kept_def server_ok_def pointers_ok_def fds_def)

lemma kept_free_first:
  assumes "kept s0 s" "clientsToClose s = i # is" "freeClient s (Some i) = Some s'"
  shows "kept s0 (s'\<lparr>clientsToClose := is\<rparr>)"
proof -
  note f = free_facts [OF assms(3) kept_events [OF assms(1)]]
  obtain el where s': "s' = s\<lparr>eventLoop := el, cheap := (cheap s)(i := None)\<rparr>" using f(1) by blast
  show ?thesis using assms(1,2) f(2) unfolding s' by (auto simp: kept_def server_ok_def pointers_ok_def fds_def)
qed

lemma wp_free_clients:
  "kept s0 s \<Longrightarrow> clientsToClose s = is \<Longrightarrow> (\<And>s'. kept s0 s' \<Longrightarrow> Q s') \<Longrightarrow> holds (free_clients s is) Q"
proof (induction "is" arbitrary: s)
  case (Cons i "is")
  have "holds (free_clients (s1\<lparr>clientsToClose := is\<rparr>) is) Q" if "freeClient s (Some i) = Some s1" for s1
    using Cons.IH [OF kept_free_first [OF Cons.prems(1,2) that] _ Cons.prems(3)] by simp
  then show ?case by (simp add: holdsI)
qed simp

lemma wp_closeClients [wp]:
  assumes "kept s0 s" "\<And>s'. kept s0 s' \<Longrightarrow> Q s'"
  shows "holds (closeClients s) Q"
  unfolding closeClients_def
proof (simp only: holds_bind, rule holdsI)
  fix x assume a: "scan_clients s (clients s) = Some x"
  obtain keep closing where x: "x = (keep, closing)" by (cases x)
  show "holds (case x of (keep, closing) \<Rightarrow> let s1 = s\<lparr>clients := keep, clientsToClose := clientsToClose s @ closing\<rparr>
      in free_clients s1 (clientsToClose s1)) Q"
    using wp_free_clients [OF kept_scan [OF assms(1) a [unfolded x]] refl assms(2)] by (simp add: x Let_def)
qed

lemma wp_check_slaves [wp]: "kept s0 s \<Longrightarrow> (\<And>s'. kept s0 s' \<Longrightarrow> Q s') \<Longrightarrow> holds (check_slaves s is) Q"
  by (induction "is" arbitrary: s) (auto intro!: wp)

lemma kept_bgSaveIfNeeded [simp]: "kept s0 (bgSaveIfNeeded E fork s) = kept s0 s"
proof -
  have "kept s0 (save_conditions E fork s ps) = kept s0 s" for ps
    by (induction ps) (simp_all add: bgsave_def)
  then show ?thesis by (simp add: bgSaveIfNeeded_def)
qed

lemma wp_masterCron [wp]: "kept s0 s \<Longrightarrow> (\<And>n s'. kept s0 s' \<Longrightarrow> Q (n, s')) \<Longrightarrow> holds (masterCron E fork s) Q"
  unfolding masterCron_def masterCheckSlave_def by (auto intro!: wp kept_bgSaveIfNeeded [THEN iffD2] simp: Let_def)

lemma wp_serverCron [wp]:
  assumes "kept s0 s" "\<And>n s'. kept s0 s' \<Longrightarrow> Q (n, s')"
  shows "holds (serverCron_proc E fork s) Q"
proof -
  have ended: "Q (n, bgSaveIfNeeded E fork t)" if "kept s0 t" for n t using assms(2) that by simp
  show ?thesis
    unfolding serverCron_proc_def updateServerTime_def prepareShutdown_def
    using assms by (auto intro!: wp kept_fields [THEN iffD2] ended)
qed

lemma kept_sigChildHandler: "kept s0 s \<Longrightarrow> kept s0 (sigChildHandler s cs)"
  by (induction s cs rule: sigChildHandler.induct) simp_all

end
