(* ===== verification/Lifecycle.thy ===== *)
theory Lifecycle
  imports Safety
begin

unbundle bit_operations_syntax

text \<open>
  The states the server can be in: the step relation over its handlers and jobs, the state it starts in
  (\<open>initServerConfig\<close>, \<open>initServer\<close>), the invariant of all of them, and what closing clients and the
  periodic job do there.
\<close>

section \<open>Reachable states\<close>

text \<open>The event table has handler \<open>h\<close> with its client for descriptor \<open>d\<close>.\<close>

definition event_at :: "redisServer \<Rightarrow> int \<Rightarrow> cint \<Rightarrow> handler \<Rightarrow> cid option \<Rightarrow> bool" where
  "event_at s d msk h data \<longleftrightarrow> (\<exists>fe. load (events (eventLoop s)) d = Some fe \<and> fmask fe AND msk \<noteq> 0
     \<and> (if msk = AE_READABLE then rfileProc fe else wfileProc fe) = Some h \<and> fdata fe = data)"

inductive server_step :: "redisServer \<Rightarrow> redisServer \<Rightarrow> bool" where
  accepting: "event_at s d AE_READABLE acceptTcpHandler data \<Longrightarrow> acceptTcpHandler_proc E s conn = Some s' \<Longrightarrow> server_step s s'"
| reading: "event_at s d AE_READABLE readFromClient (Some i) \<Longrightarrow> readFromClient_proc E s i msg = Some s' \<Longrightarrow> server_step s s'"
| sending: "event_at s d AE_WRITABLE sendToClient (Some i) \<Longrightarrow> sendToClient_proc sent err snap s d i = Some (out, s') \<Longrightarrow> server_step s s'"
| from_master: "event_at s d AE_READABLE repliReadHandler (Some i) \<Longrightarrow> repliReadHandler_proc E sha through msg s d i = Some s' \<Longrightarrow> server_step s s'"
| to_master: "event_at s d AE_WRITABLE repliWriteHandler (Some i) \<Longrightarrow> repliWriteHandler_proc sent err s d i = Some (out, s') \<Longrightarrow> server_step s s'"
| monitoring: "event_at s d AE_READABLE sentinelReadInfo (Some i) \<Longrightarrow> sentinelReadInfo_proc s i msg = Some s' \<Longrightarrow> server_step s s'"
| cron: "serverCron_proc E fork s = Some (period, s') \<Longrightarrow> server_step s s'"
| sentinel_cron: "sentinelInfoCron_proc E s = Some (period', s') \<Longrightarrow> server_step s s'"
| child_ended: "server_step s (sigChildHandler s children)"
| interrupted: "sigIntHandler s = Some s' \<Longrightarrow> server_step s s'"

text \<open>
  The server just started: static memory is zero, so there is no client and no master.  An append-only
  file, if there is one, is empty: replaying a request through the fake client looks at the event of
  descriptor -1.
\<close>

inductive reachable :: "redisServer \<Rightarrow> bool" where
  started: "cheap s0 = Map.empty \<Longrightarrow> master s0 = None \<Longrightarrow> initServerConfig root s0 = Some (dbnum, path, s1) \<Longrightarrow>
    initServer E now pid listen sha snap [] dbnum s1 = Some s \<Longrightarrow> reachable s"
| stepped: "reachable s \<Longrightarrow> server_step s s' \<Longrightarrow> reachable s'"

lemma event_fd:
  assumes "kept s s" "event_at s d msk h (Some i)"
  shows "fds s i = Some d"
proof -
  from assms(2) obtain fe where fe: "load (events (eventLoop s)) d = Some fe" "fmask fe AND msk \<noteq> 0" "fdata fe = Some i"
    by (auto simp: event_at_def)
  from fe(2) have "fmask fe \<noteq> AE_NONE" by (auto simp: AE_NONE_def)
  then show ?thesis using kept_events [OF assms(1)] fe unfolding events_ok_def by (fastforce simp: fds_def)
qed

lemma step_kept:
  assumes "server_step s s'" "server_ok s"
  shows "server_ok s'"
proof -
  note k = kept_refl [OF assms(2)]
  from assms(1) have "kept s s'"
  proof cases
    case (accepting d data E conn)
    show ?thesis by (rule holdsD [OF wp_accept [OF k] accepting(2)])
  next
    case (reading d i E msg)
    show ?thesis by (rule holdsD [OF wp_readFromClient [OF k] reading(2)])
  next
    case (sending d i sent err snap out)
    from holdsD [OF wp_sendToClient [OF k, where Q = "\<lambda>x. kept s (snd x)"] sending(2)] show ?thesis by simp
  next
    case (from_master d i E sha through msg)
    show ?thesis by (rule holdsD [OF wp_repliReadHandler [OF k event_fd [OF k from_master(1)]] from_master(2)])
  next
    case (to_master d i sent err out)
    from holdsD [OF wp_repliWriteHandler [OF k, where Q = "\<lambda>x. kept s (snd x)"] to_master(2)] show ?thesis by simp
  next
    case (monitoring d i msg)
    show ?thesis by (rule holdsD [OF wp_sentinelReadInfo [OF k] monitoring(2)])
  next
    case (cron E fork period)
    from holdsD [OF wp_serverCron [OF k, where Q = "\<lambda>x. kept s (snd x)"] cron] show ?thesis by simp
  next
    case (sentinel_cron E period')
    from holdsD [OF wp_sentinelInfoCron [OF k, where Q = "\<lambda>x. kept s (snd x)"] sentinel_cron] show ?thesis by simp
  next
    case (child_ended children)
    then show ?thesis using kept_sigChildHandler [OF k] by simp
  next
    case interrupted
    then show ?thesis using k by (auto simp: sigIntHandler_def split: if_splits)
  qed
  then show ?thesis by (rule kept_ok)
qed

section \<open>The start\<close>

lemma events_ok_same: "events_ok h el \<Longrightarrow> events el' = events el \<Longrightarrow> maxsize el' = maxsize el \<Longrightarrow> events_ok h el'"
  by (simp add: events_ok_def)

lemma kept_timers: "kept s0 s \<Longrightarrow> kept s0 (s\<lparr>eventLoop := snd (aeCreateTimeEvent now (eventLoop s) ms t data)\<rparr>)"
  by (rule kept_cong) (auto simp: aeCreateTimeEvent_def Let_def split: prod.splits intro: events_ok_same dest: kept_events)

lemma loadCommands_same: "loadCommands s = Some s' \<Longrightarrow> cheap s' = cheap s \<and> master s' = master s \<and> maxclients s' = maxclients s"
  by (auto simp: loadCommands_def bind_Some_iff)

lemma load_master_same: "load_master s = Some s' \<Longrightarrow> cheap s' = cheap s \<and> master s' = master s"
  by (auto simp: load_master_def bind_Some_iff)

lemma config_facts:
  assumes "initServerConfig root s0 = Some (n, p, s)"
  shows "cheap s = cheap s0 \<and> master s = master s0 \<and> maxclients s = 10000"
proof -
  have "holds (initServerConfig root s0) (\<lambda>x. cheap (snd (snd x)) = cheap s0 \<and> master (snd (snd x)) = master s0 \<and> maxclients (snd (snd x)) = 10000)"
    unfolding initServerConfig_def Let_def holds_bind appendServerSaveParam_def
    by (intro wp_any) (auto intro!: wp_any dest!: loadCommands_same load_master_same split: if_splits)
  from holdsD [OF this assms] show ?thesis by simp
qed

lemma wp_initSentinel [wp]:
  assumes "kept s0 s" "master s = None" "\<And>s'. kept s0 s' \<Longrightarrow> master s' = None \<Longrightarrow> Q s'"
  shows "holds (initSentinel E now s) Q"
proof -
  have start: "Q (s1\<lparr>clients := clients s1 @ [i], eventLoop := snd (aeCreateTimeEvent now (eventLoop s1) 10000 sentinelInfoCron None)\<rparr>)"
    if "new_client E s c = (i, s1)" for c i s1
  proof -
    note n = kept_new [OF assms(1), of c]
    have "kept s0 (s1\<lparr>clients := clients s1 @ [i]\<rparr>)"
      using that kept_lists(2) [OF n(1), of "next_cid s"] n(2) fresh_unlisted [OF assms(1)] by (auto simp: new_client_eq)
    from kept_timers [OF this] that show ?thesis by (intro assms(3)) (auto simp: new_client_eq assms(2))
  qed
  show ?thesis
    unfolding initSentinel_def
    by (auto intro!: wp_any [where m = "conf_value a b" for a b] wp_any [where m = "strtok1 a b" for a b]
        wp_any [where m = "atoi b" for b] wp_pair start simp: Let_def split: prod.split)
qed

lemma aof_load_empty: "aof_load E s [] = Some s' \<Longrightarrow> s' = snd (new_client E s (redisFakeClientCreate (e_junk E)))"
  by (auto simp: aof_load_def bind_Some_iff respParse_def split: prod.splits option.splits)

lemma wp_aof_load_empty:
  "kept s0 s \<Longrightarrow> master s = None \<Longrightarrow> (\<And>s'. kept s0 s' \<Longrightarrow> master s' = None \<Longrightarrow> Q s') \<Longrightarrow> holds (aof_load E s []) Q"
  by (rule holdsI) (auto dest!: aof_load_empty simp: new_client_eq kept_new)

lemma started_pointers:
  assumes "cheap s0 = Map.empty" "master s0 = None" "initServerConfig root s0 = Some (dbnum, path, s1)"
    "initServer E now pid listen sha snap [] dbnum s1 = Some s"
  shows "server_ok s"
proof -
  have s1: "cheap s1 = Map.empty" "master s1 = None" "maxclients s1 = 10000" using config_facts [OF assms(3)] assms(1,2) by simp_all
  define t where "t ds = (s1\<lparr>server_id := pid, unixtime := e_now E, dbs := map (\<lambda>k. dbInit (int k)) [0..<nat dbnum], dirty := 0, lastSave := e_now E,
    rdbChildPid := - 1, isBgSaving := False\<rparr>)\<lparr>dbs := ds, clients := [], clientsToClose := [], eventLoop := aeCreateEventLoop (eventLoop s1) (maxclients s1)\<rparr>" for ds
  have "pointers_ok (t ds)" for ds
    unfolding pointers_ok_def events_ok_def t_def using s1
    by (auto simp: aeCreateEventLoop_def load_def AE_NONE_def split: if_splits)
  then have k: "dbs_ok ds \<Longrightarrow> kept (t ds) (t ds)" and m: "master (t ds) = None" for ds
    using s1 by (simp_all add: kept_refl server_ok_def t_def)
  define finish where "finish s5 = do {
     s6 \<leftarrow> (if aofOn s5 then aof_load E (s5\<lparr>active_buf := []\<rparr>) [] else Some s5);
     let s7 = s6\<lparr>repli_buffer := replicate (nat MASTER_REPLI_RINGBUFFER_SIZE) NUL, begin_offset := 0, last_offset := 0\<rparr>;
     if server_flags s7 AND REDIS_CLUSTER_SLAVE \<noteq> 0 then connectMaster E s7 else Some s7 }" for s5
  define go where "go ds = do {
     (r, s3) \<leftarrow> create_event E (t ds) listen AE_READABLE handler.acceptTcpHandler None;
     assert_c (r \<noteq> AE_ERROR);
     let s4 = s3\<lparr>eventLoop := snd (aeCreateTimeEvent now (eventLoop s3) 1000 serverCron None)\<rparr>;
     s5 \<leftarrow> (if server_flags s4 AND REDIS_CLUSTER_SENTINEL \<noteq> 0 then initSentinel E now s4 else Some s4);
     finish s5 }" for ds
  have fin: "holds (finish s5) (kept (t ds))" if "kept (t ds) s5" "master s5 = None" for ds s5
    unfolding finish_def Let_def using that
    by (auto intro!: wp_aof_load_empty wp_connectMaster kept_fields [THEN iffD2])
  have "holds (go ds) (kept (t ds))" if "dbs_ok ds" for ds
    unfolding go_def Let_def
    by (subst holds_bind, rule wp_create [OF k [OF that]]) (auto intro!: fin wp_initSentinel kept_timers m)
  moreover have init: "initServer E now pid listen sha snap [] dbnum s1 = do {
      ds \<leftarrow> (if rdbOn s1 then do { f \<leftarrow> snap; rdbLoad sha f (map (\<lambda>k. dbInit (int k)) [0..<nat dbnum]) }
            else Some (map (\<lambda>k. dbInit (int k)) [0..<nat dbnum]));
      assert_c (listen \<noteq> - 1);
      go ds }"
    by (simp add: initServer_def go_def finish_def t_def Let_def)
  moreover have empty: "dbs_ok (map (\<lambda>k. dbInit (int k)) [0..<nat dbnum])" by (simp add: dbs_ok_def dbInit_ok)
  moreover obtain ds where "go ds = Some s" "dbs_ok ds"
    using assms(4) rdbLoad_ok [OF empty] empty unfolding init by (cases "rdbOn s1") (auto simp: bind_Some_iff)
  ultimately show ?thesis by (blast dest: holdsD kept_ok)
qed

lemma reachable_ok: "reachable s \<Longrightarrow> server_ok s"
proof (induction rule: reachable.induct)
  case (started s0 root dbnum path s1 E now pid listen sha snap s)
  then show ?case by (rule started_pointers)
next
  case (stepped s s')
  from stepped(2,3) show ?case by (rule step_kept)
qed

text \<open>
  C3. In every state the server can reach from its start, whatever arrives on the connections, the event
  loop never hands a handler a freed client: every event that carries a client carries a live one,
  registered for its own descriptor.  The clients listed, and those to be closed, are live and listed once,
  and the link to the master is live and apart from them.
\<close>

theorem reachable_pointers_live:
  assumes "reachable s"
  shows "(\<forall>d msk h i. event_at s d msk h (Some i) \<longrightarrow> (\<exists>c. cheap s i = Some c \<and> fd c = d))
    \<and> (\<forall>i \<in> set (clients s @ clientsToClose s). cheap s i \<noteq> None) \<and> distinct (clients s @ clientsToClose s)
    \<and> (\<forall>m. master s = Some m \<longrightarrow> cheap s m \<noteq> None \<and> m \<notin> set (clients s @ clientsToClose s))"
proof -
  note ok = reachable_ok [OF assms]
  have "\<exists>c. cheap s i = Some c \<and> fd c = d" if "event_at s d msk h (Some i)" for d msk h i
    using event_fd [OF kept_refl [OF ok] that] by (auto simp: fds_def)
  then show ?thesis using ok unfolding server_ok_def pointers_ok_def by blast
qed

section \<open>Closing always works\<close>

text \<open>On a descriptor that is not negative, removing an event is defined.\<close>

lemma delete_total:
  assumes "events_ok h el" "0 \<le> d"
  shows "\<exists>r el'. aeDeleteFileEvent el d msk = Some (r, el')"
proof (cases "d \<ge> maxsize el")
  case True
  then show ?thesis by (simp add: aeDeleteFileEvent_def)
next
  case False
  then have len: "nat d < length (events el)" using assms by (simp add: events_ok_def)
  then have l: "load (events el) d = Some (events el ! nat d)" using assms(2) by (simp add: load_def)
  have st: "store (events el) d x = Some ((events el)[nat d := x])" for x using assms(2) len by (simp add: store_def)
  show ?thesis
  proof (cases "fmask (events el ! nat d) = AE_NONE")
    case True
    then show ?thesis using False l by (simp add: aeDeleteFileEvent_def)
  next
    case used: False
    have low: "\<exists>m. lower_registered ((events el)[nat d := x]) (nat d) = Some m" for x
      using lower_registered_spec [of "nat d" "(events el)[nat d := x]"] len by auto
    have "\<exists>m. (if d = maxfd el \<and> p then lower_registered ((events el)[nat d := x]) (nat (maxfd el)) else Some (maxfd el)) = Some m" for p x
      using low by auto
    then obtain m where m: "(if d = maxfd el \<and> fmask (events el ! nat d) AND NOT msk = AE_NONE
        then lower_registered ((events el)[nat d := (events el ! nat d)\<lparr>fmask := fmask (events el ! nat d) AND NOT msk\<rparr>]) (nat (maxfd el))
        else Some (maxfd el)) = Some m" by blast
    then show ?thesis
      using False used l st unfolding aeDeleteFileEvent_def Let_def by (simp add: m prod_eq_iff)
  qed
qed

definition closing_mark :: "redisClient \<Rightarrow> redisClient" where
  "closing_mark c = c\<lparr>flags := flags c OR CLIENT_TO_CLOSE\<rparr>"

lemma closing_mark_same: "flags c AND CLIENT_TO_CLOSE \<noteq> 0 \<Longrightarrow> closing_mark c = c"
proof -
  assume "flags c AND CLIENT_TO_CLOSE \<noteq> 0"
  then have b: "bit (flags c) 8" using and_exp_eq_0_iff_not_bit [of "flags c" 8] by (simp add: CLIENT_TO_CLOSE_def)
  have "bit (256 :: cint) n \<Longrightarrow> n = 8" for n using bit_exp_iff [where 'a = cint, of 8 n] by simp
  then have "flags c OR 256 = flags c" using b by (intro bit_eqI) (auto simp: bit_or_iff)
  then show ?thesis by (simp add: closing_mark_def CLIENT_TO_CLOSE_def)
qed

lemma clientToclose_total:
  assumes "server_ok s" "cheap s i = Some c" "0 \<le> fd c"
  shows "\<exists>el. clientToclose s i = Some (s\<lparr>cheap := (cheap s)(i \<mapsto> closing_mark c), eventLoop := el\<rparr>)"
proof (cases "flags c AND CLIENT_TO_CLOSE \<noteq> 0")
  case True
  then have "(cheap s)(i \<mapsto> closing_mark c) = cheap s" using assms(2) by (simp add: closing_mark_same fun_upd_idem)
  then show ?thesis using True assms(2) by (intro exI [of _ "eventLoop s"]) (simp add: clientToclose_def)
next
  case False
  have ok: "events_ok (cheap s) (eventLoop s)" using assms(1) by (simp add: server_ok_def pointers_ok_def)
  obtain r1 el1 where d1: "aeDeleteFileEvent (eventLoop s) (fd c) AE_WRITABLE = Some (r1, el1)"
    using delete_total [OF ok assms(3)] by blast
  have ok1: "events_ok (cheap s) el1" using events_delete [OF d1 _ ok] by simp
  obtain r2 el2 where d2: "aeDeleteFileEvent el1 (fd c) AE_READABLE = Some (r2, el2)"
    using delete_total [OF ok1 assms(3)] by blast
  show ?thesis using False assms(2) d1 d2
    by (intro exI [of _ el2]) (simp add: clientToclose_def Let_def put_client_def delete_event_def closing_mark_def)
qed

text \<open>Descriptors of the clients in the lists.\<close>

definition descriptors_ok :: "redisServer \<Rightarrow> cid list \<Rightarrow> bool" where
  "descriptors_ok s is \<longleftrightarrow> (\<forall>i \<in> set is. \<exists>c. cheap s i = Some c \<and> 0 \<le> fd c)"

definition silent :: "redisServer \<Rightarrow> redisClient \<Rightarrow> bool" where
  "silent s c \<longleftrightarrow> flags c AND REDIS_CLIENT_SLAVE \<noteq> 0 \<and> unixtime s - lastinteraction c > MASTER_SLAVE_TIMEOUT"

definition marked :: "redisServer \<Rightarrow> cid list \<Rightarrow> cid \<Rightarrow> redisClient option" where
  "marked s is = (\<lambda>i. if i \<in> set is then map_option (\<lambda>c. if silent s c then closing_mark c else c) (cheap s i) else cheap s i)"

lemma pointers_closing:
  "server_ok s \<Longrightarrow> clientToclose s i = Some s' \<Longrightarrow> server_ok s'"
  using holdsD [OF wp_clientToclose [OF kept_refl, where Q = server_ok]] kept_ok by blast

lemma check_slaves_total:
  assumes "server_ok s" "descriptors_ok s is" "distinct is"
  shows "\<exists>el. check_slaves s is = Some (s\<lparr>cheap := marked s is, eventLoop := el\<rparr>) \<and> server_ok (s\<lparr>cheap := marked s is, eventLoop := el\<rparr>)"
  using assms
proof (induction "is" arbitrary: s)
  case Nil
  then show ?case by (intro exI [of _ "eventLoop s"]) (simp add: marked_def)
next
  case (Cons i "is")
  then obtain c where c: "cheap s i = Some c" "0 \<le> fd c" by (auto simp: descriptors_ok_def)
  define c' where "c' = (if silent s c then closing_mark c else c)"
  obtain el1 where step: "(if flags c AND REDIS_CLIENT_SLAVE \<noteq> 0 \<and> unixtime s - lastinteraction c > MASTER_SLAVE_TIMEOUT
      then clientToclose s i else Some s) = Some (s\<lparr>cheap := (cheap s)(i \<mapsto> c'), eventLoop := el1\<rparr>)"
      "server_ok (s\<lparr>cheap := (cheap s)(i \<mapsto> c'), eventLoop := el1\<rparr>)"
  proof (cases "silent s c")
    case True
    then show thesis using clientToclose_total [OF Cons.prems(1) c] pointers_closing [OF Cons.prems(1)] that
      by (auto simp: silent_def c'_def)
  next
    case False
    have "s\<lparr>cheap := (cheap s)(i \<mapsto> c), eventLoop := eventLoop s\<rparr> = s" using c(1) by (simp add: fun_upd_idem)
    with False that [of "eventLoop s"] Cons.prems(1) show thesis by (auto simp: silent_def c'_def)
  qed
  define s1 where "s1 = s\<lparr>cheap := (cheap s)(i \<mapsto> c'), eventLoop := el1\<rparr>"
  have "descriptors_ok s1 is" using Cons.prems(2,3) by (auto simp: descriptors_ok_def s1_def)
  then obtain el where el: "check_slaves s1 is = Some (s1\<lparr>cheap := marked s1 is, eventLoop := el\<rparr>)"
      "server_ok (s1\<lparr>cheap := marked s1 is, eventLoop := el\<rparr>)"
    using Cons.IH [of s1] step(2) Cons.prems(3) by (auto simp: s1_def)
  have "marked s1 is = marked s (i # is)" using Cons.prems(3) c(1) by (auto simp: marked_def s1_def silent_def c'_def fun_eq_iff)
  then have "s1\<lparr>cheap := marked s1 is, eventLoop := el\<rparr> = s\<lparr>cheap := marked s (i # is), eventLoop := el\<rparr>" by (simp add: s1_def)
  with el step c(1) show ?case by (intro exI [of _ el]) (simp add: s1_def [symmetric])
qed

lemma freeClient_total:
  assumes "events_ok (cheap s) (eventLoop s)" "cheap s i = Some c" "0 \<le> fd c"
  shows "\<exists>el. freeClient s (Some i) = Some (s\<lparr>eventLoop := el, cheap := (cheap s)(i := None)\<rparr>)"
proof -
  obtain r1 el1 where d1: "aeDeleteFileEvent (eventLoop s) (fd c) AE_READABLE = Some (r1, el1)"
    using delete_total [OF assms(1,3)] by blast
  have ok1: "events_ok (cheap s) el1" using events_delete [OF d1 _ assms(1)] by simp
  obtain r2 el2 where d2: "aeDeleteFileEvent el1 (fd c) AE_WRITABLE = Some (r2, el2)"
    using delete_total [OF ok1 assms(3)] by blast
  show ?thesis using assms(2) d1 d2 by (intro exI [of _ el2]) (simp add: freeClient_def delete_event_def)
qed

definition without :: "(cid \<Rightarrow> redisClient option) \<Rightarrow> cid list \<Rightarrow> cid \<Rightarrow> redisClient option" where
  "without h is = (\<lambda>i. if i \<in> set is then None else h i)"

lemma free_clients_total:
  assumes "server_ok s" "clientsToClose s = is" "descriptors_ok s is"
  shows "\<exists>el. free_clients s is = Some (s\<lparr>clientsToClose := [], cheap := without (cheap s) is, eventLoop := el\<rparr>)"
  using assms
proof (induction "is" arbitrary: s)
  case Nil
  then show ?case by (intro exI [of _ "eventLoop s"]) (simp add: without_def)
next
  case (Cons i "is")
  then obtain c where c: "cheap s i = Some c" "0 \<le> fd c" by (auto simp: descriptors_ok_def)
  obtain el1 where f: "freeClient s (Some i) = Some (s\<lparr>eventLoop := el1, cheap := (cheap s)(i := None)\<rparr>)"
    using freeClient_total [OF _ c] Cons.prems(1) by (auto simp: server_ok_def pointers_ok_def)
  define s1 where "s1 = s\<lparr>eventLoop := el1, cheap := (cheap s)(i := None), clientsToClose := is\<rparr>"
  have ok: "server_ok s1" using kept_ok [OF kept_free_first [OF kept_refl [OF Cons.prems(1)] Cons.prems(2) f]] by (simp add: s1_def)
  have "i \<notin> set is" using Cons.prems(1,2) by (simp add: server_ok_def pointers_ok_def)
  then have "descriptors_ok s1 is" using Cons.prems(3) by (auto simp: descriptors_ok_def s1_def)
  then obtain el where el: "free_clients s1 is = Some (s1\<lparr>clientsToClose := [], cheap := without (cheap s1) is, eventLoop := el\<rparr>)"
    using Cons.IH [OF ok] by (auto simp: s1_def simp del: fun_upd_apply)
  have "without (cheap s1) is = without (cheap s) (i # is)" by (auto simp: without_def s1_def fun_eq_iff)
  then show ?case using f el by (intro exI [of _ el]) (simp add: s1_def)
qed

lemma scan_clients_total: "descriptors_ok s is \<Longrightarrow> \<exists>r. scan_clients s is = Some r"
  by (induction "is") (auto simp: descriptors_ok_def)

text \<open>The clients \<open>closeClients\<close> frees.\<close>

definition closing :: "redisServer \<Rightarrow> cid list" where
  "closing s = clientsToClose s @ filter (\<lambda>i. flags (the (cheap s i)) AND CLIENT_TO_CLOSE \<noteq> 0) (clients s)"

lemma closeClients_total:
  assumes "server_ok s" "descriptors_ok s (clients s @ clientsToClose s)"
  shows "\<exists>el. closeClients s = Some (s\<lparr>clients := filter (\<lambda>i. flags (the (cheap s i)) AND CLIENT_TO_CLOSE = 0) (clients s),
    clientsToClose := [], cheap := without (cheap s) (closing s), eventLoop := el\<rparr>)"
proof -
  have "descriptors_ok s (clients s)" using assms(2) by (simp add: descriptors_ok_def)
  then obtain keep cl where sc: "scan_clients s (clients s) = Some (keep, cl)" using scan_clients_total by fastforce
  note kc = scan_clients_filter [OF sc]
  define s1 where "s1 = s\<lparr>clients := keep, clientsToClose := clientsToClose s @ cl\<rparr>"
  have cls: "clientsToClose s1 = closing s" "cheap s1 = cheap s" using kc by (simp_all add: s1_def closing_def)
  have ok: "server_ok s1" using kept_ok [OF kept_scan [OF kept_refl [OF assms(1)] sc]] by (simp add: s1_def)
  have "set (closing s) \<subseteq> set (clients s @ clientsToClose s)" by (auto simp: closing_def)
  then have "descriptors_ok s1 (closing s)" using assms(2) cls(2) unfolding descriptors_ok_def by auto
  then obtain el where "free_clients s1 (closing s) = Some (s1\<lparr>clientsToClose := [], cheap := without (cheap s1) (closing s), eventLoop := el\<rparr>)"
    using free_clients_total [OF ok cls(1)] by blast
  moreover have "closeClients s = free_clients s1 (clientsToClose s1)"
    using sc by (simp add: closeClients_def s1_def)
  ultimately show ?thesis using kc cls by (intro exI [of _ el]) (simp add: s1_def)
qed

text \<open>
  C9. In every reachable state the tables of every database are well formed: every entry is in the bucket
  its key hashes to, the counts are those of the chains, no key is there twice, and below the rehash
  index the old table is empty.
\<close>

theorem reachable_databases_well_formed:
  assumes "reachable s"
  shows "\<forall>db \<in> set (dbs s). dict_ok kvtype key_canon (kv db) \<and> dict_ok expiretype key_canon (expires db)
    \<and> dict_ok watchtype key_canon (watched_keys db)"
  using reachable_ok [OF assms] by (simp add: server_ok_def dbs_ok_def db_ok_def)

text \<open>
  C17. In every reachable state with valid descriptors, closing the clients is defined; it frees exactly the
  clients that were queued or marked for closing, and keeps the others.
\<close>

theorem close_clients_frees:
  assumes "reachable s" "descriptors_ok s (clients s @ clientsToClose s)"
  shows "\<exists>s'. closeClients s = Some s' \<and> clientsToClose s' = []
    \<and> clients s' = filter (\<lambda>i. flags (the (cheap s i)) AND CLIENT_TO_CLOSE = 0) (clients s)
    \<and> (\<forall>i. cheap s' i = (if i \<in> set (closing s) then None else cheap s i)) \<and> master s' = master s"
proof -
  from closeClients_total [OF reachable_ok [OF assms(1)] assms(2)] obtain el where
    "closeClients s = Some (s\<lparr>clients := filter (\<lambda>i. flags (the (cheap s i)) AND CLIENT_TO_CLOSE = 0) (clients s),
      clientsToClose := [], cheap := without (cheap s) (closing s), eventLoop := el\<rparr>)" by blast
  then show ?thesis by (simp add: without_def)
qed

text \<open>A master with no \<open>rdb\<close> or \<open>slave\<close> flag.\<close>

lemma closing_marked: "flags (closing_mark c) AND CLIENT_TO_CLOSE \<noteq> 0"
proof -
  have "bit (flags c OR 2 ^ 8) 8" by (simp add: bit_or_iff bit_exp_iff)
  then show ?thesis using and_exp_eq_0_iff_not_bit [of "flags c OR 256" 8] by (simp add: closing_mark_def CLIENT_TO_CLOSE_def)
qed

lemma pointers_time: "server_ok (s\<lparr>unixtime := t\<rparr>) = server_ok s"
  by (simp add: server_ok_def pointers_ok_def)

lemma bgSave_same: "cheap (bgSaveIfNeeded E fork s) = cheap s" "clients (bgSaveIfNeeded E fork s) = clients s"
  "unixtime (bgSaveIfNeeded E fork s) = unixtime s" "server_flags (bgSaveIfNeeded E fork s) = server_flags s"
  "clientsToClose (bgSaveIfNeeded E fork s) = clientsToClose s"
proof -
  have "cheap (save_conditions E fork s ps) = cheap s \<and> clients (save_conditions E fork s ps) = clients s
    \<and> unixtime (save_conditions E fork s ps) = unixtime s \<and> server_flags (save_conditions E fork s ps) = server_flags s
    \<and> clientsToClose (save_conditions E fork s ps) = clientsToClose s" for ps
    by (induction ps) (simp_all add: bgsave_def)
  then show "cheap (bgSaveIfNeeded E fork s) = cheap s" "clients (bgSaveIfNeeded E fork s) = clients s"
    "unixtime (bgSaveIfNeeded E fork s) = unixtime s" "server_flags (bgSaveIfNeeded E fork s) = server_flags s"
    "clientsToClose (bgSaveIfNeeded E fork s) = clientsToClose s"
    by (simp_all add: bgSaveIfNeeded_def)
qed

text \<open>
  C18. On a master, one turn of the periodic job drops exactly the listed clients that are marked for closing
  or are replicas that have been silent for more than 60 seconds, and changes nothing in the others.
\<close>

theorem silent_replica_dropped:
  assumes "reachable s" "descriptors_ok s (clients s @ clientsToClose s)"
    and "server_flags s AND REDIS_CLUSTER_MASTER \<noteq> 0" "server_flags s AND REDIS_CLUSTER_SLAVE = 0"
  shows "\<exists>p s'. serverCron_proc E fork s = Some (p, s')
    \<and> (\<forall>i \<in> set (clients s). \<forall>c. cheap s i = Some c \<longrightarrow>
         (if silent s c \<or> flags c AND CLIENT_TO_CLOSE \<noteq> 0 then cheap s' i = None \<and> i \<notin> set (clients s')
          else cheap s' i = Some c \<and> i \<in> set (clients s')))"
proof -
  define s1 where "s1 = (if rdbOn s then bgSaveIfNeeded E fork s else s)"
  note ok = reachable_ok [OF assms(1)]
  have s1: "cheap s1 = cheap s" "clients s1 = clients s" "unixtime s1 = unixtime s" "server_flags s1 = server_flags s"
    "clientsToClose s1 = clientsToClose s"
    by (simp_all add: s1_def bgSave_same)
  have ok1: "server_ok s1" using kept_ok kept_bgSaveIfNeeded kept_refl [OF ok] ok by (auto simp: s1_def)
  have ds: "descriptors_ok s1 (clients s1)" "distinct (clients s1)"
    using assms(2) ok s1 by (auto simp: descriptors_ok_def server_ok_def pointers_ok_def)
  from check_slaves_total [OF ok1 ds] obtain el1 where c: "check_slaves s1 (clients s1) = Some (s1\<lparr>cheap := marked s1 (clients s1), eventLoop := el1\<rparr>)"
    "server_ok (s1\<lparr>cheap := marked s1 (clients s1), eventLoop := el1\<rparr>)" by blast
  define s2 where "s2 = s1\<lparr>cheap := marked s1 (clients s1), eventLoop := el1, unixtime := e_now E\<rparr>"
  have alive: "\<exists>c'. cheap s2 i = Some c' \<and> fd c' = fd c" if "cheap s i = Some c" for i c
    using that s1(1) by (simp add: s2_def marked_def closing_mark_def)
  have "clients s2 @ clientsToClose s2 = clients s @ clientsToClose s" using s1 by (simp add: s2_def)
  then have "descriptors_ok s2 (clients s2 @ clientsToClose s2)"
    using assms(2) alive unfolding descriptors_ok_def by metis
  moreover have "server_ok s2" using c(2) by (simp add: s2_def server_ok_def pointers_ok_def)
  ultimately obtain el2 where e: "closeClients s2 = Some (s2\<lparr>clients := filter (\<lambda>i. flags (the (cheap s2 i)) AND CLIENT_TO_CLOSE = 0) (clients s2),
      clientsToClose := [], cheap := without (cheap s2) (closing s2), eventLoop := el2\<rparr>)" (is "_ = Some ?s3")
    using closeClients_total by blast
  have "masterCron E fork s = Some (10000, s1\<lparr>cheap := marked s1 (clients s1), eventLoop := el1\<rparr>)"
    using c(1) by (simp add: masterCron_def masterCheckSlave_def s1_def [symmetric])
  then have "serverCron_proc E fork s = Some (if shutdownAsap ?s3 \<noteq> 0 then (None, prepareShutdown E fork ?s3) else (Some 10000, ?s3))"
    using assms(3,4) e s1(4) by (simp add: serverCron_proc_def updateServerTime_def s2_def [symmetric])
  then obtain p s' where r: "serverCron_proc E fork s = Some (p, s')" "cheap s' = cheap ?s3" "clients s' = clients ?s3"
    by (cases "shutdownAsap ?s3 = 0") (simp_all add: prepareShutdown_def bgSave_same)
  have "if silent s c \<or> flags c AND CLIENT_TO_CLOSE \<noteq> 0 then cheap s' i = None \<and> i \<notin> set (clients s')
      else cheap s' i = Some c \<and> i \<in> set (clients s')" if i: "i \<in> set (clients s)" "cheap s i = Some c" for i c
  proof -
    have h: "cheap s2 i = Some (if silent s c then closing_mark c else c)"
      using i s1 by (simp add: s2_def marked_def silent_def)
    have "i \<notin> set (clientsToClose s2)" "i \<in> set (clients s2)" using i(1) ok s1 by (auto simp: s2_def server_ok_def pointers_ok_def)
    then have "i \<in> set (closing s2) \<longleftrightarrow> silent s c \<or> flags c AND CLIENT_TO_CLOSE \<noteq> 0"
      "i \<in> set (clients s') \<longleftrightarrow> \<not> (silent s c \<or> flags c AND CLIENT_TO_CLOSE \<noteq> 0)"
      using h closing_marked [of c] by (auto simp: closing_def r(3))
    then show ?thesis using h by (auto simp: r(2) without_def)
  qed
  with r(1) show ?thesis by blast
qed

section \<open>A server that starts\<close>

definition demo_conf :: bytes where
  "demo_conf = concat (map (\<lambda>l. l @ [LF]) [''role=master'', ''port=6666'', ''dbnum=1'', ''rdb_file=dump'', ''consistency=none''])"

definition demo_memory :: redisServer where
  "demo_memory = (demo_server 0 False [])\<lparr>cheap := Map.empty, next_cid := 0, clients := [], configfile := demo_conf\<rparr>"

lemma demo_settings:
  "get_config demo_conf ''role'' = Some (Some ''master'')" "get_config demo_conf ''port'' = Some (Some ''6666'')"
  "get_config demo_conf ''consistency'' = Some (Some ''none'')" "get_config demo_conf ''dbnum'' = Some (Some ''1'')"
  "get_config demo_conf ''rdb_file'' = Some (Some ''dump'')"
  by code_simp+

lemma demo_values: "atoi ''6666'' = Some 6666" "atoi ''1'' = Some 1" "strncasecmp_eq ''none'' ''rdb'' 3 = False"
  "strncasecmp_eq ''none'' ''aof'' 3 = False" "role_flags ''master'' 0 = REDIS_CLUSTER_MASTER"
  "REDIS_CLUSTER_MASTER AND REDIS_CLUSTER_SLAVE = 0" "REDIS_CLUSTER_MASTER AND REDIS_CLUSTER_SENTINEL = 0" "REDIS_CLUSTER_MASTER \<noteq> 0"
  by code_simp+

lemma create_unused:
  assumes "epoll el d = None" "nat d < length (events el)" "events el ! nat d = blank" "fmask blank = AE_NONE" "0 \<le> d" "d < maxsize el"
  shows "aeCreateFileEvent True el d AE_READABLE h data = Some (AE_OK, el\<lparr>epoll := (epoll el)(d \<mapsto> AE_READABLE),
     events := (events el)[nat d := blank\<lparr>fmask := AE_READABLE, rfileProc := Some h, fdata := data\<rparr>],
     maxfd := (if d > maxfd el then d else maxfd el)\<rparr>)"
proof -
  have "load (events el) d = Some blank" "store (events el) d x = Some ((events el)[nat d := x])" for x
    using assms by (simp_all add: load_def store_def)
  moreover have "AE_READABLE \<noteq> AE_NONE" "AE_READABLE \<noteq> 0" "AE_READABLE AND (AE_READABLE OR AE_WRITABLE) = AE_READABLE"
    "AE_READABLE AND AE_WRITABLE = 0" "AE_NONE OR AE_READABLE = AE_READABLE" "AE_OK \<noteq> AE_ERROR" by code_simp+
  ultimately show ?thesis using assms
    by (simp add: aeCreateFileEvent_def aeApiAddEvent_def Let_def)
qed

text \<open>It listens on descriptor 3, and accepts a connection on descriptor 5.\<close>

lemma demo_started:
  obtains s where "reachable s" "cheap s = Map.empty" "next_cid s = 0" "clients s = []" "clientsToClose s = []" "server_flags s = REDIS_CLUSTER_MASTER"
    "event_at s 3 AE_READABLE acceptTcpHandler None" "epoll (eventLoop s) 5 = None" "length (events (eventLoop s)) = 10000"
    "fmask (events (eventLoop s) ! 5) = AE_NONE" "maxsize (eventLoop s) = 10000" "dbs s = [dbInit 0]"
proof -
  obtain d where d: "load_from commandsTable dictCreate = Some d" using loaded_commands by blast
  obtain s1 where s1: "initServerConfig [] demo_memory = Some (1, fullPath [] ''dump'', s1)" "cheap s1 = Map.empty" "next_cid s1 = 0"
      "server_flags s1 = REDIS_CLUSTER_MASTER" "maxclients s1 = 10000" "rdbOn s1 = False" "aofOn s1 = False"
    by (simp add: initServerConfig_def conf_value_def demo_memory_def demo_server_def demo_settings demo_values d Let_def loadCommands_def
        appendServerSaveParam_def)
  define el0 where "el0 = aeCreateEventLoop (eventLoop s1) 10000"
  define blank :: "(handler, cid) aeFileEvent" where "blank = \<lparr>fmask = AE_NONE, rfileProc = None, wfileProc = None, fdata = None\<rparr>"
  have el0: "epoll el0 x = None" "maxsize el0 = 10000" "events el0 = replicate 10000 blank" for x
    by (simp_all add: el0_def aeCreateEventLoop_def blank_def)
  define m where "m = (if 3 > maxfd el0 then 3 else maxfd el0)"
  have c: "aeCreateFileEvent True el0 3 AE_READABLE acceptTcpHandler None = Some (AE_OK, el0\<lparr>epoll := (epoll el0)(3 \<mapsto> AE_READABLE),
     events := (events el0)[nat 3 := blank\<lparr>fmask := AE_READABLE, rfileProc := Some acceptTcpHandler, fdata := None\<rparr>], maxfd := m\<rparr>)"
    (is "_ = Some (_, ?el1)")
    using create_unused [of el0 3 blank acceptTcpHandler None] el0 by (simp add: blank_def m_def)
  define el2 where "el2 = snd (aeCreateTimeEvent (0, 0) ?el1 1000 serverCron None)"
  define s where "s = s1\<lparr>server_id := 1, unixtime := e_now demo_env, dbs := map (\<lambda>k. dbInit (int k)) [0..<nat 1], dirty := 0, lastSave := e_now demo_env,
    rdbChildPid := - 1, isBgSaving := False, clients := [], clientsToClose := [], eventLoop := el2,
    repli_buffer := replicate (nat MASTER_REPLI_RINGBUFFER_SIZE) NUL, begin_offset := 0, last_offset := 0\<rparr>"
  have "initServer demo_env (0, 0) 1 3 (\<lambda>b. b) None [] 1 s1 = Some s"
    using s1 c by (simp add: initServer_def Let_def create_event_def demo_env_def demo_values el0_def [symmetric] el2_def s_def AE_OK_def AE_ERROR_def)
  from reachable.started [OF _ _ s1(1) this] have "reachable s" by (simp add: demo_memory_def demo_server_def)
  moreover have el2: "events el2 = (replicate 10000 blank)[3 := blank\<lparr>fmask := AE_READABLE, rfileProc := Some acceptTcpHandler, fdata := None\<rparr>]"
    "maxsize el2 = 10000" "epoll el2 5 = None"
    by (simp_all add: el2_def aeCreateTimeEvent_def Let_def el0 split: prod.split)
  ultimately show thesis using that [of s] s1
    by (simp add: s_def event_at_def el2 load_def AE_READABLE_def AE_NONE_def blank_def)
qed


lemma demo_accepted:
  obtains s c where "reachable s" "clients s = [0]" "clientsToClose s = []" "cheap s 0 = Some c" "fd c = 5" "flags c = REDIS_CLIENT_NORMAL"
    "event_at s 5 AE_READABLE readFromClient (Some 0)" "server_flags s = REDIS_CLUSTER_MASTER" "dbs s = [dbInit 0]"
proof -
  obtain s where s: "reachable s" "cheap s = Map.empty" "next_cid s = 0" "clients s = []" "clientsToClose s = []" "server_flags s = REDIS_CLUSTER_MASTER"
    "event_at s 3 AE_READABLE acceptTcpHandler None" "epoll (eventLoop s) 5 = None" "length (events (eventLoop s)) = 10000"
    "fmask (events (eventLoop s) ! 5) = AE_NONE" "maxsize (eventLoop s) = 10000" "dbs s = [dbInit 0]"
    by (rule demo_started)
  define c where "c = redisClientCreate (e_junk demo_env) 5 ''10.0.0.9'' 4000"
  define blank where "blank = events (eventLoop s) ! 5"
  define el where "el = (eventLoop s)\<lparr>epoll := (epoll (eventLoop s))(5 \<mapsto> AE_READABLE),
     events := (events (eventLoop s))[nat 5 := blank\<lparr>fmask := AE_READABLE, rfileProc := Some readFromClient, fdata := Some 0\<rparr>],
     maxfd := (if 5 > maxfd (eventLoop s) then 5 else maxfd (eventLoop s))\<rparr>"
  have e: "aeCreateFileEvent True (eventLoop s) 5 AE_READABLE readFromClient (Some 0) = Some (AE_OK, el)"
    unfolding el_def by (rule create_unused) (use s in \<open>simp_all add: blank_def\<close>)
  define s' where "s' = s\<lparr>next_cid := Suc 0, cheap := [0 \<mapsto> c], clients := [0], eventLoop := el\<rparr>"
  have "acceptTcpHandler_proc demo_env s (Some (5, ''10.0.0.9'', 4000)) = Some s'"
    using s e by (simp add: acceptTcpHandler_proc_def new_client_eq create_event_def s'_def c_def Let_def demo_env_def AE_OK_def AE_ERROR_def)
  from reachable.stepped [OF s(1) accepting [OF s(7) this]] have r: "reachable s'" .
  have "load (events (eventLoop s')) 5 = Some (blank\<lparr>fmask := AE_READABLE, rfileProc := Some readFromClient, fdata := Some 0\<rparr>)"
    using s(9) by (simp add: s'_def el_def load_def)
  then have "event_at s' 5 AE_READABLE readFromClient (Some 0)" by (simp add: event_at_def AE_READABLE_def)
  with r s show thesis using that [of s' c] by (simp add: s'_def c_def redisClientCreate_def)
qed

text \<open>The connection ends: the client is to be closed.\<close>

lemma demo_closing:
  obtains s c where "reachable s" "clients s = [0]" "clientsToClose s = []" "cheap s 0 = Some c" "fd c = 5" "flags c AND CLIENT_TO_CLOSE \<noteq> 0"
    "server_flags s = REDIS_CLUSTER_MASTER"
proof -
  obtain s c where s: "reachable s" "clients s = [0]" "clientsToClose s = []" "cheap s 0 = Some c" "fd c = 5" "flags c = REDIS_CLIENT_NORMAL"
    "event_at s 5 AE_READABLE readFromClient (Some 0)" "server_flags s = REDIS_CLUSTER_MASTER"
    by (rule demo_accepted)
  obtain el where e: "clientToclose s 0 = Some (s\<lparr>cheap := (cheap s)(0 \<mapsto> closing_mark c), eventLoop := el\<rparr>)"
    using clientToclose_total [OF reachable_ok [OF s(1)] s(4)] s(5) by auto
  then have "readFromClient_proc demo_env s 0 (Some []) = Some (s\<lparr>cheap := (cheap s)(0 \<mapsto> closing_mark c), eventLoop := el\<rparr>)"
    by (simp add: readFromClient_proc_def checkSockReadWrite_def read_result_def)
  from reachable.stepped [OF s(1) reading [OF s(7) this]] show thesis
    using that [of "s\<lparr>cheap := (cheap s)(0 \<mapsto> closing_mark c), eventLoop := el\<rparr>" "closing_mark c"] s closing_marked [of c]
    by (simp add: closing_mark_def)
qed

theorem reachable_pointers_live_witness:
  "\<exists>s c. reachable s \<and> event_at s 5 AE_READABLE readFromClient (Some 0) \<and> cheap s 0 = Some c \<and> fd c = 5"
proof -
  obtain s where s: "reachable s" "event_at s 5 AE_READABLE readFromClient (Some 0)" by (rule demo_accepted)
  with reachable_pointers_live [OF s(1)] show ?thesis by blast
qed

theorem reachable_databases_well_formed_witness:
  "\<exists>s db. reachable s \<and> dbs s = [db] \<and> dict_ok kvtype key_canon (kv db)"
proof -
  obtain s where s: "reachable s" "dbs s = [dbInit 0]" by (rule demo_accepted)
  with reachable_databases_well_formed [OF s(1)] show ?thesis by auto
qed

theorem close_clients_frees_witness:
  "\<exists>s s'. clients s = [0] \<and> cheap s 0 \<noteq> None \<and> closeClients s = Some s' \<and> clients s' = [] \<and> cheap s' 0 = None"
proof -
  obtain s c where s: "reachable s" "clients s = [0]" "clientsToClose s = []" "cheap s 0 = Some c" "fd c = 5" "flags c AND CLIENT_TO_CLOSE \<noteq> 0"
    by (rule demo_closing)
  then have "descriptors_ok s (clients s @ clientsToClose s)" by (simp add: descriptors_ok_def)
  from close_clients_frees [OF s(1) this] s show ?thesis by (auto simp: closing_def)
qed

theorem silent_replica_dropped_witness:
  "\<exists>s p s'. cheap s 0 \<noteq> None \<and> serverCron_proc demo_env 7 s = Some (p, s') \<and> cheap s' 0 = None"
proof -
  obtain s c where s: "reachable s" "clients s = [0]" "clientsToClose s = []" "cheap s 0 = Some c" "fd c = 5" "flags c AND CLIENT_TO_CLOSE \<noteq> 0"
    "server_flags s = REDIS_CLUSTER_MASTER"
    by (rule demo_closing)
  then have "descriptors_ok s (clients s @ clientsToClose s)" by (simp add: descriptors_ok_def)
  from silent_replica_dropped [OF s(1) this, of demo_env 7] s show ?thesis by (fastforce simp: demo_values)
qed

end
