(* ===== verification/Replication.thy ===== *)
theory Replication
  imports Transactions Repli Server
begin

text \<open>
  A master and a connected replica side by side: a write on the master (\<open>processClientQueryBuf\<close>), its way
  through the write buffer of the replica's client (\<open>sendToClient\<close>) and into the replica
  (\<open>readFromClient\<close>), for a sequence of writes, each delivered before the next one is made.  At the end,
  replaying writes through the fake client, which \<open>aof_load\<close> and \<open>doAppendSync\<close> do instead.
\<close>

section \<open>A write on the replica\<close>

text \<open>A replica whose client \<open>m\<close> is the connection to its master, behind the handshake.\<close>

definition following :: "env \<Rightarrow> redisServer \<Rightarrow> cid \<Rightarrow> redisClient \<Rightarrow> redisDb \<Rightarrow> bool" where
  "following E t m c db \<longleftrightarrow> commands_loaded t \<and> ae_ok (eventLoop t) \<and> (\<forall>d. e_sock E d)
     \<and> cheap t m = Some c \<and> 0 \<le> fd c \<and> fd c < maxsize (eventLoop t) \<and> flags c = REDIS_CLIENT_MASTER \<and> readBuf c = []
     \<and> load (dbs t) (cdb c) = Some db \<and> db_good db
     \<and> server_flags t AND REDIS_CLUSTER_MASTER = 0 \<and> server_flags t AND REDIS_CLUSTER_SLAVE \<noteq> 0 \<and> \<not> aofOn t"

lemma followingD:
  assumes "following E t m c db"
  shows "commands_loaded t" "ae_ok (eventLoop t)" "\<And>d. e_sock E d" "cheap t m = Some c" "0 \<le> fd c" "fd c < maxsize (eventLoop t)"
    "flags c AND REDIS_CLIENT_FAKE = 0" "flags c AND REDIS_MULTI = 0" "flags c AND REDIS_CLIENT_NORMAL = 0" "readBuf c = []"
    "load (dbs t) (cdb c) = Some db" "db_good db"
    "server_flags t AND REDIS_CLUSTER_MASTER = 0" "server_flags t AND REDIS_CLUSTER_SLAVE \<noteq> 0" "\<not> aofOn t"
  using assms by (simp_all add: following_def client_flags)

lemma after_write_replica:
  assumes "cheap s i = Some c" "server_flags s AND REDIS_CLUSTER_MASTER = 0" "server_flags s AND REDIS_CLUSTER_SLAVE \<noteq> 0"
    "cmd_flags cmd AND CMD_WRITE \<noteq> 0"
  shows "after_write E s i cmd = Some (slaveUpdateOffset s (offset s + int (length (readBuf c))))"
  using assms by (simp add: after_write_def)

lemma set_text_read:
  assumes "writable E db w" "length (set_text w) < 1024"
  shows "cstring (read_array (Some (set_text w))) 0 = Some (set_text w)" "checkSockReadWrite (read_result (Some (set_text w)))"
proof -
  have "cstring ([] @ set_text w @ replicate (1024 - length (set_text w)) NUL) (int (length ([] :: bytes))) =
      Some (set_text w @ takeWhile (\<lambda>c. c \<noteq> NUL) (replicate (1024 - length (set_text w)) NUL))"
    by (rule cstring_at) (use writable_text [OF assms(1)] assms(2) in auto)
  moreover have "takeWhile (\<lambda>c. c \<noteq> NUL) (replicate (1024 - length (set_text w)) NUL) = []" by simp
  ultimately show "cstring (read_array (Some (set_text w))) 0 = Some (set_text w)" by (simp add: read_array_def)
  show "checkSockReadWrite (read_result (Some (set_text w)))"
    by (simp add: checkSockReadWrite_def read_result_def set_text_def array_text_def)
qed

lemma request_over_again: "(request_over c)\<lparr>readBuf := []\<rparr> = request_over c"
  by (cases c) (simp add: request_over_def)

lemma replica_applies_write:
  assumes f: "following E t m c db" and w: "writable E db w" "length (set_text w) < 1024"
  obtains t' c' db' where "readFromClient_proc E t m (Some (set_text w)) = Some t'" "following E t' m c' db'" "cdb c' = cdb c"
    "\<And>k. nul_free k \<Longrightarrow> kv_value db' k = (if k = fst w then robjCreateStringObject (snd w) else kv_value db k)"
    "offset t' = offset t + int (length (set_text w))" "writable E db' = writable E db"
proof -
  note d = followingD [OF f]
  obtain key val where kv: "w = (key, val)" by fastforce
  have args: "short_args [''SET'', key, val]" "fresh_key E db key" "watch_map db key = None" "nul_free key" "nul_free val"
    using w(1) by (simp_all add: writable_def kv short_args_def)
  obtain obj where obj: "robjCreateStringObject val = Some obj" using writable_object w(1) kv by blast
  let ?b = "set_text w"
  define c0 where "c0 = c\<lparr>readBuf := ?b\<rparr>"
  define t0 where "t0 = put_client t m c0"
  have t0: "commands_loaded t0" "cheap t0 m = Some c0" "load (dbs t0) (cdb c0) = Some db" "flags c0 = flags c" "aofOn t0 = aofOn t"
    "server_flags t0 = server_flags t" "eventLoop t0 = eventLoop t" "offset t0 = offset t"
    using d(1,11) by (simp_all add: t0_def c0_def put_client_def commands_loaded_def)
  obtain k e where x: "\<And>q. processCommand E q (put_client t0 m (c0\<lparr>argv := [''SET'', key, val], argc := 3\<rparr>)) m =
        Option.bind (after_write E (set_done t0 m c0 key val (db\<lparr>expires := e, kv := k\<rparr>)) m (commandsTable ! 0)) (\<lambda>s'. finish_command s' m)"
    "db_good (db\<lparr>expires := e, kv := k\<rparr>)" "dict_map key_canon k = (dict_map key_canon (kv db))(key_canon key \<mapsto> Some obj)"
    "dict_map key_canon e = dict_map key_canon (expires db)"
    using set_executes [OF t0(1-3) d(12) _ args(4,5,2,3) obj] d(9) t0(4) by auto
  define db1 where "db1 = db\<lparr>expires := e, kv := k\<rparr>"
  define t1 where "t1 = set_done t0 m c0 key val db1"
  define c1 where "c1 = addWrite (c0\<lparr>argv := [''SET'', key, val], argc := 3\<rparr>) resp_ok"
  have c1: "cheap t1 m = Some c1" "readBuf c1 = ?b"
    using d(15) by (simp_all add: t1_def set_done_def c1_def logged_def c0_def t0_def put_client_def addWrite_def)
  define t2 where "t2 = slaveUpdateOffset t1 (offset t1 + int (length ?b))"
  have "after_write E t1 m (commandsTable ! 0) = Some t2"
    using after_write_replica [OF c1(1)] d(13,14) c1(2)
    by (simp add: t1_def set_done_def t0_def put_client_def t2_def table_procs client_flag_tests)
  then have pc: "processCommand E q (put_client t0 m (c0\<lparr>argv := [''SET'', key, val], argc := 3\<rparr>)) m = Some (put_client t2 m (request_over c1))" for q
    using x(1) [of q] c1(1)
    by (simp add: db1_def [symmetric] t1_def [symmetric] finish_command_def upd_client_def t2_def slaveUpdateOffset_def request_over_def)
  define t3 where "t3 = put_client t2 m (request_over c1)"
  have t3: "cheap t3 m = Some (request_over c1)" "eventLoop t3 = eventLoop t" "fd (request_over c1) = fd c"
    by (simp_all add: t3_def put_client_def t2_def slaveUpdateOffset_def t1_def set_done_def t0_def c1_def c0_def addWrite_def)
  obtain el where ev: "create_event E t3 (fd (request_over c1)) AE_WRITABLE sendToClient (Some m) = Some (AE_OK, t3\<lparr>eventLoop := el\<rparr>)"
      "ae_ok el" "maxsize el = maxsize (eventLoop t)"
    using create_event_ok [of t3 AE_WRITABLE E "fd c" sendToClient "Some m"] d(2,3,5,6) t3 by auto
  have buf: "readBuf c0 = array_text [''SET'', key, val] @ []" by (simp add: c0_def set_text_def kv)
  have q: "processClientQueryBuf E t0 m = Some (t3\<lparr>eventLoop := el\<rparr>)"
    unfolding deliver_two using query_step [OF t0(2) buf args(1)] d(8) t0(4) pc ev(1) t3(1)
    by (simp add: t3_def [symmetric])
  define t4 where "t4 = put_client (t3\<lparr>eventLoop := el\<rparr>) m (request_over c1)"
  have run: "readFromClient_proc E t m (Some ?b) = Some t4"
    using set_text_read [OF w] d(4,10) q t3(1)
    by (simp add: readFromClient_proc_def upd_client_def t0_def c0_def t4_def request_over_again)
  have flat: "t4 = t2\<lparr>cheap := (cheap t2)(m \<mapsto> request_over c1), eventLoop := el\<rparr>"
    by (simp add: t4_def t3_def put_client_def)
  have fields: "commands t4 = commands t" "dbs t4 = (dbs t)[nat (cdb c) := db1]" "server_flags t4 = server_flags t" "aofOn t4 = aofOn t"
    "offset t4 = offset t + int (length ?b)" "cheap t4 m = Some (request_over c1)" "eventLoop t4 = el"
    by (simp_all add: flat t2_def slaveUpdateOffset_def t1_def set_done_def t0_def put_client_def c0_def)
  have cf: "cdb (request_over c1) = cdb c" "flags (request_over c1) = flags c" by (simp_all add: c1_def c0_def)
  have "following E t4 m (request_over c1) db1"
    using f fields cf t3(3) ev(2,3) x(2) load_update [OF d(11), of db1]
    by (simp add: following_def commands_loaded_def db1_def)
  moreover have "kv_value db1 k' = (if k' = fst w then robjCreateStringObject (snd w) else kv_value db k')" if "nul_free k'" for k'
    using kv_value_put [OF x(3) args(4) that, of e] obj kv by (simp add: db1_def)
  ultimately show thesis
    using run fields(5) cf(1) writable_update [OF x(4)] by (intro that [of t4 "request_over c1" db1]) (simp_all add: db1_def)
qed

section \<open>A write on the master\<close>

text \<open>A master whose client \<open>i\<close> writes and whose client \<open>j\<close> is a replica with nothing left to send.\<close>

definition leading :: "env \<Rightarrow> redisServer \<Rightarrow> cid \<Rightarrow> redisClient \<Rightarrow> redisDb \<Rightarrow> cid \<Rightarrow> redisClient \<Rightarrow> bool" where
  "leading E s i c db j r \<longleftrightarrow> ready E s i c db \<and> server_flags s AND REDIS_CLUSTER_MASTER \<noteq> 0
     \<and> server_flags s AND REDIS_CLUSTER_SLAVE = 0 \<and> \<not> aofOn s \<and> j \<noteq> i \<and> j \<in> set (clients s) \<and> cheap s j = Some r
     \<and> flags r = REDIS_CLIENT_SLAVE \<and> writeBuf r = [] \<and> \<not> toclose r \<and> replState r \<noteq> REPL_STATE_MASTER_SEND_FULLSYNC"

lemma leading_client:
  assumes "leading E s i c db j r" "ae_ok el" "maxsize el = maxsize (eventLoop s)"
  shows "leading E (s\<lparr>eventLoop := el\<rparr>) i c db j r"
proof -
  have "client_ok (s\<lparr>eventLoop := el\<rparr>) k = client_ok s k" for k using assms(3) by (simp add: client_ok_def)
  then show ?thesis using assms by (simp add: leading_def ready_def links_ok_def backlog_ok_def commands_loaded_def)
qed

lemma master_write:
  assumes l: "leading E s i c db j r" and w: "writable E db w"
  obtains s' c' db' where "deliver E s i (set_text w) = Some s'" "cheap s' j = Some (addWrite r (set_text w))"
    "\<And>el. ae_ok el \<Longrightarrow> maxsize el = maxsize (eventLoop s') \<Longrightarrow> leading E (put_client s' j r\<lparr>eventLoop := el\<rparr>) i c' db' j r"
    "ae_ok (eventLoop s')" "cdb c' = cdb c"
    "\<And>k. nul_free k \<Longrightarrow> kv_value db' k = (if k = fst w then robjCreateStringObject (snd w) else kv_value db k)"
    "last_offset s' = last_offset s + int (length (set_text w))" "writable E db' = writable E db"
proof -
  obtain key val where kv: "w = (key, val)" by fastforce
  have args: "short_args [''SET'', key, val]" "fresh_key E db key" "watch_map db key = None" "nul_free key"
    using w by (simp_all add: writable_def kv short_args_def)
  obtain obj where obj: "robjCreateStringObject val = Some obj" using writable_object w kv by blast
  have L: "ready E s i c db" "server_flags s AND REDIS_CLUSTER_MASTER \<noteq> 0" "server_flags s AND REDIS_CLUSTER_SLAVE = 0"
    "\<not> aofOn s" "j \<noteq> i" "j \<in> set (clients s)" "cheap s j = Some r" "flags r = REDIS_CLIENT_SLAVE"
    using l by (simp_all add: leading_def)
  define c0 where "c0 = c\<lparr>readBuf := set_text w\<rparr>"
  have r0: "ready E (put_client s i c0) i c0 db" by (rule ready_put [OF L(1)]) (simp_all add: c0_def)
  have buf: "readBuf c0 = array_text [''SET'', key, val] @ []" by (simp add: c0_def set_text_def kv)
  have len: "length (readBuf c0) \<le> 1024" using args(1) buf by (simp add: short_args_def)
  define c1 where "c1 = request_over (addWrite c0 resp_ok)"
  obtain s' d e where q: "query_fuel E (Suc 1) (put_client s i c0) i = Some s'"
    "dict_map key_canon d = (dict_map key_canon (kv db))(key_canon key \<mapsto> Some obj)"
    "dict_map key_canon e = dict_map key_canon (expires db)"
    "\<forall>k. k \<noteq> i \<longrightarrow> cheap s' k = feed_all (set_text w) (clients s) (cheap (put_client s i c0)) k"
    "last_offset s' = last_offset s + int (length (set_text w))"
    "ready E s' i c1 (db\<lparr>expires := e, kv := d\<rparr>)" "server_flags s' = server_flags s" "clients s' = clients s" "aofOn s' = aofOn s"
    using set_request_spec [OF r0 _ _ buf args(1) len args(2,3) obj, of 1] L(2-4)
    by (auto simp: handed_on_def put_client_def request_over_def c1_def c0_def)
  define db' where "db' = db\<lparr>expires := e, kv := d\<rparr>"
  have "deliver E s i (set_text w) = Some s'"
    using q(1) readyD(5) [OF L(1)] by (simp add: deliver_client deliver_two c0_def put_client_with)
  moreover have j: "cheap s' j = Some (addWrite r (set_text w))"
    using q(4) L(5-8) writable_text [OF w] by (simp add: put_client_def feed_all_def feed_def takeWhile_nul_free)
  moreover have "leading E (put_client s' j r\<lparr>eventLoop := el\<rparr>) i c1 db' j r"
    if el: "ae_ok el" "maxsize el = maxsize (eventLoop s')" for el
  proof -
    let ?s = "put_client s' j r\<lparr>eventLoop := el\<rparr>"
    have ok: "client_ok ?s k" if "client_ok s' k" for k
      using that j el(2) by (auto simp: client_ok_def put_client_def)
    have "links_ok ?s" using readyD(2) [OF q(6)] el(1) ok by (simp add: links_ok_def put_client_def)
    then have "ready E ?s i c1 db'"
      using q(6) el L(5) by (simp add: ready_def db'_def put_client_def commands_loaded_def backlog_ok_def)
    then show ?thesis using l L(5) q(7-9) by (simp add: leading_def put_client_def)
  qed
  moreover have "kv_value db' k' = (if k' = fst w then robjCreateStringObject (snd w) else kv_value db k')" if "nul_free k'" for k'
    using kv_value_put [OF q(2) args(4) that, of e] obj kv by (simp add: db'_def)
  moreover have "ae_ok (eventLoop s')" using readyD(2) [OF q(6)] by (simp add: links_ok_def)
  ultimately show thesis
    using q(5) writable_update [OF q(3)] by (intro that [of s' c1 db']) (simp_all add: db'_def c1_def c0_def)
qed

section \<open>From the master to the replica\<close>

text \<open>One write: on the master, out of the buffer of the replica's client in one piece, into the replica.\<close>

definition replicate_write :: "env \<Rightarrow> env \<Rightarrow> redisServer \<Rightarrow> cid \<Rightarrow> cid \<Rightarrow> redisServer \<Rightarrow> cid \<Rightarrow> bytes \<Rightarrow> (redisServer \<times> redisServer) option" where
  "replicate_write E F s i j t m req = do {
     s1 \<leftarrow> deliver E s i req;
     r \<leftarrow> cheap s1 j;
     (out, s2) \<leftarrow> sendToClient_proc (\<lambda>b. int (length b)) False None s1 (fd r) j;
     t1 \<leftarrow> readFromClient_proc F t m (Some out);
     Some (s2, t1)
   }"

fun replicate_writes :: "env \<Rightarrow> env \<Rightarrow> redisServer \<Rightarrow> cid \<Rightarrow> cid \<Rightarrow> redisServer \<Rightarrow> cid \<Rightarrow> bytes list \<Rightarrow> (redisServer \<times> redisServer) option" where
  "replicate_writes E F s i j t m [] = Some (s, t)"
| "replicate_writes E F s i j t m (req # reqs) = do {
     (s1, t1) \<leftarrow> replicate_write E F s i j t m req;
     replicate_writes E F s1 i j t1 m reqs
   }"

lemma send_all:
  assumes "cheap s j = Some r" "writeBuf r = msg" "msg \<noteq> []" "\<not> toclose r" "replState r \<noteq> REPL_STATE_MASTER_SEND_FULLSYNC"
    "ae_ok (eventLoop s)" "0 \<le> fd r"
  obtains el where "sendToClient_proc (\<lambda>b. int (length b)) err snap s (fd r) j =
      Some (msg, put_client s j (r\<lparr>writeBuf := []\<rparr>)\<lparr>eventLoop := el\<rparr>)"
    "ae_ok el" "maxsize el = maxsize (eventLoop s)"
proof -
  obtain x el where el: "aeDeleteFileEvent (eventLoop s) (fd r) AE_WRITABLE = Some (x, el)" "ae_ok el" "maxsize el = maxsize (eventLoop s)"
    by (rule aeDeleteFileEvent_ok [OF assms(6,7), of AE_WRITABLE]) blast
  have "sendToClient_proc (\<lambda>b. int (length b)) err snap s (fd r) j =
      Some (msg, put_client s j (r\<lparr>writeBuf := []\<rparr>)\<lparr>eventLoop := el\<rparr>)"
    using assms(1-5) el(1) by (simp add: sendToClient_proc_def checkSockReadWrite_def delete_event_def put_client_def)
  then show thesis using el(2,3) by (rule that)
qed

lemma replicate_one:
  assumes l: "leading E s i c db j r" and f: "following F t m d dbr"
    and w: "writable E db w" "writable F dbr w" "length (set_text w) < 1024"
  obtains s' t' c' d' db' dbr' where "replicate_write E F s i j t m (set_text w) = Some (s', t')"
    "leading E s' i c' db' j r" "following F t' m d' dbr'" "cdb c' = cdb c" "cdb d' = cdb d"
    "\<And>k. nul_free k \<Longrightarrow> kv_value db' k = (if k = fst w then robjCreateStringObject (snd w) else kv_value db k)"
    "\<And>k. nul_free k \<Longrightarrow> kv_value dbr' k = (if k = fst w then robjCreateStringObject (snd w) else kv_value dbr k)"
    "last_offset s' = last_offset s + int (length (set_text w))" "offset t' = offset t + int (length (set_text w))"
    "writable E db' = writable E db" "writable F dbr' = writable F dbr"
proof -
  obtain s1 c1 db1 where 1: "deliver E s i (set_text w) = Some s1" "cheap s1 j = Some (addWrite r (set_text w))"
    "\<And>el. ae_ok el \<Longrightarrow> maxsize el = maxsize (eventLoop s1) \<Longrightarrow> leading E (put_client s1 j r\<lparr>eventLoop := el\<rparr>) i c1 db1 j r"
    "ae_ok (eventLoop s1)" "cdb c1 = cdb c"
    "\<And>k. nul_free k \<Longrightarrow> kv_value db1 k = (if k = fst w then robjCreateStringObject (snd w) else kv_value db k)"
    "last_offset s1 = last_offset s + int (length (set_text w))" "writable E db1 = writable E db"
    by (rule master_write [OF l w(1)]) blast
  have r: "writeBuf r = []" "\<not> toclose r" "replState r \<noteq> REPL_STATE_MASTER_SEND_FULLSYNC" "0 \<le> fd r"
    using l by (auto simp: leading_def ready_def links_ok_def client_ok_def)
  have whole: "(addWrite r (set_text w))\<lparr>writeBuf := []\<rparr> = r" using r(1) by (cases r) (simp add: addWrite_def)
  have "set_text w \<noteq> []" by (simp add: set_text_def array_text_def)
  moreover have "writeBuf (addWrite r (set_text w)) = set_text w" "\<not> toclose (addWrite r (set_text w))"
    "replState (addWrite r (set_text w)) \<noteq> REPL_STATE_MASTER_SEND_FULLSYNC" "0 \<le> fd (addWrite r (set_text w))"
    using r by (simp_all add: addWrite_def)
  ultimately obtain el where 2: "sendToClient_proc (\<lambda>b. int (length b)) False None s1 (fd r) j = Some (set_text w, put_client s1 j r\<lparr>eventLoop := el\<rparr>)"
      "ae_ok el" "maxsize el = maxsize (eventLoop s1)"
    using send_all [OF 1(2), of "set_text w" False None] 1(4) whole by (metis addWrite_fields(1))
  obtain t1 d1 dbr1 where 3: "readFromClient_proc F t m (Some (set_text w)) = Some t1" "following F t1 m d1 dbr1" "cdb d1 = cdb d"
    "\<And>k. nul_free k \<Longrightarrow> kv_value dbr1 k = (if k = fst w then robjCreateStringObject (snd w) else kv_value dbr k)"
    "offset t1 = offset t + int (length (set_text w))" "writable F dbr1 = writable F dbr"
    by (rule replica_applies_write [OF f w(2,3)]) blast
  show thesis
  proof (rule that [of "put_client s1 j r\<lparr>eventLoop := el\<rparr>" t1 c1 db1 d1 dbr1])
    show "replicate_write E F s i j t m (set_text w) = Some (put_client s1 j r\<lparr>eventLoop := el\<rparr>, t1)"
      using 1(1,2) 2(1) 3(1) by (simp add: replicate_write_def)
    show "leading E (put_client s1 j r\<lparr>eventLoop := el\<rparr>) i c1 db1 j r" by (rule 1(3) [OF 2(2,3)])
    show "last_offset (put_client s1 j r\<lparr>eventLoop := el\<rparr>) = last_offset s + int (length (set_text w))"
      using 1(7) by (simp add: put_client_def)
    show "following F t1 m d1 dbr1" by (rule 3(2))
    show "kv_value db1 k = (if k = fst w then robjCreateStringObject (snd w) else kv_value db k)" if "nul_free k" for k
      by (rule 1(6) [OF that])
    show "kv_value dbr1 k = (if k = fst w then robjCreateStringObject (snd w) else kv_value dbr k)" if "nul_free k" for k
      by (rule 3(4) [OF that])
  qed (fact 1 3)+
qed


text \<open>The example: the master of the earlier examples and a replica with the master as its only client.\<close>

definition demo_follower :: redisServer where
  "demo_follower = demo_server REDIS_CLUSTER_SLAVE False []
     \<lparr>cheap := [0 \<mapsto> demo_client\<lparr>flags := REDIS_CLIENT_MASTER\<rparr>], clients := []\<rparr>"

lemma demo_leading: "leading demo_env (demo_server REDIS_CLUSTER_MASTER False []) 0 (demo_client\<lparr>readBuf := []\<rparr>) (dbInit 0) 1 demo_replica"
  using demo_ready [of REDIS_CLUSTER_MASTER False "[]"] demo_flags(1,2) [of False "[]"]
  by (simp add: leading_def demo_server_def demo_replica_def demo_client_def)

lemma demo_following: "following demo_env demo_follower 0 (demo_client\<lparr>flags := REDIS_CLIENT_MASTER\<rparr>) (dbInit 0)"
  using demo_loop demo_slave dbInit_good(1)
  by (simp add: following_def demo_follower_def demo_server_def demo_client_def demo_env_def commands_loaded_def load_def server_flags)


section \<open>Replaying through the fake client\<close>

text \<open>The client has descriptor -1: no event can be registered for it, and none can be looked up.\<close>

lemma no_event_for_fake:
  assumes "cheap s i = Some c" "fd c = - 1" "flags c AND CLIENT_TO_CLOSE = 0" "ae_ok (eventLoop s)"
  shows "create_event E s (fd c) AE_WRITABLE h d = Some (AE_ERROR, s)" "clientToclose s i = None"
  using assms by (simp_all add: create_event_def aeCreateFileEvent_def clientToclose_def delete_event_def aeDeleteFileEvent_def
      put_client_def load_def ae_ok_def)

text \<open>Exactly one of the two roles.\<close>

definition one_role :: "redisServer \<Rightarrow> bool" where
  "one_role s \<longleftrightarrow> (server_flags s AND REDIS_CLUSTER_MASTER = 0) \<noteq> (server_flags s AND REDIS_CLUSTER_SLAVE = 0)"

lemma after_write_elsewhere:
  assumes "cheap s i = Some c" "i \<notin> set (clients s)" "one_role s" "links_ok s" "backlog_ok s" "\<And>d. e_sock E d"
    "length (readBuf c) \<le> 1024" "cmd_flags cmd AND CMD_WRITE \<noteq> 0"
  obtains s' where "after_write E s i cmd = Some s'" "cheap s' i = Some c" "ae_ok (eventLoop s')"
proof (cases "server_flags s AND REDIS_CLUSTER_MASTER = 0")
  case True
  then have "after_write E s i cmd = Some (slaveUpdateOffset s (offset s + int (length (readBuf c))))"
    using assms(3) by (intro after_write_replica [OF assms(1) _ _ assms(8)]) (simp_all add: one_role_def)
  then show thesis by (rule that) (use assms(1,4) in \<open>simp_all add: slaveUpdateOffset_def links_ok_def\<close>)
next
  case False
  then have "server_flags s AND REDIS_CLUSTER_SLAVE = 0" using assms(3) by (simp add: one_role_def)
  from after_write_master [OF assms(1) False this assms(8,5,4,6,7)] that assms(1,2) show thesis
    by (fastforce simp: feed_all_def)
qed

lemma replayed_write_undefined:
  assumes s: "commands_loaded s" "links_ok s" "backlog_ok s" "\<And>d. e_sock E d" "one_role s"
    and c: "cheap s i = Some c" "i \<notin> set (clients s)" "fd c = - 1" "flags c = REDIS_CLIENT_FAKE" "readBuf c = set_text w"
    and db: "load (dbs s) (cdb c) = Some db" "db_good db" "writable E db w"
  shows "processClientQueryBuf E s i = None"
proof -
  obtain key val where kv: "w = (key, val)" by fastforce
  have args: "short_args [''SET'', key, val]" "fresh_key E db key" "watch_map db key = None" "nul_free key" "nul_free val"
    using db(3) by (simp_all add: writable_def kv short_args_def)
  obtain obj where obj: "robjCreateStringObject val = Some obj" using writable_object db(3) kv by blast
  have fl: "flags c AND REDIS_CLIENT_NORMAL = 0" "flags c AND REDIS_MULTI = 0" "flags c AND CLIENT_TO_CLOSE = 0" "\<not> logged s c"
    using c(4) by (simp_all add: client_flags logged_def)
  obtain k e where x: "\<And>q. processCommand E q (put_client s i (c\<lparr>argv := [''SET'', key, val], argc := 3\<rparr>)) i =
        Option.bind (after_write E (set_done s i c key val (db\<lparr>expires := e, kv := k\<rparr>)) i (commandsTable ! 0)) (\<lambda>s'. finish_command s' i)"
    using set_executes [OF s(1) c(1) db(1,2) _ args(4,5,2,3) obj] fl(1) by blast
  define s1 where "s1 = set_done s i c key val (db\<lparr>expires := e, kv := k\<rparr>)"
  define c1 where "c1 = addWrite (c\<lparr>argv := [''SET'', key, val], argc := 3, readBuf := set_text w\<rparr>) resp_ok"
  have c1: "cheap s1 i = Some c1" "readBuf c1 = set_text w" "fd c1 = - 1" "flags c1 = flags c"
    using fl(4) c(3,5) by (simp_all add: s1_def set_done_def c1_def)
  have ok: "client_ok s1 j" if "client_ok s j" for j
    using that c(1,3) by (auto simp: client_ok_def s1_def set_done_def)
  have s1: "i \<notin> set (clients s1)" "one_role s1" "links_ok s1" "backlog_ok s1"
    using c(2) s(2,3,5) ok by (simp_all add: s1_def set_done_def one_role_def links_ok_def backlog_ok_def)
  have "length (set_text w) \<le> 1024" using args(1) kv by (simp add: short_args_def set_text_def)
  then obtain s2 where s2: "after_write E s1 i (commandsTable ! 0) = Some s2" "cheap s2 i = Some c1" "ae_ok (eventLoop s2)"
    using after_write_elsewhere [OF c1(1) s1 s(4), of "commandsTable ! 0"] c1(2) by (auto simp: table_procs client_flag_tests)
  define s3 where "s3 = put_client s2 i (request_over c1)"
  have pc: "processCommand E q (put_client s i (c\<lparr>argv := [''SET'', key, val], argc := 3\<rparr>)) i = Some s3" for q
    using x s2(1,2) by (simp add: s1_def [symmetric] finish_command_def upd_client_def s3_def request_over_def)
  have c3: "cheap s3 i = Some (request_over c1)" "fd (request_over c1) = - 1" "flags (request_over c1) AND CLIENT_TO_CLOSE = 0" "ae_ok (eventLoop s3)"
    using s2(3) c1(3,4) fl(3) by (simp_all add: s3_def put_client_def)
  have buf: "readBuf c = array_text [''SET'', key, val] @ []" using c(5) by (simp add: set_text_def kv)
  show ?thesis
    unfolding deliver_two using query_step [OF c(1) buf args(1) fl(2)] pc no_event_for_fake [OF c3(1-4)] c3(1)
    by (simp add: s3_def [symmetric])
qed

lemma replay_stops:
  assumes s: "commands_loaded s" "links_ok s" "backlog_ok s" "\<And>d. e_sock E d" "one_role s"
    and i: "cheap s i = Some (redisFakeClientCreate junk)" "i \<notin> set (clients s)"
    and db: "load (dbs s) 0 = Some db" "db_good db" "writable E db w"
  shows "replay E (Suc n) s i (set_text w @ rest) = None"
proof -
  let ?c = "redisFakeClientCreate junk"
  let ?s = "put_client s i (?c\<lparr>readBuf := set_text w\<rparr>)"
  have len: "length (set_text w) < 2 ^ 62" using db(3) by (simp add: writable_def short_args_def set_text_def)
  have p: "respParse ((set_text w @ rest) @ [NUL]) 0 (int (length (set_text w @ rest))) = Some (Some (int (length (set_text w)) - 1))"
    using parse_request [of "[''SET'', fst w, snd w]" "rest @ [NUL]" "int (length (set_text w @ rest))"] len
    by (simp add: set_text_def)
  have l: "load_block (set_text w @ rest) 0 (int (length (set_text w)) - 1 + 1) = Some (set_text w)"
    by (simp add: load_block_def)
  have ok: "client_ok ?s j" if "client_ok s j" for j
    using that i(1) by (auto simp: client_ok_def put_client_def)
  have "processClientQueryBuf E ?s i = None"
    by (rule replayed_write_undefined [where c = "?c\<lparr>readBuf := set_text w\<rparr>" and db = db and w = w])
      (use s i db ok in \<open>simp_all add: commands_loaded_def links_ok_def backlog_ok_def one_role_def put_client_def redisFakeClientCreate_def\<close>)
  moreover have "upd_client s i (\<lambda>c. c\<lparr>readBuf := readBuf c @ set_text w\<rparr>) = Some ?s"
    using i(1) by (simp add: upd_client_def redisFakeClientCreate_def)
  ultimately show ?thesis unfolding replay.simps p Option.bind.simps option.case l by simp
qed

text \<open>
  C19. Replaying a write is undefined.  Loading an append-only file that starts with a complete \<open>SET\<close>
  request, and a partial resynchronisation that received one, run the request through a client with
  descriptor -1; registering its reply fails, and marking it for closing then looks up the event of
  descriptor -1, in front of the table.
\<close>

theorem replay_undefined:
  assumes "commands_loaded s" "links_ok s" "backlog_ok s" "\<forall>d. e_sock E d" "one_role s"
    and "next_cid s \<notin> set (clients s)" "cheap s (next_cid s) = None"
    and "load (dbs s) 0 = Some db" "db_good db" "writable E db w"
  shows "aof_load E s (set_text w @ rest) = None
    \<and> (\<forall>m c. master s = Some m \<and> cheap s m = Some c \<and> readBuf c = set_text w @ rest \<longrightarrow> doAppendSync E s = None)"
proof -
  let ?i = "next_cid s"
  let ?s = "put_client (s\<lparr>next_cid := ?i + 1\<rparr>) ?i (redisFakeClientCreate (e_junk E))"
  have new: "new_client E s (redisFakeClientCreate (e_junk E)) = (?i, ?s)" by (simp add: new_client_def)
  have "client_ok ?s j" if "client_ok s j" for j
    using that assms(7) by (auto simp: client_ok_def put_client_def)
  then have r: "replay E (Suc n) ?s ?i (set_text w @ rest) = None" for n
    using assms by (intro replay_stops) (auto simp: commands_loaded_def links_ok_def backlog_ok_def one_role_def put_client_def)
  then show ?thesis by (auto simp: aof_load_def doAppendSync_def new simp del: replay.simps)
qed

theorem replay_undefined_witness:
  "aof_load demo_env (demo_server REDIS_CLUSTER_MASTER False []) (set_text (''k'', ''v'')) = None"
proof -
  let ?s = "demo_server REDIS_CLUSTER_MASTER False []"
  have "one_role ?s" by (simp add: one_role_def demo_server_def server_flags)
  moreover have "load (dbs ?s) 0 = Some (dbInit 0)" "next_cid ?s = 2" "clients ?s = [0, 1]" "cheap ?s 2 = None"
    by (simp_all add: demo_server_def load_def)
  ultimately show ?thesis
    using replay_undefined [of ?s demo_env "dbInit 0" "(''k'', ''v'')" "[]"] readyD(1-4) [OF demo_ready [of REDIS_CLUSTER_MASTER False "[]"]]
      dbInit_good(1) demo_writable(1) by simp
qed

end
