(* ===== verification/Aof.thy ===== *)
theory Aof
  imports Conf
begin

text \<open>
  The append-only file (\<open>src/aof.c\<close>): the main thread appends requests to one of two buffers, and a
  second thread swaps the buffers and writes the other one (\<open>erverySecAOF\<close>, \<open>needAOF\<close>, \<open>flushAppendOnlyFile\<close>).
  Both threads are sequences of atomic steps, interleaved in any order; \<open>processCommand\<close> reads the
  pointer \<open>active_buf\<close> and appends to the buffer it points to without the mutex, so these are two steps.
  The mutex excludes nobody: only the second thread takes it.

  The buffers are two cells, the pointers say which is which.  The contents of the file, the clock and
  what a write accepts are the environment.  Reading the file back (\<open>aof_load\<close>) is in \<open>Repli\<close>.
\<close>

section \<open>State and steps\<close>

datatype thread_pc = Checking | Waiting | Writing | Clearing | Finishing

record AOF =
  cells :: "bool \<Rightarrow> bytes"
  active_ptr :: bool
  io_ptr :: bool
  lastAofTime :: int
  isAofing :: bool
  aof_bytes :: bytes
  thread :: thread_pc
  appending :: "(bool \<times> bytes) option"

definition aof_init :: "bytes \<Rightarrow> AOF" where
  "aof_init file = \<lparr>cells = (\<lambda>_. []), active_ptr = False, io_ptr = True, lastAofTime = 0, isAofing = False,
     aof_bytes = file, thread = Checking, appending = None\<rparr>"

text \<open>A setting that is missing is a null pointer to \<open>strcmp\<close>.\<close>

definition needAOF :: "bytes \<Rightarrow> int \<Rightarrow> AOF \<Rightarrow> bool option" where
  "needAOF conf now a = (if isAofing a then Some False else do {
     r \<leftarrow> get_config conf ''appendfsync'';
     aofAction \<leftarrow> r;
     Some (aofAction = ''everysec'' \<and> now - lastAofTime a > 1000 \<and> cells a (active_ptr a) \<noteq> [])
   })"

definition swap_buffers :: "AOF \<Rightarrow> AOF" where
  "swap_buffers a = a\<lparr>isAofing := True, active_ptr := io_ptr a, io_ptr := active_ptr a\<rparr>"

text \<open>\<open>flushAppendOnlyFile\<close>: the signal wakes the thread when it waits, and is lost otherwise.\<close>

definition flushAppendOnlyFile :: "AOF \<Rightarrow> AOF" where
  "flushAppendOnlyFile a = (if thread a = Waiting then a\<lparr>thread := Checking\<rparr> else a)"

text \<open>
  The steps: the main thread reads the pointer for a request, appends it, signals; the second thread
  checks the condition, writes (as many bytes as the file accepts), clears the buffer, finishes.  \<open>None\<close>:
  the step is not the next one of its thread.
\<close>

datatype aof_event = Reads bytes | Appends | Signals | Checks int | Writes nat | Clears | Finishes

fun aof_step :: "bytes \<Rightarrow> AOF \<Rightarrow> aof_event \<Rightarrow> AOF option" where
  "aof_step conf a (Reads r) = (if appending a = None then Some (a\<lparr>appending := Some (active_ptr a, r)\<rparr>) else None)"
| "aof_step conf a Appends = do {
     (p, r) \<leftarrow> appending a;
     Some (a\<lparr>cells := (cells a)(p := cells a p @ r), appending := None\<rparr>)
   }"
| "aof_step conf a Signals = Some (flushAppendOnlyFile a)"
| "aof_step conf a (Checks now) = (if thread a = Checking then do {
     need \<leftarrow> needAOF conf now a;
     Some (if need then (swap_buffers a)\<lparr>thread := Writing\<rparr> else a\<lparr>thread := Waiting\<rparr>)
   } else None)"
| "aof_step conf a (Writes n) = (if thread a = Writing
     then Some (a\<lparr>aof_bytes := aof_bytes a @ take n (cells a (io_ptr a)), thread := Clearing\<rparr>) else None)"
| "aof_step conf a Clears = (if thread a = Clearing
     then Some (a\<lparr>cells := (cells a)(io_ptr a := []), thread := Finishing\<rparr>) else None)"
| "aof_step conf a Finishes = (if thread a = Finishing then Some (a\<lparr>isAofing := False, thread := Checking\<rparr>) else None)"

fun aof_run :: "bytes \<Rightarrow> AOF \<Rightarrow> aof_event list \<Rightarrow> AOF option" where
  "aof_run conf a [] = Some a"
| "aof_run conf a (e # es) = do { a' \<leftarrow> aof_step conf a e; aof_run conf a' es }"

lemma aof_run_append: "aof_run conf a (es @ es') = Option.bind (aof_run conf a es) (\<lambda>a'. aof_run conf a' es')"
  by (induction es arbitrary: a) (simp_all add: Option.bind_assoc)

section \<open>Undisturbed appends\<close>

text \<open>What has been appended; schedules in which no other step comes between reading the pointer and appending.\<close>

fun appended :: "aof_event list \<Rightarrow> bytes" where
  "appended [] = []"
| "appended (Reads r # es) = r @ appended es"
| "appended (_ # es) = appended es"

fun undisturbed :: "aof_event list \<Rightarrow> bool" where
  "undisturbed [] \<longleftrightarrow> True"
| "undisturbed (Reads r # es) \<longleftrightarrow> (case es of Appends # es' \<Rightarrow> undisturbed es' | _ \<Rightarrow> False)"
| "undisturbed (Appends # es) \<longleftrightarrow> False"
| "undisturbed (_ # es) \<longleftrightarrow> undisturbed es"

text \<open>Every write accepts at least \<open>n\<close> bytes.\<close>

definition accepts :: "nat \<Rightarrow> aof_event list \<Rightarrow> bool" where
  "accepts n es \<longleftrightarrow> (\<forall>m. Writes m \<in> set es \<longrightarrow> n \<le> m)"

definition unwritten :: "AOF \<Rightarrow> bytes" where
  "unwritten a = (if thread a = Writing then cells a (io_ptr a) else []) @ cells a (active_ptr a)"

text \<open>The invariant: the file and what is still to be written make up everything appended.\<close>

definition aof_ok :: "bytes \<Rightarrow> AOF \<Rightarrow> bool" where
  "aof_ok log a \<longleftrightarrow> appending a = None \<and> io_ptr a = (\<not> active_ptr a) \<and> log = aof_bytes a @ unwritten a
     \<and> isAofing a = (thread a \<in> {Writing, Clearing, Finishing})
     \<and> (thread a \<notin> {Writing, Clearing} \<longrightarrow> cells a (io_ptr a) = [])"

lemma aof_init_ok: "aof_ok file (aof_init file)"
  by (simp add: aof_ok_def aof_init_def unwritten_def)

lemma aof_ok_append:
  "aof_ok log a \<Longrightarrow> aof_run conf a [Reads r, Appends] = Some a' \<Longrightarrow> aof_ok (log @ r) a'"
  by (auto simp: aof_ok_def unwritten_def)

lemma aof_ok_thread:
  assumes "aof_ok log a" "aof_step conf a e = Some a'" "\<And>r. e \<noteq> Reads r" "e \<noteq> Appends" "\<And>n. e = Writes n \<Longrightarrow> length log \<le> n"
  shows "aof_ok log a'"
proof (cases e)
  case (Checks now)
  then show ?thesis using assms(1,2)
    by (auto simp: aof_ok_def unwritten_def swap_buffers_def bind_Some_iff split: if_splits)
next
  case (Writes n)
  then have "length (cells a (io_ptr a)) \<le> n" using assms(1,2,5) by (auto simp: aof_ok_def unwritten_def split: if_splits)
  then show ?thesis using assms(1,2) Writes by (auto simp: aof_ok_def unwritten_def split: if_splits)
qed (use assms in \<open>auto simp: aof_ok_def unwritten_def flushAppendOnlyFile_def split: if_splits\<close>)

lemma aof_ok_cons:
  assumes "aof_run conf a (e # es) = Some a'" "aof_ok log a" "accepts (length (log @ appended (e # es))) (e # es)"
    and "\<And>r. e \<noteq> Reads r" "e \<noteq> Appends"
  obtains a1 where "aof_run conf a1 es = Some a'" "aof_ok log a1" "accepts (length (log @ appended es)) es" "appended (e # es) = appended es"
proof -
  have eq: "appended (e # es) = appended es" using assms(4) by (cases e) auto
  from assms(1) obtain a1 where a1: "aof_step conf a e = Some a1" "aof_run conf a1 es = Some a'" by (auto simp: bind_Some_iff)
  have "length log \<le> n" if "e = Writes n" for n using assms(3) that unfolding accepts_def by fastforce
  from aof_ok_thread [OF assms(2) a1(1) assms(4,5) this] have "aof_ok log a1" .
  moreover have "accepts (length (log @ appended es)) es" using assms(3) unfolding eq by (simp add: accepts_def)
  ultimately show thesis using that a1(2) eq by blast
qed

lemma aof_ok_run:
  "undisturbed es \<Longrightarrow> aof_run conf a es = Some a' \<Longrightarrow> aof_ok log a \<Longrightarrow> accepts (length (log @ appended es)) es
   \<Longrightarrow> aof_ok (log @ appended es) a'"
proof (induction es arbitrary: a log rule: length_induct)
  case (1 es)
  show ?case
  proof (cases es)
    case Nil
    then show ?thesis using 1 by simp
  next
    case (Cons e es1)
    show ?thesis
    proof (cases "\<exists>r. e = Reads r")
      case True
      then obtain r es2 where es: "es = Reads r # Appends # es2" "undisturbed es2"
        using 1(2) Cons by (auto split: list.splits aof_event.splits)
      from 1(3) obtain a1 where a1: "aof_run conf a [Reads r, Appends] = Some a1" "aof_run conf a1 es2 = Some a'"
        unfolding es by (auto simp: bind_Some_iff)
      have "accepts (length ((log @ r) @ appended es2)) es2" using 1(5) by (auto simp: accepts_def es)
      then have "aof_ok ((log @ r) @ appended es2) a'"
        using 1(1) es a1(2) aof_ok_append [OF 1(4) a1(1)] by (auto simp del: append_assoc)
      then show ?thesis by (simp add: es)
    next
      case False
      then have e: "\<And>r. e \<noteq> Reads r" "e \<noteq> Appends" "undisturbed es1" using 1(2) Cons by (cases e; auto)+
      obtain a1 where "aof_run conf a1 es1 = Some a'" "aof_ok log a1" "accepts (length (log @ appended es1)) es1"
          "appended (e # es1) = appended es1"
        by (rule aof_ok_cons [OF _ 1(4) _ e(1,2)]) (use 1(3,5) Cons in auto)
      then show ?thesis using 1(1) e(3) Cons by auto
    qed
  qed
qed

section \<open>Properties of the append-only file\<close>


definition everysec_conf :: bytes where
  "everysec_conf = ''appendfsync=everysec'' @ [LF]"

lemma everysec: "get_config everysec_conf ''appendfsync'' = Some (Some ''everysec'')"
  by code_simp




text \<open>
  C24. The append without the mutex is a race: when the buffers are swapped between reading the pointer and
  appending, a request appended after the write and before the clearing is in no buffer and never in
  the file; appended after the clearing, it reaches the file behind requests that came later.
\<close>

theorem aof_race:
  assumes "get_config conf ''appendfsync'' = Some (Some ''everysec'')" "now > 1000" "r1 \<noteq> []" "r2 \<noteq> []" "r3 \<noteq> []"
    and "length r1 \<le> n" "length r2 \<le> n" "length r3 \<le> n"
  shows "(\<exists>a. aof_run conf (aof_init file) [Reads r1, Appends, Reads r2, Checks now, Writes n, Appends, Clears, Finishes] = Some a
      \<and> aof_bytes a = file @ r1 \<and> (\<forall>p. cells a p = []))
    \<and> (\<exists>a. aof_run conf (aof_init file) [Reads r1, Appends, Reads r2, Checks now, Writes n, Clears, Appends, Finishes,
        Reads r3, Appends, Checks now, Writes n, Clears, Finishes, Checks now, Writes n, Clears, Finishes] = Some a
      \<and> aof_bytes a = file @ r1 @ r3 @ r2)"
  using assms by (simp add: aof_init_def needAOF_def swap_buffers_def)

theorem aof_race_witness:
  "\<exists>a. aof_run everysec_conf (aof_init []) [Reads ''a'', Appends, Reads ''b'', Checks 2000, Writes 9, Appends, Clears, Finishes] = Some a
     \<and> aof_bytes a = ''a'' \<and> cells a (active_ptr a) = []"
proof -
  have "\<exists>a. aof_run everysec_conf (aof_init []) [Reads ''a'', Appends, Reads ''b'', Checks 2000, Writes 9, Appends, Clears, Finishes] = Some a
     \<and> aof_bytes a = [] @ ''a'' \<and> (\<forall>p. cells a p = [])"
    by (rule conjunct1 [OF aof_race [of everysec_conf 2000 "''a''" "''b''" "''c''" 9 "[]"]]) (simp_all add: everysec)
  then show ?thesis by (auto simp del: aof_run.simps)
qed

end
