(* ===== verification/Rio.thy ===== *)
theory Rio
  imports Sds
begin

text \<open>
  The I/O abstraction (\<open>src/rio.c\<close>): one record of function pointers over files, dynamic strings, sockets
  and descriptors.  A function pointer is the kind of source its function is for; calling it on the
  data of another kind is undefined.  A file is its bytes and the position of the stream; what the
  kernel does with sockets and descriptors is an argument.
\<close>

section \<open>The record and its sources\<close>

datatype rio_kind = ForFile | ForBuffer | ForSocket | ForFD

record file_stream =
  fbytes :: bytes
  fpos :: nat

datatype rio_data = File file_stream | Buffer sds | Descriptor int

record rio =
  rread :: rio_kind
  rwrite :: rio_kind
  rtell :: rio_kind
  rflush :: rio_kind
  rdata :: rio_data
  rerror :: int

definition RIO_ERR_NULL :: int where "RIO_ERR_NULL = 1"
definition RIO_ERR_TELL :: int where "RIO_ERR_TELL = 5"

text \<open>What the kernel returns: the result and the bytes of a read, the result of a write, the position.\<close>

record kernel =
  k_recv :: "int \<Rightarrow> nat \<Rightarrow> int \<times> bytes"
  k_read :: "int \<Rightarrow> nat \<Rightarrow> int \<times> bytes"
  k_send :: "int \<Rightarrow> bytes \<Rightarrow> int"
  k_write :: "int \<Rightarrow> bytes \<Rightarrow> int"
  k_lseek :: "int \<Rightarrow> int"

section \<open>Files\<close>

definition stream_write :: "file_stream \<Rightarrow> bytes \<Rightarrow> file_stream" where
  "stream_write f b = f\<lparr>fbytes := take (fpos f) (fbytes f) @ replicate (fpos f - length (fbytes f)) NUL @ b
       @ drop (fpos f + length b) (fbytes f), fpos := fpos f + length b\<rparr>"

definition rioReadFromFile :: "rio \<Rightarrow> nat \<Rightarrow> (int \<times> bytes \<times> rio) option" where
  "rioReadFromFile r n = (case rdata r of
       File f \<Rightarrow> (let b = take n (drop (fpos f) (fbytes f))
                 in Some (int (length b), b, r\<lparr>rdata := File (f\<lparr>fpos := fpos f + length b\<rparr>)\<rparr>))
     | _ \<Rightarrow> None)"

definition rioWriteToFile :: "rio \<Rightarrow> bytes \<Rightarrow> (int \<times> rio) option" where
  "rioWriteToFile r b = (case rdata r of
       File f \<Rightarrow> Some (int (length b), r\<lparr>rdata := File (stream_write f b)\<rparr>)
     | _ \<Rightarrow> None)"

definition rioTellFromFile :: "rio \<Rightarrow> int option" where
  "rioTellFromFile r = (case rdata r of File f \<Rightarrow> Some (int (fpos f)) | _ \<Rightarrow> None)"

definition rioFlushToFile :: "rio \<Rightarrow> rio option" where
  "rioFlushToFile r = (case rdata r of File f \<Rightarrow> Some r | _ \<Rightarrow> None)"

section \<open>Dynamic strings\<close>

definition rioReadFromBuffer :: "rio \<Rightarrow> nat \<Rightarrow> (int \<times> bytes \<times> rio) option" where
  "rioReadFromBuffer r n = (case rdata r of
       Buffer b \<Rightarrow> do {
         let nread = (if int n > sdslen (Some b) then sdslen (Some b) else int n);
         out \<leftarrow> load_block (sbuf b) 0 nread;
         b' \<leftarrow> sdsrange b nread (sdslen (Some b));
         Some (nread, out, r\<lparr>rdata := Buffer b'\<rparr>)
       }
     | _ \<Rightarrow> None)"

definition rioWriteToBuffer :: "rio \<Rightarrow> bytes \<Rightarrow> (int \<times> rio) option" where
  "rioWriteToBuffer r s = (case rdata r of
       Buffer b \<Rightarrow> do {
         b' \<leftarrow> sdscatlen b s (int (length s));
         Some (int (length s), r\<lparr>rdata := Buffer b'\<rparr>)
       }
     | _ \<Rightarrow> None)"

definition rioTellFromBuffer :: "rio \<Rightarrow> int option" where
  "rioTellFromBuffer r = Some (- 1)"

definition rioFlushToBuffer :: "rio \<Rightarrow> rio option" where
  "rioFlushToBuffer r = Some r"

section \<open>Sockets and descriptors\<close>

definition descriptor_of :: "rio \<Rightarrow> int option" where
  "descriptor_of r = (case rdata r of Descriptor d \<Rightarrow> Some d | _ \<Rightarrow> None)"

definition rioReadFromSocket :: "kernel \<Rightarrow> rio \<Rightarrow> nat \<Rightarrow> (int \<times> bytes \<times> rio) option" where
  "rioReadFromSocket K r n = do { d \<leftarrow> descriptor_of r; let (m, b) = k_recv K d n; Some (m, b, r) }"

definition rioWriteToSocket :: "kernel \<Rightarrow> rio \<Rightarrow> bytes \<Rightarrow> (int \<times> rio) option" where
  "rioWriteToSocket K r b = do { d \<leftarrow> descriptor_of r; Some (k_send K d b, r) }"

definition rioTellFromSocket :: "rio \<Rightarrow> int option" where
  "rioTellFromSocket r = Some (- 1)"

definition rioFlushToSocket :: "rio \<Rightarrow> rio option" where
  "rioFlushToSocket r = Some r"

definition rioReadFromFD :: "kernel \<Rightarrow> rio \<Rightarrow> nat \<Rightarrow> (int \<times> bytes \<times> rio) option" where
  "rioReadFromFD K r n = do { d \<leftarrow> descriptor_of r; let (m, b) = k_read K d n; Some (m, b, r) }"

definition rioWriteToFD :: "kernel \<Rightarrow> rio \<Rightarrow> bytes \<Rightarrow> (int \<times> rio) option" where
  "rioWriteToFD K r b = do { d \<leftarrow> descriptor_of r; Some (k_write K d b, r) }"

definition rioTellFromFD :: "kernel \<Rightarrow> rio \<Rightarrow> int option" where
  "rioTellFromFD K r = do { d \<leftarrow> descriptor_of r; Some (k_lseek K d) }"

definition rioFlushToFD :: "rio \<Rightarrow> rio option" where
  "rioFlushToFD r = Some r"

section \<open>Setting up\<close>

text \<open>\<open>error\<close> is not assigned by any of the four.\<close>

definition rioInitWithFile :: "rio \<Rightarrow> file_stream \<Rightarrow> rio" where
  "rioInitWithFile r fp = r\<lparr>rread := ForFile, rwrite := ForFile, rtell := ForFile, rflush := ForFile, rdata := File fp\<rparr>"

definition rioInitWithBuf :: "rio \<Rightarrow> sds \<Rightarrow> rio" where
  "rioInitWithBuf r b = r\<lparr>rread := ForBuffer, rwrite := ForBuffer, rtell := ForBuffer, rflush := ForBuffer, rdata := Buffer b\<rparr>"

definition rioInitWithSocket :: "rio \<Rightarrow> int \<Rightarrow> rio" where
  "rioInitWithSocket r socket = r\<lparr>rread := ForSocket, rwrite := ForSocket, rtell := ForSocket, rflush := ForSocket, rdata := Descriptor socket\<rparr>"

definition rioInitWithFD :: "rio \<Rightarrow> int \<Rightarrow> rio" where
  "rioInitWithFD r d = r\<lparr>rread := ForFD, rwrite := ForFD, rtell := ForFD, rflush := ForFD, rdata := Descriptor d\<rparr>"

section \<open>The calls\<close>

text \<open>
  The null pointer is \<open>None\<close>.  \<open>rioTell\<close> assigns to the record it has just found to be the null
  pointer, which is undefined.
\<close>

definition call_write :: "kernel \<Rightarrow> rio \<Rightarrow> bytes \<Rightarrow> (int \<times> rio) option" where
  "call_write K r b = (case rwrite r of
       ForFile \<Rightarrow> rioWriteToFile r b | ForBuffer \<Rightarrow> rioWriteToBuffer r b
     | ForSocket \<Rightarrow> rioWriteToSocket K r b | ForFD \<Rightarrow> rioWriteToFD K r b)"

definition rioWrite :: "kernel \<Rightarrow> rio option \<Rightarrow> bytes option \<Rightarrow> (int \<times> rio option) option" where
  "rioWrite K p buf = (case (p, buf) of
       (Some r, Some b) \<Rightarrow> do {
         (nwritten, r') \<leftarrow> call_write K r b;
         Some (if nwritten = - 1 then 0 else nwritten mod 2 ^ 64, Some r')
       }
     | _ \<Rightarrow> Some (0, p))"

definition rioRead :: "kernel \<Rightarrow> rio option \<Rightarrow> nat \<Rightarrow> (int \<times> bytes \<times> rio option) option" where
  "rioRead K p n = (case p of
       None \<Rightarrow> Some (0, [], None)
     | Some r \<Rightarrow> map_option (\<lambda>(m, b, r'). (m, b, Some r')) (case rread r of
           ForFile \<Rightarrow> rioReadFromFile r n | ForBuffer \<Rightarrow> rioReadFromBuffer r n
         | ForSocket \<Rightarrow> rioReadFromSocket K r n | ForFD \<Rightarrow> rioReadFromFD K r n))"

definition rioTell :: "kernel \<Rightarrow> rio option \<Rightarrow> (int \<times> rio) option" where
  "rioTell K p = do {
     r \<leftarrow> p;
     offset \<leftarrow> (case rtell r of
         ForFile \<Rightarrow> rioTellFromFile r | ForBuffer \<Rightarrow> rioTellFromBuffer r
       | ForSocket \<Rightarrow> rioTellFromSocket r | ForFD \<Rightarrow> rioTellFromFD K r);
     Some (if offset = - 1 then (- 1, r\<lparr>rerror := RIO_ERR_TELL\<rparr>) else (offset, r))
   }"

definition rioFlush :: "rio option \<Rightarrow> rio option option" where
  "rioFlush p = (case p of
       None \<Rightarrow> Some None
     | Some r \<Rightarrow> map_option Some (case rflush r of
           ForFile \<Rightarrow> rioFlushToFile r | ForBuffer \<Rightarrow> rioFlushToBuffer r
         | ForSocket \<Rightarrow> rioFlushToSocket r | ForFD \<Rightarrow> rioFlushToFD r))"

section \<open>The contract of a local sink\<close>

text \<open>
  What a writer relies on when the bytes stay in memory: a write takes all of them, and what is held
  grows by them.
\<close>

locale sink =
  fixes wr :: "'s \<Rightarrow> bytes \<Rightarrow> (int \<times> 's) option"
    and held :: "'s \<Rightarrow> bytes"
    and good :: "'s \<Rightarrow> bool"
  assumes write_law: "good s \<Longrightarrow> length b < 2 ^ 63 \<Longrightarrow> wr s b = Some (n, s') \<Longrightarrow> n = int (length b) \<and> held s' = held s @ b \<and> good s'"
begin

primrec writes :: "'s \<Rightarrow> bytes list \<Rightarrow> (int \<times> 's) option" where
  "writes s [] = Some (0, s)"
| "writes s (b # bs) = do { (n, s1) \<leftarrow> wr s b; (m, s2) \<leftarrow> writes s1 bs; Some (n + m, s2) }"

lemma writes_held:
  "good s \<Longrightarrow> \<forall>b \<in> set bs. length b < 2 ^ 63 \<Longrightarrow> writes s bs = Some (n, s') \<Longrightarrow>
   n = int (length (concat bs)) \<and> held s' = held s @ concat bs \<and> good s'"
proof (induction bs arbitrary: s n)
  case (Cons b bs)
  from Cons.prems(3) obtain n1 s1 m where w: "wr s b = Some (n1, s1)" "writes s1 bs = Some (m, s')" "n = n1 + m"
    by (auto simp: bind_Some_iff)
  have "n1 = int (length b) \<and> held s1 = held s @ b \<and> good s1" using write_law [OF Cons.prems(1) _ w(1)] Cons.prems(2) by simp
  with Cons.IH [of s1 m] Cons.prems(2) w show ?case by simp
qed simp

end

definition rio_held :: "rio \<Rightarrow> bytes" where
  "rio_held r = (case rdata r of File f \<Rightarrow> fbytes f | Buffer b \<Rightarrow> content b | Descriptor d \<Rightarrow> [])"

definition sink_ok :: "rio \<Rightarrow> bool" where
  "sink_ok r \<longleftrightarrow> (case rdata r of File f \<Rightarrow> rwrite r = ForFile \<and> fpos f = length (fbytes f)
     | Buffer b \<Rightarrow> rwrite r = ForBuffer \<and> sds_fits b | Descriptor d \<Rightarrow> False)"

definition write_some :: "kernel \<Rightarrow> rio \<Rightarrow> bytes \<Rightarrow> (int \<times> rio) option" where
  "write_some K r b = do { (n, p) \<leftarrow> rioWrite K (Some r) (Some b); r' \<leftarrow> p; Some (n, r') }"

lemma write_some_sink:
  assumes "sink_ok r" "length b < 2 ^ 63" "write_some K r b = Some (n, r')"
  shows "n = int (length b) \<and> rio_held r' = rio_held r @ b \<and> sink_ok r'"
proof -
  have m: "int (length b) mod 2 ^ 64 = int (length b)" using assms(2) by (intro mod_pos_pos_trivial) simp_all
  show ?thesis
  proof (cases "rdata r")
    case (File f)
    then show ?thesis using assms(1,3) m
      by (auto simp: sink_ok_def write_some_def rioWrite_def call_write_def rioWriteToFile_def stream_write_def rio_held_def)
  next
    case (Buffer sb)
    then have ok: "rwrite r = ForBuffer" "sds_fits sb" using assms(1) by (simp_all add: sink_ok_def)
    with assms(3) Buffer m obtain b' where b': "sdscatlen sb b (int (length b)) = Some b'" "n = int (length b)" "r' = r\<lparr>rdata := Buffer b'\<rparr>"
      by (auto simp: write_some_def rioWrite_def call_write_def rioWriteToBuffer_def bind_Some_iff)
    show ?thesis using sdsbuf.contents_append [OF ok(2) b'(1)] sdsbuf.good_append [OF ok(2) b'(1)] Buffer ok b'
      by (simp add: rio_held_def sink_ok_def)
  next
    case (Descriptor d)
    then show ?thesis using assms(1) by (simp add: sink_ok_def)
  qed
qed

interpretation rio_sink: sink "write_some K" rio_held sink_ok for K
  by unfold_locales (blast dest: write_some_sink)

section \<open>Properties\<close>

text \<open>
  Reading from a stream over a dynamic string returns the first bytes of the string and consumes
  nothing: the range that should drop them reaches one byte too far, so the string stays whole and the
  next read returns the same bytes.
\<close>

theorem rio_buffer_read_repeats:
  assumes "sds_ok b"
  shows "rioRead K (Some (rioInitWithBuf r b)) n
    = Some (int (min n (length (content b))), take n (content b), Some (rioInitWithBuf r b))"
proof -
  have b: "0 \<le> slen b" "slen b < int (length (sbuf b))" "content b = take (nat (slen b)) (sbuf b)"
    using assms by (simp_all add: sds_ok_def content_def)
  then have len: "int (length (content b)) = slen b" by simp
  define m where "m = (if int n > slen b then slen b else int n)"
  have m: "0 \<le> m" "m \<le> slen b" "m = int (min n (length (content b)))" using b(1) len by (auto simp: m_def)
  have "load_block (sbuf b) 0 m = Some (take (nat m) (sbuf b))" using m(1,2) b(2) by (simp add: load_block_def)
  moreover have "take (nat m) (sbuf b) = take n (content b)" using m b(1) by (simp add: b(3) m_def min_def)
  moreover have "sdsrange b m (slen b) = Some b" using b(1) by (simp add: sdsrange_def)
  ultimately show ?thesis
    unfolding m(3) [symmetric]
    by (cases "slen b < int n") (simp_all add: rioRead_def rioInitWithBuf_def rioReadFromBuffer_def sdslen_def m_def)
qed

theorem rio_buffer_read_repeats_witness:
  "\<exists>b. sdsnew (Some ''abc'') = Some (Some b) \<and> (\<forall>K r. rioRead K (Some (rioInitWithBuf r b)) 2 = Some (2, ''ab'', Some (rioInitWithBuf r b)))"
proof -
  obtain b where b: "sdsnew (Some ''abc'') = Some (Some b)" "sds_ok b" "content b = ''abc''"
    by (simp add: sdsnew_eq sds_ok_def content_def sds_alloc_def)
  from rio_buffer_read_repeats [OF b(2)] b show ?thesis by (intro exI [of _ b]) simp
qed

text \<open>
  A sequence of writes to a stream over a dynamic string, or over a file at its end, that returns takes
  every byte: the results add up to the total length, and the string or file holds what it held
  followed by the pieces in order.
\<close>

fun write_all :: "kernel \<Rightarrow> rio \<Rightarrow> bytes list \<Rightarrow> (int \<times> rio) option" where
  "write_all K r [] = Some (0, r)"
| "write_all K r (b # bs) = do {
     (n, r1) \<leftarrow> write_some K r b;
     (m, r2) \<leftarrow> write_all K r1 bs;
     Some (n + m, r2)
   }"

lemma rio_writes_append:
  assumes "sink_ok r" "\<forall>b \<in> set bs. length b < 2 ^ 63" "write_all K r bs = Some (n, r')"
  shows "n = int (length (concat bs)) \<and> rio_held r' = rio_held r @ concat bs \<and> sink_ok r'"
proof -
  have "write_all K r bs = rio_sink.writes K r bs" by (induction bs arbitrary: r) simp_all
  with assms(3) have "rio_sink.writes K r bs = Some (n, r')" by simp
  then show ?thesis by (rule rio_sink.writes_held [OF assms(1,2)])
qed

end
