(* ===== verification/Net.thy ===== *)
theory Net
  imports Ae Resp
begin

text \<open>
  The networking helpers of \<open>src/src/net.c\<close> and the poll of \<open>src/src/ae.c\<close>: the options of a socket, opening
  a listening socket and a connection over the addresses of a name, the second recogniser of messages
  (\<open>getRespLength\<close>), and what \<open>epoll_wait\<close> returned as the fired events of the loop.  What the operating
  system answers is an argument everywhere; the descriptors left open are part of the result.
\<close>

definition NET_OK :: int where "NET_OK = 0"
definition NET_ERR :: int where "NET_ERR = - 1"

section \<open>Socket options\<close>

datatype sockopt = Reuse_Addr | No_Delay | Keep_Alive | Keep_Idle int | Keep_Intvl int | Keep_Cnt int

text \<open>\<open>setsockopt\<close> one option after the other until one fails: the result and the options that are set.\<close>

fun set_options :: "(sockopt \<Rightarrow> bool) \<Rightarrow> sockopt list \<Rightarrow> int \<times> sockopt list" where
  "set_options works [] = (NET_OK, [])"
| "set_options works (o1 # os) =
     (if works o1 then (case set_options works os of (r, done1) \<Rightarrow> (r, o1 # done1)) else (NET_ERR, []))"

definition anetSetReuseAddr :: "(sockopt \<Rightarrow> bool) \<Rightarrow> int \<times> sockopt list" where
  "anetSetReuseAddr works = set_options works [Reuse_Addr]"

definition anetEnableTcpNoDelay :: "(sockopt \<Rightarrow> bool) \<Rightarrow> int \<times> sockopt list" where
  "anetEnableTcpNoDelay works = set_options works [No_Delay]"

definition anetKeepAlive :: "(sockopt \<Rightarrow> bool) \<Rightarrow> int \<Rightarrow> int \<times> sockopt list" where
  "anetKeepAlive works interval = set_options works [Keep_Alive, Keep_Idle 3000, Keep_Intvl interval, Keep_Cnt 5]"

text \<open>The two calls of \<open>fcntl\<close>: the flags it reads (\<open>-1\<close> is a failure), and whether the second call succeeds.\<close>

definition O_NONBLOCK :: "32 word" where "O_NONBLOCK = 2048"

definition anetNonBlock :: "32 word \<Rightarrow> bool \<Rightarrow> int \<times> 32 word" where
  "anetNonBlock flags works =
     (if flags = - 1 then (NET_ERR, flags)
      else if \<not> works then (NET_ERR, flags)
      else (NET_OK, or flags O_NONBLOCK))"

section \<open>Opening a socket\<close>

text \<open>
  One address of the list \<open>getaddrinfo\<close> returns: the descriptor \<open>socket\<close> gives for it and whether the
  \<open>bind\<close> or \<open>connect\<close> that follows succeeds.  A socket that fails is closed again; the loop stops at the first that works.
\<close>

fun try_addresses :: "(int \<times> bool) list \<Rightarrow> int option" where
  "try_addresses [] = None"
| "try_addresses ((sockfd, works) # as) =
     (if sockfd = - 1 then try_addresses as
      else if \<not> works then try_addresses as
      else Some sockfd)"

text \<open>The value returned, the descriptors the call leaves open, and whether the address list was freed.\<close>

record opened = ret :: int  fds_left :: "int list"  info_freed :: bool

definition anetTcpServer :: "(int \<times> bool) list option \<Rightarrow> bool \<Rightarrow> opened" where
  "anetTcpServer servinfo listens = (case servinfo of
       None \<Rightarrow> \<lparr>ret = NET_ERR, fds_left = [], info_freed = True\<rparr>
     | Some as \<Rightarrow> (case try_addresses as of
           None \<Rightarrow> \<lparr>ret = NET_ERR, fds_left = [], info_freed = False\<rparr>
         | Some sockfd \<Rightarrow>
             if \<not> listens then \<lparr>ret = NET_ERR, fds_left = [sockfd], info_freed = True\<rparr>
             else \<lparr>ret = sockfd, fds_left = [sockfd], info_freed = True\<rparr>))"

definition anetTcpConnect :: "(int \<times> bool) list option \<Rightarrow> opened" where
  "anetTcpConnect servinfo = (case servinfo of
       None \<Rightarrow> \<lparr>ret = NET_ERR, fds_left = [], info_freed = True\<rparr>
     | Some as \<Rightarrow> (case try_addresses as of
           None \<Rightarrow> \<lparr>ret = NET_ERR, fds_left = [], info_freed = True\<rparr>
         | Some sockfd \<Rightarrow> \<lparr>ret = sockfd, fds_left = [sockfd], info_freed = True\<rparr>))"

text \<open>What \<open>getsockopt\<close> reads from the socket, \<open>None\<close> when it fails.\<close>

definition checkSockErr :: "int option \<Rightarrow> bool" where
  "checkSockErr answer = (case answer of Some err \<Rightarrow> err = 0 | None \<Rightarrow> False)"

section \<open>Polling\<close>

definition EPOLLIN :: "32 word" where "EPOLLIN = 1"
definition EPOLLOUT :: "32 word" where "EPOLLOUT = 4"

datatype epoll_answer = Ready "(32 word \<times> int) list" | Interrupted | Broken

definition fired_mask :: "32 word \<Rightarrow> cint" where
  "fired_mask ev = or (if and ev EPOLLIN \<noteq> 0 then AE_READABLE else 0) (if and ev EPOLLOUT \<noteq> 0 then AE_WRITABLE else 0)"

text \<open>The number of events and the entries of \<open>fireEvents\<close>; \<open>None\<close> is the call of \<open>exit\<close>.\<close>

definition aeApiPoll :: "epoll_answer \<Rightarrow> (int \<times> (int \<times> cint) list) option" where
  "aeApiPoll answer = (case answer of
       Ready evs \<Rightarrow> Some (int (length evs), map (\<lambda>(ev, fd). (fd, fired_mask ev)) evs)
     | Interrupted \<Rightarrow> Some (- 1, [])
     | Broken \<Rightarrow> None)"

section \<open>The length of a message\<close>

text \<open>The loop that looks for the first line end, from index \<open>i\<close>, for \<open>n\<close> rounds.\<close>

fun first_crlf :: "bytes \<Rightarrow> int \<Rightarrow> nat \<Rightarrow> nat \<Rightarrow> int option option" where
  "first_crlf b p i 0 = Some None"
| "first_crlf b p i (Suc n) = do {
     c1 \<leftarrow> load b (p + int i);
     (if c1 = CR then do {
        c2 \<leftarrow> load b (p + int i + 1);
        (if c2 = LF then Some (Some (int i)) else first_crlf b p (Suc i) n)
      } else first_crlf b p (Suc i) n)
   }"

text \<open>The number between the type byte and the line end at \<open>i\<close>, copied to an array of 32 bytes.\<close>

definition count_before :: "bytes \<Rightarrow> int \<Rightarrow> int \<Rightarrow> int option" where
  "count_before b p i = do {
     t \<leftarrow> load_block b (p + 1) (i - 1);
     (if 32 \<le> i - 1 then None else atoi (takeWhile (\<lambda>c. c \<noteq> NUL) t))
   }"

fun elements_length :: "(int \<Rightarrow> int \<Rightarrow> int option) \<Rightarrow> int \<Rightarrow> int \<Rightarrow> nat \<Rightarrow> int \<Rightarrow> int option" where
  "elements_length one p len 0 offset = Some offset"
| "elements_length one p len (Suc n) offset =
     (if len \<le> offset then Some (- 1)
      else do {
        elem_len \<leftarrow> one (p + offset) (len - offset);
        (if elem_len = - 1 then Some (- 1) else elements_length one p len n (offset + elem_len))
      })"

primrec length_depth :: "nat \<Rightarrow> bytes \<Rightarrow> int \<Rightarrow> int \<Rightarrow> int option" where
  "length_depth 0 b p len = None"
| "length_depth (Suc d) b p len =
     (if len < 2 then Some (- 1)
      else do {
        ty \<leftarrow> load b p;
        (if ty = CHR ''+'' \<or> ty = CHR ''-'' \<or> ty = CHR '':'' then do {
           r \<leftarrow> first_crlf b p 1 (nat (len - 2));
           Some (case r of None \<Rightarrow> - 1 | Some i \<Rightarrow> i + 2)
         }
         else if ty = CHR ''$'' then
           (if len < 3 then Some (- 1)
            else do {
              r \<leftarrow> first_crlf b p 1 (nat (len - 2));
              (case r of
                 None \<Rightarrow> Some (- 1)
               | Some i \<Rightarrow> do {
                   data_len \<leftarrow> count_before b p i;
                   (if data_len \<le> 0 then Some (i + 2)
                    else if len < i + 2 + data_len + 2 then Some (- 1)
                    else do {
                      c1 \<leftarrow> load b (p + (i + 2 + data_len));
                      c2 \<leftarrow> load b (p + (i + 2 + data_len + 1));
                      Some (if c1 = CR \<and> c2 = LF then i + 2 + data_len + 2 else - 1)
                    })
                 })
            })
         else if ty = CHR ''*'' then
           (if len < 3 then Some (- 1)
            else do {
              r \<leftarrow> first_crlf b p 1 (nat (len - 2));
              (case r of
                 None \<Rightarrow> Some (- 1)
               | Some i \<Rightarrow> do {
                   num_elements \<leftarrow> count_before b p i;
                   (if num_elements \<le> 0 then Some (i + 2)
                    else elements_length (length_depth d b) p len (nat num_elements) (i + 2))
                 })
            })
         else Some (- 1))
      })"

text \<open>Each nested array starts behind a header of three bytes, so this depth is never used up.\<close>

definition getRespLength :: "bytes \<Rightarrow> int \<Rightarrow> int option" where
  "getRespLength b len = length_depth (Suc (nat len)) b 0 len"

section \<open>The socket that is returned\<close>

lemma try_addresses_sound: "try_addresses as = Some fd \<Longrightarrow> (fd, True) \<in> set as \<and> fd \<noteq> - 1"
  by (induction as rule: try_addresses.induct) (auto split: if_splits)

lemma try_addresses_complete: "try_addresses as = None \<longleftrightarrow> (\<forall>fd. (fd, True) \<in> set as \<longrightarrow> fd = - 1)"
  by (induction as rule: try_addresses.induct) auto

text \<open>A connection leaves exactly the returned descriptor open; a server that cannot listen leaks its socket.\<close>

lemma anetTcpConnect_no_leak:
  "let r = anetTcpConnect servinfo in fds_left r = (if ret r = NET_ERR then [] else [ret r]) \<and> info_freed r"
  using try_addresses_sound by (auto simp: anetTcpConnect_def Let_def NET_ERR_def split: option.split)

lemma anetTcpServer_leaks:
  "try_addresses as = Some fd \<Longrightarrow> anetTcpServer (Some as) False = \<lparr>ret = NET_ERR, fds_left = [fd], info_freed = True\<rparr>"
  "try_addresses as = None \<Longrightarrow> \<not> info_freed (anetTcpServer (Some as) works)"
  by (simp_all add: anetTcpServer_def)

section \<open>The two recognisers agree\<close>

lemma first_crlf_at:
  assumes "CR \<notin> set h" "i \<le> length h" "length h - i < n"
  shows "first_crlf (pre @ h @ CR # LF # r) (int (length pre)) i n = Some (Some (int (length h)))"
  using assms(2,3)
proof (induction n arbitrary: i)
  case (Suc n)
  let ?b = "pre @ h @ CR # LF # r"
  show ?case
  proof (cases "i = length h")
    case True
    have "load ?b (int (length pre) + int i) = Some CR" "load ?b (int (length pre) + int i + 1) = Some LF"
      using load_at [of "pre @ h" CR "LF # r"] load_at [of "pre @ h @ [CR]" LF r] True by (simp_all add: ac_simps)
    then show ?thesis using True by simp
  next
    case False
    then have "i < length h" using Suc.prems by simp
    then have "load ?b (int (length pre) + int i) = Some (h ! i)"
      by (simp add: load_def nth_append flip: of_nat_add)
    moreover have "h ! i \<noteq> CR" using assms(1) \<open>i < length h\<close> nth_mem by metis
    ultimately show ?thesis using Suc \<open>i < length h\<close> by simp
  qed
qed simp

lemma dec_int_0: "dec_int 0 = ''0''"
  by code_simp

lemma length_dec_int_le: "0 \<le> n \<Longrightarrow> n \<le> INT_MAX \<Longrightarrow> length (dec_int n) \<le> 10"
  using length_dec_nat_le [of "nat n" 10] dec_int_of_nat [of "nat n"] by (simp add: c_limits)

lemma header_count:
  assumes "0 \<le> n" "n \<le> INT_MAX" "c \<noteq> CR"
    and "int (length (dec_int n)) + 3 \<le> len"
  shows "first_crlf (pre @ c # dec_int n @ CR # LF # r) (int (length pre)) 1 (nat (len - 2)) = Some (Some (int (length (dec_int n)) + 1))"
    "count_before (pre @ c # dec_int n @ CR # LF # r) (int (length pre)) (int (length (dec_int n)) + 1) = Some n"
proof -
  let ?d = "dec_int n"
  have b: "pre @ c # ?d @ CR # LF # r = pre @ (c # ?d) @ CR # LF # r" "pre @ c # ?d @ CR # LF # r = (pre @ [c]) @ ?d @ CR # LF # r"
    by simp_all
  show "first_crlf (pre @ c # ?d @ CR # LF # r) (int (length pre)) 1 (nat (len - 2)) = Some (Some (int (length ?d) + 1))"
    unfolding b(1) using first_crlf_at [of "c # ?d" 1 "nat (len - 2)" pre r] assms(3,4) by simp
  have "load_block (pre @ c # ?d @ CR # LF # r) (int (length pre) + 1) (int (length ?d)) = Some ?d"
    unfolding b(2) using load_block_at [of "pre @ [c]" ?d "CR # LF # r"] by (simp add: ac_simps)
  then show "count_before (pre @ c # ?d @ CR # LF # r) (int (length pre)) (int (length ?d) + 1) = Some n"
    using assms(1,2) length_dec_int_le [OF assms(1,2)] atoi_dec_int [of n]
    by (simp add: count_before_def takeWhile_nul_free c_limits)
qed

lemma length_bulk:
  assumes "int (length a) \<le> INT_MAX" "int (length (bulk_text a)) \<le> len"
  shows "length_depth (Suc d) (pre @ bulk_text a @ r) (int (length pre)) len =
    Some (if a = [] then 4 else int (length (bulk_text a)))"
proof -
  let ?d = "dec_int (int (length a))"
  let ?b = "pre @ bulk_text a @ r"
  have b: "?b = pre @ CHR ''$'' # ?d @ CR # LF # a @ CRLF @ r" by (simp add: bulk_text_def)
  have b2: "?b = (pre @ CHR ''$'' # ?d @ CRLF @ a) @ CR # LF # r" "?b = (pre @ CHR ''$'' # ?d @ CRLF @ a @ [CR]) @ LF # r"
    by (simp_all add: bulk_text_def)
  have tot: "length (bulk_text a) = length ?d + length a + 5" by (simp add: bulk_text_def)
  have ty: "load ?b (int (length pre)) = Some (CHR ''$'')" by (simp add: bulk_text_def load_at)
  have i: "first_crlf ?b (int (length pre)) 1 (nat (len - 2)) = Some (Some (int (length ?d) + 1))"
    "count_before ?b (int (length pre)) (int (length ?d) + 1) = Some (int (length a))"
    unfolding b by (rule header_count [where len = len]; use assms tot in simp)+
  let ?e = "int (length ?d) + 1 + 2 + int (length a)"
  have e: "int (length pre) + ?e = int (length (pre @ CHR ''$'' # ?d @ CRLF @ a))"
    "int (length pre) + (?e + 1) = int (length (pre @ CHR ''$'' # ?d @ CRLF @ a @ [CR]))" by simp_all
  have l: "load ?b (int (length pre) + ?e) = Some CR" "load ?b (int (length pre) + (?e + 1)) = Some LF"
    unfolding e b2(1) by (rule load_at) (simp only: b2(1) [symmetric], simp only: b2(2) load_at)
  have len: "\<not> len < 2" "\<not> len < 3" "\<not> len < ?e + 2" using assms(2) tot by simp_all
  have d0: "a = [] \<Longrightarrow> length ?d = 1" by (simp add: dec_int_0)
  have pos: "a \<noteq> [] \<Longrightarrow> \<not> int (length a) \<le> 0" by simp
  show ?thesis
    unfolding length_depth.simps ty Option.bind.simps using i len l pos d0 tot
    by (cases "a = []") (simp_all only: Option.bind.simps option.case if_False if_True char.inject, simp_all)
qed

text \<open>What the loop over the elements makes of bulk strings.\<close>

definition framed :: "bytes list \<Rightarrow> int \<Rightarrow> int" where
  "framed args n = (if [] \<notin> set args then n else if [] \<notin> set (butlast args) then n - 2 else - 1)"

lemma length_elements:
  assumes "\<forall>a \<in> set args. int (length a) \<le> INT_MAX" "int (length (pre @ concat (map bulk_text args))) \<le> len"
  shows "elements_length (length_depth (Suc d) (pre @ concat (map bulk_text args) @ r)) 0 len (length args) (int (length pre)) =
    Some (framed args (int (length (pre @ concat (map bulk_text args)))))"
  using assms
proof (induction args arbitrary: pre)
  case (Cons a args)
  let ?rest = "concat (map bulk_text args)"
  let ?b = "pre @ concat (map bulk_text (a # args)) @ r"
  have one: "length_depth (Suc d) ?b (int (length pre)) (len - int (length pre)) = Some (if a = [] then 4 else int (length (bulk_text a)))"
    using length_bulk [of a "len - int (length pre)" d pre "?rest @ r"] Cons.prems by simp
  have off: "\<not> len \<le> int (length pre)" using Cons.prems(2) by (simp add: bulk_text_def)
  show ?case
  proof (cases "a = []")
    case False
    have "elements_length (length_depth (Suc d) ((pre @ bulk_text a) @ ?rest @ r)) 0 len (length args) (int (length (pre @ bulk_text a))) =
        Some (framed args (int (length ((pre @ bulk_text a) @ ?rest))))"
      by (rule Cons.IH) (use Cons.prems in simp_all)
    then show ?thesis using one off False by (simp add: framed_def del: length_depth.simps)
  next
    case True
    have b: "?b = (pre @ ''$0'' @ CRLF) @ CR # LF # ?rest @ r" by (simp add: True bulk_text_def dec_int_0)
    have tot: "length (bulk_text a) = 6" by (simp add: True bulk_text_def dec_int_0)
    have "load ?b (int (length (pre @ ''$0'' @ CRLF))) = Some CR" unfolding b by (rule load_at)
    moreover have "int (length (pre @ ''$0'' @ CRLF)) = int (length pre) + 4" by simp
    ultimately have "load ?b (int (length pre) + 4) = Some CR" by (simp only:)
    then have bad: "length_depth (Suc d) ?b (int (length pre) + 4) (len - (int (length pre) + 4)) = Some (- 1)"
      unfolding length_depth.simps by (simp del: append.simps)
    show ?thesis
      using one off True bad tot by (cases args) (auto simp: framed_def simp del: length_depth.simps)
  qed
qed (simp add: framed_def)

text \<open>
  C34. The two recognisers of a request, \<open>respParse\<close> and \<open>getRespLength\<close>, agree on where a complete request
  ends unless it holds an empty argument: \<open>getRespLength\<close> forgets the line end behind an empty string, so
  it is two bytes short when the empty argument is the last one and sees no message at all otherwise.
\<close>

theorem framings_agree:
  assumes "args \<noteq> []" "NUL \<in> set rest" "length (array_text args) \<le> nat INT_MAX"
    and "int (length (array_text args)) \<le> len" "len \<le> int (length (array_text args @ rest))"
  shows "respParse (array_text args @ rest) 0 len = Some (Some (int (length (array_text args)) - 1))
    \<and> getRespLength (array_text args @ rest) len =
       Some (if [] \<notin> set args then int (length (array_text args))
             else if [] \<notin> set (butlast args) then int (length (array_text args)) - 2 else - 1)"
proof
  show "respParse (array_text args @ rest) 0 len = Some (Some (int (length (array_text args)) - 1))"
    by (rule parse_request) (use assms in \<open>simp_all add: c_limits\<close>)
  let ?d = "dec_int (int (length args))" and ?rest = "concat (map bulk_text args)"
  let ?b = "array_text args @ rest"
  have b: "?b = [] @ CHR ''*'' # ?d @ CR # LF # ?rest @ rest" "?b = (''*'' @ ?d @ CRLF) @ ?rest @ rest"
    by (simp_all add: array_text_def)
  have tot: "length (array_text args) = length ?d + 3 + length ?rest" by (simp add: array_text_def)
  have "length args \<le> length ?rest" by (induction args) (auto simp: bulk_text_def)
  then have n: "int (length args) \<le> INT_MAX" using assms(3) tot by (simp add: c_limits)
  have "length a \<le> length ?rest" if "a \<in> set args" for a using that by (induction args) (auto simp: bulk_text_def)
  then have as: "\<forall>a \<in> set args. int (length a) \<le> INT_MAX" using assms(3) tot by (fastforce simp: c_limits)
  have i: "first_crlf ?b 0 1 (nat (len - 2)) = Some (Some (int (length ?d) + 1))"
    "count_before ?b 0 (int (length ?d) + 1) = Some (int (length args))"
    unfolding b(1) using header_count [of "int (length args)" "CHR ''*''" len "[]" "?rest @ rest"] n assms(4) tot by simp_all
  obtain k where k: "nat len = Suc k" using assms(4) tot by (cases "nat len") auto
  have el: "elements_length (length_depth (Suc k) ?b) 0 len (length args) (int (length ?d) + 1 + 2) =
      Some (framed args (int (length (array_text args))))"
    using length_elements [OF as, of "''*'' @ ?d @ CRLF" len k rest] assms(4) tot
    unfolding b(2) by (simp add: ac_simps)
  have ty: "load ?b 0 = Some (CHR ''*'')" by (simp add: array_text_def load_def)
  have len: "\<not> len < 2" "\<not> len < 3" "\<not> int (length args) \<le> 0" using assms(1,4) tot by simp_all
  have "getRespLength ?b len = Some (framed args (int (length (array_text args))))"
    unfolding getRespLength_def length_depth.simps(2) ty using i len el [folded k]
    by (simp del: length_depth.simps add: add.commute)
  then show "getRespLength ?b len = Some (if [] \<notin> set args then int (length (array_text args))
             else if [] \<notin> set (butlast args) then int (length (array_text args)) - 2 else - 1)"
    by (simp add: framed_def)
qed

theorem framings_agree_witness:
  "respParse (array_text [''GET'', ''''] @ [NUL]) 0 19 = Some (Some 18)
    \<and> getRespLength (array_text [''GET'', ''''] @ [NUL]) 19 = Some 17"
proof -
  have "length (array_text [''GET'', '''']) = 19" by code_simp
  then show ?thesis using framings_agree [of "[''GET'', '''']" "[NUL]" 19] by (simp add: c_limits)
qed

end
