(* ===== verification/Cli.thy ===== *)
theory Cli
  imports Repli
begin

text \<open>
  The interactive client (\<open>src/client/client.c\<close>): how a line becomes a request (\<open>send_command\<close>), how the
  replies are taken apart and printed (\<open>read_response\<close>), the built-in command, the completions and
  hints, and what the main loop does with a line.  What the connection delivers and the printed text are
  explicit; the line comes from the line editor (\<open>Prompt\<close>).
\<close>

section \<open>Sending a line\<close>

definition BUFFER_SIZE :: nat where "BUFFER_SIZE = 1024"

text \<open>The words of a line, as \<open>strtok\<close> finds them, at most \<open>n\<close>.\<close>

fun cli_tokens :: "nat \<Rightarrow> bytes \<Rightarrow> bytes list" where
  "cli_tokens 0 s = []"
| "cli_tokens (Suc n) s = (case strtok1 CHR '' '' s of None \<Rightarrow> [] | Some (t, rest) \<Rightarrow> t # cli_tokens n rest)"

text \<open>The room left is an \<open>int\<close> that becomes the unsigned size of \<open>snprintf\<close>.\<close>

fun fill_args :: "byte option list \<Rightarrow> int \<Rightarrow> bytes list \<Rightarrow> (byte option list \<times> int) option" where
  "fill_args buf len [] = Some (buf, len)"
| "fill_args buf len (arg # args) = do {
     let text = ''$'' @ dec_int (int (length arg)) @ CRLF @ arg @ CRLF;
     b \<leftarrow> snprintf_at buf len text;
     fill_args b (len + int (length text)) args
   }"

text \<open>What is sent: the first \<open>len\<close> bytes of the buffer.\<close>

definition send_command :: "bytes \<Rightarrow> bytes option" where
  "send_command command = do {
     let args = cli_tokens 16 command;
     let text = ''*'' @ dec_int (int (length args)) @ CRLF;
     b0 \<leftarrow> snprintf_at (replicate BUFFER_SIZE None) 0 text;
     (b, len) \<leftarrow> fill_args b0 (int (length text)) args;
     out \<leftarrow> load_block b 0 len;
     if None \<in> set out then None else Some (map the out)
   }"

section \<open>Reading the replies\<close>

text \<open>
  The loop over the complete messages: each is copied over the start of one array of 512 bytes and
  printed from there as a C string.  The printed replies; \<open>None\<close> in the list is a null pointer.
\<close>

fun show_replies :: "nat \<Rightarrow> bytes \<Rightarrow> bytes \<Rightarrow> bytes option list option" where
  "show_replies 0 buf inp = None"
| "show_replies (Suc n) buf inp = do {
     r \<leftarrow> respParse (inp @ [NUL]) 0 (int (length inp));
     (case r of
        None \<Rightarrow> Some []
      | Some e \<Rightarrow> do {
          msg \<leftarrow> load_block inp 0 (e + 1);
          buf' \<leftarrow> store_block buf 0 msg;
          s \<leftarrow> cstring buf' 0;
          txt \<leftarrow> resp_str (Some s);
          inp' \<leftarrow> range_text inp (e + 1) (int (length inp) - 1);
          rest \<leftarrow> show_replies n buf' inp';
          Some (txt # rest)
        })
   }"

text \<open>\<open>read\<close> returned bytes (none: the server closed) or an error (\<open>again\<close>: only a time-out).\<close>

datatype read_end = Bytes bytes | Failed bool

definition read_response :: "read_end \<Rightarrow> (bytes option list \<times> int) option" where
  "read_response r = (case r of
       Bytes b \<Rightarrow> if b = [] then Some ([], - 1) else do {
         s \<leftarrow> cstring (take (BUFFER_SIZE - 1) b @ [NUL]) 0;
         out \<leftarrow> show_replies (Suc (length s)) (replicate 512 NUL) s;
         Some (out, 0)
       }
     | Failed again \<Rightarrow> Some ([], if again then 0 else 1))"

section \<open>The prompt\<close>

definition completion :: "bytes \<Rightarrow> bytes list" where
  "completion buf = (if strncasecmp_eq buf ''object'' 6 then [''object encoding''] else [])
     @ (if strncasecmp_eq buf ''s'' 1 then [''set'', ''slaveof''] else [])
     @ (if strncasecmp_eq buf ''g'' 1 then [''get''] else [])"

definition hints :: "bytes \<Rightarrow> (bytes \<times> int) option" where
  "hints buf = (if strcasecmp_eq buf ''SET'' then Some ('' <key> <value>'', 35)
     else if strcasecmp_eq buf ''get'' then Some ('' <key>'', 35)
     else if strcasecmp_eq buf ''slaveof'' then Some ('' <host>:<port>'', 35)
     else None)"

definition handleInterCommand :: "bytes \<Rightarrow> bytes list" where
  "handleInterCommand cmd = (if strncasecmp_eq cmd ''/help'' 5
     then [''set k v'', ''get k'', ''object encoding k'', ''expire k'', ''slaveof host:port'', ''bye'', ''multi'', ''exec'', ''watch'']
     else [])"

text \<open>One line of the main loop: what is sent, what is printed, and whether the loop goes on.\<close>

definition cli_line :: "bytes \<Rightarrow> read_end \<Rightarrow> (bytes \<times> bytes option list \<times> bool) option" where
  "cli_line line answer = (case line of
       [] \<Rightarrow> Some ([], [], True)
     | c # _ \<Rightarrow>
         if c = CHR ''/'' then Some ([], map Some (handleInterCommand line), True)
         else do {
           req \<leftarrow> send_command line;
           (out, ret) \<leftarrow> read_response answer;
           Some (req, out, ret = 0)
         })"

section \<open>The words of a line\<close>

text \<open>The line cut at every blank, without the empty pieces.\<close>

fun pieces :: "char \<Rightarrow> bytes \<Rightarrow> bytes list" where
  "pieces d [] = [[]]"
| "pieces d (c # s) = (if c = d then [] # pieces d s else (case pieces d s of p # ps \<Rightarrow> (c # p) # ps))"

definition blank_words :: "bytes \<Rightarrow> bytes list" where
  "blank_words s = filter (\<lambda>w. w \<noteq> []) (pieces CHR '' '' s)"

lemma pieces_nonempty [simp]: "pieces d s \<noteq> []"
  by (induction s) (auto split: list.split)

lemma pieces_first:
  "pieces d s = (case dropWhile (\<lambda>c. c \<noteq> d) s of [] \<Rightarrow> [s] | _ # r \<Rightarrow> takeWhile (\<lambda>c. c \<noteq> d) s # pieces d r)"
proof (induction s)
  case (Cons c s)
  have "dropWhile (\<lambda>c. c \<noteq> d) s \<noteq> [] \<Longrightarrow> \<exists>x \<in> set s. x = d" using dropWhile_eq_Nil_conv by blast
  with Cons show ?case by (cases "dropWhile (\<lambda>c. c \<noteq> d) s") (auto simp del: dropWhile_eq_Nil_conv)
qed simp

lemma pieces_skip: "filter (\<lambda>w. w \<noteq> []) (pieces d (dropWhile (\<lambda>c. c = d) s)) = filter (\<lambda>w. w \<noteq> []) (pieces d s)"
  by (induction s) (auto split: list.splits)

lemma blank_words_step:
  "blank_words s = (case strtok1 CHR '' '' s of None \<Rightarrow> [] | Some (t, rest) \<Rightarrow> t # blank_words rest)"
proof (cases "dropWhile (\<lambda>c. c = CHR '' '') s")
  case Nil
  have "filter (\<lambda>w. w \<noteq> []) (pieces CHR '' '' s) = []"
    using pieces_skip [of "CHR '' ''" s] unfolding Nil by simp
  then show ?thesis by (simp add: blank_words_def strtok1_def Nil del: dropWhile_eq_Nil_conv)
next
  case (Cons c r)
  then have "c \<noteq> CHR '' ''" using hd_dropWhile [of "\<lambda>c. c = CHR '' ''" s] by auto
  have skip: "blank_words s = filter (\<lambda>w. w \<noteq> []) (pieces CHR '' '' (c # r))"
    using pieces_skip [of "CHR '' ''" s] Cons by (simp add: blank_words_def)
  let ?w = "takeWhile (\<lambda>x. x \<noteq> CHR '' '') (c # r)" and ?u = "dropWhile (\<lambda>x. x \<noteq> CHR '' '') (c # r)"
  have tok: "strtok1 CHR '' '' s = Some (?w, drop 1 ?u)" by (simp add: strtok1_def Cons)
  have ne: "?w \<noteq> []" using \<open>c \<noteq> CHR '' ''\<close> by simp
  have all: "?u = [] \<Longrightarrow> c # r = ?w" by (metis append_Nil2 takeWhile_dropWhile_id)
  show ?thesis
  proof (cases ?u)
    case Nil
    have "blank_words s = [?w]"
      unfolding skip pieces_first [of _ "c # r"] Nil using ne all [OF Nil] by (simp del: takeWhile.simps)
    then show ?thesis unfolding tok Nil by (simp add: blank_words_def)
  next
    case (Cons x v)
    then show ?thesis unfolding tok skip pieces_first [of _ "c # r"] using ne by (simp add: blank_words_def del: takeWhile.simps dropWhile.simps)
  qed
qed

lemma cli_tokens_words: "cli_tokens n s = take n (blank_words s)"
proof (induction n arbitrary: s)
  case (Suc n)
  then show ?case by (subst blank_words_step) (simp split: option.split prod.split)
qed simp

section \<open>The request that is sent\<close>

lemma fill_args_prefix:
  assumes "take (length d) buf = map Some d" "length d + length (concat (map bulk_text args)) < length buf"
  shows "\<exists>b. fill_args buf (int (length d)) args = Some (b, int (length (d @ concat (map bulk_text args))))
     \<and> take (length (d @ concat (map bulk_text args))) b = map Some (d @ concat (map bulk_text args))
     \<and> length b = length buf"
  using assms
proof (induction args arbitrary: d buf)
  case (Cons a args)
  let ?rest = "concat (map bulk_text args)"
  obtain b1 where b1: "snprintf_at buf (int (length d)) (bulk_text a) = Some b1"
    "take (length (d @ bulk_text a)) b1 = map Some (d @ bulk_text a)" "length b1 = length buf"
    by (rule snprintf_prefix [OF Cons.prems(1), of "bulk_text a"]) (use Cons.prems(2) in simp)
  have "length (d @ bulk_text a) + length ?rest < length b1" using Cons.prems(2) b1(3) by simp
  from Cons.IH [OF b1(2) this] obtain b where
    b: "fill_args b1 (int (length (d @ bulk_text a))) args = Some (b, int (length ((d @ bulk_text a) @ ?rest)))"
    "take (length ((d @ bulk_text a) @ ?rest)) b = map Some ((d @ bulk_text a) @ ?rest)" "length b = length b1"
    by blast
  have "int (length d) + int (length (bulk_text a)) = int (length (d @ bulk_text a))" by simp
  then have "fill_args buf (int (length d)) (a # args) = fill_args b1 (int (length (d @ bulk_text a))) args"
    unfolding fill_args.simps Let_def bulk_text_def [symmetric] b1(1) by (simp only: Option.bind.simps)
  then show ?case using b b1(3) by simp
qed simp

lemma send_command_text:
  assumes "length (array_text (take 16 (blank_words line))) < 1024"
  shows "send_command line = Some (array_text (take 16 (blank_words line)))"
proof -
  let ?args = "take 16 (blank_words line)"
  let ?h = "''*'' @ dec_int (int (length ?args)) @ CRLF" and ?rest = "concat (map bulk_text ?args)"
  have cat: "?h @ ?rest = array_text ?args" by (simp add: array_text_def)
  have room: "length ?h + length ?rest < 1024" using assms cat by (metis length_append)
  obtain b0 where b0: "snprintf_at (replicate 1024 None) (int (length ([] :: bytes))) ?h = Some b0"
    "take (length ([] @ ?h)) b0 = map Some ([] @ ?h)" "length b0 = length (replicate 1024 (None :: byte option))"
    by (rule snprintf_prefix [of "[]" "replicate 1024 None" ?h]) (use room in simp_all)
  from b0 have "take (length ?h) b0 = map Some ?h" "length ?h + length ?rest < length b0"
    using room by simp_all
  from fill_args_prefix [OF this] obtain b where
    b: "fill_args b0 (int (length ?h)) ?args = Some (b, int (length (array_text ?args)))"
    "take (length (array_text ?args)) b = map Some (array_text ?args)" "length b = 1024"
    using b0(3) unfolding cat by auto
  have "load_block b 0 (int (length (array_text ?args))) = Some (map Some (array_text ?args))"
    using b assms by (simp add: load_block_def)
  moreover have "snprintf_at (replicate BUFFER_SIZE None) 0 ?h = Some b0" using b0(1) by (simp add: BUFFER_SIZE_def)
  moreover have "None \<notin> set (map Some (array_text ?args))" by auto
  ultimately show ?thesis
    unfolding send_command_def Let_def cli_tokens_words using b(1)
    by (simp only: Option.bind.simps split_conv case_prod_conv) (simp add: comp_def)
qed

text \<open>
  A line typed at the prompt reaches the server as the words a reader sees in it: when the line cut at
  every blank, empty pieces dropped, has a request text shorter than the buffer of 1024 bytes, the client
  sends exactly the request of its first sixteen words, the server recognises it as one complete message
  whatever follows it in its read buffer, and decodes it to these words.
\<close>

theorem cli_request_decoded:
  fixes line rest :: bytes
  defines "ws \<equiv> take 16 (blank_words line)"
  assumes "ws \<noteq> []" "length (array_text ws) < 1024" "NUL \<in> set rest"
  shows "\<exists>req. send_command line = Some req
    \<and> respParse (req @ rest) 0 (int (length (req @ rest))) = Some (Some (int (length req) - 1))
    \<and> resp_decode (req @ rest) = Some (0, int (length ws), ws)"
proof -
  have "length a \<le> length (concat (map bulk_text ws))" if "a \<in> set ws" for a
    using that by (induction ws) (auto simp: bulk_text_def)
  then have "\<forall>a \<in> set ws. int (length a) \<le> INT_MAX"
    using assms(3) by (fastforce simp: array_text_def c_limits)
  moreover have "int (length ws) \<le> INT_MAX" by (simp add: ws_def c_limits)
  ultimately have "resp_decode (array_text ws @ rest) = Some (0, int (length ws), ws)"
    by (rule resp_decode_array [OF assms(4)])
  moreover have "respParse (array_text ws @ rest) 0 (int (length (array_text ws @ rest))) =
      Some (Some (int (length (array_text ws)) - 1))"
    by (rule parse_request) (use assms in auto)
  moreover have "send_command line = Some (array_text ws)"
    using send_command_text assms(3) unfolding ws_def by simp
  ultimately show ?thesis by blast
qed

theorem cli_request_decoded_witness:
  "\<exists>req. send_command ''  SET k   v '' = Some req
    \<and> respParse (req @ [NUL]) 0 (int (length (req @ [NUL]))) = Some (Some (int (length req) - 1))
    \<and> resp_decode (req @ [NUL]) = Some (0, 3, [''SET'', ''k'', ''v''])"
proof -
  have w: "take 16 (blank_words ''  SET k   v '') = [''SET'', ''k'', ''v'']" by code_simp
  have "length (array_text [''SET'', ''k'', ''v'']) < 1024" by code_simp
  then show ?thesis using cli_request_decoded [of "''  SET k   v ''" "[NUL]"] unfolding w by simp
qed

section \<open>The replies that are printed\<close>

lemma show_reply:
  assumes "length buf = 512" "last buf = NUL" "nul_free a" "length (bulk_text a @ further) \<le> 1023"
  shows "show_replies (Suc n) buf (bulk_text a @ further) =
    (if length (bulk_text a) \<le> 511
     then map_option ((#) (Some a)) (show_replies n (bulk_text a @ drop (length (bulk_text a)) buf) further) else None)"
proof -
  let ?m = "bulk_text a"
  have tot: "length ?m = length (dec_int (int (length a))) + length a + 5" by (simp add: bulk_text_def)
  have p: "respParse ((?m @ further) @ [NUL]) 0 (int (length (?m @ further))) = Some (Some (int (length ?m) - 1))"
    using parse_bulk [of "further @ [NUL]" a "int (length (?m @ further))" "[]"] assms(4) tot
    by (simp add: respParse_def c_limits)
  have e: "int (length ?m) - 1 + 1 = int (length ?m)" by simp
  have l: "load_block (?m @ further) 0 (int (length ?m)) = Some ?m" by (simp add: load_block_def)
  have r: "range_text (?m @ further) (int (length ?m)) (int (length (?m @ further)) - 1) = Some further"
    by (subst range_text_drop) simp_all
  have st: "store_block buf 0 ?m = (if length ?m \<le> 512 then Some (?m @ drop (length ?m) buf) else None)"
    using assms(1) by (simp add: store_block_def)
  have m: "nul_free ?m" using assms(3) by (simp add: nul_free_bulk)
  show ?thesis
  proof (cases "length ?m \<le> 511")
    case True
    let ?j = "takeWhile (\<lambda>c. c \<noteq> NUL) (drop (length ?m) buf)"
    have ne: "drop (length ?m) buf \<noteq> []" using assms(1) True by simp
    then have "last (drop (length ?m) buf) = NUL" using assms(2) by (simp add: last_drop)
    then have "NUL \<in> set (drop (length ?m) buf)" using last_in_set [OF ne] by simp
    then have c: "cstring (?m @ drop (length ?m) buf) 0 = Some (?m @ ?j)"
      using cstring_at [OF m, of "drop (length ?m) buf" "[]"] by simp
    have "nul_free ?j" by (auto simp: nul_free_def dest: set_takeWhileD)
    moreover have "length ?j \<le> 512" using assms(1) length_takeWhile_le [of _ "drop (length ?m) buf"] by (metis diff_le_self le_trans length_drop)
    ultimately have "resp_str (Some (?m @ ?j)) = Some (Some a)"
      using assms(3) True by (intro resp_str_bulk_front) auto
    moreover have "store_block buf 0 ?m = Some (?m @ drop (length ?m) buf)" using st True by simp
    ultimately show ?thesis
      using True unfolding show_replies.simps p
      by (simp only: Option.bind.simps option.case e l r c) (simp split: option.split bind_splits)
  next
    case False
    then have "(store_block buf 0 ?m \<bind> (\<lambda>b. cstring b 0)) = None"
      using assms(1) m unfolding st by (auto simp: cstring_def nul_free_def)
    then show ?thesis
      using False unfolding show_replies.simps p
      by (simp only: Option.bind.simps option.case e l) (auto split: option.split bind_splits)
  qed
qed

lemma show_all_replies:
  assumes "length buf = 512" "last buf = NUL" "\<forall>a \<in> set as. nul_free a" "length (concat (map bulk_text as)) \<le> 1023" "length as < n"
  shows "show_replies n buf (concat (map bulk_text as)) =
    (if \<forall>a \<in> set as. length (bulk_text a) \<le> 511 then Some (map Some as) else None)"
  using assms
proof (induction as arbitrary: n buf)
  case Nil
  then obtain k where k: "n = Suc k" by (cases n) auto
  have "respParse [NUL] 0 0 = Some None" by code_simp
  then show ?case by (simp add: k)
next
  case (Cons a as)
  then obtain k where k: "n = Suc k" by (cases n) auto
  let ?buf = "bulk_text a @ drop (length (bulk_text a)) buf"
  have "show_replies k ?buf (concat (map bulk_text as)) =
      (if \<forall>a \<in> set as. length (bulk_text a) \<le> 511 then Some (map Some as) else None)" if "length (bulk_text a) \<le> 511"
    by (rule Cons.IH) (use Cons.prems that k in auto)
  then show ?case using show_reply [OF Cons.prems(1,2), of a "concat (map bulk_text as)" k] Cons.prems(3,4) k by auto
qed



end
