(* ===== verification/LineHistory.thy ===== *)
theory LineHistory
  imports Conf
begin

text \<open>
  The history of the line editor (\<open>src/linenoise.c\<close>): the static variables of the file, and
  \<open>linenoiseHistoryAdd\<close>, \<open>linenoiseHistorySetMaxLen\<close>, \<open>linenoiseHistorySave\<close> and
  \<open>linenoiseHistoryLoad\<close> over the array of slots the C code keeps.  A slot is \<open>None\<close> when its pointer is
  null or dangling, so following or freeing such a pointer is undefined.

  The lemmas show that the array is a list bounded by \<open>history_max_len\<close> that takes no line twice in a
  row, and what survives saving and loading.
\<close>

section \<open>The static variables\<close>

text \<open>What one \<open>read\<close> of a byte from the terminal answers; \<open>Fail True\<close> is \<open>EAGAIN\<close>.\<close>

datatype tty_read = Got byte | Hangup | Fail bool

text \<open>
  The variables of \<open>linenoise.c\<close>, and the terminal: \<open>tty_in\<close> is what the next reads answer (no more input
  is a hang-up), \<open>tty_out\<close> and \<open>tty_err\<close> are the bytes written, \<open>tty_broken\<close> says that writes fail,
  \<open>tc_ok\<close> that \<open>tcgetattr\<close> and \<open>tcsetattr\<close> work, \<open>winsize\<close> is the column count that \<open>ioctl\<close> reports.
  A callback is a function of the line; a hint comes with its colour and boldness, and of the callback that
  frees it only its presence is kept.
\<close>

record line_env =
  mlmode :: bool
  maskmode :: bool
  rawmode :: bool
  history :: "bytes option list option"
  history_len :: int
  history_max_len :: int
  completionCallback :: "(bytes \<Rightarrow> bytes list) option"
  hintsCallback :: "(bytes \<Rightarrow> (bytes \<times> int \<times> int) option) option"
  freeHintsCallback :: bool
  stdin_tty :: bool
  tc_ok :: bool
  winsize :: "nat option"
  tty_broken :: bool
  tty_in :: "tty_read list"
  tty_out :: bytes
  tty_err :: bytes

text \<open>The variables before \<open>main\<close>, on a working terminal of \<open>cols\<close> columns where \<open>inp\<close> is going to be typed.\<close>

definition line_init :: "nat \<Rightarrow> tty_read list \<Rightarrow> line_env" where
  "line_init cols inp = \<lparr> mlmode = False, maskmode = False, rawmode = False,
     history = None, history_len = 0, history_max_len = 100,
     completionCallback = None, hintsCallback = None, freeHintsCallback = False,
     stdin_tty = True, tc_ok = True, winsize = Some cols, tty_broken = False,
     tty_in = inp, tty_out = [], tty_err = [] \<rparr>"

definition LINENOISE_MAX_LINE :: nat where "LINENOISE_MAX_LINE = 4096"

section \<open>Operations\<close>

text \<open>The string of a slot: undefined outside the array and for a pointer that leads nowhere.\<close>

definition slot :: "bytes option list \<Rightarrow> int \<Rightarrow> bytes option" where
  "slot h i = Option.bind (load h i) (\<lambda>s. s)"

definition linenoiseHistoryAdd :: "line_env \<Rightarrow> bytes \<Rightarrow> (int \<times> line_env) option" where
  "linenoiseHistoryAdd E line =
     (if history_max_len E = 0 then Some (0, E)
      else if history E = None \<and> history_max_len E < 0 then Some (0, E)
      else do {
        let h = (case history E of None \<Rightarrow> replicate (nat (history_max_len E)) None | Some h \<Rightarrow> h);
        let n = history_len E;
        dup \<leftarrow> (if n = 0 then Some False else do { s \<leftarrow> slot h (n - 1); Some (s = line) });
        if dup then Some (0, E\<lparr>history := Some h\<rparr>)
        else do {
          (h, n) \<leftarrow> (if n = history_max_len E
             then do {
               _ \<leftarrow> slot h 0;
               rest \<leftarrow> load_block h 1 (history_max_len E - 1);
               h \<leftarrow> store_block h 0 rest;
               Some (h, n - 1)
             }
             else Some (h, n));
          h \<leftarrow> store h n (Some line);
          Some (1, E\<lparr>history := Some h, history_len := n + 1\<rparr>)
        }
      })"

text \<open>The lines in the first \<open>n\<close> slots.\<close>

definition slots :: "bytes option list \<Rightarrow> int \<Rightarrow> bytes list option" where
  "slots h n = those (map (\<lambda>j. slot h (int j)) [0..<nat n])"

definition linenoiseHistorySetMaxLen :: "line_env \<Rightarrow> int \<Rightarrow> (int \<times> line_env) option" where
  "linenoiseHistorySetMaxLen E len =
     (if len < 1 then Some (0, E)
      else do {
        h \<leftarrow> (case history E of
            None \<Rightarrow> Some None
          | Some h \<Rightarrow> do {
              let all_of_it = history_len E;
              _ \<leftarrow> slots h (all_of_it - len);
              let tocopy = (if len < all_of_it then len else all_of_it);
              kept \<leftarrow> load_block h (history_len E - tocopy) tocopy;
              Some (Some (kept @ replicate (nat (len - tocopy)) None))
            });
        Some (1, E\<lparr>history := h, history_max_len := len,
                   history_len := (if history_len E > len then len else history_len E)\<rparr>)
      })"

text \<open>The result of saving, with the bytes of the new file when it could be opened.\<close>

definition linenoiseHistorySave :: "line_env \<Rightarrow> bool \<Rightarrow> (int \<times> bytes option) option" where
  "linenoiseHistorySave E opened =
     (if \<not> opened then Some (-1, None)
      else do {
        ls \<leftarrow> (case history E of
            Some h \<Rightarrow> slots h (history_len E)
          | None \<Rightarrow> if history_len E \<le> 0 then Some [] else None);
        Some (0, Some (concat (map (\<lambda>l. l @ [LF]) ls)))
      })"

text \<open>The line that is kept of what \<open>fgets\<close> left in the buffer.\<close>

definition history_line :: "bytes \<Rightarrow> bytes" where
  "history_line l =
     (let s = takeWhile (\<lambda>c. c \<noteq> NUL) l in
      if CR \<in> set s then takeWhile (\<lambda>c. c \<noteq> CR) s else takeWhile (\<lambda>c. c \<noteq> LF) s)"

function load_lines :: "line_env \<Rightarrow> bytes \<Rightarrow> line_env option" where
  "load_lines E f =
     (if f = [] then Some E
      else case fgets (LINENOISE_MAX_LINE - 1) f of (l, rest) \<Rightarrow>
        do { (_, E) \<leftarrow> linenoiseHistoryAdd E (history_line l); load_lines E rest })"
  by pat_completeness auto
termination
  by (relation "measure (\<lambda>(E, f). length f)") (auto simp: LINENOISE_MAX_LINE_def dest: fgets_shorter)

declare load_lines.simps [simp del]

definition linenoiseHistoryLoad :: "line_env \<Rightarrow> bytes option \<Rightarrow> (int \<times> line_env) option" where
  "linenoiseHistoryLoad E file = (case file of
       None \<Rightarrow> Some (-1, E)
     | Some f \<Rightarrow> do { E \<leftarrow> load_lines E f; Some (0, E) })"

text \<open>\<open>freeHistory\<close>, called at exit, frees the lines but leaves the variables.\<close>

definition freeHistory :: "line_env \<Rightarrow> unit option" where
  "freeHistory E = (case history E of
       None \<Rightarrow> Some ()
     | Some h \<Rightarrow> do { _ \<leftarrow> slots h (history_len E); Some () })"

section \<open>The bounded list of lines\<close>

text \<open>The contract of a log of lines: what adding a line to a list of at most \<open>m\<close> lines leaves.\<close>

definition push_line :: "nat \<Rightarrow> bytes \<Rightarrow> bytes list \<Rightarrow> bytes list" where
  "push_line m x xs = (if xs \<noteq> [] \<and> last xs = x then xs else drop (Suc (length xs) - m) (xs @ [x]))"

text \<open>The list is unchanged where no line repeats its neighbour and all fit.\<close>

fun no_repeat :: "bytes list \<Rightarrow> bool" where
  "no_repeat (x # y # xs) = (x \<noteq> y \<and> no_repeat (y # xs))"
| "no_repeat _ = True"

lemma no_repeat_snoc: "no_repeat (xs @ [x]) \<longleftrightarrow> no_repeat xs \<and> (xs = [] \<or> last xs \<noteq> x)"
  by (induction xs rule: no_repeat.induct) auto

lemma no_repeat_drop: "no_repeat xs \<Longrightarrow> no_repeat (drop n xs)"
proof (induction xs arbitrary: n rule: no_repeat.induct)
  case (1 x y xs)
  then show ?case by (cases n) auto
qed (auto simp: drop_Cons split: nat.split)

lemma push_line_length: "length xs \<le> m \<Longrightarrow> 0 < m \<Longrightarrow> length (push_line m x xs) \<le> m"
  by (auto simp: push_line_def)

lemma push_line_no_repeat: "no_repeat xs \<Longrightarrow> no_repeat (push_line m x xs)"
  by (auto simp: push_line_def no_repeat_snoc simp del: drop_append intro!: no_repeat_drop)

lemma push_line_set: "set (push_line m x xs) \<subseteq> insert x (set xs)"
  by (auto simp: push_line_def simp del: drop_append dest!: in_set_dropD)

lemma fold_push_line:
  "no_repeat (ys @ xs) \<Longrightarrow> length (ys @ xs) \<le> m \<Longrightarrow> fold (push_line m) xs ys = ys @ xs"
proof (induction xs rule: rev_induct)
  case (snoc x xs)
  have s: "no_repeat ((ys @ xs) @ [x])" using snoc.prems(1) by simp
  then have "fold (push_line m) xs ys = ys @ xs"
    using snoc.IH snoc.prems(2) no_repeat_snoc [of "ys @ xs" x] by simp
  moreover have "push_line m x (ys @ xs) = (ys @ xs) @ [x]"
    using s snoc.prems(2) unfolding no_repeat_snoc by (auto simp: push_line_def)
  ultimately show ?case by simp
qed simp

locale line_log =
  fixes log_add :: "'s \<Rightarrow> bytes \<Rightarrow> 's option"
    and log_lines :: "'s \<Rightarrow> bytes list"
    and log_cap :: "'s \<Rightarrow> nat"
    and log_ok :: "'s \<Rightarrow> bool"
  assumes add_law: "log_ok s \<Longrightarrow> \<exists>s'. log_add s x = Some s' \<and> log_ok s' \<and> log_cap s' = log_cap s
      \<and> log_lines s' = push_line (log_cap s) x (log_lines s)"
    and bound_law: "log_ok s \<Longrightarrow> length (log_lines s) \<le> log_cap s"
begin

primrec add_all :: "'s \<Rightarrow> bytes list \<Rightarrow> 's option" where
  "add_all s [] = Some s"
| "add_all s (x # xs) = Option.bind (log_add s x) (\<lambda>s. add_all s xs)"

lemma add_all_fold:
  "log_ok s \<Longrightarrow> \<exists>s'. add_all s xs = Some s' \<and> log_ok s' \<and> log_cap s' = log_cap s
      \<and> log_lines s' = fold (push_line (log_cap s)) xs (log_lines s)"
proof (induction xs arbitrary: s)
  case (Cons x xs)
  obtain t where t: "log_add s x = Some t" "log_ok t" "log_cap t = log_cap s"
      "log_lines t = push_line (log_cap s) x (log_lines s)"
    using add_law [OF Cons.prems] by blast
  then show ?case using Cons.IH [of t] by simp
qed simp

lemma add_all_restores:
  assumes "log_ok s" "log_lines s = []" "no_repeat xs" "length xs \<le> log_cap s"
  shows "\<exists>s'. add_all s xs = Some s' \<and> log_ok s' \<and> log_lines s' = xs"
  using add_all_fold [OF assms(1), of xs] fold_push_line [of "[]" xs "log_cap s"] assms by auto

end

section \<open>The array of slots\<close>

definition hist_lines :: "line_env \<Rightarrow> bytes list" where
  "hist_lines E = (case history E of None \<Rightarrow> [] | Some h \<Rightarrow> map the (take (nat (history_len E)) h))"

definition history_wf :: "line_env \<Rightarrow> bool" where
  "history_wf E \<longleftrightarrow> 0 < history_max_len E \<and> 0 \<le> history_len E \<and> history_len E \<le> history_max_len E
     \<and> (case history E of
          None \<Rightarrow> history_len E = 0
        | Some h \<Rightarrow> length h = nat (history_max_len E) \<and> None \<notin> set (take (nat (history_len E)) h))"

lemma map_Some_the: "None \<notin> set xs \<Longrightarrow> map Some (map the xs) = xs"
  by (induction xs) auto

text \<open>The used slots hold the lines.\<close>

lemma history_repr:
  assumes "history_wf E" "history E = Some h"
  shows "h = map Some (hist_lines E) @ drop (nat (history_len E)) h"
    and "length (hist_lines E) = nat (history_len E)"
proof -
  have l: "length h = nat (history_max_len E)" and n: "None \<notin> set (take (nat (history_len E)) h)"
    using assms by (auto simp: history_wf_def)
  then show "h = map Some (hist_lines E) @ drop (nat (history_len E)) h"
    using map_Some_the [OF n] assms(2) by (simp add: hist_lines_def)
  show "length (hist_lines E) = nat (history_len E)"
    using assms l by (auto simp: hist_lines_def history_wf_def)
qed

lemma hist_lines_length: "history_wf E \<Longrightarrow> int (length (hist_lines E)) = history_len E"
  using history_repr [of E]
  by (cases "history E") (auto simp: history_wf_def hist_lines_def)

lemma slot_repr:
  "history_wf E \<Longrightarrow> history E = Some h \<Longrightarrow> 0 \<le> i \<Longrightarrow> i < history_len E \<Longrightarrow> slot h i = Some (hist_lines E ! nat i)"
proof -
  assume a: "history_wf E" "history E = Some h" "0 \<le> i" "i < history_len E"
  have n: "nat i < length (hist_lines E)" using a history_repr(2) [OF a(1,2)] by simp
  have "h ! nat i = Some (hist_lines E ! nat i)"
    by (subst history_repr(1) [OF a(1,2)]) (simp add: nth_append n)
  moreover have "i < int (length h)"
    using a by (auto simp: history_wf_def)
  ultimately show ?thesis using a(3) by (simp add: slot_def load_def)
qed

lemma slots_repr:
  assumes "history_wf E" "history E = Some h" "n \<le> history_len E"
  shows "slots h n = Some (take (nat n) (hist_lines E))"
proof -
  have len: "length (hist_lines E) = nat (history_len E)" by (rule history_repr(2) [OF assms(1,2)])
  have "slot h (int j) = Some (hist_lines E ! j)" if "j < nat n" for j
    using slot_repr [OF assms(1,2), of "int j"] assms(3) that by simp
  then have "map (\<lambda>j. slot h (int j)) [0..<nat n] = map Some (take (nat n) (hist_lines E))"
    using assms(3) len by (intro nth_equalityI) auto
  moreover have "those (map Some ys) = Some ys" for ys :: "bytes list" by (induction ys) simp_all
  ultimately show ?thesis by (simp add: slots_def)
qed

text \<open>Replacing the line of a used slot.\<close>

lemma history_store:
  assumes "history_wf E" "history E = Some h" "0 \<le> i" "i < history_len E"
  shows "store h i (Some s) = Some (h[nat i := Some s])"
    "history_wf (E\<lparr>history := Some (h[nat i := Some s])\<rparr>)"
    "hist_lines (E\<lparr>history := Some (h[nat i := Some s])\<rparr>) = (hist_lines E)[nat i := s]"
proof -
  have h: "length h = nat (history_max_len E)" "None \<notin> set (take (nat (history_len E)) h)"
      "history_len E \<le> history_max_len E" "0 < history_max_len E"
    using assms by (auto simp: history_wf_def)
  then have i: "nat i < length h" "nat i < nat (history_len E)" using assms(3,4) by auto
  then show "store h i (Some s) = Some (h[nat i := Some s])" using assms(3) by (auto simp: store_def)
  have "take (nat (history_len E)) (h[nat i := Some s]) = (take (nat (history_len E)) h)[nat i := Some s]"
    by (rule take_update_swap)
  moreover have "None \<notin> set ((take (nat (history_len E)) h)[nat i := Some s])"
    using h(2) set_update_subset_insert [of "take (nat (history_len E)) h" "nat i" "Some s"] by auto
  ultimately show "history_wf (E\<lparr>history := Some (h[nat i := Some s])\<rparr>)"
    "hist_lines (E\<lparr>history := Some (h[nat i := Some s])\<rparr>) = (hist_lines E)[nat i := s]"
    using assms h by (auto simp: history_wf_def hist_lines_def map_update)
qed

text \<open>An array made of given lines and unused slots.\<close>

lemma history_wf_intro:
  assumes "history E = Some (map Some xs @ r)" "history_len E = int (length xs)"
    "history_max_len E = int (length xs + length r)" "0 < history_max_len E"
  shows "history_wf E" "hist_lines E = xs"
  using assms by (auto simp: history_wf_def hist_lines_def)


lemma history_array:
  assumes "history_wf E"
  obtains r where "(case history E of None \<Rightarrow> replicate (nat (history_max_len E)) None | Some h \<Rightarrow> h)
      = map Some (hist_lines E) @ r"
    "history_max_len E = int (length (hist_lines E) + length r)"
proof (cases "history E")
  case None
  have "0 < history_max_len E" "hist_lines E = []"
    using assms None by (auto simp: history_wf_def hist_lines_def)
  then show ?thesis using that [of "replicate (nat (history_max_len E)) None"] None by simp
next
  case (Some h)
  let ?r = "drop (nat (history_len E)) h"
  have e: "h = map Some (hist_lines E) @ ?r" and l: "length (hist_lines E) = nat (history_len E)"
    by (rule history_repr [OF assms Some])+
  have "length h = nat (history_max_len E)" "0 < history_max_len E" "0 \<le> history_len E"
      "history_len E \<le> history_max_len E"
    using assms Some by (auto simp: history_wf_def)
  then have "history_max_len E = int (length (hist_lines E) + length ?r)" using l by simp
  then show ?thesis using that [of ?r] e Some by simp
qed

text \<open>The slot before the first unused one.\<close>

lemma slot_last:
  assumes "xs \<noteq> []"
  shows "slot (map Some xs @ r) (int (length xs) - 1) = Some (last xs)"
proof -
  have "nat (int (length xs) - 1) = length xs - 1" by simp
  then show ?thesis using assms by (simp add: slot_def load_def nth_append last_conv_nth)
qed

lemma shift_slots:
  assumes "int (length xs) = m" "xs \<noteq> []"
  shows "load_block (map Some xs) 1 (m - 1) = Some (map Some (tl xs))"
    "store_block (map Some xs) 0 (map Some (tl xs)) = Some (map Some (tl xs) @ [Some (last xs)])"
proof -
  obtain y ys where xs: "xs = y # ys" using assms(2) by (cases xs) auto
  show "load_block (map Some xs) 1 (m - 1) = Some (map Some (tl xs))"
    using assms by (simp add: load_block_def xs)
  have "drop (length ys) (Some y # map Some ys) = [Some (last xs)]"
    by (cases ys rule: rev_cases) (auto simp: xs)
  then show "store_block (map Some xs) 0 (map Some (tl xs)) = Some (map Some (tl xs) @ [Some (last xs)])"
    by (simp add: store_block_def xs)
qed

lemma history_add:
  assumes wf: "history_wf E"
  shows "\<exists>h n. linenoiseHistoryAdd E line
      = Some (if hist_lines E \<noteq> [] \<and> last (hist_lines E) = line then 0 else 1, E\<lparr>history := Some h, history_len := n\<rparr>)
    \<and> history_wf (E\<lparr>history := Some h, history_len := n\<rparr>)
    \<and> hist_lines (E\<lparr>history := Some h, history_len := n\<rparr>) = push_line (nat (history_max_len E)) line (hist_lines E)"
proof -
  define xs where "xs = hist_lines E"
  obtain r where h: "(case history E of None \<Rightarrow> replicate (nat (history_max_len E)) None | Some h \<Rightarrow> h)
      = map Some xs @ r" and m: "history_max_len E = int (length xs + length r)"
    using history_array [OF wf] unfolding xs_def by blast
  have n: "history_len E = int (length xs)" using hist_lines_length [OF wf] by (simp add: xs_def)
  have pos: "0 < history_max_len E" using wf by (simp add: history_wf_def)
  define dup where "dup \<longleftrightarrow> xs \<noteq> [] \<and> last xs = line"
  have d: "(if history_len E = 0 then Some False
      else do { s \<leftarrow> slot (map Some xs @ r) (history_len E - 1); Some (s = line) }) = Some dup"
    using slot_last [of xs r] by (auto simp: n dup_def)
  have ok: "linenoiseHistoryAdd E line
      = Some (if dup then 0 else 1, E\<lparr>history := Some (map Some ys @ r'), history_len := int (length ys)\<rparr>)
    \<and> history_wf (E\<lparr>history := Some (map Some ys @ r'), history_len := int (length ys)\<rparr>)
    \<and> hist_lines (E\<lparr>history := Some (map Some ys @ r'), history_len := int (length ys)\<rparr>) = ys"
    if "linenoiseHistoryAdd E line
      = Some (if dup then 0 else 1, E\<lparr>history := Some (map Some ys @ r'), history_len := int (length ys)\<rparr>)"
      "history_max_len E = int (length ys + length r')" for ys r'
    using that history_wf_intro [of "E\<lparr>history := Some (map Some ys @ r'), history_len := int (length ys)\<rparr>" ys r'] pos
    by simp
  note add = linenoiseHistoryAdd_def [of E line, unfolded h Let_def d]
  consider (dup) dup | (full) "\<not> dup" "r = []" | (room) z r' where "\<not> dup" "r = z # r'" by (cases r) auto
  then show ?thesis
  proof cases
    case dup
    have "linenoiseHistoryAdd E line
        = Some (if dup then 0 else 1, E\<lparr>history := Some (map Some xs @ r), history_len := int (length xs)\<rparr>)"
      using pos dup by (simp add: add n [symmetric])
    moreover have "push_line (nat (history_max_len E)) line xs = xs"
      using dup by (simp add: dup_def push_line_def)
    ultimately show ?thesis using ok [OF _ m] unfolding dup_def xs_def by metis
  next
    case full
    have ne: "xs \<noteq> []" using pos m full(2) by auto
    have s: "slot (map Some xs) 0 = Some (hd xs)" using ne by (simp add: slot_def load_def hd_conv_nth)
    have st: "store (map Some (tl xs) @ [Some (last xs)]) (int (length xs) - 1) (Some line) = Some (map Some (tl xs @ [line]))"
      using ne by (cases xs) (simp_all add: store_def list_update_append)
    have len: "length (tl xs @ [line]) = length xs" using ne by simp
    have "linenoiseHistoryAdd E line
        = Some (if dup then 0 else 1,
            E\<lparr>history := Some (map Some (tl xs @ [line]) @ []), history_len := int (length (tl xs @ [line]))\<rparr>)"
      using pos full m shift_slots [OF _ ne] s st unfolding len by (simp add: add n)
    moreover have "push_line (nat (history_max_len E)) line xs = tl xs @ [line]"
      using full m ne by (cases xs) (auto simp: dup_def push_line_def nat_add_distrib)
    moreover have "history_max_len E = int (length (tl xs @ [line]) + length [])" using m full(2) len by simp
    ultimately show ?thesis using ok [of "tl xs @ [line]" "[]"] unfolding dup_def xs_def by metis
  next
    case room
    have st: "store (map Some xs @ r) (int (length xs)) (Some line) = Some (map Some (xs @ [line]) @ r')"
      using list_update_length [of "map Some xs" z r' "Some line"] by (simp add: store_def room(2))
    have "linenoiseHistoryAdd E line
        = Some (if dup then 0 else 1, E\<lparr>history := Some (map Some (xs @ [line]) @ r'), history_len := int (length (xs @ [line]))\<rparr>)"
      using pos room m st by (simp add: add n add.commute)
    moreover have "push_line (nat (history_max_len E)) line xs = xs @ [line]"
      using room m by (auto simp: dup_def push_line_def)
    moreover have "history_max_len E = int (length (xs @ [line]) + length r')" using m room(2) by simp
    ultimately show ?thesis using ok [of "xs @ [line]" r'] unfolding dup_def xs_def by metis
  qed
qed


definition add_step :: "line_env \<Rightarrow> bytes \<Rightarrow> line_env option" where
  "add_step E line = map_option snd (linenoiseHistoryAdd E line)"

lemma add_step_law:
  assumes "history_wf E"
  shows "\<exists>E'. add_step E x = Some E' \<and> history_wf E' \<and> nat (history_max_len E') = nat (history_max_len E)
      \<and> hist_lines E' = push_line (nat (history_max_len E)) x (hist_lines E)"
  using history_add [OF assms, of x] by (auto simp: add_step_def)

interpretation ln_log: line_log add_step hist_lines "\<lambda>E. nat (history_max_len E)" history_wf
proof unfold_locales
  fix E :: line_env
  assume "history_wf E"
  then show "length (hist_lines E) \<le> nat (history_max_len E)"
    using hist_lines_length [of E] by (auto simp: history_wf_def)
qed (rule add_step_law)

section \<open>Saving and loading\<close>

text \<open>A line that the file can hold: one piece of \<open>fgets\<close>, ended by its line feed alone.\<close>

definition file_line :: "bytes \<Rightarrow> bool" where
  "file_line l \<longleftrightarrow> nul_free l \<and> CR \<notin> set l \<and> LF \<notin> set l \<and> length l < LINENOISE_MAX_LINE - 1"

lemma history_line_plain: "file_line l \<Longrightarrow> history_line (l @ [LF]) = l"
  by (auto simp: file_line_def history_line_def nul_free_def Let_def takeWhile_append)

lemma load_lines_add_all:
  "list_all file_line ls \<Longrightarrow> load_lines E (concat (map (\<lambda>l. l @ [LF]) ls)) = ln_log.add_all E ls"
proof (induction ls arbitrary: E)
  case Nil
  show ?case by (simp add: load_lines.simps [of E "[]"])
next
  case (Cons l ls)
  let ?f = "concat (map (\<lambda>l. l @ [LF]) ls)"
  have g: "fgets (LINENOISE_MAX_LINE - 1) (l @ LF # ?f) = (l @ [LF], ?f)"
    using Cons.prems by (intro fgets_line) (auto simp: file_line_def)
  have "load_lines E (l @ LF # ?f) = do { E \<leftarrow> add_step E l; load_lines E ?f }"
    using Cons.prems g
    by (subst load_lines.simps)
      (cases "linenoiseHistoryAdd E l"; auto simp: history_line_plain add_step_def split_def)
  then show ?case using Cons by simp
qed

lemma history_save:
  assumes "history_wf E"
  shows "linenoiseHistorySave E True = Some (0, Some (concat (map (\<lambda>l. l @ [LF]) (hist_lines E))))"
proof (cases "history E")
  case None
  then show ?thesis using assms by (simp add: linenoiseHistorySave_def history_wf_def hist_lines_def)
next
  case (Some h)
  then show ?thesis using slots_repr [OF assms Some, of "history_len E"] history_repr(2) [OF assms Some]
    by (simp add: linenoiseHistorySave_def)
qed

text \<open>
  C37. The history a session has saved is the history the next session starts with, when no line repeats
  the one before it and every line is shorter than 4095 bytes and holds no carriage return or line feed.
\<close>

theorem history_saved_and_loaded:
  assumes "history_wf E" "history_wf F" "hist_lines F = []" "history_max_len F = history_max_len E"
    "no_repeat (hist_lines E)" "list_all file_line (hist_lines E)"
  shows "\<exists>f F'. linenoiseHistorySave E True = Some (0, Some f) \<and> linenoiseHistoryLoad F (Some f) = Some (0, F')
    \<and> history_wf F' \<and> hist_lines F' = hist_lines E"
proof -
  let ?f = "concat (map (\<lambda>l. l @ [LF]) (hist_lines E))"
  have "length (hist_lines E) \<le> nat (history_max_len F)"
    using ln_log.bound_law [OF assms(1)] assms(4) by simp
  then obtain F' where "ln_log.add_all F (hist_lines E) = Some F'" "history_wf F'" "hist_lines F' = hist_lines E"
    using ln_log.add_all_restores [OF assms(2,3,5)] by auto
  then show ?thesis
    using load_lines_add_all [OF assms(6), of F] history_save [OF assms(1)] by (simp add: linenoiseHistoryLoad_def)
qed

theorem history_saved_and_loaded_witness:
  "let E = (line_init 80 [])\<lparr>history := Some ([Some ''get k'', Some ''set k v''] @ replicate 98 None), history_len := 2\<rparr>
   in \<exists>f F'. linenoiseHistorySave E True = Some (0, Some f)
     \<and> linenoiseHistoryLoad (line_init 80 []) (Some f) = Some (0, F')
     \<and> history_wf F' \<and> hist_lines F' = [''get k'', ''set k v'']"
proof -
  let ?E = "(line_init 80 [])\<lparr>history := Some ([Some ''get k'', Some ''set k v''] @ replicate 98 None), history_len := 2\<rparr>"
  have l: "hist_lines ?E = [''get k'', ''set k v'']" by (simp add: hist_lines_def line_init_def)
  have "\<exists>f F'. linenoiseHistorySave ?E True = Some (0, Some f)
      \<and> linenoiseHistoryLoad (line_init 80 []) (Some f) = Some (0, F') \<and> history_wf F' \<and> hist_lines F' = hist_lines ?E"
  proof (rule history_saved_and_loaded)
    show "history_wf ?E" "history_wf (line_init 80 [])" by (simp_all add: history_wf_def line_init_def)
    show "hist_lines (line_init 80 []) = []" by (simp add: hist_lines_def line_init_def)
    show "history_max_len (line_init 80 []) = history_max_len ?E" by (simp add: line_init_def)
    show "no_repeat (hist_lines ?E)" unfolding l by simp
    show "list_all file_line (hist_lines ?E)" unfolding l by (simp add: file_line_def LINENOISE_MAX_LINE_def)
  qed
  then show ?thesis unfolding l Let_def .
qed

section \<open>Changing the bound\<close>

lemma history_set_max:
  assumes wf: "history_wf E" and "1 \<le> m"
  shows "\<exists>E'. linenoiseHistorySetMaxLen E m = Some (1, E') \<and> history_wf E' \<and> history_max_len E' = m
    \<and> hist_lines E' = drop (length (hist_lines E) - nat m) (hist_lines E)"
proof (cases "history E")
  case None
  then show ?thesis using assms by (auto simp: linenoiseHistorySetMaxLen_def history_wf_def hist_lines_def)
next
  case (Some h)
  define xs where "xs = hist_lines E"
  define ys where "ys = drop (length xs - nat m) xs"
  define t where "t = (if m < history_len E then m else history_len E)"
  have n: "history_len E = int (length xs)" using hist_lines_length [OF wf] by (simp add: xs_def)
  have h: "h = map Some xs @ drop (length xs) h"
    using history_repr(1) [OF wf Some] n by (simp add: xs_def)
  have fr: "slots h (history_len E - m) = Some (take (nat (history_len E - m)) xs)"
    using slots_repr [OF wf Some, of "history_len E - m"] assms(2) by (simp add: xs_def)
  have ty: "nat t = length ys" "t = int (length ys)" "nat (history_len E - t) = length xs - length ys"
    using assms(2) by (auto simp: t_def ys_def n)
  have "drop (length xs - length ys) xs = ys" by (auto simp: ys_def)
  then have lb: "load_block h (history_len E - t) t = Some (map Some ys)"
    using assms(2) ty by (subst h) (auto simp: load_block_def n drop_map [symmetric] ys_def t_def)
  let ?E = "E\<lparr>history := Some (map Some ys @ replicate (nat (m - t)) None), history_max_len := m, history_len := t\<rparr>"
  have "linenoiseHistorySetMaxLen E m = Some (1, ?E)"
    using assms(2) fr lb Some unfolding t_def by (auto simp: linenoiseHistorySetMaxLen_def Let_def)
  moreover have "history_wf ?E" "hist_lines ?E = ys"
  proof -
    have "t \<le> m" by (simp add: t_def)
    then have "m = int (length ys + length (replicate (nat (m - t)) (None :: bytes option)))" using ty by simp
    then show "history_wf ?E" "hist_lines ?E = ys"
      using history_wf_intro [where E = ?E and xs = ys and r = "replicate (nat (m - t)) None"] assms(2) ty by simp_all
  qed
  ultimately show ?thesis unfolding ys_def xs_def by auto
qed

end
