(* ===== verification/LineRefresh.thy ===== *)
theory LineRefresh
  imports LineHistory
begin

text \<open>
  The screen of the line editor (\<open>src/linenoise.c\<close>): \<open>struct linenoiseState\<close>, \<open>refreshSingleLine\<close>,
  \<open>refreshMultiLine\<close>, the hints, the display of a completion, and the column count of the terminal.
  \<open>size_t\<close> values are naturals below \<open>2 ^ 64\<close> with the wrap-around written out where the code subtracts.

  The lemmas show which bytes a refresh sends, and that it stays inside the buffer when the terminal
  is wider than the prompt.
\<close>

section \<open>The state of an edit\<close>

text \<open>\<open>l_buf\<close> is all the memory behind the pointer \<open>buf\<close>; the prompt is its text before the terminator.\<close>

record linenoiseState =
  in_completion :: bool
  completion_idx :: nat
  l_buf :: bytes
  l_buflen :: nat
  l_prompt :: bytes
  l_plen :: nat
  l_pos :: nat
  l_oldpos :: nat
  l_len :: nat
  l_cols :: nat
  l_oldrows :: nat
  history_index :: int

section \<open>Arithmetic of \<open>size_t\<close> and \<open>int\<close>\<close>

definition sz :: "nat \<Rightarrow> nat" where
  "sz n = n mod 2 ^ 64"

definition sz_dec :: "nat \<Rightarrow> nat" where
  "sz_dec n = sz (n + (2 ^ 64 - 1))"

definition sz_sub :: "nat \<Rightarrow> nat \<Rightarrow> nat" where
  "sz_sub a b = (if b \<le> a then a - b else sz (a + (2 ^ 64 - sz b)))"

definition c_int :: "nat \<Rightarrow> int" where
  "c_int n = (int n + 2 ^ 31) mod 2 ^ 32 - 2 ^ 31"

text \<open>The remainder of C takes the sign of the dividend.\<close>

definition c_rem :: "int \<Rightarrow> int \<Rightarrow> int" where
  "c_rem a b = sgn a * (\<bar>a\<bar> mod \<bar>b\<bar>)"

lemma sz_small [simp]: "n < 2 ^ 64 \<Longrightarrow> sz n = n"
  by (simp add: sz_def)

lemma sz_dec_pos [simp]: "0 < n \<Longrightarrow> n < 2 ^ 64 \<Longrightarrow> sz_dec n = n - 1"
proof -
  assume n: "0 < n" "n < 2 ^ 64"
  then have "n + (2 ^ 64 - 1) = (n - 1) + 2 ^ 64" by simp
  then have "sz_dec n = (n - 1) mod 2 ^ 64" unfolding sz_dec_def sz_def by (metis mod_add_self2)
  then show ?thesis using n by simp
qed

lemma sz_add_dec: "0 < sz (p + n) \<Longrightarrow> sz (p + sz_dec n) = sz (p + n) - 1"
proof -
  assume "0 < sz (p + n)"
  moreover have "sz (p + sz_dec n) = sz (sz (p + n) + (2 ^ 64 - 1))"
    by (simp add: sz_dec_def sz_def mod_simps add.assoc)
  moreover have "sz (p + n) < 2 ^ 64" by (simp add: sz_def)
  ultimately show ?thesis using sz_dec_pos [of "sz (p + n)"] by (simp add: sz_dec_def)
qed

lemma sz_sub_le [simp]: "b \<le> a \<Longrightarrow> sz_sub a b = a - b"
  by (simp add: sz_sub_def)

lemma c_int_small [simp]: "n < 2 ^ 31 \<Longrightarrow> c_int n = int n"
  by (simp add: c_int_def)

section \<open>Writing to the terminal\<close>

abbreviation ESC :: char where "ESC \<equiv> CHR 0x1B"

definition tty_write :: "line_env \<Rightarrow> bytes \<Rightarrow> int \<times> line_env" where
  "tty_write E s = (if tty_broken E then (-1, E) else (int (length s), E\<lparr>tty_out := tty_out E @ s\<rparr>))"

definition linenoiseClearScreen :: "line_env \<Rightarrow> line_env" where
  "linenoiseClearScreen E = snd (tty_write E (ESC # ''[H'' @ ESC # ''[2J''))"

definition linenoiseBeep :: "line_env \<Rightarrow> line_env" where
  "linenoiseBeep E = E\<lparr>tty_err := tty_err E @ [CHR 0x07]\<rparr>"

text \<open>\<open>abAppend\<close> of \<open>n\<close> bytes from an offset in a source buffer; the length is an \<open>int\<close>.\<close>

definition abAppend :: "bytes \<Rightarrow> bytes \<Rightarrow> nat \<Rightarrow> nat \<Rightarrow> bytes option" where
  "abAppend ab src off n = do { xs \<leftarrow> load_block src (int off) (c_int n); Some (ab @ xs) }"

text \<open>The text of the line, or as many asterisks.\<close>

definition show_text :: "line_env \<Rightarrow> bytes \<Rightarrow> bytes \<Rightarrow> nat \<Rightarrow> nat \<Rightarrow> bytes option" where
  "show_text E ab src off n =
     (if maskmode E then do { assert_c (int n \<le> INT_MAX); Some (ab @ replicate n CHR ''*'') }
      else abAppend ab src off n)"

definition hint_colour :: "int \<Rightarrow> int \<Rightarrow> bytes" where
  "hint_colour bold color = ESC # ''['' @ dec_int bold @ '';'' @ dec_int color @ '';49m''"

definition refreshShowHints :: "line_env \<Rightarrow> bytes \<Rightarrow> linenoiseState \<Rightarrow> nat \<Rightarrow> bytes option" where
  "refreshShowHints E ab l plen = (case hintsCallback E of
       None \<Rightarrow> Some ab
     | Some hint_of \<Rightarrow>
         if sz (plen + l_len l) < l_cols l then do {
           line \<leftarrow> cstring (l_buf l) 0;
           (case hint_of line of
              None \<Rightarrow> Some ab
            | Some (hint, color, bold) \<Rightarrow> do {
                let hintmaxlen = c_int (sz_sub (l_cols l) (sz (plen + l_len l)));
                let hintlen = min (int (length hint)) hintmaxlen;
                let color = (if bold = 1 \<and> color = -1 then 37 else color);
                let coloured = (color \<noteq> -1 \<or> bold \<noteq> 0);
                xs \<leftarrow> load_block hint 0 hintlen;
                Some (ab @ (if coloured then hint_colour bold color else []) @ xs
                         @ (if coloured then ESC # ''[0m'' else []))
              })
         }
         else Some ab)"

section \<open>Single line\<close>

definition REFRESH_CLEAN :: nat where "REFRESH_CLEAN = 1"
definition REFRESH_WRITE :: nat where "REFRESH_WRITE = 2"
definition REFRESH_ALL :: nat where "REFRESH_ALL = 3"

lemmas refresh_flags = REFRESH_CLEAN_def REFRESH_WRITE_def REFRESH_ALL_def

text \<open>The two loops that choose the window of the line; the first may not end when there are no columns.\<close>

partial_function (option) scroll :: "nat \<Rightarrow> nat \<Rightarrow> nat \<Rightarrow> nat \<Rightarrow> nat \<Rightarrow> (nat \<times> nat \<times> nat) option" where
  "scroll plen cols off len pos =
     (if cols \<le> sz (plen + pos) then scroll plen cols (off + 1) (sz_dec len) (sz_dec pos)
      else Some (off, len, pos))"

declare scroll.simps [code]

function shrink :: "nat \<Rightarrow> nat \<Rightarrow> nat \<Rightarrow> nat" where
  "shrink plen cols len = (if cols < sz (plen + len) then shrink plen cols (sz_dec len) else len)"
  by pat_completeness auto
termination
  by (relation "measure (\<lambda>(plen, cols, len). sz (plen + len))") (auto simp: sz_add_dec)

declare shrink.simps [simp del]

definition refreshSingleLine :: "line_env \<Rightarrow> linenoiseState \<Rightarrow> nat \<Rightarrow> line_env option" where
  "refreshSingleLine E l flags = do {
     let plen = length (l_prompt l);
     (off, n, p) \<leftarrow> scroll plen (l_cols l) 0 (l_len l) (l_pos l);
     let n = shrink plen (l_cols l) n;
     ab \<leftarrow> (if and flags REFRESH_WRITE \<noteq> 0 then do {
         ab \<leftarrow> show_text E (CR # l_prompt l) (l_buf l) off n;
         refreshShowHints E ab l plen
       } else Some [CR]);
     let ab = ab @ ESC # ''[0K'';
     let ab = (if and flags REFRESH_WRITE \<noteq> 0
       then ab @ CR # ESC # ''['' @ dec_int (c_int (sz (p + plen))) @ ''C'' else ab);
     Some (snd (tty_write E ab))
   }"

section \<open>Several lines\<close>

text \<open>What the flag \<open>REFRESH_WRITE\<close> asks for, behind the bytes already collected.\<close>

definition multi_write :: "line_env \<Rightarrow> bytes \<Rightarrow> linenoiseState \<Rightarrow> int \<Rightarrow> (bytes \<times> linenoiseState) option" where
  "multi_write E ab l rows = do {
     let plen = length (l_prompt l);
     let cols = l_cols l;
     ab \<leftarrow> show_text E (ab @ l_prompt l) (l_buf l) 0 (l_len l);
     ab \<leftarrow> refreshShowHints E ab l plen;
     let newline = (l_pos l \<noteq> 0 \<and> l_pos l = l_len l \<and> sz (l_pos l + plen) mod cols = 0);
     let ab = (if newline then ab @ [LF, CR] else ab);
     let rows = (if newline then rows + 1 else rows);
     let up = rows - c_int (sz (plen + l_pos l + cols) div cols);
     let ab = (if up > 0 then ab @ ESC # ''['' @ dec_int up @ ''A'' else ab);
     assert_c (c_int cols \<noteq> 0);
     let col = c_rem (int plen + c_int (l_pos l)) (c_int cols);
     Some (ab @ (if col \<noteq> 0 then CR # ESC # ''['' @ dec_int col @ ''C'' else [CR]),
       l\<lparr>l_oldrows := (if newline \<and> rows > c_int (l_oldrows l) then nat (rows mod 2 ^ 64) else l_oldrows l)\<rparr>)
   }"

definition multi_clean :: "int \<Rightarrow> int \<Rightarrow> bytes" where
  "multi_clean old_rows rpos =
     (if old_rows - rpos > 0 then ESC # ''['' @ dec_int (old_rows - rpos) @ ''B'' else [])
     @ concat (replicate (nat (old_rows - 1)) (CR # ESC # ''[0K'' @ ESC # ''[1A''))"

definition refreshMultiLine :: "line_env \<Rightarrow> linenoiseState \<Rightarrow> nat \<Rightarrow> (line_env \<times> linenoiseState) option" where
  "refreshMultiLine E l flags = do {
     assert_c (l_cols l \<noteq> 0);
     let plen = length (l_prompt l);
     let rows = c_int (sz (plen + l_len l + l_cols l - 1) div l_cols l);
     let rpos = c_int (sz (plen + l_oldpos l + l_cols l) div l_cols l);
     let ab = (if and flags REFRESH_CLEAN \<noteq> 0 then multi_clean (c_int (l_oldrows l)) rpos else []);
     let l = l\<lparr>l_oldrows := nat (rows mod 2 ^ 64)\<rparr>;
     let ab = (if and flags REFRESH_ALL \<noteq> 0 then ab @ CR # ESC # ''[0K'' else ab);
     (ab, l) \<leftarrow> (if and flags REFRESH_WRITE \<noteq> 0 then multi_write E ab l rows else Some (ab, l));
     Some (snd (tty_write E ab), l\<lparr>l_oldpos := l_pos l\<rparr>)
   }"

section \<open>Refreshing\<close>

definition refreshLineWithFlags :: "line_env \<Rightarrow> linenoiseState \<Rightarrow> nat \<Rightarrow> (line_env \<times> linenoiseState) option" where
  "refreshLineWithFlags E l flags =
     (if mlmode E then refreshMultiLine E l flags else do { E \<leftarrow> refreshSingleLine E l flags; Some (E, l) })"

definition refreshLine :: "line_env \<Rightarrow> linenoiseState \<Rightarrow> (line_env \<times> linenoiseState) option" where
  "refreshLine E l = refreshLineWithFlags E l REFRESH_ALL"

definition linenoiseHide :: "line_env \<Rightarrow> linenoiseState \<Rightarrow> (line_env \<times> linenoiseState) option" where
  "linenoiseHide E l =
     (if mlmode E then refreshMultiLine E l REFRESH_CLEAN
      else do { E \<leftarrow> refreshSingleLine E l REFRESH_CLEAN; Some (E, l) })"

text \<open>A refresh that shows a proposal in place of the line: the table is computed when none is given.\<close>

definition refreshLineWithCompletion ::
  "line_env \<Rightarrow> linenoiseState \<Rightarrow> bytes list option \<Rightarrow> nat \<Rightarrow> (line_env \<times> linenoiseState) option" where
  "refreshLineWithCompletion E ls lc flags = do {
     lc \<leftarrow> (case lc of
         Some lc \<Rightarrow> Some lc
       | None \<Rightarrow> do { cb \<leftarrow> completionCallback E; line \<leftarrow> cstring (l_buf ls) 0; Some (cb line) });
     if completion_idx ls < length lc
     then do {
       let s = lc ! completion_idx ls;
       (E, l) \<leftarrow> refreshLineWithFlags E (ls\<lparr>l_len := length s, l_pos := length s, l_buf := s @ [NUL]\<rparr>) flags;
       Some (E, l\<lparr>l_len := l_len ls, l_pos := l_pos ls, l_buf := l_buf ls\<rparr>)
     }
     else refreshLineWithFlags E ls flags
   }"

definition linenoiseShow :: "line_env \<Rightarrow> linenoiseState \<Rightarrow> (line_env \<times> linenoiseState) option" where
  "linenoiseShow E l =
     (if in_completion l then refreshLineWithCompletion E l None REFRESH_WRITE
      else refreshLineWithFlags E l REFRESH_WRITE)"

section \<open>What a refresh needs and does\<close>

text \<open>
  The terminal is wider than the prompt, the cursor is inside the line, the line inside its memory, which
  holds a terminator, and the sizes are those of \<open>int\<close>.
\<close>

definition screen_ok :: "linenoiseState \<Rightarrow> bool" where
  "screen_ok l \<longleftrightarrow> length (l_prompt l) < l_cols l \<and> l_cols l < 2 ^ 31
     \<and> length (l_prompt l) + l_len l < 2 ^ 31 \<and> l_pos l \<le> l_len l \<and> l_len l \<le> length (l_buf l)
     \<and> NUL \<in> set (l_buf l)"

text \<open>How many bytes of the line are left of the window.\<close>

definition scrolled :: "linenoiseState \<Rightarrow> nat" where
  "scrolled l = length (l_prompt l) + l_pos l + 1 - l_cols l"

definition window :: "linenoiseState \<Rightarrow> bytes" where
  "window l = take (l_cols l - length (l_prompt l)) (drop (scrolled l) (take (l_len l) (l_buf l)))"

lemma scroll_window:
  assumes "p < c" "pos \<le> len" "p + len < 2 ^ 31"
  shows "scroll p c off len pos =
     Some (off + (p + pos + 1 - c), len - (p + pos + 1 - c), pos - (p + pos + 1 - c))"
  using assms(2,3)
proof (induction pos arbitrary: off len)
  case 0
  then show ?case using assms(1) by (subst scroll.simps) simp
next
  case (Suc pos)
  have s: "sz (p + Suc pos) = p + Suc pos" "sz_dec len = len - 1" "sz_dec (Suc pos) = pos"
    using Suc.prems by simp_all
  show ?case
  proof (cases "c \<le> p + Suc pos")
    case True
    then have k: "p + Suc pos + 1 - c = Suc (p + pos + 1 - c)" by simp
    have "scroll p c (off + 1) (len - 1) pos
        = Some (off + 1 + (p + pos + 1 - c), len - 1 - (p + pos + 1 - c), pos - (p + pos + 1 - c))"
      using Suc.prems by (intro Suc.IH) simp_all
    then show ?thesis using True s unfolding k by (subst scroll.simps) simp
  next
    case False
    then show ?thesis using s by (subst scroll.simps) simp
  qed
qed

lemma shrink_window: "p \<le> c \<Longrightarrow> p + len < 2 ^ 31 \<Longrightarrow> shrink p c len = min len (c - p)"
proof (induction len)
  case 0
  then show ?case by (subst shrink.simps) simp
next
  case (Suc len)
  have "sz (p + Suc len) = p + Suc len" "sz_dec (Suc len) = len" using Suc.prems by simp_all
  then show ?case using Suc by (subst shrink.simps) auto
qed

lemma abAppend_inside:
  "off + n \<le> length src \<Longrightarrow> n < 2 ^ 31 \<Longrightarrow> abAppend ab src off n = Some (ab @ take n (drop off src))"
  by (simp add: abAppend_def load_block_def)

lemma cstring_present: "NUL \<in> set b \<Longrightarrow> cstring b 0 = Some (takeWhile (\<lambda>c. c \<noteq> NUL) b)"
  by (simp add: cstring_def)

lemma load_prefix:
  "0 \<le> k \<Longrightarrow> load_block xs 0 (min (int (length xs)) k) = Some (take (nat (min (int (length xs)) k)) xs)"
  by (simp add: load_block_def)

lemma show_hints_total:
  assumes "screen_ok l"
  shows "\<exists>h. refreshShowHints E ab l (length (l_prompt l)) = Some (ab @ h)"
proof (cases "hintsCallback E")
  case (Some hint_of)
  have s: "sz (length (l_prompt l) + l_len l) = length (l_prompt l) + l_len l"
    using assms by (simp add: screen_ok_def)
  show ?thesis
    using Some cstring_present [of "l_buf l"] assms
    by (auto simp: refreshShowHints_def s Let_def screen_ok_def load_prefix split: option.split)
qed (simp add: refreshShowHints_def)

lemma screen_ok_scroll:
  assumes "screen_ok l"
  shows "scroll (length (l_prompt l)) (l_cols l) 0 (l_len l) (l_pos l)
      = Some (scrolled l, l_len l - scrolled l, l_pos l - scrolled l)"
    "shrink (length (l_prompt l)) (l_cols l) (l_len l - scrolled l)
      = min (l_len l - scrolled l) (l_cols l - length (l_prompt l))"
    "scrolled l \<le> l_pos l"
  using assms by (auto simp: screen_ok_def scrolled_def scroll_window shrink_window)

lemma show_text_total:
  "off + n \<le> length src \<Longrightarrow> n < 2 ^ 31 \<Longrightarrow> \<exists>xs. show_text E ab src off n = Some (ab @ xs)"
  by (simp add: show_text_def abAppend_inside c_limits)

lemma window_inside:
  assumes "screen_ok l"
  shows "scrolled l + min (l_len l - scrolled l) (l_cols l - length (l_prompt l)) \<le> length (l_buf l)"
    "min (l_len l - scrolled l) (l_cols l - length (l_prompt l)) < 2 ^ 31"
  using assms screen_ok_scroll(3) [OF assms] by (auto simp: screen_ok_def)

lemma tty_write_out: "\<exists>out. snd (tty_write E s) = E\<lparr>tty_out := out\<rparr>"
  using exI [of "\<lambda>out. E = E\<lparr>tty_out := out\<rparr>" "tty_out E"] by (auto simp: tty_write_def)

lemma refreshSingleLine_text:
  assumes "screen_ok l" "\<not> maskmode E"
  shows "\<exists>h. refreshSingleLine E l REFRESH_ALL = Some (snd (tty_write E
      (CR # l_prompt l @ window l @ h @ ESC # ''[0K'' @ CR # ESC # ''[''
        @ dec_int (int (length (l_prompt l) + (l_pos l - scrolled l))) @ ''C'')))
     \<and> (hintsCallback E = None \<longrightarrow> h = [])"
proof -
  let ?n = "min (l_len l - scrolled l) (l_cols l - length (l_prompt l))"
  have "abAppend ab (l_buf l) (scrolled l) ?n = Some (ab @ take ?n (drop (scrolled l) (l_buf l)))" for ab
    by (rule abAppend_inside [OF window_inside [OF assms(1)]])
  then have ab: "show_text E ab (l_buf l) (scrolled l) ?n = Some (ab @ window l)" for ab
    by (simp add: window_def drop_take min.commute show_text_def assms(2))
  obtain h where h: "refreshShowHints E ((CR # l_prompt l) @ window l) l (length (l_prompt l))
      = Some (((CR # l_prompt l) @ window l) @ h)"
    using show_hints_total [OF assms(1)] by blast
  have "l_pos l - scrolled l + length (l_prompt l) < 2 ^ 31" using assms(1) by (auto simp: screen_ok_def)
  then have "c_int (sz (l_pos l - scrolled l + length (l_prompt l))) = int (length (l_prompt l) + (l_pos l - scrolled l))"
    by simp
  moreover have "and REFRESH_ALL REFRESH_WRITE \<noteq> 0" by (simp add: refresh_flags)
  moreover have "hintsCallback E = None \<longrightarrow> h = []" using h by (auto simp: refreshShowHints_def)
  ultimately show ?thesis
    using h by (auto simp: refreshSingleLine_def screen_ok_scroll [OF assms(1)] ab Let_def)
qed

lemma refreshSingleLine_total:
  assumes "screen_ok l"
  shows "\<exists>out. refreshSingleLine E l flags = Some (E\<lparr>tty_out := out\<rparr>)"
proof -
  let ?n = "min (l_len l - scrolled l) (l_cols l - length (l_prompt l))"
  obtain xs where "show_text E (CR # l_prompt l) (l_buf l) (scrolled l) ?n = Some ((CR # l_prompt l) @ xs)"
    using show_text_total [OF window_inside [OF assms]] by blast
  moreover obtain h where "refreshShowHints E ((CR # l_prompt l) @ xs) l (length (l_prompt l))
      = Some (((CR # l_prompt l) @ xs) @ h)"
    using show_hints_total [OF assms] by blast
  ultimately show ?thesis
    using tty_write_out [of E] by (auto simp: refreshSingleLine_def screen_ok_scroll [OF assms] Let_def)
qed

lemma multi_write_total:
  assumes "screen_ok l"
  shows "\<exists>ab' r. multi_write E ab l rows = Some (ab', l\<lparr>l_oldrows := r\<rparr>)"
proof -
  have "c_int (l_cols l) \<noteq> 0" using assms by (auto simp: screen_ok_def)
  moreover obtain xs where "show_text E (ab @ l_prompt l) (l_buf l) 0 (l_len l) = Some xs"
    using show_text_total [of 0 "l_len l" "l_buf l"] assms by (fastforce simp: screen_ok_def)
  moreover obtain h where "refreshShowHints E xs l (length (l_prompt l)) = Some h"
    using show_hints_total [OF assms] by blast
  ultimately show ?thesis
    unfolding multi_write_def Let_def assert_c_def by (simp only: simp_thms if_True bind.bind_lunit) blast
qed

lemma refreshMultiLine_total:
  assumes "screen_ok l"
  shows "\<exists>out rows. refreshMultiLine E l flags = Some (E\<lparr>tty_out := out\<rparr>, l\<lparr>l_oldrows := rows, l_oldpos := l_pos l\<rparr>)"
proof -
  have c: "l_cols l \<noteq> 0" using assms by (auto simp: screen_ok_def)
  have "screen_ok (l\<lparr>l_oldrows := r\<rparr>)" for r using assms by (simp add: screen_ok_def)
  then have m: "\<exists>ab' r'. (if and flags REFRESH_WRITE \<noteq> 0 then multi_write E ab (l\<lparr>l_oldrows := r\<rparr>) rows
      else Some (ab, l\<lparr>l_oldrows := r\<rparr>)) = Some (ab', l\<lparr>l_oldrows := r'\<rparr>)" for ab r rows
    using multi_write_total [of "l\<lparr>l_oldrows := r\<rparr>" E ab rows] by auto
  define R where "R = c_int (sz (length (l_prompt l) + l_len l + l_cols l - 1) div l_cols l)"
  define A where "A = (let ab = (if and flags REFRESH_CLEAN \<noteq> 0
      then multi_clean (c_int (l_oldrows l)) (c_int (sz (length (l_prompt l) + l_oldpos l + l_cols l) div l_cols l)) else [])
    in if and flags REFRESH_ALL \<noteq> 0 then ab @ CR # ESC # ''[0K'' else ab)"
  obtain ab r where "(if and flags REFRESH_WRITE \<noteq> 0 then multi_write E A (l\<lparr>l_oldrows := nat (R mod 2 ^ 64)\<rparr>) R
      else Some (A, l\<lparr>l_oldrows := nat (R mod 2 ^ 64)\<rparr>)) = Some (ab, l\<lparr>l_oldrows := r\<rparr>)"
    using m by blast
  then have "refreshMultiLine E l flags = Some (snd (tty_write E ab), l\<lparr>l_oldrows := r, l_oldpos := l_pos l\<rparr>)"
    using c unfolding refreshMultiLine_def R_def A_def Let_def by simp
  then show ?thesis using tty_write_out [of E ab] by auto
qed

lemma refresh_total:
  assumes "screen_ok l"
  shows "\<exists>out rows p. refreshLineWithFlags E l flags = Some (E\<lparr>tty_out := out\<rparr>, l\<lparr>l_oldrows := rows, l_oldpos := p\<rparr>)"
proof (cases "mlmode E")
  case True
  then show ?thesis using refreshMultiLine_total [OF assms] by (fastforce simp: refreshLineWithFlags_def)
next
  case False
  obtain out where "refreshSingleLine E l flags = Some (E\<lparr>tty_out := out\<rparr>)"
    using refreshSingleLine_total [OF assms] by blast
  then have "refreshLineWithFlags E l flags
      = Some (E\<lparr>tty_out := out\<rparr>, l\<lparr>l_oldrows := l_oldrows l, l_oldpos := l_oldpos l\<rparr>)"
    using False by (simp add: refreshLineWithFlags_def)
  then show ?thesis by blast
qed

lemma refresh_completion_total:
  assumes "screen_ok l" "\<forall>s \<in> set lc. length (l_prompt l) + length s < 2 ^ 31"
  shows "\<exists>out rows p. refreshLineWithCompletion E l (Some lc) flags
    = Some (E\<lparr>tty_out := out\<rparr>, l\<lparr>l_oldrows := rows, l_oldpos := p\<rparr>)"
proof (cases "completion_idx l < length lc")
  case True
  let ?s = "lc ! completion_idx l"
  have "screen_ok (l\<lparr>l_len := length ?s, l_pos := length ?s, l_buf := ?s @ [NUL]\<rparr>)"
    using assms nth_mem [OF True] by (simp add: screen_ok_def)
  then obtain out rows p where "refreshLineWithFlags E (l\<lparr>l_len := length ?s, l_pos := length ?s, l_buf := ?s @ [NUL]\<rparr>) flags
      = Some (E\<lparr>tty_out := out\<rparr>, l\<lparr>l_len := length ?s, l_pos := length ?s, l_buf := ?s @ [NUL], l_oldrows := rows, l_oldpos := p\<rparr>)"
    using refresh_total [of "l\<lparr>l_len := length ?s, l_pos := length ?s, l_buf := ?s @ [NUL]\<rparr>" E flags] by auto
  then have "refreshLineWithCompletion E l (Some lc) flags = Some (E\<lparr>tty_out := out\<rparr>, l\<lparr>l_oldrows := rows, l_oldpos := p\<rparr>)"
    using True by (cases l) (simp add: refreshLineWithCompletion_def Let_def)
  then show ?thesis by blast
next
  case False
  then show ?thesis using refresh_total [OF assms(1)] by (simp add: refreshLineWithCompletion_def)
qed

end
