(* ===== verification/LineEdit.thy ===== *)
theory LineEdit
  imports LineRefresh
begin

text \<open>
  The editing operations of the line editor (\<open>src/linenoise.c\<close>, \<open>linenoiseEdit*\<close>) on the buffer, with every
  \<open>memmove\<close>, store and copy checked.

  The specification of an editor is the pair of the text before and the text behind the cursor.  The
  lemmas show that every operation implements its specification and keeps the buffer well formed:
  the cursor inside the line, a terminator behind it, the line inside its memory.
\<close>

section \<open>Operations\<close>

definition memmove :: "bytes \<Rightarrow> nat \<Rightarrow> nat \<Rightarrow> nat \<Rightarrow> bytes option" where
  "memmove b dst src n = do { xs \<leftarrow> load_block b (int src) (int n); store_block b (int dst) xs }"

text \<open>\<open>strncpy\<close> of \<open>n\<close> bytes pads with terminators.\<close>

definition strncpy :: "bytes \<Rightarrow> bytes \<Rightarrow> nat \<Rightarrow> bytes option" where
  "strncpy b s n = store_block b 0 (take n (s @ replicate n NUL))"

definition linenoiseEditInsert :: "line_env \<Rightarrow> linenoiseState \<Rightarrow> byte \<Rightarrow> (int \<times> line_env \<times> linenoiseState) option" where
  "linenoiseEditInsert E l c =
     (if l_len l < l_buflen l then
        if l_len l = l_pos l then do {
          b \<leftarrow> store (l_buf l) (int (l_pos l)) c;
          let l = l\<lparr>l_pos := l_pos l + 1, l_len := l_len l + 1\<rparr>;
          b \<leftarrow> store b (int (l_len l)) NUL;
          let l = l\<lparr>l_buf := b\<rparr>;
          if \<not> mlmode E \<and> sz (l_plen l + l_len l) < l_cols l \<and> hintsCallback E = None
          then (case tty_write E [if maskmode E then CHR ''*'' else c] of
                  (r, E) \<Rightarrow> Some (if r = -1 then -1 else 0, E, l))
          else do { (E, l) \<leftarrow> refreshLine E l; Some (0, E, l) }
        }
        else do {
          b \<leftarrow> memmove (l_buf l) (l_pos l + 1) (l_pos l) (sz_sub (l_len l) (l_pos l));
          b \<leftarrow> store b (int (l_pos l)) c;
          let l = l\<lparr>l_pos := l_pos l + 1, l_len := l_len l + 1\<rparr>;
          b \<leftarrow> store b (int (l_len l)) NUL;
          (E, l) \<leftarrow> refreshLine E (l\<lparr>l_buf := b\<rparr>);
          Some (0, E, l)
        }
      else Some (0, E, l))"

definition linenoiseEditMoveLeft :: "line_env \<Rightarrow> linenoiseState \<Rightarrow> (line_env \<times> linenoiseState) option" where
  "linenoiseEditMoveLeft E l =
     (if l_pos l > 0 then refreshLine E (l\<lparr>l_pos := l_pos l - 1\<rparr>) else Some (E, l))"

definition linenoiseEditMoveRight :: "line_env \<Rightarrow> linenoiseState \<Rightarrow> (line_env \<times> linenoiseState) option" where
  "linenoiseEditMoveRight E l =
     (if l_pos l \<noteq> l_len l then refreshLine E (l\<lparr>l_pos := l_pos l + 1\<rparr>) else Some (E, l))"

definition linenoiseEditMoveHome :: "line_env \<Rightarrow> linenoiseState \<Rightarrow> (line_env \<times> linenoiseState) option" where
  "linenoiseEditMoveHome E l =
     (if l_pos l \<noteq> 0 then refreshLine E (l\<lparr>l_pos := 0\<rparr>) else Some (E, l))"

definition linenoiseEditMoveEnd :: "line_env \<Rightarrow> linenoiseState \<Rightarrow> (line_env \<times> linenoiseState) option" where
  "linenoiseEditMoveEnd E l =
     (if l_pos l \<noteq> l_len l then refreshLine E (l\<lparr>l_pos := l_len l\<rparr>) else Some (E, l))"

text \<open>The end of \<open>linenoiseEditHistoryNext\<close>: the line at an index becomes the edited line.\<close>

definition show_entry :: "line_env \<Rightarrow> linenoiseState \<Rightarrow> int \<Rightarrow> (line_env \<times> linenoiseState) option" where
  "show_entry E l idx = do {
     h \<leftarrow> history E;
     s \<leftarrow> slot h (history_len E - 1 - idx);
     b \<leftarrow> strncpy (l_buf l) s (l_buflen l);
     b \<leftarrow> store b (int (sz_dec (l_buflen l))) NUL;
     t \<leftarrow> cstring b 0;
     refreshLine E (l\<lparr>history_index := idx, l_buf := b, l_len := length t, l_pos := length t\<rparr>)
   }"

text \<open>\<open>prev\<close> is the direction \<open>LINENOISE_HISTORY_PREV\<close>.\<close>

definition linenoiseEditHistoryNext :: "line_env \<Rightarrow> linenoiseState \<Rightarrow> bool \<Rightarrow> (line_env \<times> linenoiseState) option" where
  "linenoiseEditHistoryNext E l prev =
     (if history_len E > 1 then do {
        h \<leftarrow> history E;
        let i = history_len E - 1 - history_index l;
        _ \<leftarrow> slot h i;
        s \<leftarrow> cstring (l_buf l) 0;
        h \<leftarrow> store h i (Some s);
        let E = E\<lparr>history := Some h\<rparr>;
        let idx = history_index l + (if prev then 1 else -1);
        if idx < 0 then Some (E, l\<lparr>history_index := 0\<rparr>)
        else if idx \<ge> history_len E then Some (E, l\<lparr>history_index := history_len E - 1\<rparr>)
        else show_entry E l idx
      }
      else Some (E, l))"

definition linenoiseEditDelete :: "line_env \<Rightarrow> linenoiseState \<Rightarrow> (line_env \<times> linenoiseState) option" where
  "linenoiseEditDelete E l =
     (if l_len l > 0 \<and> l_pos l < l_len l then do {
        b \<leftarrow> memmove (l_buf l) (l_pos l) (l_pos l + 1) (l_len l - l_pos l - 1);
        b \<leftarrow> store b (int (l_len l - 1)) NUL;
        refreshLine E (l\<lparr>l_len := l_len l - 1, l_buf := b\<rparr>)
      }
      else Some (E, l))"

definition linenoiseEditBackspace :: "line_env \<Rightarrow> linenoiseState \<Rightarrow> (line_env \<times> linenoiseState) option" where
  "linenoiseEditBackspace E l =
     (if l_pos l > 0 \<and> l_len l > 0 then do {
        b \<leftarrow> memmove (l_buf l) (l_pos l - 1) (l_pos l) (sz_sub (l_len l) (l_pos l));
        b \<leftarrow> store b (int (l_len l - 1)) NUL;
        refreshLine E (l\<lparr>l_pos := l_pos l - 1, l_len := l_len l - 1, l_buf := b\<rparr>)
      }
      else Some (E, l))"

text \<open>A loop that moves a position back over the bytes that satisfy \<open>P\<close>.\<close>

primrec back_over :: "(byte \<Rightarrow> bool) \<Rightarrow> bytes \<Rightarrow> nat \<Rightarrow> nat option" where
  "back_over P b 0 = Some 0"
| "back_over P b (Suc n) = do { c \<leftarrow> load b (int n); if P c then back_over P b n else Some (Suc n) }"

definition linenoiseEditDeletePrevWord :: "line_env \<Rightarrow> linenoiseState \<Rightarrow> (line_env \<times> linenoiseState) option" where
  "linenoiseEditDeletePrevWord E l = do {
     let old_pos = l_pos l;
     p \<leftarrow> back_over (\<lambda>c. c = CHR '' '') (l_buf l) old_pos;
     p \<leftarrow> back_over (\<lambda>c. c \<noteq> CHR '' '') (l_buf l) p;
     let diff = old_pos - p;
     b \<leftarrow> memmove (l_buf l) p old_pos (sz (sz_sub (l_len l) old_pos + 1));
     refreshLine E (l\<lparr>l_pos := p, l_buf := b, l_len := sz_sub (l_len l) diff\<rparr>)
   }"

text \<open>The three keys whose code stands in \<open>linenoiseEditFeed\<close> itself.\<close>

definition swap_chars :: "line_env \<Rightarrow> linenoiseState \<Rightarrow> (line_env \<times> linenoiseState) option" where
  "swap_chars E l =
     (if l_pos l > 0 \<and> l_pos l < l_len l then do {
        aux \<leftarrow> load (l_buf l) (int (l_pos l - 1));
        x \<leftarrow> load (l_buf l) (int (l_pos l));
        b \<leftarrow> store (l_buf l) (int (l_pos l - 1)) x;
        b \<leftarrow> store b (int (l_pos l)) aux;
        refreshLine E (l\<lparr>l_buf := b, l_pos := (if l_pos l \<noteq> l_len l - 1 then l_pos l + 1 else l_pos l)\<rparr>)
      }
      else Some (E, l))"

definition clear_line :: "line_env \<Rightarrow> linenoiseState \<Rightarrow> (line_env \<times> linenoiseState) option" where
  "clear_line E l = do {
     b \<leftarrow> store (l_buf l) 0 NUL;
     refreshLine E (l\<lparr>l_buf := b, l_pos := 0, l_len := 0\<rparr>)
   }"

definition cut_line :: "line_env \<Rightarrow> linenoiseState \<Rightarrow> (line_env \<times> linenoiseState) option" where
  "cut_line E l = do {
     b \<leftarrow> store (l_buf l) (int (l_pos l)) NUL;
     refreshLine E (l\<lparr>l_buf := b, l_len := l_pos l\<rparr>)
   }"

section \<open>The editor as two lists\<close>

type_synonym cursor_text = "bytes \<times> bytes"

fun zinsert :: "nat \<Rightarrow> byte \<Rightarrow> cursor_text \<Rightarrow> cursor_text" where
  "zinsert cap c (a, b) = (if length a + length b < cap then (a @ [c], b) else (a, b))"

fun zleft :: "cursor_text \<Rightarrow> cursor_text" where
  "zleft (a, b) = (if a = [] then (a, b) else (butlast a, last a # b))"

fun zright :: "cursor_text \<Rightarrow> cursor_text" where
  "zright (a, []) = (a, [])"
| "zright (a, x # b) = (a @ [x], b)"

fun zhome :: "cursor_text \<Rightarrow> cursor_text" where
  "zhome (a, b) = ([], a @ b)"

fun zend :: "cursor_text \<Rightarrow> cursor_text" where
  "zend (a, b) = (a @ b, [])"

fun zdelete :: "cursor_text \<Rightarrow> cursor_text" where
  "zdelete (a, b) = (a, tl b)"

fun zback :: "cursor_text \<Rightarrow> cursor_text" where
  "zback (a, b) = (butlast a, b)"

definition drop_word :: "bytes \<Rightarrow> bytes" where
  "drop_word a = rev (dropWhile (\<lambda>c. c \<noteq> CHR '' '') (dropWhile (\<lambda>c. c = CHR '' '') (rev a)))"

fun zword :: "cursor_text \<Rightarrow> cursor_text" where
  "zword (a, b) = (drop_word a, b)"

fun zswap :: "cursor_text \<Rightarrow> cursor_text" where
  "zswap (a, []) = (a, [])"
| "zswap (a, y # b) =
     (if a = [] then (a, y # b)
      else if b = [] then (butlast a @ [y], [last a])
      else (butlast a @ [y, last a], b))"

fun zkill :: "cursor_text \<Rightarrow> cursor_text" where
  "zkill (a, b) = (a, [])"

section \<open>The buffer\<close>

definition text_of :: "linenoiseState \<Rightarrow> cursor_text" where
  "text_of l = (take (l_pos l) (l_buf l), drop (l_pos l) (take (l_len l) (l_buf l)))"

definition buffer_wf :: "linenoiseState \<Rightarrow> bool" where
  "buffer_wf l \<longleftrightarrow> l_pos l \<le> l_len l \<and> l_len l \<le> l_buflen l \<and> length (l_buf l) = Suc (l_buflen l)
     \<and> l_buf l ! l_len l = NUL \<and> 0 < l_buflen l"

text \<open>The terminal is wider than the prompt, and the sizes are those of \<open>int\<close>.\<close>

definition view_ok :: "linenoiseState \<Rightarrow> bool" where
  "view_ok l \<longleftrightarrow> length (l_prompt l) < l_cols l \<and> l_cols l < 2 ^ 31
     \<and> length (l_prompt l) + l_buflen l < 2 ^ 31"

text \<open>A buffer that holds a given text in front of and behind the cursor.\<close>

definition holds_text :: "linenoiseState \<Rightarrow> bytes \<Rightarrow> bytes \<Rightarrow> bytes \<Rightarrow> bool" where
  "holds_text l a b r \<longleftrightarrow> l_buf l = a @ b @ NUL # r \<and> l_pos l = length a \<and> l_len l = length a + length b
     \<and> l_buflen l = length a + length b + length r \<and> 0 < l_buflen l"

lemma holds_text_wf: "holds_text l a b r \<Longrightarrow> buffer_wf l \<and> text_of l = (a, b)"
  by (auto simp: holds_text_def buffer_wf_def text_of_def nth_append)

lemma buffer_wf_holds:
  assumes "buffer_wf l" "text_of l = (a, b)"
  obtains r where "holds_text l a b r"
proof -
  let ?r = "drop (Suc (l_len l)) (l_buf l)"
  have w: "l_pos l \<le> l_len l" "l_len l < length (l_buf l)" "l_buf l ! l_len l = NUL"
      "length (l_buf l) = Suc (l_buflen l)" "0 < l_buflen l"
    using assms(1) by (auto simp: buffer_wf_def)
  have ab: "a = take (l_pos l) (l_buf l)" "b = drop (l_pos l) (take (l_len l) (l_buf l))"
    using assms(2) by (auto simp: text_of_def)
  then have "a @ b = take (l_len l) (l_buf l)"
    using w(1) append_take_drop_id [of "l_pos l" "take (l_len l) (l_buf l)"] by (simp add: min_absorb1)
  then have "l_buf l = (a @ b) @ NUL # ?r"
    using w(2,3) id_take_nth_drop [of "l_len l" "l_buf l"] by simp
  then have "l_buf l = a @ b @ NUL # ?r" by simp
  then have "holds_text l a b ?r" using w ab by (simp add: holds_text_def)
  then show ?thesis by (rule that)
qed

section \<open>What an operation leaves\<close>

text \<open>The fields that no editing operation changes.\<close>

definition same_edit :: "linenoiseState \<Rightarrow> linenoiseState \<Rightarrow> bool" where
  "same_edit l l' \<longleftrightarrow> in_completion l' = in_completion l \<and> completion_idx l' = completion_idx l
     \<and> l_buflen l' = l_buflen l \<and> l_prompt l' = l_prompt l \<and> l_plen l' = l_plen l \<and> l_cols l' = l_cols l
     \<and> history_index l' = history_index l"

definition edited ::
  "line_env \<Rightarrow> linenoiseState \<Rightarrow> cursor_text \<Rightarrow> (line_env \<times> linenoiseState) option \<Rightarrow> bool" where
  "edited E l z m \<longleftrightarrow> (\<exists>out l'. m = Some (E\<lparr>tty_out := out\<rparr>, l') \<and> buffer_wf l' \<and> text_of l' = z \<and> same_edit l l')"

lemma view_ok_same: "view_ok l \<Longrightarrow> same_edit l l' \<Longrightarrow> view_ok l'"
  by (simp add: view_ok_def same_edit_def)

lemma screen_ok_intro: "view_ok l \<Longrightarrow> holds_text l a b r \<Longrightarrow> screen_ok l"
  by (auto simp: view_ok_def holds_text_def screen_ok_def)

text \<open>Every operation ends in this refresh of the changed buffer.\<close>

lemma refreshed:
  assumes "view_ok l" "holds_text l' a b r" "same_edit l l'"
  shows "edited E l (a, b) (refreshLine E l')"
proof -
  have "screen_ok l'" using screen_ok_intro view_ok_same assms by blast
  then obtain out rows p where
    "refreshLine E l' = Some (E\<lparr>tty_out := out\<rparr>, l'\<lparr>l_oldrows := rows, l_oldpos := p\<rparr>)"
    using refresh_total unfolding refreshLine_def by blast
  moreover have "holds_text (l'\<lparr>l_oldrows := rows, l_oldpos := p\<rparr>) a b r"
    using assms(2) by (auto simp: holds_text_def)
  moreover have "same_edit l (l'\<lparr>l_oldrows := rows, l_oldpos := p\<rparr>)" using assms(3) by (simp add: same_edit_def)
  ultimately show ?thesis unfolding edited_def using holds_text_wf by blast
qed

lemma unchanged: "holds_text l a b r \<Longrightarrow> edited E l (a, b) (Some (E, l))"
proof -
  assume "holds_text l a b r"
  moreover have "E = E\<lparr>tty_out := tty_out E\<rparr>" "same_edit l l" by (simp_all add: same_edit_def)
  ultimately show ?thesis unfolding edited_def using holds_text_wf by metis
qed

section \<open>Copies inside the buffer\<close>

lemma store_at: "n = length a \<Longrightarrow> store (a @ x # b) (int n) y = Some (a @ y # b)"
  by (simp add: store_def)

lemma memmove_nat:
  "src + n \<le> length b \<Longrightarrow> dst + n \<le> length b
     \<Longrightarrow> memmove b dst src n = Some (take dst b @ take n (drop src b) @ drop (dst + n) b)"
  unfolding memmove_def load_block_def store_block_def
  by (simp add: of_nat_add [symmetric] del: of_nat_add)

lemma memmove_up:
  "memmove (a @ b @ z # r) (Suc (length a)) (length a) (length b) = Some (a @ hd (b @ [z]) # b @ r)"
proof -
  have "take (Suc (length a)) (a @ b @ z # r) = a @ [hd (b @ [z])]" by (cases b) auto
  then show ?thesis by (subst memmove_nat) auto
qed

lemma memmove_down:
  "memmove (a @ xs @ b @ r) (length a) (length a + length xs) (length b)
    = Some (a @ b @ drop (length b) (xs @ b) @ r)"
  by (subst memmove_nat) auto

section \<open>Every operation implements its specification\<close>

lemma move_left:
  assumes view: "view_ok l" and tx: "holds_text l a b r"
  shows "edited E l (zleft (a, b)) (linenoiseEditMoveLeft E l)"
proof (cases a rule: rev_cases)
  case Nil
  then show ?thesis using unchanged [OF tx] tx [unfolded holds_text_def] by (simp add: linenoiseEditMoveLeft_def)
next
  case (snoc as x)
  have "holds_text (l\<lparr>l_pos := l_pos l - 1\<rparr>) as (x # b) r" using tx [unfolded holds_text_def] by (auto simp: holds_text_def snoc)
  then have "edited E l (as, x # b) (refreshLine E (l\<lparr>l_pos := l_pos l - 1\<rparr>))"
    by (rule refreshed [OF view]) (simp add: same_edit_def)
  then show ?thesis using tx [unfolded holds_text_def] by (simp add: linenoiseEditMoveLeft_def snoc)
qed

lemma move_right:
  assumes view: "view_ok l" and tx: "holds_text l a b r"
  shows "edited E l (zright (a, b)) (linenoiseEditMoveRight E l)"
proof (cases b)
  case Nil
  then show ?thesis using unchanged [OF tx] tx [unfolded holds_text_def] by (simp add: linenoiseEditMoveRight_def)
next
  case (Cons x bs)
  have "holds_text (l\<lparr>l_pos := l_pos l + 1\<rparr>) (a @ [x]) bs r" using tx [unfolded holds_text_def] by (auto simp: holds_text_def Cons)
  then have "edited E l (a @ [x], bs) (refreshLine E (l\<lparr>l_pos := l_pos l + 1\<rparr>))"
    by (rule refreshed [OF view]) (simp add: same_edit_def)
  then show ?thesis using tx [unfolded holds_text_def] by (simp add: linenoiseEditMoveRight_def Cons)
qed

lemma move_home:
  assumes view: "view_ok l" and tx: "holds_text l a b r"
  shows "edited E l (zhome (a, b)) (linenoiseEditMoveHome E l)"
proof (cases "a = []")
  case True
  then show ?thesis using unchanged [OF tx] tx [unfolded holds_text_def] by (simp add: linenoiseEditMoveHome_def)
next
  case False
  have "holds_text (l\<lparr>l_pos := 0\<rparr>) [] (a @ b) r" using tx [unfolded holds_text_def] by (auto simp: holds_text_def)
  then have "edited E l ([], a @ b) (refreshLine E (l\<lparr>l_pos := 0\<rparr>))"
    by (rule refreshed [OF view]) (simp add: same_edit_def)
  then show ?thesis using tx [unfolded holds_text_def] False by (simp add: linenoiseEditMoveHome_def)
qed

lemma move_end:
  assumes view: "view_ok l" and tx: "holds_text l a b r"
  shows "edited E l (zend (a, b)) (linenoiseEditMoveEnd E l)"
proof (cases "b = []")
  case True
  then show ?thesis using unchanged [OF tx] tx [unfolded holds_text_def] by (simp add: linenoiseEditMoveEnd_def)
next
  case False
  have "holds_text (l\<lparr>l_pos := l_len l\<rparr>) (a @ b) [] r" using tx [unfolded holds_text_def] by (auto simp: holds_text_def)
  then have "edited E l (a @ b, []) (refreshLine E (l\<lparr>l_pos := l_len l\<rparr>))"
    by (rule refreshed [OF view]) (simp add: same_edit_def)
  then show ?thesis using tx [unfolded holds_text_def] False by (simp add: linenoiseEditMoveEnd_def)
qed

lemma delete:
  assumes view: "view_ok l" and tx: "holds_text l a b r"
  shows "edited E l (zdelete (a, b)) (linenoiseEditDelete E l)"
proof (cases b)
  case Nil
  then show ?thesis using unchanged [OF tx] tx [unfolded holds_text_def] by (simp add: linenoiseEditDelete_def)
next
  case (Cons x bs)
  obtain y where m: "memmove (l_buf l) (length a) (length a + 1) (length bs) = Some (a @ bs @ y # NUL # r)"
  proof -
    have "drop (length bs) (x # bs) = [last (x # bs)]" by (induction bs arbitrary: x) auto
    then show ?thesis using memmove_down [of a "[x]" bs "NUL # r"] tx [unfolded holds_text_def] that by (simp add: Cons)
  qed
  have "store (a @ bs @ y # NUL # r) (int (length a + length bs)) NUL = Some (a @ bs @ NUL # NUL # r)"
    using store_at [of "length a + length bs" "a @ bs" y "NUL # r"] by simp
  moreover have "holds_text (l\<lparr>l_len := l_len l - 1, l_buf := a @ bs @ NUL # NUL # r\<rparr>) a bs (NUL # r)"
    using tx [unfolded holds_text_def] by (auto simp: holds_text_def Cons)
  then have "edited E l (a, bs) (refreshLine E (l\<lparr>l_len := l_len l - 1, l_buf := a @ bs @ NUL # NUL # r\<rparr>))"
    by (rule refreshed [OF view]) (simp add: same_edit_def)
  ultimately show ?thesis using tx [unfolded holds_text_def] m by (simp add: linenoiseEditDelete_def Cons)
qed

lemma backspace:
  assumes view: "view_ok l" and tx: "holds_text l a b r"
  shows "edited E l (zback (a, b)) (linenoiseEditBackspace E l)"
proof (cases a rule: rev_cases)
  case Nil
  then show ?thesis using unchanged [OF tx] tx [unfolded holds_text_def] by (simp add: linenoiseEditBackspace_def)
next
  case (snoc as x)
  obtain y where m: "memmove (l_buf l) (length as) (length as + 1) (length b) = Some (as @ b @ y # NUL # r)"
  proof -
    have "drop (length b) (x # b) = [last (x # b)]" by (induction b arbitrary: x) auto
    then show ?thesis using memmove_down [of as "[x]" b "NUL # r"] tx [unfolded holds_text_def] that by (simp add: snoc)
  qed
  have "store (as @ b @ y # NUL # r) (int (length as + length b)) NUL = Some (as @ b @ NUL # NUL # r)"
    using store_at [of "length as + length b" "as @ b" y "NUL # r"] by simp
  moreover let ?l = "l\<lparr>l_pos := l_pos l - 1, l_len := l_len l - 1, l_buf := as @ b @ NUL # NUL # r\<rparr>"
  have "holds_text ?l as b (NUL # r)" using tx [unfolded holds_text_def] by (auto simp: holds_text_def snoc)
  then have "edited E l (as, b) (refreshLine E ?l)"
    by (rule refreshed [OF view]) (simp add: same_edit_def)
  ultimately show ?thesis using tx [unfolded holds_text_def] m by (simp add: linenoiseEditBackspace_def snoc)
qed

lemma back_over_prefix:
  "n \<le> length b \<Longrightarrow> back_over P b n = Some (length (dropWhile P (rev (take n b))))"
  by (induction n) (simp_all add: load_def take_Suc_conv_app_nth)

lemma drop_word_prefix: "\<exists>w. a = drop_word a @ w"
proof -
  have "rev a = takeWhile (\<lambda>c. c = CHR '' '') (rev a)
      @ takeWhile (\<lambda>c. c \<noteq> CHR '' '') (dropWhile (\<lambda>c. c = CHR '' '') (rev a))
      @ dropWhile (\<lambda>c. c \<noteq> CHR '' '') (dropWhile (\<lambda>c. c = CHR '' '') (rev a))"
    by simp
  then have "a = rev (takeWhile (\<lambda>c. c = CHR '' '') (rev a)
      @ takeWhile (\<lambda>c. c \<noteq> CHR '' '') (dropWhile (\<lambda>c. c = CHR '' '') (rev a))
      @ rev (drop_word a))"
    by (metis drop_word_def rev_rev_ident)
  then show ?thesis unfolding rev_append rev_rev_ident append_assoc by blast
qed

lemma delete_word:
  assumes view: "view_ok l" and tx: "holds_text l a b r"
  shows "edited E l (zword (a, b)) (linenoiseEditDeletePrevWord E l)"
proof -
  obtain w where w: "a = drop_word a @ w" using drop_word_prefix by blast
  define d where "d = drop_word a"
  define a1 where "a1 = dropWhile (\<lambda>c. c = CHR '' '') (rev a)"
  have aw: "a = d @ w" using w by (simp add: d_def)
  have d: "rev d = dropWhile (\<lambda>c. c \<noteq> CHR '' '') a1" by (simp add: d_def drop_word_def a1_def)
  have buf: "l_buf l = a @ b @ NUL # r" using tx by (simp add: holds_text_def)
  have "rev a = takeWhile (\<lambda>c. c = CHR '' '') (rev a) @ a1" by (simp add: a1_def)
  then have "a = rev a1 @ rev (takeWhile (\<lambda>c. c = CHR '' '') (rev a))" by (metis rev_append rev_rev_ident)
  then have "take (length a1) a = rev a1" by (metis append_eq_conv_conj length_rev)
  moreover have "length a1 \<le> length a" by (metis a1_def length_dropWhile_le length_rev)
  ultimately have a1: "length a1 \<le> length a" "take (length a1) a = rev a1" by auto
  have "back_over (\<lambda>c. c = CHR '' '') (l_buf l) (length a) = Some (length a1)"
    by (subst back_over_prefix) (simp_all add: buf a1_def)
  moreover have "back_over (\<lambda>c. c \<noteq> CHR '' '') (l_buf l) (length a1) = Some (length d)"
    using a1 arg_cong [OF d, of length] by (subst back_over_prefix) (simp_all add: buf)
  moreover define x where "x = drop (length (b @ [NUL])) (w @ b @ [NUL])"
  have "memmove (l_buf l) (length d) (length a) (Suc (length b)) = Some (d @ b @ NUL # x @ r)"
    using memmove_down [of d w "b @ [NUL]" r] by (simp add: buf aw x_def)
  moreover have "sz (Suc (length b)) = Suc (length b)"
    using tx view by (simp add: holds_text_def view_ok_def)
  moreover let ?l = "l\<lparr>l_pos := length d, l_buf := d @ b @ NUL # x @ r, l_len := length d + length b\<rparr>"
  have "holds_text ?l d b (x @ r)" using tx by (auto simp: holds_text_def aw x_def)
  then have "edited E l (d, b) (refreshLine E ?l)"
    by (rule refreshed [OF view]) (simp add: same_edit_def)
  moreover have "l_pos l = length a" "sz_sub (l_len l) (length a) = length b"
      "sz_sub (l_len l) (length a - length d) = length d + length b"
    using tx by (simp_all add: holds_text_def aw)
  ultimately show ?thesis by (simp add: linenoiseEditDeletePrevWord_def d_def [symmetric])
qed

lemma swap_text:
  assumes view: "view_ok l" and tx: "holds_text l a b r"
  shows "edited E l (zswap (a, b)) (swap_chars E l)"
proof (cases "a = [] \<or> b = []")
  case True
  moreover have "zswap (a, b) = (a, b)" using True by (cases b) auto
  ultimately show ?thesis using unchanged [OF tx] tx by (auto simp: swap_chars_def holds_text_def)
next
  case False
  then obtain as x y bs where ab: "a = as @ [x]" "b = y # bs" by (metis neq_Nil_conv rev_exhaust)
  have buf: "l_buf l = as @ x # y # bs @ NUL # r" and pos: "l_pos l = Suc (length as)"
    and len: "l_len l = length as + length bs + 2" using tx by (simp_all add: holds_text_def ab)
  have ops: "load (l_buf l) (int (length as)) = Some x" "load (l_buf l) (int (Suc (length as))) = Some y"
    "store (l_buf l) (int (length as)) y = Some (as @ y # y # bs @ NUL # r)"
    "store (as @ y # y # bs @ NUL # r) (int (Suc (length as))) x = Some (as @ y # x # bs @ NUL # r)"
    using store_at [of "Suc (length as)" "as @ [y]" y "bs @ NUL # r" x] store_at [of "length as" as x "y # bs @ NUL # r" y]
    by (simp_all add: load_nat buf nth_append del: of_nat_Suc)
  let ?l = "l\<lparr>l_buf := as @ y # x # bs @ NUL # r, l_pos := (if bs = [] then Suc (length as) else Suc (Suc (length as)))\<rparr>"
  have "edited E l (zswap (a, b)) (refreshLine E ?l)"
  proof (cases bs)
    case Nil
    then have "holds_text ?l (as @ [y]) [x] r" using tx by (auto simp: holds_text_def ab)
    then show ?thesis using Nil refreshed [OF view] by (auto simp: ab same_edit_def)
  next
    case (Cons z zs)
    then have "holds_text ?l (as @ [y, x]) bs r" using tx by (auto simp: holds_text_def ab)
    then show ?thesis using Cons refreshed [OF view] by (auto simp: ab same_edit_def)
  qed
  moreover have "(Suc (length as) \<noteq> l_len l - 1) = (bs \<noteq> [])" using len by auto
  ultimately show ?thesis using ops
    by (cases "bs = []") (simp_all add: swap_chars_def pos len del: of_nat_Suc)
qed

lemma clear_text:
  assumes view: "view_ok l" and tx: "holds_text l a b r"
  shows "edited E l ([], []) (clear_line E l)"
proof -
  obtain x xs where buf: "l_buf l = x # xs" using tx by (cases "l_buf l") (auto simp: holds_text_def)
  have "length xs = l_buflen l" using tx arg_cong [OF buf, of length] by (simp add: holds_text_def)
  then have "holds_text (l\<lparr>l_buf := NUL # xs, l_pos := 0, l_len := 0\<rparr>) [] [] xs"
    using tx by (auto simp: holds_text_def)
  then have "edited E l ([], []) (refreshLine E (l\<lparr>l_buf := NUL # xs, l_pos := 0, l_len := 0\<rparr>))"
    by (rule refreshed [OF view]) (simp add: same_edit_def)
  then show ?thesis by (simp add: clear_line_def buf store_def)
qed

lemma cut_text:
  assumes view: "view_ok l" and tx: "holds_text l a b r"
  shows "edited E l (zkill (a, b)) (cut_line E l)"
proof -
  obtain x xs where bx: "b @ NUL # r = x # xs" by (cases "b @ NUL # r") auto
  have buf: "l_buf l = a @ x # xs" using tx bx by (simp add: holds_text_def)
  have "length b + length r = length xs" using arg_cong [OF bx, of length] by simp
  then have "holds_text (l\<lparr>l_buf := a @ NUL # xs, l_len := l_pos l\<rparr>) a [] xs"
    using tx by (auto simp: holds_text_def)
  then have "edited E l (a, []) (refreshLine E (l\<lparr>l_buf := a @ NUL # xs, l_len := l_pos l\<rparr>))"
    by (rule refreshed [OF view]) (simp add: same_edit_def)
  moreover have "l_pos l = length a" using tx by (simp add: holds_text_def)
  ultimately show ?thesis by (simp add: cut_line_def buf store_at)
qed

lemma insert_text:
  assumes view: "view_ok l" and tx: "holds_text l a b r"
  shows "\<exists>ret E' l'. linenoiseEditInsert E l c = Some (ret, E', l') \<and> (ret \<noteq> 0 \<longrightarrow> tty_broken E)
    \<and> edited E l (zinsert (l_buflen l) c (a, b)) (Some (E', l'))"
proof (cases r)
  case Nil
  then have "l_len l = l_buflen l" "l_buflen l = length a + length b" using tx by (auto simp: holds_text_def)
  then show ?thesis using unchanged [OF tx, of E] by (simp add: linenoiseEditInsert_def)
next
  case (Cons z zs)
  have len: "l_len l < l_buflen l" "l_len l = length a + length b" "l_pos l = length a"
    using tx Cons by (auto simp: holds_text_def)
  have cap: "zinsert (l_buflen l) c (a, b) = (a @ [c], b)" using len by simp
  let ?l = "l\<lparr>l_pos := l_pos l + 1, l_len := l_len l + 1, l_buf := a @ c # b @ NUL # zs\<rparr>"
  have h: "holds_text ?l (a @ [c]) b zs" using tx Cons by (auto simp: holds_text_def)
  then have e: "edited E l (a @ [c], b) (refreshLine E ?l)"
    by (rule refreshed [OF view]) (simp add: same_edit_def)
  then obtain E' l' where E': "refreshLine E ?l = Some (E', l')" by (auto simp: edited_def)
  show ?thesis
  proof (cases "b = []")
    case True
    have st: "store (l_buf l) (int (length a)) c = Some (a @ c # z # zs)"
      "store (a @ c # z # zs) (int (Suc (length a))) NUL = Some (a @ c # NUL # zs)"
      using tx store_at [of "Suc (length a)" "a @ [c]" z zs NUL] by (auto simp: holds_text_def True Cons store_at)
    have w: "edited E l (a @ [c], b) (Some (snd (tty_write E s), ?l))" for s
      using tty_write_out [of E s] holds_text_wf [OF h] by (auto simp: edited_def same_edit_def)
    show ?thesis
    proof (cases "\<not> mlmode E \<and> sz (l_plen l + (l_len l + 1)) < l_cols l \<and> hintsCallback E = None")
      case True
      let ?m = "[if maskmode E then CHR ''*'' else c]"
      have "linenoiseEditInsert E l c = Some (if tty_broken E then -1 else 0, snd (tty_write E ?m), ?l)"
        using True \<open>b = []\<close> st len by (simp add: linenoiseEditInsert_def tty_write_def del: of_nat_Suc)
      then show ?thesis using w [of ?m] unfolding cap by simp
    next
      case False
      then have "linenoiseEditInsert E l c = do { (E, l) \<leftarrow> refreshLine E ?l; Some (0, E, l) }"
        using \<open>b = []\<close> st len unfolding linenoiseEditInsert_def by (auto simp: Let_def simp del: of_nat_Suc)
      then show ?thesis using e E' unfolding cap by simp
    qed
  next
    case False
    have m: "memmove (l_buf l) (Suc (length a)) (length a) (length b + 1 - 1)
        = Some (a @ hd (b @ [NUL]) # b @ z # zs)"
      using memmove_up [of a b NUL r] tx Cons by (auto simp: holds_text_def)
    have "store (a @ hd (b @ [NUL]) # b @ z # zs) (int (length a)) c = Some (a @ c # b @ z # zs)"
      "store (a @ c # b @ z # zs) (int (Suc (length a + length b))) NUL = Some (a @ c # b @ NUL # zs)"
      using store_at [of "Suc (length a + length b)" "a @ c # b" z zs NUL] by (simp_all add: store_at)
    then have "linenoiseEditInsert E l c = do { (E, l) \<leftarrow> refreshLine E ?l; Some (0, E, l) }"
      using False m len unfolding linenoiseEditInsert_def by (simp add: Let_def del: of_nat_Suc)
    then show ?thesis using e E' unfolding cap by simp
  qed
qed

section \<open>Browsing the history\<close>

text \<open>
  The lines, the index from the end of the one that is edited, and its text: the text is stored in the
  line's place before another line is fetched, which loses what does not fit.
\<close>

definition fetch_line :: "nat \<Rightarrow> bytes \<Rightarrow> cursor_text" where
  "fetch_line cap s = (take (cap - 1) s, [])"

fun zbrowse :: "nat \<Rightarrow> bool \<Rightarrow> bytes list \<times> nat \<times> cursor_text \<Rightarrow> bytes list \<times> nat \<times> cursor_text" where
  "zbrowse cap prev (ls, i, (a, b)) =
     (if length ls \<le> 1 then (ls, i, (a, b))
      else
        let ls = ls[length ls - 1 - i := takeWhile (\<lambda>c. c \<noteq> NUL) (a @ b)] in
        if prev then (if Suc i < length ls then (ls, Suc i, fetch_line cap (ls ! (length ls - 1 - Suc i))) else (ls, i, (a, b)))
        else (if 0 < i then (ls, i - 1, fetch_line cap (ls ! (length ls - 1 - (i - 1)))) else (ls, i, (a, b))))"

definition hist_ok :: "line_env \<Rightarrow> bool" where
  "hist_ok E \<longleftrightarrow> history_wf E \<and> (\<forall>s \<in> set (hist_lines E). nul_free s)"

definition index_ok :: "line_env \<Rightarrow> linenoiseState \<Rightarrow> bool" where
  "index_ok E l \<longleftrightarrow> 0 \<le> history_index l \<and> history_index l < history_len E"

lemma cstring_holds: "holds_text l a b r \<Longrightarrow> cstring (l_buf l) 0 = Some (takeWhile (\<lambda>c. c \<noteq> NUL) (a @ b))"
proof -
  assume h: "holds_text l a b r"
  have "takeWhile (\<lambda>c. c \<noteq> NUL) (xs @ NUL # r) = takeWhile (\<lambda>c. c \<noteq> NUL) xs" for xs
    by (induction xs) auto
  from this [of "a @ b"] show ?thesis using h by (simp add: cstring_def holds_text_def)
qed

lemma strncpy_holds:
  assumes "holds_text l a b r" "nul_free s" and small: "l_buflen l < 2 ^ 31"
  shows "\<exists>b' r'. strncpy (l_buf l) s (l_buflen l) = Some b'
    \<and> store b' (int (sz_dec (l_buflen l))) NUL = Some (take (l_buflen l - 1) s @ NUL # r')
    \<and> length r' + length (take (l_buflen l - 1) s) = l_buflen l"
proof -
  let ?n = "l_buflen l"
  define p where "p = take ?n (s @ replicate ?n NUL)"
  have p: "length p = ?n" by (simp add: p_def)
  have n: "0 < ?n" "length (l_buf l) = Suc ?n" using assms(1) by (auto simp: holds_text_def)
  then obtain x where x: "drop ?n (l_buf l) = [x]"
    by (metis Suc_diff_le add_diff_cancel_left' diff_Suc_1 drop_eq_Nil2 length_Suc_conv length_drop le_refl lessI
        diff_is_0_eq length_0_conv plus_1_eq_Suc)
  have b: "strncpy (l_buf l) s ?n = Some (p @ [x])"
    unfolding strncpy_def p_def [symmetric] store_block_def using n x p by simp
  have pre: "take (?n - 1) p = take (?n - 1) s @ replicate (?n - 1 - length s) NUL"
    using n by (simp add: p_def min_def)
  have px: "p @ [x] = take (?n - 1) p @ (p ! (?n - 1)) # [x]"
    using n p take_Suc_conv_app_nth [of "?n - 1" p] by simp
  have "store (p @ [x]) (int (?n - 1)) NUL = Some (take (?n - 1) p @ [NUL, x])"
    unfolding px by (rule store_at) (use p in simp)
  moreover have "sz_dec ?n = ?n - 1" using n small by simp
  moreover have "replicate k NUL @ [NUL, x] = NUL # replicate k NUL @ [x]" for k by (induction k) simp_all
  then have "\<exists>r'. replicate k NUL @ [NUL, x] = NUL # r' \<and> length r' = Suc k" for k by fastforce
  then obtain r' where "replicate (?n - 1 - length s) NUL @ [NUL, x] = NUL # r'" "length r' = Suc (?n - 1 - length s)"
    by blast
  ultimately show ?thesis using b pre n by (auto simp: min_def)
qed

lemma hist_lines_out [simp]: "hist_lines (E\<lparr>tty_out := out\<rparr>) = hist_lines E"
  by (simp add: hist_lines_def split: option.split)

lemma history_wf_out [simp]: "history_wf (E\<lparr>tty_out := out\<rparr>) = history_wf E"
  by (simp add: history_wf_def split: option.split)

definition browsed ::
  "line_env \<Rightarrow> linenoiseState \<Rightarrow> bytes list \<times> nat \<times> cursor_text \<Rightarrow> (line_env \<times> linenoiseState) option \<Rightarrow> bool" where
  "browsed E l z m \<longleftrightarrow> (\<exists>out h l'. m = Some (E\<lparr>history := h, tty_out := out\<rparr>, l')
     \<and> hist_ok (E\<lparr>history := h\<rparr>) \<and> hist_lines (E\<lparr>history := h\<rparr>) = fst z
     \<and> index_ok E l' \<and> nat (history_index l') = fst (snd z)
     \<and> buffer_wf l' \<and> text_of l' = snd (snd z) \<and> same_edit l (l'\<lparr>history_index := history_index l\<rparr>))"

lemma browsedI:
  assumes "m = Some (E\<lparr>history := h, tty_out := out\<rparr>, l')" "hist_ok (E\<lparr>history := h\<rparr>)"
    "hist_lines (E\<lparr>history := h\<rparr>) = ls" "index_ok E l'" "nat (history_index l') = i"
    "buffer_wf l'" "text_of l' = z" "same_edit l (l'\<lparr>history_index := history_index l\<rparr>)"
  shows "browsed E l (ls, i, z) m"
  using assms unfolding browsed_def by auto

text \<open>The new line is fetched from a used slot.\<close>

lemma fetch_slot:
  assumes view: "view_ok l" and tx: "holds_text l a b r" and ok: "hist_ok (E\<lparr>history := Some h\<rparr>)"
    and idx: "0 \<le> idx" "idx < history_len E"
  shows "browsed E l (hist_lines (E\<lparr>history := Some h\<rparr>), nat idx,
      fetch_line (l_buflen l) (hist_lines (E\<lparr>history := Some h\<rparr>) ! nat (history_len E - 1 - idx)))
    (show_entry (E\<lparr>history := Some h\<rparr>) l idx)"
proof -
  let ?E = "E\<lparr>history := Some h\<rparr>"
  let ?i = "history_len E - 1 - idx"
  define s where "s = hist_lines ?E ! nat ?i"
  have sl: "slot h ?i = Some s"
    using slot_repr [of ?E h ?i] ok idx by (simp add: hist_ok_def s_def)
  have "length (hist_lines ?E) = nat (history_len E)"
    using history_repr(2) [of ?E h] ok by (simp add: hist_ok_def)
  then have "nat ?i < length (hist_lines ?E)" using idx by simp
  then have "s \<in> set (hist_lines ?E)" unfolding s_def by (rule nth_mem)
  then have s: "nul_free s" using ok by (simp add: hist_ok_def)
  have small: "l_buflen l < 2 ^ 31" using view by (simp add: view_ok_def)
  define t where "t = take (l_buflen l - 1) s"
  obtain b' r' where b': "strncpy (l_buf l) s (l_buflen l) = Some b'"
      "store b' (int (sz_dec (l_buflen l))) NUL = Some (t @ NUL # r')" "length r' + length t = l_buflen l"
    using strncpy_holds [OF tx s small] unfolding t_def by blast
  have "nul_free t" using s by (auto simp: t_def nul_free_def dest: in_set_takeD)
  then have c: "cstring (t @ NUL # r') 0 = Some t" by (rule cstring_terminated)
  define l1 where "l1 = l\<lparr>history_index := idx\<rparr>"
  let ?l = "l1\<lparr>l_buf := t @ NUL # r', l_len := length t, l_pos := length t\<rparr>"
  have "holds_text ?l t [] r'" using tx b'(3) by (auto simp: holds_text_def l1_def)
  then have "edited ?E l1 (t, []) (refreshLine ?E ?l)"
    by (intro refreshed) (use view in \<open>auto simp: view_ok_def same_edit_def l1_def\<close>)
  then obtain out l' where l': "refreshLine ?E ?l = Some (?E\<lparr>tty_out := out\<rparr>, l')" "buffer_wf l'"
      "text_of l' = (t, [])" "same_edit l1 l'"
    unfolding edited_def by blast
  have "index_ok E l'" "nat (history_index l') = nat idx" "same_edit l (l'\<lparr>history_index := history_index l\<rparr>)"
    using l'(4) idx by (auto simp: index_ok_def same_edit_def l1_def)
  moreover have "fetch_line (l_buflen l) s = (t, [])" by (simp add: fetch_line_def t_def)
  ultimately show ?thesis
    using sl b' c l' ok by (intro browsedI [where l' = l']) (simp_all add: s_def [symmetric] l1_def show_entry_def)
qed

lemma history_next:
  assumes view: "view_ok l" and tx: "holds_text l a b r" and ok: "hist_ok E" and idx: "index_ok E l"
  shows "browsed E l (zbrowse (l_buflen l) prev (hist_lines E, nat (history_index l), (a, b)))
    (linenoiseEditHistoryNext E l prev)"
proof -
  have len: "length (hist_lines E) = nat (history_len E)" using ok hist_lines_length [of E] by (simp add: hist_ok_def)
  have bt: "buffer_wf l" "text_of l = (a, b)" using holds_text_wf [OF tx] by auto
  show ?thesis
  proof (cases "1 < history_len E")
    case False
    have "E = E\<lparr>history := history E, tty_out := tty_out E\<rparr>" by simp
    then have "browsed E l (hist_lines E, nat (history_index l), a, b) (Some (E, l))"
      using ok idx bt by (intro browsedI [where h = "history E" and out = "tty_out E"]) (simp_all add: same_edit_def)
    moreover have "length (hist_lines E) \<le> 1" using False len by auto
    ultimately show ?thesis using False by (simp add: linenoiseEditHistoryNext_def)
  next
    case True
    note one = True
    obtain h where h: "history E = Some h"
      using True ok by (cases "history E") (auto simp: hist_ok_def history_wf_def)
    define i where "i = history_len E - 1 - history_index l"
    define s where "s = takeWhile (\<lambda>c. c \<noteq> NUL) (a @ b)"
    define h' where "h' = h[nat i := Some s]"
    let ?E = "E\<lparr>history := Some h'\<rparr>"
    have i: "0 \<le> i" "i < history_len E" using idx by (auto simp: i_def index_ok_def)
    have wf: "history_wf E" using ok by (simp add: hist_ok_def)
    have st: "slot h i = Some (hist_lines E ! nat i)" "store h i (Some s) = Some h'" "history_wf ?E"
        "hist_lines ?E = (hist_lines E)[nat i := s]"
      using slot_repr [OF wf h i] history_store [OF wf h i] by (simp_all add: h'_def)
    have "nul_free s" by (simp add: s_def nul_free_takeWhile)
    then have ok': "hist_ok ?E"
      using ok st set_update_subset_insert [of "hist_lines E" "nat i" s] by (auto simp: hist_ok_def)
    have c: "cstring (l_buf l) 0 = Some s" using cstring_holds [OF tx] by (simp add: s_def)
    have stay: "browsed E l (hist_lines ?E, nat (history_index l), a, b) (Some (?E, l\<lparr>history_index := history_index l\<rparr>))"
      using ok' idx bt by (intro browsedI [where h = "Some h'" and out = "tty_out E"]) (simp_all add: same_edit_def)
    have ni: "nat i = length (hist_lines E) - 1 - nat (history_index l)" using i len idx by (simp add: i_def index_ok_def)
    define ls where "ls = hist_lines ?E"
    have lls: "length ls = nat (history_len E)" using len st by (simp add: ls_def)
    have many: "\<not> length (hist_lines E) \<le> 1" using True len by auto
    have z: "zbrowse (l_buflen l) prev (hist_lines E, nat (history_index l), a, b) =
      (if prev then (if Suc (nat (history_index l)) < nat (history_len E)
          then (ls, Suc (nat (history_index l)), fetch_line (l_buflen l) (ls ! (nat (history_len E) - 1 - Suc (nat (history_index l)))))
          else (ls, nat (history_index l), (a, b)))
       else (if 0 < nat (history_index l)
          then (ls, nat (history_index l) - 1, fetch_line (l_buflen l) (ls ! (nat (history_len E) - 1 - (nat (history_index l) - 1))))
          else (ls, nat (history_index l), (a, b))))"
      using many len st(4) by (simp add: ls_def s_def ni Let_def)
    note go = fetch_slot [OF view tx ok', folded ls_def]
    show ?thesis
    proof (cases prev)
      case True
      let ?j = "history_index l + 1"
      have "nat ?j = Suc (nat (history_index l))" "nat (history_len E - 1 - ?j) = nat (history_len E) - 1 - Suc (nat (history_index l))"
        using idx by (auto simp: index_ok_def)
      then have g: "?j < history_len E \<Longrightarrow> browsed E l (ls, Suc (nat (history_index l)),
          fetch_line (l_buflen l) (ls ! (nat (history_len E) - 1 - Suc (nat (history_index l)))))
        (show_entry ?E l ?j)"
        using go [of ?j] idx by (simp add: index_ok_def)
      have e: "linenoiseEditHistoryNext E l prev =
        (if history_len E \<le> ?j then Some (?E, l\<lparr>history_index := history_len E - 1\<rparr>)
         else show_entry ?E l ?j)"
        using one idx c st h True by (simp add: linenoiseEditHistoryNext_def index_ok_def Let_def i_def [symmetric])
      show ?thesis
      proof (cases "?j < history_len E")
        case True
        then have "Suc (nat (history_index l)) < nat (history_len E)" using idx by (auto simp: index_ok_def)
        then show ?thesis using g True \<open>prev\<close> unfolding z e by simp
      next
        case False
        then have "history_len E - 1 = history_index l" "\<not> Suc (nat (history_index l)) < nat (history_len E)"
          using idx by (auto simp: index_ok_def)
        then show ?thesis using stay False \<open>prev\<close> unfolding z e by (simp add: ls_def)
      qed
    next
      case False
      let ?j = "history_index l - 1"
      have g: "0 < history_index l \<Longrightarrow> browsed E l (ls, nat (history_index l) - 1,
          fetch_line (l_buflen l) (ls ! (nat (history_len E) - 1 - (nat (history_index l) - 1))))
        (show_entry ?E l ?j)"
      proof -
        assume p: "0 < history_index l"
        then have "nat ?j = nat (history_index l) - 1"
          "nat (history_len E - 1 - ?j) = nat (history_len E) - 1 - (nat (history_index l) - 1)"
          using idx by (auto simp: index_ok_def)
        then show ?thesis using go [of ?j] idx p by (simp add: index_ok_def)
      qed
      have e: "linenoiseEditHistoryNext E l prev =
        (if ?j < 0 then Some (?E, l\<lparr>history_index := 0\<rparr>)
         else show_entry ?E l ?j)"
        using one idx c st h False by (simp add: linenoiseEditHistoryNext_def index_ok_def Let_def i_def [symmetric])
      show ?thesis
      proof (cases "0 < history_index l")
        case True
        then show ?thesis using g \<open>\<not> prev\<close> unfolding z e by simp
      next
        case False
        then have "history_index l = 0" using idx by (simp add: index_ok_def)
        then show ?thesis using stay \<open>\<not> prev\<close> unfolding z e by (simp add: ls_def)
      qed
    qed
  qed
qed

end
