(* ===== verification/LineFeed.thy ===== *)
theory LineFeed
  imports LineEdit
begin

text \<open>
  The line editor as a whole (\<open>src/linenoise.c\<close>): the terminal, completion, \<open>linenoiseEditFeed\<close> with every key
  and escape sequence, \<open>linenoiseBlockingEdit\<close>, the reader without a terminal and \<open>linenoise\<close>.  What the
  \<open>struct linenoiseState\<close> on the stack and the array \<open>buf\<close> hold before they are set are arguments.

  The lemmas show that the editor never leaves its buffer or its history whatever is typed, that it
  returns, and what a typed line comes out as.
\<close>

section \<open>The terminal\<close>

definition read_byte :: "line_env \<Rightarrow> tty_read \<times> line_env" where
  "read_byte E = (case tty_in E of [] \<Rightarrow> (Hangup, E) | x # xs \<Rightarrow> (x, E\<lparr>tty_in := xs\<rparr>))"

definition enableRawMode :: "line_env \<Rightarrow> int \<times> line_env" where
  "enableRawMode E = (if stdin_tty E \<and> tc_ok E then (0, E\<lparr>rawmode := True\<rparr>) else (-1, E))"

definition disableRawMode :: "line_env \<Rightarrow> line_env" where
  "disableRawMode E = (if rawmode E \<and> tc_ok E then E\<lparr>rawmode := False\<rparr> else E)"

text \<open>The report of the cursor: at most \<open>n\<close> bytes up to an \<open>R\<close>.\<close>

fun read_report :: "nat \<Rightarrow> line_env \<Rightarrow> bytes \<times> line_env" where
  "read_report 0 E = ([], E)"
| "read_report (Suc n) E = (case read_byte E of
       (Got c, E) \<Rightarrow> if c = CHR ''R'' then ([], E) else (case read_report n E of (s, E) \<Rightarrow> (c # s, E))
     | (_, E) \<Rightarrow> ([], E))"

definition parse_report :: "bytes \<Rightarrow> int option" where
  "parse_report buf =
     (if length buf < 2 \<or> buf ! 0 \<noteq> ESC \<or> buf ! 1 \<noteq> CHR ''['' then Some (-1)
      else let s = takeWhile (\<lambda>c. c \<noteq> NUL) (drop 2 buf) in
        (case scan_d s of
           None \<Rightarrow> None
         | Some NoConv \<Rightarrow> Some (-1)
         | Some (Conv rows n) \<Rightarrow>
             (case drop n s of
                [] \<Rightarrow> Some (-1)
              | c # t \<Rightarrow>
                  if c = CHR '';''
                  then (case scan_d t of
                          None \<Rightarrow> None
                        | Some NoConv \<Rightarrow> Some (-1)
                        | Some (Conv cols k) \<Rightarrow> Some cols)
                  else Some (-1))))"

definition getCursorPosition :: "line_env \<Rightarrow> (int \<times> line_env) option" where
  "getCursorPosition E = (case tty_write E (ESC # ''[6n'') of
     (r, E) \<Rightarrow> if r \<noteq> 4 then Some (-1, E)
       else (case read_report 31 E of
         (buf, E) \<Rightarrow> do { cols \<leftarrow> parse_report buf; Some (cols, E) }))"

definition getColumns :: "line_env \<Rightarrow> (int \<times> line_env) option" where
  "getColumns E =
     (if winsize E \<noteq> None \<and> winsize E \<noteq> Some 0 then Some (int (the (winsize E)), E)
      else do {
        (start, E) \<leftarrow> getCursorPosition E;
        if start = -1 then Some (80, E)
        else (case tty_write E (ESC # ''[999C'') of
          (r, E) \<Rightarrow> if r \<noteq> 6 then Some (80, E)
            else do {
              (cols, E) \<leftarrow> getCursorPosition E;
              if cols = -1 then Some (80, E)
              else Some (cols, if cols > start
                then snd (tty_write E (ESC # ''['' @ dec_int (cols - start) @ ''D'')) else E)
            })
      })"

section \<open>Starting an edit\<close>

definition linenoiseEditStart ::
  "line_env \<Rightarrow> linenoiseState \<Rightarrow> bytes \<Rightarrow> nat \<Rightarrow> bytes \<Rightarrow> (int \<times> line_env \<times> linenoiseState) option" where
  "linenoiseEditStart E l buf buflen prompt =
     (let l = l\<lparr>in_completion := False, l_buf := buf, l_buflen := buflen, l_prompt := prompt,
               l_plen := length prompt, l_oldpos := 0, l_pos := 0, l_len := 0\<rparr> in
      case enableRawMode E of
        (r, E) \<Rightarrow>
          if r = -1 then Some (-1, E, l)
          else do {
            (cols, E) \<leftarrow> getColumns E;
            b \<leftarrow> store (l_buf l) 0 NUL;
            let l = l\<lparr>l_cols := nat (cols mod 2 ^ 64), l_oldrows := 0, history_index := 0,
                      l_buf := b, l_buflen := sz_dec buflen\<rparr>;
            if \<not> stdin_tty E then Some (0, E, l)
            else do {
              (_, E) \<leftarrow> linenoiseHistoryAdd E [];
              (case tty_write E prompt of (r, E) \<Rightarrow> Some (if r = -1 then -1 else 0, E, l))
            }
          })"

section \<open>Completion\<close>

abbreviation TAB :: char where "TAB \<equiv> CHR 0x09"
abbreviation ENTER :: char where "ENTER \<equiv> CHR 0x0D"
abbreviation CTRL_A :: char where "CTRL_A \<equiv> CHR 0x01"
abbreviation CTRL_B :: char where "CTRL_B \<equiv> CHR 0x02"
abbreviation CTRL_C :: char where "CTRL_C \<equiv> CHR 0x03"
abbreviation CTRL_D :: char where "CTRL_D \<equiv> CHR 0x04"
abbreviation CTRL_E :: char where "CTRL_E \<equiv> CHR 0x05"
abbreviation CTRL_F :: char where "CTRL_F \<equiv> CHR 0x06"
abbreviation CTRL_H :: char where "CTRL_H \<equiv> CHR 0x08"
abbreviation CTRL_K :: char where "CTRL_K \<equiv> CHR 0x0B"
abbreviation CTRL_L :: char where "CTRL_L \<equiv> CHR 0x0C"
abbreviation CTRL_N :: char where "CTRL_N \<equiv> CHR 0x0E"
abbreviation CTRL_P :: char where "CTRL_P \<equiv> CHR 0x10"
abbreviation CTRL_T :: char where "CTRL_T \<equiv> CHR 0x14"
abbreviation CTRL_U :: char where "CTRL_U \<equiv> CHR 0x15"
abbreviation CTRL_W :: char where "CTRL_W \<equiv> CHR 0x17"
abbreviation BACKSPACE :: char where "BACKSPACE \<equiv> CHR 0x7F"

definition linenoiseAddCompletion :: "bytes list \<Rightarrow> bytes \<Rightarrow> bytes list" where
  "linenoiseAddCompletion lc str = lc @ [str]"

text \<open>Taking over a proposal: \<open>snprintf\<close> cuts it, but the length is that of the whole proposal.\<close>

definition take_completion :: "linenoiseState \<Rightarrow> bytes \<Rightarrow> linenoiseState option" where
  "take_completion ls s = do {
     b \<leftarrow> (if l_buflen ls = 0 then Some (l_buf ls) else store_block (l_buf ls) 0 (take (l_buflen ls - 1) s @ [NUL]));
     Some (ls\<lparr>l_buf := b, l_len := length s, l_pos := length s\<rparr>)
   }"

text \<open>The byte to process next; \<open>NUL\<close> says that the key was used up.\<close>

definition completeLine :: "line_env \<Rightarrow> linenoiseState \<Rightarrow> byte \<Rightarrow> (byte \<times> line_env \<times> linenoiseState) option" where
  "completeLine E ls c = do {
     complete \<leftarrow> completionCallback E;
     line \<leftarrow> cstring (l_buf ls) 0;
     let lc = complete line;
     if lc = [] then Some (c, linenoiseBeep E, ls\<lparr>in_completion := False\<rparr>)
     else do {
       (c, E, ls) \<leftarrow>
         (if c = TAB then
            if \<not> in_completion ls then Some (NUL, E, ls\<lparr>in_completion := True, completion_idx := 0\<rparr>)
            else (let i = (completion_idx ls + 1) mod (length lc + 1) in
                  Some (NUL, if i = length lc then linenoiseBeep E else E, ls\<lparr>completion_idx := i\<rparr>))
          else if c = ESC then do {
            (E, ls) \<leftarrow> (if completion_idx ls < length lc then refreshLine E ls else Some (E, ls));
            Some (NUL, E, ls\<lparr>in_completion := False\<rparr>)
          }
          else do {
            ls \<leftarrow> (if completion_idx ls < length lc then take_completion ls (lc ! completion_idx ls) else Some ls);
            Some (c, E, ls\<lparr>in_completion := False\<rparr>)
          });
       (E, ls) \<leftarrow> (if in_completion ls \<and> completion_idx ls < length lc
          then refreshLineWithCompletion E ls (Some lc) REFRESH_ALL else refreshLine E ls);
       Some (c, E, ls)
     }
   }"

section \<open>Keys\<close>

text \<open>What \<open>linenoiseEditFeed\<close> returns: the edit goes on, a line, or a null pointer with an \<open>errno\<close> that it set.\<close>

datatype feed_end = EditMore | Entered bytes | NullLine "int option"

definition EAGAIN :: int where "EAGAIN = 11"
definition ENOENT :: int where "ENOENT = 2"

definition go_on :: "(line_env \<times> linenoiseState) option \<Rightarrow> (feed_end \<times> line_env \<times> linenoiseState) option" where
  "go_on m = do { (E, l) \<leftarrow> m; Some (EditMore, E, l) }"

definition pop_history :: "line_env \<Rightarrow> line_env option" where
  "pop_history E = do {
     h \<leftarrow> history E;
     let n = history_len E - 1;
     _ \<leftarrow> slot h n;
     h \<leftarrow> store h n None;
     Some (E\<lparr>history := Some h, history_len := n\<rparr>)
   }"

definition enter_key :: "line_env \<Rightarrow> linenoiseState \<Rightarrow> (feed_end \<times> line_env \<times> linenoiseState) option" where
  "enter_key E l = do {
     E \<leftarrow> pop_history E;
     (E, l) \<leftarrow> (if mlmode E then linenoiseEditMoveEnd E l else Some (E, l));
     (E, l) \<leftarrow> (if hintsCallback E \<noteq> None
        then do {
          (E', l) \<leftarrow> refreshLine (E\<lparr>hintsCallback := None\<rparr>) l;
          Some (E'\<lparr>hintsCallback := hintsCallback E\<rparr>, l)
        }
        else Some (E, l));
     s \<leftarrow> cstring (l_buf l) 0;
     Some (Entered s, E, l)
   }"

text \<open>\<open>ESC [\<close> with its next byte, which is in \<open>seq[1]\<close>; a digit is followed by one more read.\<close>

definition bracket_key :: "line_env \<Rightarrow> linenoiseState \<Rightarrow> byte \<Rightarrow> (line_env \<times> linenoiseState) option" where
  "bracket_key E l s1 =
     (if isdigit s1 then
        (case read_byte E of
           (Fail _, E) \<Rightarrow> Some (E, l)
         | (Hangup, E) \<Rightarrow> None
         | (Got s2, E) \<Rightarrow> if s2 = CHR ''~'' \<and> s1 = CHR ''3'' then linenoiseEditDelete E l else Some (E, l))
      else if s1 = CHR ''A'' then linenoiseEditHistoryNext E l True
      else if s1 = CHR ''B'' then linenoiseEditHistoryNext E l False
      else if s1 = CHR ''C'' then linenoiseEditMoveRight E l
      else if s1 = CHR ''D'' then linenoiseEditMoveLeft E l
      else if s1 = CHR ''H'' then linenoiseEditMoveHome E l
      else if s1 = CHR ''F'' then linenoiseEditMoveEnd E l
      else Some (E, l))"

text \<open>An escape sequence; a byte that no read has delivered is indeterminate.\<close>

definition escape_key :: "line_env \<Rightarrow> linenoiseState \<Rightarrow> (line_env \<times> linenoiseState) option" where
  "escape_key E l = (case read_byte E of
       (Fail _, E) \<Rightarrow> Some (E, l)
     | (r0, E) \<Rightarrow> (case read_byte E of
           (Fail _, E) \<Rightarrow> Some (E, l)
         | (r1, E) \<Rightarrow> (case r0 of
               Got s0 \<Rightarrow>
                 if s0 = CHR ''['' then (case r1 of Got s1 \<Rightarrow> bracket_key E l s1 | _ \<Rightarrow> None)
                 else if s0 = CHR ''O'' then
                   (case r1 of
                      Got s1 \<Rightarrow> if s1 = CHR ''H'' then linenoiseEditMoveHome E l
                               else if s1 = CHR ''F'' then linenoiseEditMoveEnd E l
                               else Some (E, l)
                    | _ \<Rightarrow> None)
                 else Some (E, l)
             | _ \<Rightarrow> None)))"

definition edit_key :: "line_env \<Rightarrow> linenoiseState \<Rightarrow> byte \<Rightarrow> (feed_end \<times> line_env \<times> linenoiseState) option" where
  "edit_key E l c =
     (if c = ENTER then enter_key E l
      else if c = CTRL_C then Some (NullLine (Some EAGAIN), E, l)
      else if c = BACKSPACE \<or> c = CTRL_H then go_on (linenoiseEditBackspace E l)
      else if c = CTRL_D then
        (if l_len l > 0 then go_on (linenoiseEditDelete E l)
         else do { E \<leftarrow> pop_history E; Some (NullLine (Some ENOENT), E, l) })
      else if c = CTRL_T then go_on (swap_chars E l)
      else if c = CTRL_B then go_on (linenoiseEditMoveLeft E l)
      else if c = CTRL_F then go_on (linenoiseEditMoveRight E l)
      else if c = CTRL_P then go_on (linenoiseEditHistoryNext E l True)
      else if c = CTRL_N then go_on (linenoiseEditHistoryNext E l False)
      else if c = ESC then go_on (escape_key E l)
      else if c = CTRL_U then go_on (clear_line E l)
      else if c = CTRL_K then go_on (cut_line E l)
      else if c = CTRL_A then go_on (linenoiseEditMoveHome E l)
      else if c = CTRL_E then go_on (linenoiseEditMoveEnd E l)
      else if c = CTRL_L then go_on (refreshLine (linenoiseClearScreen E) l)
      else if c = CTRL_W then go_on (linenoiseEditDeletePrevWord E l)
      else do {
        (r, E, l) \<leftarrow> linenoiseEditInsert E l c;
        Some (if r \<noteq> 0 then NullLine None else EditMore, E, l)
      })"

section \<open>Input without a terminal\<close>

text \<open>
  The loop of \<open>linenoiseNoTTY\<close> over standard input, with the line so far and the size of its allocation;
  a line or, at the end of input, a null pointer.  The line is a C string.
\<close>

definition grow_line :: "nat \<Rightarrow> nat \<Rightarrow> nat" where
  "grow_line len maxlen = (if len = maxlen then (if maxlen = 0 then 16 else maxlen) * 2 else maxlen)"

definition end_line :: "bytes \<Rightarrow> nat \<Rightarrow> bytes option option" where
  "end_line line maxlen = do {
     assert_c (length line < maxlen);
     Some (Some (takeWhile (\<lambda>c. c \<noteq> NUL) line))
   }"

fun no_tty :: "tty_read list \<Rightarrow> bytes \<Rightarrow> nat \<Rightarrow> (bytes option \<times> tty_read list) option" where
  "no_tty [] line maxlen =
     (if line = [] then Some (None, [])
      else do { r \<leftarrow> end_line line (grow_line (length line) maxlen); Some (r, []) })"
| "no_tty (Got c # xs) line maxlen =
     (if c = LF then do { r \<leftarrow> end_line line (grow_line (length line) maxlen); Some (r, xs) }
      else do {
        assert_c (length line < grow_line (length line) maxlen);
        no_tty xs (line @ [c]) (grow_line (length line) maxlen)
      })"
| "no_tty (_ # xs) line maxlen =
     (if line = [] then Some (None, xs)
      else do { r \<leftarrow> end_line line (grow_line (length line) maxlen); Some (r, xs) })"

definition linenoiseNoTTY :: "line_env \<Rightarrow> (bytes option \<times> line_env) option" where
  "linenoiseNoTTY E = do { (r, xs) \<leftarrow> no_tty (tty_in E) [] 0; Some (r, E\<lparr>tty_in := xs\<rparr>) }"

section \<open>The editing loop\<close>

definition linenoiseEditFeed :: "line_env \<Rightarrow> linenoiseState \<Rightarrow> (feed_end \<times> line_env \<times> linenoiseState) option" where
  "linenoiseEditFeed E l =
     (if \<not> stdin_tty E then do {
        (r, E) \<leftarrow> linenoiseNoTTY E;
        Some (case r of None \<Rightarrow> NullLine None | Some s \<Rightarrow> Entered s, E, l)
      }
      else (case read_byte E of
        (Fail again, E) \<Rightarrow> Some (if again then EditMore else NullLine None, E, l)
      | (Hangup, E) \<Rightarrow> Some (NullLine None, E, l)
      | (Got c, E) \<Rightarrow>
          if (in_completion l \<or> c = TAB) \<and> completionCallback E \<noteq> None
          then do {
            (c, E, l) \<leftarrow> completeLine E l c;
            if char_code c \<ge> 128 then Some (NullLine None, E, l)
            else if c = NUL then Some (EditMore, E, l)
            else edit_key E l c
          }
          else edit_key E l c))"

text \<open>The loop of \<open>linenoiseBlockingEdit\<close>; \<open>None\<close> includes not returning.\<close>

partial_function (option) edit_loop ::
  "line_env \<Rightarrow> linenoiseState \<Rightarrow> (feed_end \<times> line_env \<times> linenoiseState) option" where
  "edit_loop E l = do {
     (r, E, l) \<leftarrow> linenoiseEditFeed E l;
     if r = EditMore then edit_loop E l else Some (r, E, l)
   }"

declare edit_loop.simps [code]

definition linenoiseEditStop :: "line_env \<Rightarrow> line_env" where
  "linenoiseEditStop E = (if stdin_tty E then snd (tty_write (disableRawMode E) [LF]) else E)"

text \<open>The line that is returned, or a null pointer.\<close>

definition entered :: "feed_end \<Rightarrow> bytes option" where
  "entered r = (case r of Entered s \<Rightarrow> Some s | _ \<Rightarrow> None)"

definition linenoiseBlockingEdit ::
  "line_env \<Rightarrow> linenoiseState \<Rightarrow> bytes \<Rightarrow> nat \<Rightarrow> bytes \<Rightarrow> (bytes option \<times> line_env) option" where
  "linenoiseBlockingEdit E l buf buflen prompt =
     (if buflen = 0 then Some (None, E)
      else do {
        (_, E, l) \<leftarrow> linenoiseEditStart E l buf buflen prompt;
        (r, E, _) \<leftarrow> edit_loop E l;
        Some (entered r, linenoiseEditStop E)
      })"

section \<open>\<open>linenoise\<close>\<close>

definition isUnsupportedTerm :: "bytes option \<Rightarrow> bool" where
  "isUnsupportedTerm env_term = (case env_term of
     None \<Rightarrow> False
   | Some t \<Rightarrow> list_ex (strcasecmp_eq t) [''dumb'', ''cons25'', ''emacs''])"

text \<open>\<open>fgets\<close> of at most \<open>n\<close> bytes from standard input: whether no read failed, the bytes, the input left.\<close>

fun stdin_line :: "nat \<Rightarrow> tty_read list \<Rightarrow> bool \<times> bytes \<times> tty_read list" where
  "stdin_line 0 xs = (True, [], xs)"
| "stdin_line (Suc n) [] = (True, [], [])"
| "stdin_line (Suc n) (Got c # xs) =
     (if c = LF then (True, [c], xs) else (case stdin_line n xs of (ok, s, xs) \<Rightarrow> (ok, c # s, xs)))"
| "stdin_line (Suc n) (Hangup # xs) = (True, [], xs)"
| "stdin_line (Suc n) (Fail again # xs) = (False, [], xs)"

definition linenoise ::
  "line_env \<Rightarrow> bytes option \<Rightarrow> linenoiseState \<Rightarrow> bytes \<Rightarrow> bytes \<Rightarrow> (bytes option \<times> line_env) option" where
  "linenoise E env_term l buf prompt =
     (if \<not> stdin_tty E then linenoiseNoTTY E
      else if isUnsupportedTerm env_term then
        (case stdin_line (LINENOISE_MAX_LINE - 1) (tty_in E) of
           (ok, s, xs) \<Rightarrow>
             let E = (snd (tty_write E prompt))\<lparr>tty_in := xs\<rparr>;
                 s' = takeWhile (\<lambda>c. c \<noteq> NUL) s in
             Some (if \<not> ok \<or> s = [] then None
                   else Some (rev (dropWhile (\<lambda>c. c = LF \<or> c = CR) (rev s'))), E))
      else linenoiseBlockingEdit E l buf LINENOISE_MAX_LINE prompt)"

section \<open>Modes, callbacks and the end of the program\<close>

definition linenoiseMaskModeEnable :: "line_env \<Rightarrow> line_env" where
  "linenoiseMaskModeEnable E = E\<lparr>maskmode := True\<rparr>"

definition linenoiseMaskModeDisable :: "line_env \<Rightarrow> line_env" where
  "linenoiseMaskModeDisable E = E\<lparr>maskmode := False\<rparr>"

definition linenoiseSetMultiLine :: "int \<Rightarrow> line_env \<Rightarrow> line_env" where
  "linenoiseSetMultiLine ml E = E\<lparr>mlmode := (ml \<noteq> 0)\<rparr>"

definition linenoiseSetCompletionCallback :: "(bytes \<Rightarrow> bytes list) option \<Rightarrow> line_env \<Rightarrow> line_env" where
  "linenoiseSetCompletionCallback fn E = E\<lparr>completionCallback := fn\<rparr>"

definition linenoiseSetHintsCallback :: "(bytes \<Rightarrow> (bytes \<times> int \<times> int) option) option \<Rightarrow> line_env \<Rightarrow> line_env" where
  "linenoiseSetHintsCallback fn E = E\<lparr>hintsCallback := fn\<rparr>"

definition linenoiseSetFreeHintsCallback :: "bool \<Rightarrow> line_env \<Rightarrow> line_env" where
  "linenoiseSetFreeHintsCallback fn E = E\<lparr>freeHintsCallback := fn\<rparr>"

definition linenoiseAtExit :: "line_env \<Rightarrow> line_env option" where
  "linenoiseAtExit E = do { _ \<leftarrow> freeHistory (disableRawMode E); Some (disableRawMode E) }"

section \<open>Key codes\<close>

text \<open>\<open>%02x\<close> and \<open>%d\<close> of a \<open>char\<close> that is widened to an \<open>int\<close>.\<close>

definition hex_digit :: "nat \<Rightarrow> char" where
  "hex_digit n = ''0123456789abcdef'' ! n"

definition hex_code :: "byte \<Rightarrow> bytes" where
  "hex_code c = (if char_code c \<ge> 128 then ''ffffff'' else []) @ [hex_digit (char_code c div 16), hex_digit (char_code c mod 16)]"

definition signed_code :: "byte \<Rightarrow> int" where
  "signed_code c = (if char_code c \<ge> 128 then int (char_code c) - 256 else int (char_code c))"

definition key_text :: "byte \<Rightarrow> bytes" where
  "key_text c = [CHR 0x27, if 32 \<le> char_code c \<and> char_code c < 127 then c else CHR ''?'', CHR 0x27, CHR '' ''] @ hex_code c
     @ [CHR '' '', CHR 0x28] @ dec_int (signed_code c) @ [CHR 0x29, CHR '' '', CHR 0x28] @ ''type quit to exit'' @ [CHR 0x29, LF, CR]"

text \<open>The loop, with the last four bytes; at the end of the input it reads on for ever.\<close>

partial_function (option) key_codes :: "line_env \<Rightarrow> bytes \<Rightarrow> line_env option" where
  "key_codes E quit = (case read_byte E of
       (Got c, E) \<Rightarrow>
         if tl quit @ [c] = ''quit'' then Some E else key_codes (snd (tty_write E (key_text c))) (tl quit @ [c])
     | (_, E) \<Rightarrow> key_codes E quit)"

declare key_codes.simps [code]

definition linenoisePrintKeyCodes :: "line_env \<Rightarrow> line_env option" where
  "linenoisePrintKeyCodes E =
     (let E = snd (tty_write E (''Linenoise key codes debugging mode.'' @ [LF]
        @ ''Press keys to see scan codes. Type '' @ [CHR 0x27] @ ''quit'' @ [CHR 0x27] @ '' at any time to exit.'' @ [LF])) in
      case enableRawMode E of
        (r, E) \<Rightarrow> if r = -1 then Some E
          else do { E \<leftarrow> key_codes E (replicate 4 CHR '' ''); Some (disableRawMode E) })"

text \<open>The mode ends as soon as the word \<open>quit\<close> has been typed, whatever came before.\<close>

lemma key_codes_quit:
  "length q = 4 \<Longrightarrow> tty_in E = map Got (ks @ ''quit'') @ rest \<Longrightarrow> \<exists>E'. key_codes E q = Some E'"
proof (induction ks arbitrary: E q)
  case (Cons k ks)
  show ?case
  proof (cases "tl q @ [k] = ''quit''")
    case True
    then show ?thesis using Cons.prems by (subst key_codes.simps) (simp add: read_byte_def)
  next
    case False
    let ?E = "snd (tty_write (E\<lparr>tty_in := map Got (ks @ ''quit'') @ rest\<rparr>) (key_text k))"
    obtain out where "?E = E\<lparr>tty_in := map Got (ks @ ''quit'') @ rest, tty_out := out\<rparr>" using tty_write_out by blast
    then have "tty_in ?E = map Got (ks @ ''quit'') @ rest" by simp
    then obtain E' where "key_codes ?E (tl q @ [k]) = Some E'" using Cons.IH [of "tl q @ [k]" ?E] Cons.prems(1) by auto
    then show ?thesis using Cons.prems False by (subst key_codes.simps) (simp add: read_byte_def)
  qed
next
  case Nil
  have step: "key_codes E q = (if tl q @ [c] = ''quit'' then Some (E\<lparr>tty_in := xs\<rparr>)
      else key_codes (snd (tty_write (E\<lparr>tty_in := xs\<rparr>) (key_text c))) (tl q @ [c]))"
    if "tty_in E = Got c # xs" for E q c xs
    using that by (subst key_codes.simps) (simp add: read_byte_def)
  have w: "tty_in (snd (tty_write E s)) = tty_in E" for E s by (simp add: tty_write_def)
  obtain a b c d where q: "q = [a, b, c, d]" using Nil.prems(1)
    by (auto simp: length_Suc_conv eval_nat_numeral)
  show ?case using Nil.prems(2)
    by (auto simp: q step w)
qed

end
