(* ===== verification/LineSession.thy ===== *)
theory LineSession
  imports LineFeed
begin

text \<open>
  Sessions of the line editor: the invariant that every key keeps, that an edit returns whatever is typed,
  what a typed line comes out as, and the keys that do not do what they should.
\<close>

section \<open>The invariant of a session\<close>

text \<open>A proposal fits into the buffer with its terminator.\<close>

definition completions_fit :: "(bytes \<Rightarrow> bytes list) option \<Rightarrow> nat \<Rightarrow> bool" where
  "completions_fit cb cap \<longleftrightarrow> (case cb of None \<Rightarrow> True | Some f \<Rightarrow> (\<forall>line. \<forall>s \<in> set (f line). length s < cap))"

definition session :: "line_env \<Rightarrow> linenoiseState \<Rightarrow> bool" where
  "session E l \<longleftrightarrow> stdin_tty E \<and> hist_ok E \<and> index_ok E l \<and> view_ok l \<and> buffer_wf l
     \<and> completions_fit (completionCallback E) (l_buflen l)"

text \<open>No hang-up, and three more reads behind every escape, so that no indeterminate byte is used.\<close>

fun whole_escapes :: "tty_read list \<Rightarrow> bool" where
  "whole_escapes [] = True"
| "whole_escapes (x # xs) = (x \<noteq> Hangup \<and> (x = Got ESC \<longrightarrow> 3 \<le> length xs) \<and> whole_escapes xs)"

lemma whole_escapes_drop: "whole_escapes xs \<Longrightarrow> whole_escapes (drop n xs)"
  by (induction xs arbitrary: n) (auto simp: drop_Cons split: nat.split)

text \<open>What an edit never changes: the modes, the callbacks, the terminal and the bound of the history.\<close>

definition ln_settings :: "line_env \<Rightarrow> (bool \<times> bool \<times> int) \<times> ((bytes \<Rightarrow> bytes list) option
    \<times> (bytes \<Rightarrow> (bytes \<times> int \<times> int) option) option) \<times> (bool \<times> bool \<times> bool \<times> nat option)" where
  "ln_settings E = ((mlmode E, maskmode E, history_max_len E), (completionCallback E, hintsCallback E),
     (stdin_tty E, tc_ok E, tty_broken E, winsize E))"

lemma settings_frame [simp]:
  "ln_settings (E\<lparr>tty_out := x\<rparr>) = ln_settings E" "ln_settings (E\<lparr>tty_in := y\<rparr>) = ln_settings E"
  "ln_settings (E\<lparr>tty_err := w\<rparr>) = ln_settings E" "ln_settings (E\<lparr>history := h\<rparr>) = ln_settings E"
  "ln_settings (E\<lparr>history_len := n\<rparr>) = ln_settings E" "ln_settings (E\<lparr>rawmode := r\<rparr>) = ln_settings E"
  by (simp_all add: ln_settings_def)

definition keeps :: "line_env \<Rightarrow> linenoiseState \<Rightarrow> (line_env \<times> linenoiseState) option \<Rightarrow> bool" where
  "keeps E l m \<longleftrightarrow> (\<exists>E' l'. m = Some (E', l') \<and> session E' l' \<and> tty_in E' = tty_in E
     \<and> l_buflen l' = l_buflen l \<and> ln_settings E' = ln_settings E)"

lemma hist_ok_frame [simp]:
  "hist_ok (E\<lparr>tty_out := x\<rparr>) = hist_ok E" "hist_ok (E\<lparr>tty_in := y\<rparr>) = hist_ok E"
  "hist_ok (E\<lparr>hintsCallback := z\<rparr>) = hist_ok E" "hist_ok (E\<lparr>tty_err := w\<rparr>) = hist_ok E"
  "hist_ok (E\<lparr>rawmode := r\<rparr>) = hist_ok E"
  by (cases "history E"; simp add: hist_ok_def history_wf_def hist_lines_def)+

lemma hist_lines_frame [simp]:
  "hist_lines (E\<lparr>tty_in := y\<rparr>) = hist_lines E" "hist_lines (E\<lparr>hintsCallback := z\<rparr>) = hist_lines E"
  "hist_lines (E\<lparr>tty_err := w\<rparr>) = hist_lines E" "hist_lines (E\<lparr>rawmode := r\<rparr>) = hist_lines E"
  by (cases "history E"; simp add: hist_lines_def)+

lemma session_frame [simp]:
  "session (E\<lparr>tty_out := x\<rparr>) l = session E l" "session (E\<lparr>tty_in := y\<rparr>) l = session E l"
  "session (E\<lparr>tty_err := w\<rparr>) l = session E l"
  by (simp_all add: session_def index_ok_def)

lemma session_completing [simp]:
  "session E (l\<lparr>in_completion := b\<rparr>) = session E l" "session E (l\<lparr>completion_idx := i\<rparr>) = session E l"
  by (simp_all add: session_def index_ok_def view_ok_def buffer_wf_def)

lemma session_text: "session E l \<Longrightarrow> \<exists>r. holds_text l (fst (text_of l)) (snd (text_of l)) r"
  using buffer_wf_holds [of l "fst (text_of l)" "snd (text_of l)"] by (auto simp: session_def)

lemma session_same:
  "session E l \<Longrightarrow> buffer_wf l' \<Longrightarrow> same_edit l l' \<Longrightarrow> session E l'"
  by (auto simp: session_def index_ok_def view_ok_def same_edit_def)

lemma edited_keeps: "session E l \<Longrightarrow> edited E l z m \<Longrightarrow> keeps E l m"
proof -
  assume s: "session E l" and "edited E l z m"
  then obtain out l' where m: "m = Some (E\<lparr>tty_out := out\<rparr>, l')" "buffer_wf l'" "same_edit l l'"
    by (auto simp: edited_def)
  have "session (E\<lparr>tty_out := out\<rparr>) l'" using session_same [OF s m(2,3)] by simp
  moreover have "tty_in (E\<lparr>tty_out := out\<rparr>) = tty_in E" "ln_settings (E\<lparr>tty_out := out\<rparr>) = ln_settings E" by simp_all
  moreover have "l_buflen l' = l_buflen l" using m(3) by (simp add: same_edit_def)
  ultimately show ?thesis unfolding keeps_def using m(1) by blast
qed

lemma browsed_keeps: "session E l \<Longrightarrow> browsed E l z m \<Longrightarrow> keeps E l m"
proof -
  assume s: "session E l" and "browsed E l z m"
  then obtain out h l' where m: "m = Some (E\<lparr>history := h, tty_out := out\<rparr>, l')" "hist_ok (E\<lparr>history := h\<rparr>)"
      "index_ok E l'" "buffer_wf l'" "same_edit l (l'\<lparr>history_index := history_index l\<rparr>)"
    unfolding browsed_def by blast
  have "session (E\<lparr>history := h\<rparr>) l'"
    using s m by (auto simp: session_def index_ok_def view_ok_def same_edit_def)
  moreover have "tty_in (E\<lparr>history := h, tty_out := out\<rparr>) = tty_in E"
    "ln_settings (E\<lparr>history := h, tty_out := out\<rparr>) = ln_settings E" by simp_all
  moreover have "l_buflen l' = l_buflen l" using m(5) by (simp add: same_edit_def)
  ultimately show ?thesis unfolding keeps_def using m(1) session_frame(1) by blast
qed

lemma unchanged_keeps: "session E l \<Longrightarrow> keeps E l (Some (E, l))"
  using edited_keeps unchanged session_text by blast

text \<open>Every editing operation, whatever the text.\<close>

lemma operations_keep:
  assumes s: "session E l"
  shows "keeps E l (linenoiseEditMoveLeft E l)" "keeps E l (linenoiseEditMoveRight E l)"
    "keeps E l (linenoiseEditMoveHome E l)" "keeps E l (linenoiseEditMoveEnd E l)"
    "keeps E l (linenoiseEditDelete E l)" "keeps E l (linenoiseEditBackspace E l)"
    "keeps E l (linenoiseEditDeletePrevWord E l)" "keeps E l (swap_chars E l)"
    "keeps E l (clear_line E l)" "keeps E l (cut_line E l)" "keeps E l (linenoiseEditHistoryNext E l prev)"
    "keeps E l (refreshLine E l)"
proof -
  obtain r where t: "holds_text l (fst (text_of l)) (snd (text_of l)) r" using session_text [OF s] by blast
  have v: "view_ok l" and h: "hist_ok E" "index_ok E l" using s by (auto simp: session_def)
  note k = edited_keeps [OF s]
  show "keeps E l (linenoiseEditMoveLeft E l)" by (rule k [OF move_left [OF v t]])
  show "keeps E l (linenoiseEditMoveRight E l)" by (rule k [OF move_right [OF v t]])
  show "keeps E l (linenoiseEditMoveHome E l)" by (rule k [OF move_home [OF v t]])
  show "keeps E l (linenoiseEditMoveEnd E l)" by (rule k [OF move_end [OF v t]])
  show "keeps E l (linenoiseEditDelete E l)" by (rule k [OF delete [OF v t]])
  show "keeps E l (linenoiseEditBackspace E l)" by (rule k [OF backspace [OF v t]])
  show "keeps E l (linenoiseEditDeletePrevWord E l)" by (rule k [OF delete_word [OF v t]])
  show "keeps E l (swap_chars E l)" by (rule k [OF swap_text [OF v t]])
  show "keeps E l (clear_line E l)" by (rule k [OF clear_text [OF v t]])
  show "keeps E l (cut_line E l)" by (rule k [OF cut_text [OF v t]])
  show "keeps E l (linenoiseEditHistoryNext E l prev)" by (rule browsed_keeps [OF s history_next [OF v t h]])
  have "same_edit l l" by (simp add: same_edit_def)
  then show "keeps E l (refreshLine E l)" by (rule k [OF refreshed [OF v t]])
qed

lemma keepsE:
  assumes "keeps E l m"
  obtains E' l' where "m = Some (E', l')" "session E' l'" "tty_in E' = tty_in E" "l_buflen l' = l_buflen l"
    "ln_settings E' = ln_settings E"
  using assms unfolding keeps_def by blast

text \<open>The same behind some of the input.\<close>

definition keeps_later :: "line_env \<Rightarrow> linenoiseState \<Rightarrow> (line_env \<times> linenoiseState) option \<Rightarrow> bool" where
  "keeps_later E l m \<longleftrightarrow> (\<exists>n. keeps (E\<lparr>tty_in := drop n (tty_in E)\<rparr>) l m)"

lemma keeps_laterI: "keeps (E\<lparr>tty_in := drop n (tty_in E)\<rparr>) l m \<Longrightarrow> keeps_later E l m"
  unfolding keeps_later_def by blast

lemma keeps_now: "keeps E l m \<Longrightarrow> keeps_later E l m"
  using keeps_laterI [where n = 0] by simp

lemma keeps_later_drop:
  assumes "keeps_later (E\<lparr>tty_in := drop n (tty_in E)\<rparr>) l m"
  shows "keeps_later E l m"
proof -
  obtain k where "keeps (E\<lparr>tty_in := drop k (drop n (tty_in E))\<rparr>) l m"
    using assms by (auto simp: keeps_later_def)
  then show ?thesis by (intro keeps_laterI [where n = "k + n"]) simp
qed

section \<open>Completion and escape sequences\<close>

lemma take_completion_keeps:
  assumes s: "session E l" and len: "length c < l_buflen l"
  shows "\<exists>l'. take_completion l c = Some l' \<and> session E l' \<and> l_buflen l' = l_buflen l \<and> text_of l' = (c, [])"
proof -
  have b: "length (l_buf l) = Suc (l_buflen l)" "0 < l_buflen l" using s by (auto simp: session_def buffer_wf_def)
  let ?b = "c @ NUL # drop (Suc (length c)) (l_buf l)"
  have "store_block (l_buf l) 0 (take (l_buflen l - 1) c @ [NUL]) = Some ?b"
    using b len by (simp add: store_block_def)
  then have t: "take_completion l c = Some (l\<lparr>l_buf := ?b, l_len := length c, l_pos := length c\<rparr>)"
    using b by (simp add: take_completion_def)
  let ?l = "l\<lparr>l_buf := ?b, l_len := length c, l_pos := length c\<rparr>"
  have h: "holds_text ?l c [] (drop (Suc (length c)) (l_buf l))"
    using b len by (auto simp: holds_text_def)
  have "same_edit l ?l" by (simp add: same_edit_def)
  then have "session E ?l" "l_buflen ?l = l_buflen l" "text_of ?l = (c, [])"
    using session_same [OF s] holds_text_wf [OF h] by simp_all
  then show ?thesis using t by blast
qed

lemma completion_shown_keeps:
  assumes s: "session E l" and fit: "\<forall>c \<in> set lc. length c < l_buflen l"
  shows "keeps E l (refreshLineWithCompletion E l (Some lc) flags)"
proof -
  obtain r where t: "holds_text l (fst (text_of l)) (snd (text_of l)) r" using session_text [OF s] by blast
  have v: "view_ok l" using s by (simp add: session_def)
  have "\<forall>c \<in> set lc. length (l_prompt l) + length c < 2 ^ 31" using v fit by (fastforce simp: view_ok_def)
  then obtain out rows p where r: "refreshLineWithCompletion E l (Some lc) flags
      = Some (E\<lparr>tty_out := out\<rparr>, l\<lparr>l_oldrows := rows, l_oldpos := p\<rparr>)"
    using refresh_completion_total [OF screen_ok_intro [OF v t]] by blast
  have "buffer_wf (l\<lparr>l_oldrows := rows, l_oldpos := p\<rparr>)" "same_edit l (l\<lparr>l_oldrows := rows, l_oldpos := p\<rparr>)"
    using s by (auto simp: session_def buffer_wf_def same_edit_def)
  then have "session (E\<lparr>tty_out := out\<rparr>) (l\<lparr>l_oldrows := rows, l_oldpos := p\<rparr>)"
    using session_same [OF s] by simp
  moreover have "tty_in (E\<lparr>tty_out := out\<rparr>) = tty_in E" "ln_settings (E\<lparr>tty_out := out\<rparr>) = ln_settings E"
    "l_buflen (l\<lparr>l_oldrows := rows, l_oldpos := p\<rparr>) = l_buflen l" by simp_all
  ultimately show ?thesis unfolding keeps_def r by blast
qed

lemma complete_line_keeps:
  assumes s: "session E l" and cb: "completionCallback E = Some f"
  shows "\<exists>c' m. completeLine E l c = do { (E, l) \<leftarrow> m; Some (c', E, l) } \<and> keeps E l m"
proof -
  obtain r where t: "holds_text l (fst (text_of l)) (snd (text_of l)) r" using session_text [OF s] by blast
  obtain line where line: "cstring (l_buf l) 0 = Some line" using cstring_holds [OF t] by blast
  define lc where "lc = f line"
  have fit: "\<forall>x \<in> set lc. length x < l_buflen l"
    using s cb by (simp add: session_def completions_fit_def lc_def)
  define show_it where "show_it E ls = (if in_completion ls \<and> completion_idx ls < length lc
      then refreshLineWithCompletion E ls (Some lc) REFRESH_ALL else refreshLine E ls)"
    for E :: line_env and ls :: linenoiseState
  have sh: "session E ls \<Longrightarrow> l_buflen ls = l_buflen l \<Longrightarrow> keeps E ls (show_it E ls)" for E ls
    using completion_shown_keeps operations_keep(12) fit unfolding show_it_def by simp
  have shown: "\<exists>c' m. do { (E, ls) \<leftarrow> show_it E1 l1; Some (c1, E, ls) } = do { (E, l) \<leftarrow> m; Some (c', E, l) } \<and> keeps E l m"
    if "session E1 l1" "l_buflen l1 = l_buflen l" "tty_in E1 = tty_in E" "ln_settings E1 = ln_settings E"
    for E1 l1 c1
    using sh [OF that(1,2)] that(2-4) unfolding keeps_def by metis
  have d: "completeLine E l c =
    (if lc = [] then Some (c, linenoiseBeep E, l\<lparr>in_completion := False\<rparr>)
     else do {
       (c, E, ls) \<leftarrow>
         (if c = TAB then
            if \<not> in_completion l then Some (NUL, E, l\<lparr>in_completion := True, completion_idx := 0\<rparr>)
            else (let i = (completion_idx l + 1) mod (length lc + 1) in
                  Some (NUL, if i = length lc then linenoiseBeep E else E, l\<lparr>completion_idx := i\<rparr>))
          else if c = ESC then do {
            (E, ls) \<leftarrow> (if completion_idx l < length lc then refreshLine E l else Some (E, l));
            Some (NUL, E, ls\<lparr>in_completion := False\<rparr>)
          }
          else do {
            ls \<leftarrow> (if completion_idx l < length lc then take_completion l (lc ! completion_idx l) else Some l);
            Some (c, E, ls\<lparr>in_completion := False\<rparr>)
          });
       (E, ls) \<leftarrow> show_it E ls;
       Some (c, E, ls)
     })"
    unfolding completeLine_def cb line bind.bind_lunit Let_def lc_def show_it_def by (rule refl)
  consider (none) "lc = []" | (first) "lc \<noteq> []" "c = TAB" "\<not> in_completion l" | (again) "lc \<noteq> []" "c = TAB" "in_completion l"
    | (esc) "lc \<noteq> []" "c = ESC" | (other) "lc \<noteq> []" "c \<noteq> TAB" "c \<noteq> ESC" by blast
  then show ?thesis
  proof cases
    case none
    have "session (linenoiseBeep E) (l\<lparr>in_completion := False\<rparr>)" "tty_in (linenoiseBeep E) = tty_in E"
        "ln_settings (linenoiseBeep E) = ln_settings E" "l_buflen (l\<lparr>in_completion := False\<rparr>) = l_buflen l"
      using s by (simp_all add: linenoiseBeep_def)
    then have "keeps E l (Some (linenoiseBeep E, l\<lparr>in_completion := False\<rparr>))" unfolding keeps_def by blast
    moreover have "completeLine E l c
        = do { (E, l) \<leftarrow> Some (linenoiseBeep E, l\<lparr>in_completion := False\<rparr>); Some (c, E, l) }"
      unfolding d using none by simp
    ultimately show ?thesis by blast
  next
    case first
    then show ?thesis
      using shown [of E "l\<lparr>in_completion := True, completion_idx := 0\<rparr>" NUL] s unfolding d by simp
  next
    case again
    let ?i = "(completion_idx l + 1) mod (length lc + 1)"
    have "session (if ?i = length lc then linenoiseBeep E else E) (l\<lparr>completion_idx := ?i\<rparr>)"
      using s by (simp add: linenoiseBeep_def)
    moreover have "tty_in (if ?i = length lc then linenoiseBeep E else E) = tty_in E"
        "ln_settings (if ?i = length lc then linenoiseBeep E else E) = ln_settings E"
      by (auto simp: linenoiseBeep_def)
    ultimately show ?thesis
      using again shown [of "if ?i = length lc then linenoiseBeep E else E" "l\<lparr>completion_idx := ?i\<rparr>" NUL]
      unfolding d by (simp add: Let_def)
  next
    case esc
    have "keeps E l (if completion_idx l < length lc then refreshLine E l else Some (E, l))"
      using operations_keep(12) [OF s] unchanged_keeps [OF s] by simp
    then obtain E1 l1 where m: "(if completion_idx l < length lc then refreshLine E l else Some (E, l)) = Some (E1, l1)"
        "session E1 l1" "tty_in E1 = tty_in E" "l_buflen l1 = l_buflen l"
        "ln_settings E1 = ln_settings E"
      by (rule keepsE)
    show ?thesis
      using shown [of E1 "l1\<lparr>in_completion := False\<rparr>" NUL] m(2-5) esc unfolding d by (simp add: m(1))
  next
    case other
    have "\<exists>l1. (if completion_idx l < length lc then take_completion l (lc ! completion_idx l) else Some l) = Some l1
        \<and> session E l1 \<and> l_buflen l1 = l_buflen l"
      using take_completion_keeps [OF s, of "lc ! completion_idx l"] fit s by auto
    then obtain l1 where m: "(if completion_idx l < length lc then take_completion l (lc ! completion_idx l) else Some l) = Some l1"
        "session E l1" "l_buflen l1 = l_buflen l" by blast
    show ?thesis
      using shown [of E "l1\<lparr>in_completion := False\<rparr>" c] m(2-3) other unfolding d by (simp add: m(1))
  qed
qed

lemma bracket_keeps:
  assumes s: "session E l" and w: "whole_escapes (tty_in E)" and ne: "tty_in E \<noteq> []"
  shows "keeps_later E l (bracket_key E l c)"
proof -
  obtain x xs where x: "tty_in E = x # xs" using ne by (cases "tty_in E") auto
  let ?E = "E\<lparr>tty_in := drop (Suc 0) (tty_in E)\<rparr>"
  have s': "session ?E l" using s by simp
  have rb: "read_byte E = (x, ?E)" by (simp add: read_byte_def x)
  have k: "keeps_later E l (Some (?E, l))" "keeps_later E l (linenoiseEditDelete ?E l)"
    using keeps_laterI [OF unchanged_keeps [OF s']] keeps_laterI [OF operations_keep(5) [OF s']] by auto
  show ?thesis
  proof (cases "isdigit c")
    case True
    then show ?thesis using k w x by (cases x) (auto simp: bracket_key_def rb)
  next
    case False
    then show ?thesis using operations_keep [OF s] unchanged_keeps [OF s] keeps_now by (simp add: bracket_key_def)
  qed
qed

lemma escape_keeps:
  assumes s: "session E l" and w: "whole_escapes (tty_in E)" and len: "3 \<le> length (tty_in E)"
  shows "keeps_later E l (escape_key E l)"
proof -
  obtain x y z xs where x: "tty_in E = x # y # z # xs"
    using len by (cases "tty_in E"; cases "tl (tty_in E)"; cases "tl (tl (tty_in E))") auto
  let ?E1 = "E\<lparr>tty_in := drop (Suc 0) (tty_in E)\<rparr>" and ?E2 = "E\<lparr>tty_in := drop 2 (tty_in E)\<rparr>"
  have rb: "read_byte E = (x, ?E1)" "read_byte ?E1 = (y, ?E2)" by (simp_all add: read_byte_def x)
  have s': "session ?E1 l" "session ?E2 l" using s by simp_all
  have h: "x \<noteq> Hangup" "y \<noteq> Hangup" using w x by auto
  have "keeps_later E l (bracket_key ?E2 l c)" for c
    by (rule keeps_later_drop [OF bracket_keeps [OF s'(2)]]) (use w x in auto)
  moreover have "keeps_later E l (Some (?E1, l))" "keeps_later E l (Some (?E2, l))"
    using keeps_laterI [OF unchanged_keeps [OF s'(1)]] keeps_laterI [OF unchanged_keeps [OF s'(2)]] by auto
  moreover have "keeps_later E l (linenoiseEditMoveHome ?E2 l)" "keeps_later E l (linenoiseEditMoveEnd ?E2 l)"
    using keeps_laterI [OF operations_keep(3) [OF s'(2)]] keeps_laterI [OF operations_keep(4) [OF s'(2)]] by auto
  ultimately show ?thesis using h by (cases x; cases y) (simp_all add: escape_key_def rb)
qed

section \<open>Keys\<close>

text \<open>What a step of the editor leaves: the history, and the invariant as long as the edit goes on.\<close>

definition step_ok :: "line_env \<Rightarrow> linenoiseState \<Rightarrow> (feed_end \<times> line_env \<times> linenoiseState) option \<Rightarrow> bool" where
  "step_ok E l m \<longleftrightarrow> (\<exists>r E' l' n. m = Some (r, E', l') \<and> hist_ok E' \<and> tty_in E' = drop n (tty_in E)
     \<and> l_buflen l' = l_buflen l \<and> ln_settings E' = ln_settings E \<and> (r = EditMore \<longrightarrow> session E' l')
     \<and> (\<forall>s. r = Entered s \<longrightarrow> nul_free s \<and> length s \<le> l_buflen l))"

lemma step_okI:
  "m = Some (r, E', l') \<Longrightarrow> hist_ok E' \<Longrightarrow> tty_in E' = drop n (tty_in E) \<Longrightarrow> l_buflen l' = l_buflen l
     \<Longrightarrow> ln_settings E' = ln_settings E \<Longrightarrow> (r = EditMore \<Longrightarrow> session E' l') \<Longrightarrow> (\<And>s. r = Entered s \<Longrightarrow> nul_free s \<and> length s \<le> l_buflen l)
     \<Longrightarrow> step_ok E l m"
  unfolding step_ok_def by blast

lemma step_okE:
  assumes "step_ok E l m"
  obtains r E' l' n where "m = Some (r, E', l')" "hist_ok E'" "tty_in E' = drop n (tty_in E)" "l_buflen l' = l_buflen l"
    "ln_settings E' = ln_settings E" "r = EditMore \<Longrightarrow> session E' l'" "\<And>s. r = Entered s \<Longrightarrow> nul_free s \<and> length s \<le> l_buflen l"
  using assms unfolding step_ok_def by blast

lemma keeps_go_on: "keeps_later E l m \<Longrightarrow> step_ok E l (go_on m)"
proof -
  assume "keeps_later E l m"
  then obtain n where "keeps (E\<lparr>tty_in := drop n (tty_in E)\<rparr>) l m" by (auto simp: keeps_later_def)
  then obtain E' l' where "m = Some (E', l')" "session E' l'" "tty_in E' = tty_in (E\<lparr>tty_in := drop n (tty_in E)\<rparr>)"
      "l_buflen l' = l_buflen l" "ln_settings E' = ln_settings (E\<lparr>tty_in := drop n (tty_in E)\<rparr>)"
    by (rule keepsE)
  then show ?thesis by (intro step_okI [where r = EditMore and E' = E' and l' = l' and n = n]) (auto simp: go_on_def session_def)
qed

lemma pop_history_last:
  assumes "hist_ok E" "0 < history_len E"
  shows "\<exists>h. pop_history E = Some (E\<lparr>history := Some h, history_len := history_len E - 1\<rparr>)
    \<and> hist_ok (E\<lparr>history := Some h, history_len := history_len E - 1\<rparr>)
    \<and> hist_lines (E\<lparr>history := Some h, history_len := history_len E - 1\<rparr>) = butlast (hist_lines E)"
proof -
  have wf: "history_wf E" using assms(1) by (simp add: hist_ok_def)
  then obtain h where h: "history E = Some h" using assms(2) by (cases "history E") (auto simp: history_wf_def)
  define xs where "xs = hist_lines E"
  have r: "h = map Some xs @ drop (nat (history_len E)) h" and len: "length xs = nat (history_len E)"
    using history_repr [OF wf h] by (simp_all add: xs_def)
  have "length h = nat (history_max_len E)" "history_len E \<le> history_max_len E" "0 < history_max_len E"
    using wf h by (auto simp: history_wf_def)
  note lens = this
  obtain ys y where xs: "xs = ys @ [y]" using assms(2) len by (cases xs rule: rev_cases) auto
  have n: "history_len E - 1 = int (length ys)" using len assms(2) by (simp add: xs)
  let ?h = "map Some ys @ None # drop (nat (history_len E)) h"
  have hh: "h = map Some ys @ Some y # drop (nat (history_len E)) h" using r by (simp add: xs)
  have st: "slot h (history_len E - 1) = Some y"
    using slot_repr [OF wf h, of "history_len E - 1"] assms(2) n by (simp add: xs_def [symmetric] xs nth_append)
  have "store h (int (length ys)) None = Some ?h"
    by (subst hh) (rule store_at [of "length ys" "map Some ys", simplified])
  then have p: "pop_history E = Some (E\<lparr>history := Some ?h, history_len := history_len E - 1\<rparr>)"
    using st by (simp add: pop_history_def h Let_def n)
  have "length h = length ys + 1 + length (drop (nat (history_len E)) h)" using arg_cong [OF hh, of length] by simp
  then have "history_max_len E = int (length ys + length (None # drop (nat (history_len E)) h))"
    using lens(1,3) by auto
  then have "history_wf (E\<lparr>history := Some ?h, history_len := history_len E - 1\<rparr>)"
    "hist_lines (E\<lparr>history := Some ?h, history_len := history_len E - 1\<rparr>) = ys"
    using history_wf_intro [where E = "E\<lparr>history := Some ?h, history_len := history_len E - 1\<rparr>" and xs = ys
        and r = "None # drop (nat (history_len E)) h"] n lens(3) by simp_all
  moreover have "\<forall>s \<in> set ys. nul_free s" using assms(1) by (auto simp: hist_ok_def xs_def [symmetric] xs)
  ultimately show ?thesis using p by (auto simp: hist_ok_def xs_def [symmetric] xs)
qed

text \<open>The line that \<open>ENTER\<close> returns, and the history it leaves.\<close>

lemma enter_line:
  assumes s: "session E l"
  shows "\<exists>h out l'. enter_key E l = Some (Entered (takeWhile (\<lambda>c. c \<noteq> NUL) (fst (text_of l) @ snd (text_of l))),
      E\<lparr>history := Some h, history_len := history_len E - 1, tty_out := out\<rparr>, l')
    \<and> hist_ok (E\<lparr>history := Some h, history_len := history_len E - 1\<rparr>)
    \<and> hist_lines (E\<lparr>history := Some h, history_len := history_len E - 1\<rparr>) = butlast (hist_lines E)
    \<and> l_buflen l' = l_buflen l"
proof -
  obtain a b where ab: "text_of l = (a, b)" by force
  obtain r where t: "holds_text l a b r" using session_text [OF s] ab by auto
  have v: "view_ok l" and wf: "buffer_wf l" using s by (auto simp: session_def)
  have "0 < history_len E" using s by (auto simp: session_def index_ok_def)
  then obtain h where h: "pop_history E = Some (E\<lparr>history := Some h, history_len := history_len E - 1\<rparr>)"
    "hist_ok (E\<lparr>history := Some h, history_len := history_len E - 1\<rparr>)"
    "hist_lines (E\<lparr>history := Some h, history_len := history_len E - 1\<rparr>) = butlast (hist_lines E)"
    using pop_history_last [of E] s by (auto simp: session_def)
  let ?E = "E\<lparr>history := Some h, history_len := history_len E - 1\<rparr>"
  have self: "?E\<lparr>tty_out := tty_out E\<rparr> = ?E" "same_edit l l" by (simp_all add: same_edit_def)
  obtain out1 l1 a1 b1 where m1: "(if mlmode ?E then linenoiseEditMoveEnd ?E l else Some (?E, l)) = Some (?E\<lparr>tty_out := out1\<rparr>, l1)"
      "buffer_wf l1" "text_of l1 = (a1, b1)" "a1 @ b1 = a @ b" "same_edit l l1"
  proof (cases "mlmode ?E")
    case True
    obtain out l' where "linenoiseEditMoveEnd ?E l = Some (?E\<lparr>tty_out := out\<rparr>, l')" "buffer_wf l'"
        "text_of l' = (a @ b, [])" "same_edit l l'"
      using move_end [OF v t, of ?E] unfolding edited_def zend.simps by blast
    then show ?thesis using that [of out l' "a @ b" "[]"] True by simp
  next
    case False
    then show ?thesis using that [of "tty_out E" l a b] wf ab self by simp
  qed
  obtain r1 where t1: "holds_text l1 a1 b1 r1" using buffer_wf_holds [OF m1(2,3)] by blast
  have v1: "view_ok l1" by (rule view_ok_same [OF v m1(5)])
  let ?E1 = "?E\<lparr>tty_out := out1\<rparr>"
  have s1: "same_edit l1 l1" by (simp add: same_edit_def)
  obtain out2 l2 where m2: "refreshLine (?E1\<lparr>hintsCallback := None\<rparr>) l1 = Some (?E1\<lparr>hintsCallback := None, tty_out := out2\<rparr>, l2)"
      "buffer_wf l2" "text_of l2 = (a1, b1)" "same_edit l1 l2"
    using refreshed [OF v1 t1 s1, of "?E1\<lparr>hintsCallback := None\<rparr>"] unfolding edited_def by blast
  define l3 where "l3 = (if hintsCallback E \<noteq> None then l2 else l1)"
  define out3 where "out3 = (if hintsCallback E \<noteq> None then out2 else out1)"
  have m3: "(if hintsCallback ?E1 \<noteq> None then do { (E', l) \<leftarrow> refreshLine (?E1\<lparr>hintsCallback := None\<rparr>) l1;
        Some (E'\<lparr>hintsCallback := hintsCallback ?E1\<rparr>, l) } else Some (?E1, l1)) = Some (?E\<lparr>tty_out := out3\<rparr>, l3)"
    unfolding m2(1) by (simp add: l3_def out3_def)
  have l3: "buffer_wf l3" "text_of l3 = (a1, b1)" "same_edit l l3"
    using m1 m2 by (auto simp: l3_def same_edit_def)
  obtain r3 where t3: "holds_text l3 a1 b1 r3" using buffer_wf_holds [OF l3(1,2)] by blast
  have "enter_key E l = Some (Entered (takeWhile (\<lambda>c. c \<noteq> NUL) (a @ b)), ?E\<lparr>tty_out := out3\<rparr>, l3)"
    unfolding enter_key_def h(1) bind.bind_lunit m1(1) prod.case m3 cstring_holds [OF t3] m1(4) by (rule refl)
  then show ?thesis using h(2,3) l3(3) ab by (auto simp: same_edit_def)
qed

lemma insert_keeps:
  assumes s: "session E l"
  shows "\<exists>r m. linenoiseEditInsert E l c = do { (E, l) \<leftarrow> m; Some (r, E, l) } \<and> keeps E l m"
proof -
  obtain r where t: "holds_text l (fst (text_of l)) (snd (text_of l)) r" using session_text [OF s] by blast
  have v: "view_ok l" using s by (auto simp: session_def)
  obtain ret E' l' where i: "linenoiseEditInsert E l c = Some (ret, E', l')"
      "edited E l (zinsert (l_buflen l) c (fst (text_of l), snd (text_of l))) (Some (E', l'))"
    using insert_text [OF v t] by blast
  have "linenoiseEditInsert E l c = do { (E, l) \<leftarrow> Some (E', l'); Some (ret, E, l) }" using i(1) by simp
  then show ?thesis using edited_keeps [OF s i(2)] by blast
qed

lemma edit_key_ok:
  assumes s: "session E l" and w: "whole_escapes (tty_in E)" and e: "c = ESC \<Longrightarrow> 3 \<le> length (tty_in E)"
  shows "step_ok E l (edit_key E l c)"
proof -
  note ops = operations_keep [OF s, THEN keeps_now, THEN keeps_go_on]
  have esc: "c = ESC \<Longrightarrow> step_ok E l (go_on (escape_key E l))" using keeps_go_on escape_keeps [OF s w] e by blast
  have now: "tty_in E' = tty_in E \<Longrightarrow> tty_in E' = drop 0 (tty_in E)" for E' :: line_env by simp
  have enter: "step_ok E l (enter_key E l)"
  proof -
    obtain h out l' where e: "enter_key E l = Some (Entered (takeWhile (\<lambda>c. c \<noteq> NUL) (fst (text_of l) @ snd (text_of l))),
        E\<lparr>history := Some h, history_len := history_len E - 1, tty_out := out\<rparr>, l')"
        "hist_ok (E\<lparr>history := Some h, history_len := history_len E - 1\<rparr>)" "l_buflen l' = l_buflen l"
      using enter_line [OF s] by blast
    have wf: "buffer_wf l" using s by (simp add: session_def)
    have "length (takeWhile (\<lambda>c. c \<noteq> NUL) (fst (text_of l) @ snd (text_of l))) \<le> length (fst (text_of l) @ snd (text_of l))"
      by (rule length_takeWhile_le)
    also have "\<dots> \<le> l_buflen l" using wf by (simp add: text_of_def buffer_wf_def)
    finally show ?thesis
      using e by (intro step_okI [OF e(1), where n = 0]) (auto simp: nul_free_takeWhile)
  qed
  have stop: "step_ok E l (Some (NullLine n, E, l))" for n
    by (intro step_okI [OF refl, where n = 0]) (use s in \<open>auto simp: session_def\<close>)
  have eof: "step_ok E l (do { E \<leftarrow> pop_history E; Some (NullLine n, E, l) })" for n
  proof -
    have "0 < history_len E" "hist_ok E" using s by (auto simp: session_def index_ok_def)
    then obtain h where "pop_history E = Some (E\<lparr>history := Some h, history_len := history_len E - 1\<rparr>)"
      "hist_ok (E\<lparr>history := Some h, history_len := history_len E - 1\<rparr>)"
      using pop_history_last [of E] by blast
    then show ?thesis
      by (intro step_okI [where n = 0 and r = "NullLine n"
            and E' = "E\<lparr>history := Some h, history_len := history_len E - 1\<rparr>" and l' = l]) auto
  qed
  have clear: "step_ok E l (go_on (refreshLine (linenoiseClearScreen E) l))"
  proof -
    obtain out where o: "linenoiseClearScreen E = E\<lparr>tty_out := out\<rparr>"
      using tty_write_out unfolding linenoiseClearScreen_def by blast
    have "keeps (E\<lparr>tty_out := out\<rparr>) l (refreshLine (E\<lparr>tty_out := out\<rparr>) l)" using operations_keep(12) s by simp
    then have "keeps E l (refreshLine (E\<lparr>tty_out := out\<rparr>) l)" by (simp add: keeps_def)
    then show ?thesis unfolding o by (intro keeps_go_on keeps_now)
  qed
  have ins: "step_ok E l (do { (r, E, l) \<leftarrow> linenoiseEditInsert E l c;
      Some (if r \<noteq> 0 then NullLine None else EditMore, E, l) })"
  proof -
    obtain r m where i: "linenoiseEditInsert E l c = do { (E, l) \<leftarrow> m; Some (r, E, l) }" "keeps E l m"
      using insert_keeps [OF s] by blast
    from i(2) obtain E' l' where k: "m = Some (E', l')" "session E' l'" "tty_in E' = tty_in E" "l_buflen l' = l_buflen l"
        "ln_settings E' = ln_settings E"
      by (rule keepsE)
    then show ?thesis
      using i(1) by (intro step_okI [where r = "if r \<noteq> 0 then NullLine None else EditMore" and E' = E' and l' = l' and n = 0])
        (auto simp: session_def split: if_splits)
  qed
  show ?thesis unfolding edit_key_def using ops esc enter stop eof clear ins by (simp cong: if_cong)
qed

section \<open>An example\<close>

text \<open>An edit in progress with the cursor behind a text, room for eight more bytes, and an empty history.\<close>

definition example_env :: "tty_read list \<Rightarrow> line_env" where
  "example_env inp = (line_init 80 inp)\<lparr>history := Some (Some [] # replicate 99 None), history_len := 1\<rparr>"

definition example_state :: "bytes \<Rightarrow> linenoiseState" where
  "example_state s = \<lparr> in_completion = False, completion_idx = 0, l_buf = s @ NUL # replicate 8 NUL,
     l_buflen = length s + 8, l_prompt = ''>>> '', l_plen = 4, l_pos = length s, l_oldpos = 0, l_len = length s,
     l_cols = 80, l_oldrows = 0, history_index = 0 \<rparr>"

lemma example_session: "length s < 1000 \<Longrightarrow> session (example_env inp) (example_state s)"
  by (simp add: session_def example_env_def example_state_def line_init_def hist_ok_def history_wf_def hist_lines_def
      index_ok_def view_ok_def buffer_wf_def completions_fit_def nth_append)

lemma example_text [simp]: "text_of (example_state s) = (s, [])"
  by (simp add: example_state_def text_of_def)

section \<open>The loop\<close>

lemma completeLine_key:
  assumes "completeLine E l c = Some (c', E', l')"
  shows "c' = NUL \<or> c' = c" "c \<noteq> TAB \<Longrightarrow> c \<noteq> ESC \<Longrightarrow> c' = c"
  using assms by (auto simp: completeLine_def Let_def bind_eq_Some_conv split: if_splits)

lemma feed_end_of_input:
  "session E l \<Longrightarrow> tty_in E = [] \<Longrightarrow> linenoiseEditFeed E l = Some (NullLine None, E, l)"
  by (simp add: linenoiseEditFeed_def session_def read_byte_def)

lemma feed_ok:
  assumes s: "session E l" and w: "whole_escapes (tty_in E)" and x: "tty_in E = x # xs"
  shows "step_ok (E\<lparr>tty_in := xs\<rparr>) l (linenoiseEditFeed E l)"
proof -
  let ?E = "E\<lparr>tty_in := xs\<rparr>"
  have s': "session ?E l" using s by simp
  have w': "whole_escapes (tty_in ?E)" using w x by simp
  have rb: "read_byte E = (x, ?E)" by (simp add: read_byte_def x)
  have t: "stdin_tty E" using s by (simp add: session_def)
  have stop: "step_ok ?E l (Some (r, ?E, l))" if "\<And>z. r \<noteq> Entered z" for r
    using s' that by (intro step_okI [OF refl, where n = 0]) (auto simp: session_def)
  show ?thesis
  proof (cases x)
    case (Fail again)
    then show ?thesis using stop by (simp add: linenoiseEditFeed_def t rb)
  next
    case Hangup
    then show ?thesis using stop by (simp add: linenoiseEditFeed_def t rb)
  next
    case (Got c)
    have e: "c = ESC \<Longrightarrow> 3 \<le> length (tty_in ?E)" using w x Got by simp
    show ?thesis
    proof (cases "(in_completion l \<or> c = TAB) \<and> completionCallback ?E \<noteq> None")
      case False
      then have "linenoiseEditFeed E l = edit_key ?E l c" by (auto simp: linenoiseEditFeed_def t rb Got)
      then show ?thesis using edit_key_ok [OF s' w' e] by simp
    next
      case True
      then obtain f where f: "completionCallback ?E = Some f" by blast
      obtain c' m where m: "completeLine ?E l c = do { (E, l) \<leftarrow> m; Some (c', E, l) }" "keeps ?E l m"
        using complete_line_keeps [OF s' f] by blast
      obtain E1 l1 where k: "m = Some (E1, l1)" "session E1 l1" "tty_in E1 = tty_in ?E" "l_buflen l1 = l_buflen l"
          "ln_settings E1 = ln_settings ?E"
        using m(2) by (rule keepsE)
      have d: "linenoiseEditFeed E l = (if char_code c' \<ge> 128 then Some (NullLine None, E1, l1)
          else if c' = NUL then Some (EditMore, E1, l1) else edit_key E1 l1 c')"
        using True m(1) k(1) by (simp add: linenoiseEditFeed_def t rb Got)
      have "step_ok E1 l1 (edit_key E1 l1 c')" if "c' \<noteq> NUL"
      proof (rule edit_key_ok [OF k(2)])
        show "whole_escapes (tty_in E1)" using w' k(3) by simp
        show "3 \<le> length (tty_in E1)" if "c' = ESC" using completeLine_key(1) [of ?E l c c' E1 l1] m(1) k(1) that \<open>c' \<noteq> NUL\<close> e k(3) by auto
      qed
      moreover have "step_ok E1 l1 (Some (r, E1, l1))" if "\<And>z. r \<noteq> Entered z" for r
        using k(2) that by (intro step_okI [OF refl, where n = 0]) (auto simp: session_def)
      ultimately have "step_ok E1 l1 (linenoiseEditFeed E l)" unfolding d by simp
      then show ?thesis using k unfolding step_ok_def by simp
    qed
  qed
qed

lemma edit_loop_total:
  assumes "session E l" "whole_escapes (tty_in E)"
  shows "\<exists>r E' l'. edit_loop E l = Some (r, E', l') \<and> r \<noteq> EditMore \<and> hist_ok E' \<and> ln_settings E' = ln_settings E
    \<and> whole_escapes (tty_in E') \<and> (\<forall>s. r = Entered s \<longrightarrow> nul_free s \<and> length s \<le> l_buflen l)"
  using assms
proof (induction "length (tty_in E)" arbitrary: E l rule: less_induct)
  case less
  show ?case
  proof (cases "tty_in E")
    case Nil
    then have "edit_loop E l = Some (NullLine None, E, l)"
      using feed_end_of_input [OF less.prems(1)] by (subst edit_loop.simps) simp
    then show ?thesis using less.prems by (simp add: session_def)
  next
    case (Cons x xs)
    have "step_ok (E\<lparr>tty_in := xs\<rparr>) l (linenoiseEditFeed E l)" by (rule feed_ok [OF less.prems Cons])
    then obtain r E' l' n where f: "linenoiseEditFeed E l = Some (r, E', l')" "hist_ok E'"
      "tty_in E' = drop n (tty_in (E\<lparr>tty_in := xs\<rparr>))" "l_buflen l' = l_buflen l"
      "ln_settings E' = ln_settings (E\<lparr>tty_in := xs\<rparr>)" "r = EditMore \<Longrightarrow> session E' l'"
      "\<And>s. r = Entered s \<Longrightarrow> nul_free s \<and> length s \<le> l_buflen l"
      by (rule step_okE) blast
    have w: "whole_escapes (tty_in E')" using less.prems(2) whole_escapes_drop [of xs n] f(3) by (simp add: Cons)
    have d: "edit_loop E l = (if r = EditMore then edit_loop E' l' else Some (r, E', l'))"
      using f(1) by (subst edit_loop.simps) simp
    show ?thesis
    proof (cases "r = EditMore")
      case True
      have "length (tty_in E') < length (tty_in E)" using f(3) by (simp add: Cons)
      then show ?thesis using less.hyps [OF _ f(6) [OF True] w] True f(4,5) by (simp add: d)
    next
      case False
      then show ?thesis using f w by (simp add: d)
    qed
  qed
qed

text \<open>What \<open>linenoise\<close> needs: a terminal in raw mode wider than the prompt, and room for a byte of text.\<close>

definition prompt_ready :: "line_env \<Rightarrow> nat \<Rightarrow> bytes \<Rightarrow> bool" where
  "prompt_ready E buflen prompt \<longleftrightarrow> stdin_tty E \<and> tc_ok E \<and> hist_ok E
     \<and> (case winsize E of None \<Rightarrow> False | Some c \<Rightarrow> length prompt < c \<and> c < 2 ^ 31)
     \<and> 2 \<le> buflen \<and> length prompt + buflen < 2 ^ 31 \<and> completions_fit (completionCallback E) (buflen - 1)"

lemma edit_start:
  assumes ready: "prompt_ready E buflen prompt" and buf: "length buf = buflen"
  shows "\<exists>r E' l'. linenoiseEditStart E l buf buflen prompt = Some (r, E', l') \<and> session E' l'
    \<and> text_of l' = ([], []) \<and> l_buflen l' = buflen - 1 \<and> \<not> in_completion l' \<and> tty_in E' = tty_in E
    \<and> ln_settings E' = ln_settings E \<and> hist_lines E' = push_line (nat (history_max_len E)) [] (hist_lines E)"
proof -
  obtain c where c: "winsize E = Some c" "length prompt < c" "c < 2 ^ 31"
    using ready by (auto simp: prompt_ready_def split: option.splits)
  have b: "2 \<le> buflen" "length prompt + buflen < 2 ^ 31" "stdin_tty E" "tc_ok E" "hist_ok E"
    "completions_fit (completionCallback E) (buflen - 1)" using ready by (simp_all add: prompt_ready_def)
  obtain x xs where buf': "buf = x # xs" "length xs = buflen - 1" using buf b(1) by (cases buf) auto
  let ?E = "E\<lparr>rawmode := True\<rparr>"
  have cols: "getColumns ?E = Some (int c, ?E)" using c by (simp add: getColumns_def)
  have "hist_ok ?E" using b(5) by simp
  then have wf: "history_wf ?E" by (simp add: hist_ok_def)
  obtain h n ret where h: "linenoiseHistoryAdd ?E [] = Some (ret, ?E\<lparr>history := Some h, history_len := n\<rparr>)"
      "history_wf (?E\<lparr>history := Some h, history_len := n\<rparr>)"
      "hist_lines (?E\<lparr>history := Some h, history_len := n\<rparr>) = push_line (nat (history_max_len E)) [] (hist_lines E)"
    using history_add [OF wf, of "[]"] by auto
  let ?E1 = "?E\<lparr>history := Some h, history_len := n\<rparr>"
  obtain out where out: "snd (tty_write ?E1 prompt) = ?E1\<lparr>tty_out := out\<rparr>" using tty_write_out by blast
  let ?l = "l\<lparr>in_completion := False, l_buf := NUL # xs, l_buflen := buflen - 1, l_prompt := prompt,
      l_plen := length prompt, l_oldpos := 0, l_pos := 0, l_len := 0, l_cols := c, l_oldrows := 0, history_index := 0\<rparr>"
  obtain r where st: "linenoiseEditStart E l buf buflen prompt = Some (r, ?E1\<lparr>tty_out := out\<rparr>, ?l)"
    using b c h(1) out cols by (cases "tty_write ?E1 prompt")
      (auto simp: linenoiseEditStart_def Let_def enableRawMode_def buf' store_def)
  have hne: "0 < history_max_len E" using wf by (simp add: history_wf_def)
  have ne: "push_line (nat (history_max_len E)) [] (hist_lines E) \<noteq> []"
    using hne by (auto simp: push_line_def)
  have "0 < history_len ?E1" using h(2,3) ne hist_lines_length [OF h(2)] by (metis length_greater_0_conv of_nat_0_less_iff)
  moreover have "hist_ok ?E1"
    using h(2,3) push_line_set [of "nat (history_max_len E)" "[]" "hist_lines E"] b(5) by (auto simp: hist_ok_def)
  moreover have "buffer_wf ?l" "text_of ?l = ([], [])" using buf'(2) b(1) by (auto simp: buffer_wf_def text_of_def)
  moreover have "view_ok ?l" using c b by (simp add: view_ok_def)
  ultimately have "session (?E1\<lparr>tty_out := out\<rparr>) ?l" using b by (simp add: session_def index_ok_def)
  then show ?thesis
    unfolding st using \<open>text_of ?l = ([], [])\<close> h(3) by (intro exI conjI) (rule refl | simp)+
qed

text \<open>
  C12. The line editor is safe and returns: on a terminal that is wider than the prompt, whatever is typed,
  completed and browsed, \<open>linenoise\<close> never reads or writes outside its buffer of 4096 bytes or a slot of
  the history without a line, the loop ends with the input at the latest, the line it returns is a C string of at
  most 4095 bytes, and the history it leaves is well formed and of at most \<open>history_max_len\<close> lines.  The input
  is assumed not to hang up inside an escape sequence.
\<close>

theorem line_editor_safe:
  assumes "prompt_ready E LINENOISE_MAX_LINE prompt" "\<not> isUnsupportedTerm term" "length buf = LINENOISE_MAX_LINE"
    "whole_escapes (tty_in E)"
  shows "\<exists>r E'. linenoise E term l buf prompt = Some (r, E')
    \<and> (\<forall>s. r = Some s \<longrightarrow> nul_free s \<and> length s \<le> 4095)
    \<and> hist_ok E' \<and> length (hist_lines E') \<le> nat (history_max_len E) \<and> whole_escapes (tty_in E')"
proof -
  obtain ret E1 l1 where st: "linenoiseEditStart E l buf LINENOISE_MAX_LINE prompt = Some (ret, E1, l1)" "session E1 l1"
      "l_buflen l1 = LINENOISE_MAX_LINE - 1" "tty_in E1 = tty_in E" "ln_settings E1 = ln_settings E"
    using edit_start [OF assms(1,3)] by blast
  obtain r E2 l2 where lp: "edit_loop E1 l1 = Some (r, E2, l2)" "hist_ok E2" "ln_settings E2 = ln_settings E1"
      "whole_escapes (tty_in E2)" "\<forall>s. r = Entered s \<longrightarrow> nul_free s \<and> length s \<le> l_buflen l1"
    using edit_loop_total [OF st(2)] assms(4) st(4) by metis
  have t: "stdin_tty E" using assms(1) by (simp add: prompt_ready_def)
  have e: "hist_ok (linenoiseEditStop E2) = hist_ok E2" "hist_lines (linenoiseEditStop E2) = hist_lines E2"
    "tty_in (linenoiseEditStop E2) = tty_in E2"
    by (auto simp: linenoiseEditStop_def disableRawMode_def tty_write_def)
  have "linenoise E term l buf prompt = Some (entered r, linenoiseEditStop E2)"
    using t assms(2) st(1) lp(1) by (simp add: linenoise_def linenoiseBlockingEdit_def LINENOISE_MAX_LINE_def)
  moreover have "\<forall>s. entered r = Some s \<longrightarrow> nul_free s \<and> length s \<le> 4095"
    using lp(5) st(3) by (auto simp: entered_def LINENOISE_MAX_LINE_def split: feed_end.splits)
  moreover have "history_max_len E2 = history_max_len E" using lp(3) st(5) by (simp add: ln_settings_def)
  then have "length (hist_lines E2) \<le> nat (history_max_len E)"
    using ln_log.bound_law [of E2] lp(2) by (simp add: hist_ok_def)
  ultimately show ?thesis using e lp(2,4) by simp
qed

theorem line_editor_safe_witness:
  "\<exists>r E'. linenoise (line_init 80 [Got CHR ''a'', Got ESC, Got CHR ''['', Got CHR ''A'', Got CHR ''b'']) None (example_state [])
      (replicate LINENOISE_MAX_LINE NUL) ''>>> '' = Some (r, E')
    \<and> (\<forall>s. r = Some s \<longrightarrow> nul_free s \<and> length s \<le> 4095)
    \<and> hist_ok E' \<and> length (hist_lines E') \<le> 100 \<and> whole_escapes (tty_in E')"
proof -
  let ?E = "line_init 80 [Got CHR ''a'', Got ESC, Got CHR ''['', Got CHR ''A'', Got CHR ''b'']"
  have "prompt_ready ?E LINENOISE_MAX_LINE ''>>> ''"
    by (simp add: prompt_ready_def line_init_def hist_ok_def history_wf_def hist_lines_def completions_fit_def LINENOISE_MAX_LINE_def)
  moreover have "\<not> isUnsupportedTerm None" "length (replicate LINENOISE_MAX_LINE NUL) = LINENOISE_MAX_LINE"
    by (simp_all add: isUnsupportedTerm_def)
  moreover have "whole_escapes (tty_in ?E)" "nat (history_max_len ?E) = 100" by (simp_all add: line_init_def)
  ultimately show ?thesis using line_editor_safe [of ?E "''>>> ''" None "replicate LINENOISE_MAX_LINE NUL" "example_state []"] by metis
qed

end
