(* ===== verification/LineType.thy ===== *)
theory LineType
  imports LineSession
begin

text \<open>
  What the line editor makes of keys: \<open>linenoiseEditFeed\<close> refines an editor of two lists, a typed line comes out
  as that editor leaves it, and the keys that do not do what they should.
\<close>

section \<open>The specification of the keys\<close>

text \<open>The keys that edit the line without the history, completion or an escape sequence.\<close>

definition plain_key :: "byte \<Rightarrow> bool" where
  "plain_key c \<longleftrightarrow> c \<notin> {ENTER, CTRL_C, CTRL_D, CTRL_P, CTRL_N, ESC, TAB}"

definition zkey :: "nat \<Rightarrow> byte \<Rightarrow> cursor_text \<Rightarrow> cursor_text" where
  "zkey cap c z =
     (if c = BACKSPACE \<or> c = CTRL_H then zback z
      else if c = CTRL_T then zswap z
      else if c = CTRL_B then zleft z
      else if c = CTRL_F then zright z
      else if c = CTRL_U then ([], [])
      else if c = CTRL_K then zkill z
      else if c = CTRL_A then zhome z
      else if c = CTRL_E then zend z
      else if c = CTRL_L then z
      else if c = CTRL_W then zword z
      else zinsert cap c z)"

text \<open>
  The contract of an editor that takes one key of its input per step: what it shows follows the
  specification, and what belongs to its frame stays.  Then a sequence of keys folds the specification.
\<close>

locale text_editor =
  fixes feed :: "'s \<Rightarrow> 's option"
    and pending :: "'s \<Rightarrow> tty_read list"
    and shown :: "'s \<Rightarrow> cursor_text"
    and cap :: "'s \<Rightarrow> nat"
    and frame :: "'s \<Rightarrow> 'f"
    and ok :: "'s \<Rightarrow> bool"
  assumes feed_law: "ok s \<Longrightarrow> pending s = Got c # rest \<Longrightarrow> plain_key c \<Longrightarrow>
      \<exists>s'. feed s = Some s' \<and> ok s' \<and> pending s' = rest \<and> cap s' = cap s \<and> frame s' = frame s
        \<and> shown s' = zkey (cap s) c (shown s)"
begin

primrec feeds :: "nat \<Rightarrow> 's \<Rightarrow> 's option" where
  "feeds 0 s = Some s"
| "feeds (Suc n) s = Option.bind (feed s) (feeds n)"

lemma feeds_fold:
  "ok s \<Longrightarrow> pending s = map Got cs @ rest \<Longrightarrow> list_all plain_key cs \<Longrightarrow>
     \<exists>s'. feeds (length cs) s = Some s' \<and> ok s' \<and> pending s' = rest \<and> cap s' = cap s \<and> frame s' = frame s
       \<and> shown s' = fold (zkey (cap s)) cs (shown s)"
proof (induction cs arbitrary: s)
  case (Cons c cs)
  obtain t where t: "feed s = Some t" "ok t" "pending t = map Got cs @ rest" "cap t = cap s" "frame t = frame s"
      "shown t = zkey (cap s) c (shown s)"
    using feed_law [OF Cons.prems(1)] Cons.prems(2,3) by auto
  then show ?case using Cons.IH [of t] Cons.prems(3) by simp
qed simp

end

section \<open>\<open>linenoiseEditFeed\<close> is such an editor\<close>

lemma edited_same_text: "edited E l z m \<Longrightarrow> \<exists>out l'. m = Some (E\<lparr>tty_out := out\<rparr>, l') \<and> buffer_wf l' \<and> text_of l' = z \<and> same_edit l l'"
  by (simp add: edited_def)

lemma edited_if:
  "edited E l z1 m1 \<Longrightarrow> edited E l z2 m2 \<Longrightarrow> edited E l (if P then z1 else z2) (if P then m1 else m2)"
  by simp

lemma edit_key_text:
  assumes s: "session E l" and c: "plain_key c" and tty: "\<not> tty_broken E"
  shows "\<exists>m. edit_key E l c = go_on m \<and> edited E l (zkey (l_buflen l) c (text_of l)) m"
proof -
  obtain a b where ab: "text_of l = (a, b)" by force
  obtain r where t: "holds_text l a b r" using session_text [OF s] ab by auto
  have v: "view_ok l" using s by (simp add: session_def)
  have self: "same_edit l l" by (simp add: same_edit_def)
  have clear: "edited E l (a, b) (refreshLine (linenoiseClearScreen E) l)"
  proof -
    obtain out where o: "linenoiseClearScreen E = E\<lparr>tty_out := out\<rparr>"
      using tty_write_out unfolding linenoiseClearScreen_def by blast
    show ?thesis unfolding o using refreshed [OF v t self, of "E\<lparr>tty_out := out\<rparr>"] by (simp add: edited_def)
  qed
  obtain E' l' where i: "linenoiseEditInsert E l c = Some (0, E', l')"
      "edited E l (zinsert (l_buflen l) c (a, b)) (Some (E', l'))"
    using insert_text [OF v t, of E c] tty by auto
  have ins: "do { (r, E, l) \<leftarrow> linenoiseEditInsert E l c; Some (if r \<noteq> 0 then NullLine None else EditMore, E, l) }
      = go_on (Some (E', l'))"
    by (simp add: i(1) go_on_def)
  define m where "m = (if c = BACKSPACE \<or> c = CTRL_H then linenoiseEditBackspace E l
    else if c = CTRL_T then swap_chars E l
    else if c = CTRL_B then linenoiseEditMoveLeft E l
    else if c = CTRL_F then linenoiseEditMoveRight E l
    else if c = CTRL_U then clear_line E l
    else if c = CTRL_K then cut_line E l
    else if c = CTRL_A then linenoiseEditMoveHome E l
    else if c = CTRL_E then linenoiseEditMoveEnd E l
    else if c = CTRL_L then refreshLine (linenoiseClearScreen E) l
    else if c = CTRL_W then linenoiseEditDeletePrevWord E l
    else Some (E', l'))"
  have "edit_key E l c = go_on m"
    using c unfolding edit_key_def plain_key_def m_def ins by (simp add: if_distrib [of go_on])
  moreover have "edited E l (zkey (l_buflen l) c (a, b)) m"
    unfolding m_def zkey_def
    by (intro edited_if backspace [OF v t] swap_text [OF v t] move_left [OF v t] move_right [OF v t] clear_text [OF v t]
      cut_text [OF v t] move_home [OF v t] move_end [OF v t] delete_word [OF v t] clear i(2))
  ultimately show ?thesis unfolding ab by blast
qed

type_synonym edit_state = "line_env \<times> linenoiseState"

definition feed_key :: "edit_state \<Rightarrow> edit_state option" where
  "feed_key s = (case linenoiseEditFeed (fst s) (snd s) of Some (EditMore, E, l) \<Rightarrow> Some (E, l) | _ \<Rightarrow> None)"

definition editing :: "edit_state \<Rightarrow> bool" where
  "editing s \<longleftrightarrow> session (fst s) (snd s) \<and> \<not> tty_broken (fst s) \<and> \<not> in_completion (snd s)"

lemma feed_key_text:
  assumes "editing (E, l)" "tty_in E = Got c # rest" "plain_key c"
  shows "\<exists>out l'. linenoiseEditFeed E l = Some (EditMore, E\<lparr>tty_in := rest, tty_out := out\<rparr>, l')
    \<and> editing (E\<lparr>tty_in := rest, tty_out := out\<rparr>, l')
    \<and> text_of l' = zkey (l_buflen l) c (text_of l) \<and> l_buflen l' = l_buflen l"
proof -
  let ?E = "E\<lparr>tty_in := rest\<rparr>"
  have s: "session ?E l" "\<not> tty_broken ?E" "\<not> in_completion l" "stdin_tty E"
    using assms(1) by (auto simp: editing_def session_def index_ok_def)
  obtain m where m: "edit_key ?E l c = go_on m" "edited ?E l (zkey (l_buflen l) c (text_of l)) m"
    using edit_key_text [OF s(1) assms(3) s(2)] by blast
  then obtain out l' where o: "m = Some (?E\<lparr>tty_out := out\<rparr>, l')" "buffer_wf l'"
      "text_of l' = zkey (l_buflen l) c (text_of l)" "same_edit l l'"
    using edited_same_text by blast
  have "linenoiseEditFeed E l = edit_key ?E l c"
    using s assms by (simp add: linenoiseEditFeed_def read_byte_def plain_key_def)
  moreover have "session (?E\<lparr>tty_out := out\<rparr>) l'" using session_same [OF s(1) o(2,4)] by simp
  moreover have "in_completion l' = in_completion l" "l_buflen l' = l_buflen l" using o(4) by (simp_all add: same_edit_def)
  ultimately have "linenoiseEditFeed E l = Some (EditMore, ?E\<lparr>tty_out := out\<rparr>, l')
    \<and> editing (?E\<lparr>tty_out := out\<rparr>, l') \<and> l_buflen l' = l_buflen l"
    using m(1) o s by (simp add: go_on_def editing_def)
  then show ?thesis using o(3,4) by blast
qed

text \<open>What plain keys leave alone.\<close>

definition edit_frame where
  "edit_frame s = (ln_settings (fst s), hist_lines (fst s), rawmode (fst s))"

interpretation ln_editor: text_editor feed_key "\<lambda>s. tty_in (fst s)" "\<lambda>s. text_of (snd s)" "\<lambda>s. l_buflen (snd s)"
  edit_frame editing
proof unfold_locales
  fix s :: edit_state and c :: byte and rest
  assume a: "editing s" "tty_in (fst s) = Got c # rest" "plain_key c"
  obtain E l where s: "s = (E, l)" by force
  then show "\<exists>s'. feed_key s = Some s' \<and> editing s' \<and> tty_in (fst s') = rest \<and> l_buflen (snd s') = l_buflen (snd s)
      \<and> edit_frame s' = edit_frame s \<and> text_of (snd s') = zkey (l_buflen (snd s)) c (text_of (snd s))"
    using feed_key_text [of E l c rest] a by (auto simp: feed_key_def edit_frame_def)
qed

text \<open>
  C13. The line editor refines an editor of two lists: on a working terminal, feeding a key that edits the line
  (a character, backspace, delete to the start or end, a word, moves, the swap of two characters) leaves
  a well-formed buffer whose text in front of and behind the cursor is what the specification of the key
  makes of the text before, and the edit goes on.
\<close>

theorem key_refines_editor:
  assumes "editing (E, l)" "tty_in E = Got c # rest" "plain_key c"
  shows "\<exists>out l'. linenoiseEditFeed E l = Some (EditMore, E\<lparr>tty_in := rest, tty_out := out\<rparr>, l')
    \<and> editing (E\<lparr>tty_in := rest, tty_out := out\<rparr>, l')
    \<and> text_of l' = zkey (l_buflen l) c (text_of l) \<and> l_buflen l' = l_buflen l"
  by (rule feed_key_text [OF assms])

lemma example_editing: "length s < 1000 \<Longrightarrow> editing (example_env inp, example_state s)"
  using example_session [of s inp] by (simp add: editing_def example_env_def example_state_def line_init_def)

theorem key_refines_editor_witness:
  "\<exists>out l'. linenoiseEditFeed (example_env [Got CTRL_B]) (example_state ''ab'')
      = Some (EditMore, (example_env [])\<lparr>tty_out := out\<rparr>, l') \<and> text_of l' = ([CHR ''a''], [CHR ''b''])"
proof -
  have "tty_in (example_env [Got CTRL_B]) = Got CTRL_B # []" "(example_env [Got CTRL_B])\<lparr>tty_in := []\<rparr> = example_env []"
    by (simp_all add: example_env_def line_init_def)
  moreover have "plain_key CTRL_B" by (simp add: plain_key_def)
  moreover have "zkey (l_buflen (example_state ''ab'')) CTRL_B (text_of (example_state ''ab'')) = ([CHR ''a''], [CHR ''b''])"
    by (simp add: zkey_def)
  ultimately show ?thesis
    using key_refines_editor [of "example_env [Got CTRL_B]" "example_state ''ab''" CTRL_B "[]"] example_editing [of "''ab''"]
    by simp blast
qed

section \<open>A typed line\<close>

lemma edit_loop_feeds: "ln_editor.feeds n s = Some s' \<Longrightarrow> edit_loop (fst s) (snd s) = edit_loop (fst s') (snd s')"
proof (induction n arbitrary: s)
  case (Suc n)
  then obtain t where t: "feed_key s = Some t" "ln_editor.feeds n t = Some s'" by (auto simp: bind_eq_Some_conv)
  then have "linenoiseEditFeed (fst s) (snd s) = Some (EditMore, fst t, snd t)"
    by (auto simp: feed_key_def split: option.splits feed_end.splits)
  then have "edit_loop (fst s) (snd s) = edit_loop (fst t) (snd t)" by (subst edit_loop.simps) (simp add: split_def)
  then show ?case using Suc.IH [OF t(2)] by simp
qed simp

text \<open>The line that an editor of two lists leaves, up to a \<open>NUL\<close> that was typed.\<close>

definition typed_line :: "nat \<Rightarrow> bytes \<Rightarrow> bytes" where
  "typed_line cap ks = (case fold (zkey cap) ks ([], []) of (a, b) \<Rightarrow> takeWhile (\<lambda>c. c \<noteq> NUL) (a @ b))"

lemma butlast_push_line: "last xs \<noteq> x \<or> xs = [] \<Longrightarrow> 0 < m \<Longrightarrow> butlast (push_line m x xs) = drop (Suc (length xs) - m) xs"
  by (auto simp: push_line_def butlast_append)

text \<open>
  What is typed is what is returned: keys that edit the line and then \<open>ENTER\<close> make \<open>linenoise\<close> return the line
  that the specification editor of 4095 bytes has then, whatever is typed later stays unread, and the
  history is as before but for its oldest line when it was full and an empty last line.
\<close>

theorem typed_line_returned:
  assumes "prompt_ready E LINENOISE_MAX_LINE prompt" "\<not> isUnsupportedTerm term" "length buf = LINENOISE_MAX_LINE"
    "\<not> tty_broken E" "list_all plain_key ks" "tty_in E = map Got ks @ Got ENTER # rest"
  shows "\<exists>E'. linenoise E term l buf prompt = Some (Some (typed_line 4095 ks), E')
    \<and> tty_in E' = rest \<and> hist_ok E' \<and> ln_settings E' = ln_settings E
    \<and> hist_lines E' = butlast (push_line (nat (history_max_len E)) [] (hist_lines E))"
proof -
  obtain ret E1 l1 where st: "linenoiseEditStart E l buf LINENOISE_MAX_LINE prompt = Some (ret, E1, l1)" "session E1 l1"
      "text_of l1 = ([], [])" "l_buflen l1 = LINENOISE_MAX_LINE - 1" "\<not> in_completion l1" "tty_in E1 = tty_in E"
      "ln_settings E1 = ln_settings E" "hist_lines E1 = push_line (nat (history_max_len E)) [] (hist_lines E)"
    using edit_start [OF assms(1,3)] by blast
  have "\<not> tty_broken E1" using st(7) assms(4) by (simp add: ln_settings_def)
  then have "editing (E1, l1)" using st by (simp add: editing_def)
  moreover have "tty_in (fst (E1, l1)) = map Got ks @ Got ENTER # rest" using st(6) assms(6) by simp
  ultimately obtain s2 where s2: "ln_editor.feeds (length ks) (E1, l1) = Some s2" "editing s2"
      "tty_in (fst s2) = Got ENTER # rest" "edit_frame s2 = edit_frame (E1, l1)"
      "text_of (snd s2) = fold (zkey 4095) ks ([], [])"
    using ln_editor.feeds_fold [of "(E1, l1)" ks "Got ENTER # rest"] assms(5) st(3,4)
    by (auto simp: LINENOISE_MAX_LINE_def)
  obtain E2 l2 where E2: "s2 = (E2, l2)" by force
  let ?E = "E2\<lparr>tty_in := rest\<rparr>"
  have s: "session ?E l2" "stdin_tty E2" "\<not> in_completion l2" using s2(2) by (auto simp: editing_def E2 session_def index_ok_def)
  obtain h out l' where e: "enter_key ?E l2 = Some (Entered (takeWhile (\<lambda>c. c \<noteq> NUL) (fst (text_of l2) @ snd (text_of l2))),
      ?E\<lparr>history := Some h, history_len := history_len ?E - 1, tty_out := out\<rparr>, l')"
      "hist_ok (?E\<lparr>history := Some h, history_len := history_len ?E - 1\<rparr>)"
      "hist_lines (?E\<lparr>history := Some h, history_len := history_len ?E - 1\<rparr>) = butlast (hist_lines ?E)"
    using enter_line [OF s(1)] by blast
  define E3 where "E3 = ?E\<lparr>history := Some h, history_len := history_len ?E - 1, tty_out := out\<rparr>"
  have "linenoiseEditFeed E2 l2 = enter_key ?E l2"
    using s s2(3) by (simp add: linenoiseEditFeed_def read_byte_def E2 edit_key_def)
  then have "edit_loop E2 l2 = Some (Entered (typed_line 4095 ks), E3, l')"
    using e(1) s2(5) by (subst edit_loop.simps) (simp add: E2 typed_line_def split_def E3_def)
  then have lp: "edit_loop E1 l1 = Some (Entered (typed_line 4095 ks), E3, l')"
    using edit_loop_feeds [OF s2(1)] by (simp add: E2)
  have E3: "hist_ok E3" "hist_lines E3 = butlast (hist_lines E2)" "tty_in E3 = rest" "ln_settings E3 = ln_settings E2"
    using e(2,3) by (simp_all add: E3_def)
  have f: "hist_lines E2 = hist_lines E1" "ln_settings E2 = ln_settings E1" using s2(4) by (simp_all add: edit_frame_def E2)
  have stop: "hist_ok (linenoiseEditStop E3) = hist_ok E3" "hist_lines (linenoiseEditStop E3) = hist_lines E3"
    "tty_in (linenoiseEditStop E3) = tty_in E3" "ln_settings (linenoiseEditStop E3) = ln_settings E3"
    by (auto simp: linenoiseEditStop_def disableRawMode_def tty_write_def)
  have "stdin_tty E" using assms(1) by (simp add: prompt_ready_def)
  then have "linenoise E term l buf prompt = Some (Some (typed_line 4095 ks), linenoiseEditStop E3)"
    using assms(2) st(1) lp by (simp add: linenoise_def linenoiseBlockingEdit_def LINENOISE_MAX_LINE_def entered_def)
  then show ?thesis using stop E3 f st(7,8) by simp
qed

lemma prompt_ready_init:
  "length prompt < cols \<Longrightarrow> cols < 2 ^ 31 \<Longrightarrow> length prompt < 2 ^ 30 \<Longrightarrow> prompt_ready (line_init cols inp) LINENOISE_MAX_LINE prompt"
  by (simp add: prompt_ready_def line_init_def hist_ok_def history_wf_def hist_lines_def completions_fit_def LINENOISE_MAX_LINE_def)

theorem typed_line_returned_witness:
  "\<exists>E'. linenoise (line_init 80 (map Got [CHR ''e'', CHR ''t'', CTRL_A, CHR ''g''] @ [Got ENTER])) None (example_state [])
      (replicate LINENOISE_MAX_LINE NUL) ''>>> '' = Some (Some ''get'', E')
    \<and> tty_in E' = [] \<and> hist_ok E' \<and> ln_settings E' = ln_settings (line_init 80 []) \<and> hist_lines E' = []"
proof -
  let ?ks = "[CHR ''e'', CHR ''t'', CTRL_A, CHR ''g'']"
  let ?E = "line_init 80 (map Got ?ks @ Got ENTER # [])"
  have t: "typed_line 4095 ?ks = ''get''" by code_simp
  have h: "hist_lines ?E = []" "\<not> tty_broken ?E" "tty_in ?E = map Got ?ks @ Got ENTER # []"
      "ln_settings ?E = ln_settings (line_init 80 [])" "0 < nat (history_max_len ?E)"
    by (simp_all add: hist_lines_def line_init_def ln_settings_def)
  then have b: "butlast (push_line (nat (history_max_len ?E)) [] (hist_lines ?E)) = []"
    using butlast_push_line [of "hist_lines ?E" "[]"] by simp
  have r: "prompt_ready ?E LINENOISE_MAX_LINE ''>>> ''" by (rule prompt_ready_init) simp_all
  have k: "list_all plain_key ?ks" by (simp add: plain_key_def)
  have "\<not> isUnsupportedTerm None" "length (replicate LINENOISE_MAX_LINE NUL) = LINENOISE_MAX_LINE"
    by (simp_all add: isUnsupportedTerm_def)
  from typed_line_returned [OF r this h(2) k h(3), of "example_state []"] show ?thesis unfolding t b h(4) by simp
qed

section \<open>Keys that go wrong\<close>

text \<open>
  A tabulator with nothing to complete ends in the line: the terminal beeps, and the byte goes on to the
  insertion of an ordinary character.
\<close>

theorem unmatched_tab_inserted:
  assumes "editing (E, l)" "tty_in E = Got TAB # rest" "text_of l = (a, b)"
    "completionCallback E = Some f" "f (takeWhile (\<lambda>c. c \<noteq> NUL) (a @ b)) = []"
  shows "\<exists>E' l'. linenoiseEditFeed E l = Some (EditMore, E', l') \<and> tty_err E' = tty_err E @ [CHR 0x07]
    \<and> text_of l' = zinsert (l_buflen l) TAB (a, b)"
proof -
  let ?E = "E\<lparr>tty_in := rest\<rparr>"
  have s: "session E l" "\<not> tty_broken E" "stdin_tty E" using assms(1) by (auto simp: editing_def session_def)
  obtain r where t: "holds_text l a b r" using session_text [OF s(1)] assms(3) by auto
  let ?l = "l\<lparr>in_completion := False\<rparr>"
  have "completeLine ?E l TAB = Some (TAB, linenoiseBeep ?E, ?l)"
    using assms(4,5) cstring_holds [OF t] by (simp add: completeLine_def)
  then have f: "linenoiseEditFeed E l = edit_key (linenoiseBeep ?E) ?l TAB"
    using s(3) assms(2,4) by (simp add: linenoiseEditFeed_def read_byte_def char_code_def)
  have "holds_text ?l a b r" "view_ok ?l" using t s(1) by (auto simp: holds_text_def session_def view_ok_def)
  then obtain E' l' where i: "linenoiseEditInsert (linenoiseBeep ?E) ?l TAB = Some (0, E', l')"
      "edited (linenoiseBeep ?E) ?l (zinsert (l_buflen l) TAB (a, b)) (Some (E', l'))"
    using insert_text [of ?l a b r "linenoiseBeep ?E" TAB] s(2) by (auto simp: linenoiseBeep_def)
  have "edit_key (linenoiseBeep ?E) ?l TAB = Some (EditMore, E', l')" by (simp add: edit_key_def i(1))
  moreover have "tty_err E' = tty_err E @ [CHR 0x07]" "text_of l' = zinsert (l_buflen l) TAB (a, b)"
    using i(2) by (auto simp: edited_def linenoiseBeep_def)
  ultimately show ?thesis using f by simp
qed

theorem unmatched_tab_inserted_witness:
  "\<exists>E' l'. linenoiseEditFeed ((example_env [Got TAB])\<lparr>completionCallback := Some (\<lambda>line. [])\<rparr>) (example_state ''del'')
      = Some (EditMore, E', l') \<and> text_of l' = (''del'' @ [TAB], [])"
proof -
  let ?E = "(example_env [Got TAB])\<lparr>completionCallback := Some (\<lambda>line. [])\<rparr>"
  have "hist_ok ?E = hist_ok (example_env [Got TAB])" by (simp add: hist_ok_def history_wf_def hist_lines_def split: option.split)
  then have "editing (?E, example_state ''del'')"
    using example_editing [of "''del''" "[Got TAB]"] by (simp add: editing_def session_def index_ok_def completions_fit_def)
  moreover have "tty_in ?E = Got TAB # []" by (simp add: example_env_def line_init_def)
  moreover have "zinsert (l_buflen (example_state ''del'')) TAB (''del'', []) = (''del'' @ [TAB], [])"
    by (simp add: example_state_def)
  ultimately show ?thesis
    using unmatched_tab_inserted [of ?E "example_state ''del''" "[]" "''del''" "[]" "\<lambda>line. []"] by auto
qed

text \<open>
  While a completion is shown, a byte of 128 or more (part of any letter outside ASCII) ends the edit
  with a null pointer, which the client takes for the end of input: \<open>char\<close> is signed, and a negative result of
  \<open>completeLine\<close> counts as a read error.
\<close>

theorem high_byte_ends_edit:
  assumes "session E l" "in_completion l" "completionCallback E = Some f" "tty_in E = Got c # rest" "128 \<le> char_code c"
  shows "\<exists>E' l'. linenoiseEditFeed E l = Some (NullLine None, E', l')"
proof -
  let ?E = "E\<lparr>tty_in := rest\<rparr>"
  have "session ?E l" "completionCallback ?E = Some f" using assms(1,3) by simp_all
  then obtain c' m where m: "completeLine ?E l c = do { (E, l) \<leftarrow> m; Some (c', E, l) }" "keeps ?E l m"
    using complete_line_keeps by blast
  from m(2) obtain E1 l1 where k: "m = Some (E1, l1)" by (rule keepsE)
  have "c \<noteq> TAB" "c \<noteq> ESC" using assms(5) by (auto simp: char_code_def)
  then have "c' = c" using completeLine_key(2) [of ?E l c c' E1 l1] m(1) k by simp
  then show ?thesis
    using assms m(1) k by (simp add: linenoiseEditFeed_def session_def read_byte_def)
qed

theorem high_byte_ends_edit_witness:
  "\<exists>E' l'. linenoiseEditFeed ((example_env [Got CHR 0xC3])\<lparr>completionCallback := Some (\<lambda>line. [''set''])\<rparr>)
      ((example_state ''s'')\<lparr>in_completion := True\<rparr>) = Some (NullLine None, E', l')"
proof -
  let ?E = "(example_env [Got CHR 0xC3])\<lparr>completionCallback := Some (\<lambda>line. [''set''])\<rparr>"
  have "hist_ok ?E = hist_ok (example_env [Got CHR 0xC3])" by (simp add: hist_ok_def history_wf_def hist_lines_def split: option.split)
  then have "session ?E ((example_state ''s'')\<lparr>in_completion := True\<rparr>)"
    using example_session [of "''s''" "[Got CHR 0xC3]"]
    by (simp add: session_def index_ok_def completions_fit_def view_ok_def buffer_wf_def example_state_def)
  moreover have "tty_in ?E = Got CHR 0xC3 # []" by (simp add: example_env_def line_init_def)
  moreover have "128 \<le> char_code CHR 0xC3" by (simp add: char_code_def)
  ultimately show ?thesis
    using high_byte_ends_edit [of ?E "(example_state ''s'')\<lparr>in_completion := True\<rparr>"] by simp
qed

section \<open>A terminal that is not wider than the prompt\<close>

lemma scroll_wraps:
  assumes "0 < c" "c \<le> Suc (sz (p + x))" "x < 2 ^ 64"
  shows "\<exists>off' y. scroll p c off x x = Some (off', y, y) \<and> sz (p + y) = c - 1 \<and> y < 2 ^ 64"
  using assms(2,3)
proof (induction "sz (p + x)" arbitrary: x off rule: less_induct)
  case less
  show ?case
  proof (cases "c \<le> sz (p + x)")
    case True
    have "sz (p + sz_dec x) = sz (p + x) - 1" using True assms(1) by (intro sz_add_dec) simp
    moreover have "sz_dec x < 2 ^ 64" by (simp add: sz_dec_def sz_def)
    ultimately have "\<exists>off' y. scroll p c (off + 1) (sz_dec x) (sz_dec x) = Some (off', y, y) \<and> sz (p + y) = c - 1 \<and> y < 2 ^ 64"
      using True assms(1) by (intro less.hyps) auto
    then show ?thesis using True by (subst scroll.simps) simp
  next
    case False
    then show ?thesis using less.prems by (subst scroll.simps) auto
  qed
qed

lemma c_int_wraps: "y < 2 ^ 64 \<Longrightarrow> p < 2 ^ 31 \<Longrightarrow> 0 < c \<Longrightarrow> c \<le> p \<Longrightarrow> sz (p + y) = c - 1 \<Longrightarrow> c_int y < 0"
proof -
  assume a: "y < 2 ^ 64" "p < 2 ^ 31" "0 < c" "c \<le> p" "sz (p + y) = c - 1"
  have ge: "2 ^ 64 \<le> p + y" using a by (cases "p + y < 2 ^ 64") auto
  then have "sz (p + y) = p + y - 2 ^ 64" using a(1,2) by (simp add: sz_def mod_if)
  then have "p + y = c - 1 + 2 ^ 64" using a(5) ge by simp
  then have "int (p + y) = int (c - 1 + 2 ^ 64)" by presburger
  then have "int p + int y = int c - 1 + 2 ^ 64" using a(3) by (simp add: of_nat_diff)
  then have y: "int y = 2 ^ 64 + (int c - 1 - int p)" by simp
  have "int y + 2 ^ 31 = (int c - 1 - int p + 2 ^ 31) + 2 ^ 32 * 2 ^ 32" using y by simp
  then have "(int y + 2 ^ 31) mod 2 ^ 32 = (int c - 1 - int p + 2 ^ 31) mod 2 ^ 32"
    by (metis mod_mult_self2)
  also have "\<dots> = int c - 1 - int p + 2 ^ 31" using a by (intro mod_pos_pos_trivial) auto
  finally show ?thesis using a by (simp add: c_int_def)
qed

text \<open>
  C38. On a terminal that is not wider than the prompt the first refresh is undefined: with the cursor at the
  end of the line the loop that scrolls the window takes the length below zero, and the copy of the
  window gets a negative length.
\<close>

theorem narrow_terminal_undefined:
  assumes "\<not> mlmode E" "\<not> maskmode E" "0 < l_cols l" "l_cols l \<le> length (l_prompt l)"
    "length (l_prompt l) < 2 ^ 31" "l_pos l = l_len l" "l_len l < 2 ^ 31"
  shows "refreshLine E l = None"
proof -
  let ?p = "length (l_prompt l)"
  have "sz (?p + l_len l) = ?p + l_len l" using assms(5,7) by simp
  then obtain off y where y: "scroll ?p (l_cols l) 0 (l_len l) (l_len l) = Some (off, y, y)"
      "sz (?p + y) = l_cols l - 1" "y < 2 ^ 64"
    using scroll_wraps [of "l_cols l" ?p "l_len l" 0] assms by auto
  have "\<not> l_cols l < sz (?p + y)" using y(2) by linarith
  then have "shrink ?p (l_cols l) y = y" by (subst shrink.simps) simp
  moreover have "c_int y < 0" by (rule c_int_wraps [OF y(3) assms(5,3,4) y(2)])
  then have "show_text E ab (l_buf l) off y = None" for ab
    using assms(2) by (simp add: show_text_def abAppend_def load_block_def)
  moreover have "and REFRESH_ALL REFRESH_WRITE \<noteq> 0" by (simp add: refresh_flags)
  ultimately show ?thesis
    using y(1) assms(1,6) by (simp add: refreshLine_def refreshLineWithFlags_def refreshSingleLine_def)
qed

theorem narrow_terminal_undefined_witness:
  "refreshLine (example_env []) ((example_state ''get k'')\<lparr>l_cols := 4\<rparr>) = None"
  by (rule narrow_terminal_undefined) (simp_all add: example_env_def line_init_def example_state_def)

end
