(* ===== verification/Prompt.thy ===== *)
theory Prompt
  imports Cli LineType
begin

text \<open>
  The main loop of the interactive client (\<open>src/client/client.c\<close>) over the line editor: the callbacks, the
  history file, and one turn from the keys that are typed to the request that is sent.

  The lemmas compose the two: what is typed reaches the server as the words of the edited line, and the
  history file holds it.
\<close>

section \<open>The main loop\<close>

definition client_env :: "line_env \<Rightarrow> line_env" where
  "client_env E =
     linenoiseSetHintsCallback (Some (\<lambda>line. map_option (\<lambda>(hint, color). (hint, color, 0)) (hints line)))
       (linenoiseSetCompletionCallback (Some completion) E)"

lemma client_env_fields: "client_env E = E\<lparr>completionCallback := Some completion,
     hintsCallback := Some (\<lambda>line. map_option (\<lambda>(hint, color). (hint, color, 0)) (hints line))\<rparr>"
  by (simp add: client_env_def linenoiseSetHintsCallback_def linenoiseSetCompletionCallback_def)

text \<open>The start of \<open>main\<close> up to the connection: the callbacks are set and the history file is read.\<close>

definition client_start :: "line_env \<Rightarrow> bytes option \<Rightarrow> line_env option" where
  "client_start E file = do { (_, E) \<leftarrow> linenoiseHistoryLoad (client_env E) file; Some E }"

text \<open>
  One round: what is sent, what is printed, the new history file if one is written, and whether the loop goes
  on.  \<open>l\<close> and \<open>buf\<close> are the uninitialised locals of the line editor, \<open>opened\<close> says that the history file
  can be written, \<open>answer\<close> is what the connection delivers.
\<close>

definition client_turn ::
  "line_env \<Rightarrow> bytes option \<Rightarrow> linenoiseState \<Rightarrow> bytes \<Rightarrow> bool \<Rightarrow> read_end
     \<Rightarrow> (bytes \<times> bytes option list \<times> bytes option \<times> line_env \<times> bool) option" where
  "client_turn E env_term l buf opened answer = do {
     (line, E) \<leftarrow> linenoise E env_term l buf ''>>> '';
     (case line of
        None \<Rightarrow> Some ([], [], None, E, False)
      | Some line \<Rightarrow> do {
          (file, E) \<leftarrow> (if line = [] \<or> hd line = CHR ''/'' then Some (None, E)
             else do {
               (_, E) \<leftarrow> linenoiseHistoryAdd E line;
               (_, f) \<leftarrow> linenoiseHistorySave E opened;
               Some (f, E)
             });
          (req, out, again) \<leftarrow> cli_line line answer;
          Some (req, out, file, E, again)
        })
   }"

text \<open>The rounds, as long as there are any: the requests and the printed replies in order.\<close>

fun client_loop ::
  "line_env \<Rightarrow> bytes option \<Rightarrow> (linenoiseState \<times> bytes \<times> bool \<times> read_end) list
     \<Rightarrow> (bytes list \<times> bytes option list \<times> line_env) option" where
  "client_loop E env_term [] = Some ([], [], E)"
| "client_loop E env_term ((l, buf, opened, answer) # turns) = do {
     (req, out, file, E, again) \<leftarrow> client_turn E env_term l buf opened answer;
     if again then do {
       (reqs, outs, E) \<leftarrow> client_loop E env_term turns;
       Some (req # reqs, out @ outs, E)
     }
     else Some ([req], out, E)
   }"

section \<open>From the keys to the request\<close>

lemma completion_fits: "completions_fit (Some completion) (LINENOISE_MAX_LINE - 1)"
  by (auto simp: completions_fit_def completion_def LINENOISE_MAX_LINE_def)

lemma client_ready:
  "prompt_ready (line_init cols inp) LINENOISE_MAX_LINE prompt \<Longrightarrow>
     prompt_ready (client_env (line_init cols inp)) LINENOISE_MAX_LINE prompt"
  using completion_fits by (simp add: prompt_ready_def client_env_fields line_init_def hist_ok_def history_wf_def hist_lines_def)

text \<open>Editing up to the history, stated for the use below.\<close>

lemma push_line_last: "0 < m \<Longrightarrow> push_line m x xs \<noteq> [] \<and> last (push_line m x xs) = x"
  by (auto simp: push_line_def last_drop)

lemma turn_history:
  assumes "hist_ok E" "nul_free s"
  shows "\<exists>E' r. linenoiseHistoryAdd E s = Some (r, E') \<and> hist_ok E' \<and> hist_lines E' \<noteq> [] \<and> last (hist_lines E') = s
    \<and> linenoiseHistorySave E' True = Some (0, Some (concat (map (\<lambda>l. l @ [LF]) (hist_lines E'))))"
proof -
  have wf: "history_wf E" using assms(1) by (simp add: hist_ok_def)
  obtain r h n where a: "linenoiseHistoryAdd E s = Some (r, E\<lparr>history := Some h, history_len := n\<rparr>)"
      "history_wf (E\<lparr>history := Some h, history_len := n\<rparr>)"
      "hist_lines (E\<lparr>history := Some h, history_len := n\<rparr>) = push_line (nat (history_max_len E)) s (hist_lines E)"
    using history_add [OF wf] by blast
  let ?E = "E\<lparr>history := Some h, history_len := n\<rparr>"
  have "hist_ok ?E"
    using a(2,3) assms push_line_set [of "nat (history_max_len E)" s "hist_lines E"] by (auto simp: hist_ok_def)
  moreover have "hist_lines ?E \<noteq> []" "last (hist_lines ?E) = s"
    using a(3) push_line_last [of "nat (history_max_len E)" s "hist_lines E"] wf by (auto simp: history_wf_def)
  ultimately show ?thesis using a(1) history_save [OF a(2)] by blast
qed

text \<open>
  C11. From the keyboard to the server: keys that edit the line and \<open>ENTER\<close> make the client send one request,
  which the server recognises as complete and decodes to the first sixteen words of the edited line,
  whatever follows it, and the line is the last one of the history and of the history file that is written.
\<close>

theorem typed_line_sent:
  fixes ks rest :: bytes
  defines "s \<equiv> typed_line 4095 ks"
  defines "ws \<equiv> take 16 (blank_words s)"
  assumes "prompt_ready E LINENOISE_MAX_LINE ''>>> ''" "\<not> isUnsupportedTerm term" "length buf = LINENOISE_MAX_LINE"
    "\<not> tty_broken E" "list_all plain_key ks" "tty_in E = map Got ks @ Got ENTER # later"
    "hd s \<noteq> CHR ''/''" "ws \<noteq> []" "length (array_text ws) < 1024" "NUL \<in> set rest"
    "read_response answer = Some (out, ret)"
  shows "\<exists>req file E'. client_turn E term l buf True answer = Some (req, out, Some file, E', ret = 0)
    \<and> respParse (req @ rest) 0 (int (length (req @ rest))) = Some (Some (int (length req) - 1))
    \<and> resp_decode (req @ rest) = Some (0, int (length ws), ws)
    \<and> tty_in E' = later \<and> hist_lines E' \<noteq> [] \<and> last (hist_lines E') = s
    \<and> file = concat (map (\<lambda>l. l @ [LF]) (hist_lines E'))"
proof -
  obtain E1 where E1: "linenoise E term l buf ''>>> '' = Some (Some s, E1)" "tty_in E1 = later" "hist_ok E1"
    using typed_line_returned [OF assms(3-8), of l] unfolding s_def by blast
  have "nul_free s" by (simp add: s_def typed_line_def split_def nul_free_takeWhile)
  then obtain E2 r where E2: "linenoiseHistoryAdd E1 s = Some (r, E2)" "hist_lines E2 \<noteq> []" "last (hist_lines E2) = s"
      "linenoiseHistorySave E2 True = Some (0, Some (concat (map (\<lambda>l. l @ [LF]) (hist_lines E2))))"
    using turn_history [OF E1(3)] by blast
  have "tty_in E2 = tty_in E1"
    using E2(1) by (auto simp: linenoiseHistoryAdd_def Let_def bind_eq_Some_conv split: if_splits)
  moreover obtain req where req: "send_command s = Some req"
      "respParse (req @ rest) 0 (int (length (req @ rest))) = Some (Some (int (length req) - 1))"
      "resp_decode (req @ rest) = Some (0, int (length ws), ws)"
    using cli_request_decoded [of s rest] assms(10-12) unfolding ws_def by blast
  moreover have ne: "s \<noteq> []" using assms(10) by (auto simp: ws_def blank_words_def)
  then obtain c t where ct: "s = c # t" by (cases s) auto
  have "cli_line s answer = Some (req, out, ret = 0)"
    using assms(9,13) req(1) by (simp add: cli_line_def ct)
  ultimately show ?thesis
    using E1 E2 ne assms(9) by (simp add: client_turn_def)
qed

theorem typed_line_sent_witness:
  "\<exists>req file E'. client_turn (client_env (line_init 80 (map Got (''get kx'' @ [BACKSPACE]) @ Got ENTER # []))) None (example_state [])
      (replicate LINENOISE_MAX_LINE NUL) True (Failed True) = Some (req, [], Some file, E', True)
    \<and> resp_decode (req @ [NUL]) = Some (0, 2, [''get'', [CHR ''k'']])
    \<and> last (hist_lines E') = ''get k'' \<and> file = concat (map (\<lambda>l. l @ [LF]) (hist_lines E'))"
proof -
  let ?ks = "''get kx'' @ [BACKSPACE]"
  let ?E = "client_env (line_init 80 (map Got ?ks @ Got ENTER # []))"
  have t: "typed_line 4095 ?ks = ''get k''" by code_simp
  have w: "take 16 (blank_words ''get k'') = [''get'', [CHR ''k'']]" by code_simp
  have "prompt_ready ?E LINENOISE_MAX_LINE ''>>> ''" by (rule client_ready, rule prompt_ready_init) simp_all
  moreover have "\<not> isUnsupportedTerm None" "length (replicate LINENOISE_MAX_LINE NUL) = LINENOISE_MAX_LINE"
    by (simp_all add: isUnsupportedTerm_def)
  moreover have "\<not> tty_broken ?E" by (simp add: client_env_fields line_init_def)
  moreover have "list_all plain_key ?ks" by (simp add: plain_key_def)
  moreover have "tty_in ?E = map Got ?ks @ Got ENTER # []" by (simp add: client_env_fields line_init_def)
  moreover have "hd (typed_line 4095 ?ks) \<noteq> CHR ''/''" unfolding t by simp
  moreover have "take 16 (blank_words (typed_line 4095 ?ks)) \<noteq> []" unfolding t w by simp
  moreover have "length (array_text [''get'', [CHR ''k'']]) < 1024" by code_simp
  then have "length (array_text (take 16 (blank_words (typed_line 4095 ?ks)))) < 1024" unfolding t w .
  moreover have "NUL \<in> set [NUL]" "read_response (Failed True) = Some ([], 0)" by (simp_all add: read_response_def)
  ultimately have "\<exists>req file E'. client_turn ?E None (example_state []) (replicate LINENOISE_MAX_LINE NUL) True (Failed True)
        = Some (req, [], Some file, E', (0 :: int) = 0)
      \<and> respParse (req @ [NUL]) 0 (int (length (req @ [NUL]))) = Some (Some (int (length req) - 1))
      \<and> resp_decode (req @ [NUL]) = Some (0, int (length (take 16 (blank_words (typed_line 4095 ?ks)))),
          take 16 (blank_words (typed_line 4095 ?ks)))
      \<and> tty_in E' = [] \<and> hist_lines E' \<noteq> [] \<and> last (hist_lines E') = typed_line 4095 ?ks
      \<and> file = concat (map (\<lambda>l. l @ [LF]) (hist_lines E'))"
    by (rule typed_line_sent)
  then show ?thesis unfolding t w by auto
qed

end
