(* ===== verification/Logger.thy ===== *)
theory Logger
  imports CText
begin

text \<open>
  The logger (\<open>src/log.c\<close>): the static variable \<open>L\<close>, its setters, the table of callbacks and \<open>log_log\<close>, as the
  list of what it does: the lock function called, text written to a stream, a callback of the user called.
  The time as \<open>strftime\<close> prints it and the message as \<open>vfprintf\<close> prints it are arguments; streams are numbers.

  The lemmas show which sinks a message reaches, in which order, and that the table holds 32 callbacks.
\<close>

section \<open>State\<close>

definition MAX_CALLBACKS :: nat where "MAX_CALLBACKS = 32"

text \<open>\<open>log_LogFn\<close>: the function for files that \<open>log_add_fp\<close> registers, or one of the user.\<close>

datatype log_fn = FileCallback | UserCallback nat

record log_callback =
  cb_fn :: log_fn
  cb_udata :: nat
  cb_level :: int

text \<open>A slot without a function is \<open>None\<close>; so is a lock that is not set.\<close>

record logger =
  lg_udata :: nat
  lg_lock :: "nat option"
  lg_level :: int
  lg_quiet :: bool
  lg_callbacks :: "log_callback option list"

definition log_init :: logger where
  "log_init = \<lparr> lg_udata = 0, lg_lock = None, lg_level = 0, lg_quiet = False,
     lg_callbacks = replicate MAX_CALLBACKS None \<rparr>"

record log_event =
  ev_msg :: bytes
  ev_file :: bytes
  ev_line :: int
  ev_level :: int
  ev_clock :: bytes
  ev_date :: bytes

datatype log_effect = LockCall nat bool nat | Written nat bytes | UserCall nat nat int

section \<open>Operations\<close>

definition level_strings :: "bytes list" where
  "level_strings = [''TRACE'', ''DEBUG'', ''INFO'', ''WARN'', ''ERROR'', ''FATAL'']"

definition level_colors :: "bytes list" where
  "level_colors = map (\<lambda>n. CHR 0x1B # ''['' @ n @ ''m'') [''94'', ''36'', ''32'', ''33'', ''31'', ''35'']"

definition log_level_string :: "int \<Rightarrow> bytes option" where
  "log_level_string level = load level_strings level"

definition log_set_lock :: "nat option \<Rightarrow> nat \<Rightarrow> logger \<Rightarrow> logger" where
  "log_set_lock fn udata L = L\<lparr>lg_lock := fn, lg_udata := udata\<rparr>"

definition log_set_level :: "int \<Rightarrow> logger \<Rightarrow> logger" where
  "log_set_level level L = L\<lparr>lg_level := level\<rparr>"

definition log_set_quiet :: "bool \<Rightarrow> logger \<Rightarrow> logger" where
  "log_set_quiet enable L = L\<lparr>lg_quiet := enable\<rparr>"

text \<open>The loop over the slots from \<open>i\<close> for \<open>n\<close> more of them.\<close>

fun first_free :: "nat \<Rightarrow> nat \<Rightarrow> log_callback option list \<Rightarrow> nat option option" where
  "first_free 0 i cbs = Some None"
| "first_free (Suc n) i cbs = do {
     c \<leftarrow> load cbs (int i);
     if c = None then Some (Some i) else first_free n (Suc i) cbs
   }"

definition log_add_callback :: "log_fn \<Rightarrow> nat \<Rightarrow> int \<Rightarrow> logger \<Rightarrow> (int \<times> logger) option" where
  "log_add_callback fn udata level L = do {
     free \<leftarrow> first_free MAX_CALLBACKS 0 (lg_callbacks L);
     (case free of
        None \<Rightarrow> Some (-1, L)
      | Some i \<Rightarrow> do {
          cbs \<leftarrow> store (lg_callbacks L) (int i) (Some \<lparr> cb_fn = fn, cb_udata = udata, cb_level = level \<rparr>);
          Some (0, L\<lparr>lg_callbacks := cbs\<rparr>)
        })
   }"

definition log_add_fp :: "nat \<Rightarrow> int \<Rightarrow> logger \<Rightarrow> (int \<times> logger) option" where
  "log_add_fp fp level L = log_add_callback FileCallback fp level L"

section \<open>Writing a message\<close>

text \<open>The padding of \<open>%-5s\<close>.\<close>

definition pad5 :: "bytes \<Rightarrow> bytes" where
  "pad5 s = s @ replicate (5 - length s) CHR '' ''"

text \<open>\<open>LOG_USE_COLOR\<close> is defined in \<open>log.h\<close>.\<close>

definition stdout_callback :: "log_event \<Rightarrow> nat \<Rightarrow> log_effect option" where
  "stdout_callback ev udata = do {
     name \<leftarrow> load level_strings (ev_level ev);
     color \<leftarrow> load level_colors (ev_level ev);
     Some (Written udata (ev_clock ev @ '' '' @ color @ pad5 name @ CHR 0x1B # ''[0m '' @ CHR 0x1B # ''[90m''
       @ ev_file ev @ '':'' @ dec_int (ev_line ev) @ '':'' @ CHR 0x1B # ''[0m '' @ ev_msg ev @ [LF]))
   }"

definition file_callback :: "log_event \<Rightarrow> nat \<Rightarrow> log_effect option" where
  "file_callback ev udata = do {
     name \<leftarrow> load level_strings (ev_level ev);
     Some (Written udata (ev_date ev @ '' '' @ pad5 name @ '' '' @ ev_file ev @ '':'' @ dec_int (ev_line ev) @ '': ''
       @ ev_msg ev @ [LF]))
   }"

definition call_back :: "log_event \<Rightarrow> log_callback \<Rightarrow> log_effect option" where
  "call_back ev cb = (case cb_fn cb of
     FileCallback \<Rightarrow> file_callback ev (cb_udata cb)
   | UserCallback f \<Rightarrow> Some (UserCall f (cb_udata cb) (ev_level ev)))"

definition lock_call :: "logger \<Rightarrow> bool \<Rightarrow> log_effect list" where
  "lock_call L on = (case lg_lock L of None \<Rightarrow> [] | Some f \<Rightarrow> [LockCall f on (lg_udata L)])"

text \<open>The loop over the callbacks, up to the first free slot.\<close>

fun run_callbacks :: "log_event \<Rightarrow> log_callback option list \<Rightarrow> log_effect list option" where
  "run_callbacks ev (Some cb # cbs) = do {
     e \<leftarrow> (if ev_level ev \<ge> cb_level cb then do { e \<leftarrow> call_back ev cb; Some [e] } else Some []);
     es \<leftarrow> run_callbacks ev cbs;
     Some (e @ es)
   }"
| "run_callbacks ev _ = Some []"

definition STDOUT :: nat where "STDOUT = 1"

definition log_log :: "logger \<Rightarrow> log_event \<Rightarrow> log_effect list option" where
  "log_log L ev = do {
     out \<leftarrow> (if \<not> lg_quiet L \<and> ev_level ev \<ge> lg_level L
        then do { e \<leftarrow> stdout_callback ev STDOUT; Some [e] } else Some []);
     es \<leftarrow> run_callbacks ev (lg_callbacks L);
     Some (lock_call L True @ out @ es @ lock_call L False)
   }"

section \<open>Registered callbacks\<close>

text \<open>The table is a prefix of callbacks before its free slots.\<close>

definition holds_callbacks :: "logger \<Rightarrow> log_callback list \<Rightarrow> bool" where
  "holds_callbacks L cbs \<longleftrightarrow> length cbs \<le> MAX_CALLBACKS
     \<and> lg_callbacks L = map Some cbs @ replicate (MAX_CALLBACKS - length cbs) None"

lemma first_free_skip:
  "first_free (length cbs + n) (length pre) (pre @ map Some cbs @ r) = first_free n (length pre + length cbs) (pre @ map Some cbs @ r)"
proof (induction cbs arbitrary: pre)
  case (Cons c cbs)
  have "load (pre @ Some c # map Some cbs @ r) (int (length pre)) = Some (Some c)" by (simp add: load_def nth_append)
  then show ?case using Cons.IH [of "pre @ [Some c]"] by simp
qed simp

lemma log_add_callback_table:
  assumes "holds_callbacks L cbs"
  shows "if length cbs < MAX_CALLBACKS
    then \<exists>L'. log_add_callback fn udata level L = Some (0, L')
      \<and> holds_callbacks L' (cbs @ [\<lparr> cb_fn = fn, cb_udata = udata, cb_level = level \<rparr>])
    else log_add_callback fn udata level L = Some (-1, L)"
proof -
  define r where "r = replicate (MAX_CALLBACKS - length cbs) (None :: log_callback option)"
  have t: "lg_callbacks L = map Some cbs @ r" "length cbs \<le> MAX_CALLBACKS"
    using assms by (auto simp: holds_callbacks_def r_def)
  have f: "first_free MAX_CALLBACKS 0 (lg_callbacks L) = first_free (MAX_CALLBACKS - length cbs) (length cbs) (lg_callbacks L)"
    using first_free_skip [of cbs "MAX_CALLBACKS - length cbs" "[]" r] t by simp
  show ?thesis
  proof (cases "length cbs < MAX_CALLBACKS")
    case True
    then obtain n where n: "MAX_CALLBACKS - length cbs = Suc n" by (metis Suc_diff_Suc)
    then have r: "r = None # replicate n None" by (simp add: r_def)
    let ?cb = "\<lparr> cb_fn = fn, cb_udata = udata, cb_level = level \<rparr>"
    have "store (map Some cbs @ r) (int (length cbs)) (Some ?cb) = Some (map Some (cbs @ [?cb]) @ replicate n None)"
      using list_update_length [of "map Some cbs" None "replicate n None" "Some ?cb"] by (simp add: store_def r)
    moreover have "first_free MAX_CALLBACKS 0 (lg_callbacks L) = Some (Some (length cbs))"
      unfolding f unfolding n t(1) by (simp add: load_def nth_append r)
    ultimately have "log_add_callback fn udata level L
        = Some (0, L\<lparr>lg_callbacks := map Some (cbs @ [?cb]) @ replicate n None\<rparr>)"
      unfolding log_add_callback_def by (simp add: t(1))
    moreover have "MAX_CALLBACKS - length (cbs @ [?cb]) = n" "length (cbs @ [?cb]) \<le> MAX_CALLBACKS" using n True by auto
    ultimately show ?thesis using True by (auto simp: holds_callbacks_def)
  next
    case False
    then show ?thesis using f t by (simp add: log_add_callback_def)
  qed
qed

lemma run_callbacks_all:
  assumes "0 \<le> ev_level ev" "ev_level ev < 6"
  shows "run_callbacks ev (map Some cbs @ replicate n None)
    = Some (map (\<lambda>cb. the (call_back ev cb)) (filter (\<lambda>cb. cb_level cb \<le> ev_level ev) cbs))"
proof (induction cbs)
  case Nil
  show ?case by (cases n) auto
next
  case (Cons cb cbs)
  have "\<exists>e. call_back ev cb = Some e"
    using assms by (auto simp: call_back_def file_callback_def load_def level_strings_def split: log_fn.split)
  then show ?case using Cons by auto
qed

text \<open>
  A message of a valid level goes, between the calls of the lock, to standard output when the logger is
  not quiet and the level is reached, and then to every callback whose level is reached, in the order of registration.
\<close>

theorem log_reaches_sinks:
  assumes "holds_callbacks L cbs" "0 \<le> ev_level ev" "ev_level ev < 6"
  shows "\<exists>text. stdout_callback ev STDOUT = Some (Written STDOUT text) \<and> log_log L ev = Some (lock_call L True
    @ (if \<not> lg_quiet L \<and> lg_level L \<le> ev_level ev then [Written STDOUT text] else [])
    @ map (\<lambda>cb. the (call_back ev cb)) (filter (\<lambda>cb. cb_level cb \<le> ev_level ev) cbs)
    @ lock_call L False)"
proof -
  have "run_callbacks ev (lg_callbacks L)
      = Some (map (\<lambda>cb. the (call_back ev cb)) (filter (\<lambda>cb. cb_level cb \<le> ev_level ev) cbs))"
    using run_callbacks_all [OF assms(2,3)] assms(1) by (simp add: holds_callbacks_def)
  moreover have "\<exists>text. stdout_callback ev STDOUT = Some (Written STDOUT text)"
    using assms(2,3) by (auto simp: stdout_callback_def load_def level_strings_def level_colors_def)
  ultimately show ?thesis by (auto simp: log_log_def)
qed

end
