(* ===== verification/Crypto.thy ===== *)
theory Crypto
  imports CText
begin

text \<open>
  The checksum (\<open>src/crypto.c\<close>) over OpenSSL, which is a parameter: whether a context can be allocated, what
  the three calls answer, and the digest.  Memory that no call has written is \<open>None\<close>, and comparing it is
  undefined.

  The lemmas show that the check accepts exactly the digest, and that it is undefined when OpenSSL fails.
\<close>

section \<open>Operations\<close>

definition SHA256_DIGEST_LENGTH :: nat where "SHA256_DIGEST_LENGTH = 32"

record openssl =
  new_ok :: bool
  init_answer :: int
  update_answer :: int
  final_answer :: int
  digest :: "bytes \<Rightarrow> bytes"

text \<open>What \<open>out\<close> holds afterwards; the outer option is the assertion and the bounds of \<open>out\<close>.\<close>

definition compute_sha256 :: "openssl \<Rightarrow> bytes \<Rightarrow> byte option list \<Rightarrow> byte option list option" where
  "compute_sha256 S data out = do {
     assert_c (new_ok S);
     if init_answer S \<noteq> 1 then Some out
     else if update_answer S \<noteq> 1 then Some out
     else if final_answer S \<noteq> 1 then Some out
     else store_block out 0 (map Some (digest S data))
   }"

definition verify_sha256 :: "openssl \<Rightarrow> bytes \<Rightarrow> bytes \<Rightarrow> int option" where
  "verify_sha256 S data expected_hash = do {
     computed_hash \<leftarrow> compute_sha256 S data (replicate SHA256_DIGEST_LENGTH None);
     a \<leftarrow> load_block computed_hash 0 (int SHA256_DIGEST_LENGTH);
     b \<leftarrow> load_block expected_hash 0 (int SHA256_DIGEST_LENGTH);
     if None \<in> set a then None
     else Some (if map the a = b then 1 else 0)
   }"

section \<open>The check\<close>

text \<open>With a working OpenSSL the check accepts the digest of the data and nothing else.\<close>

theorem verify_sha256_correct:
  assumes "new_ok S" "init_answer S = 1" "update_answer S = 1" "final_answer S = 1"
    "\<forall>d. length (digest S d) = 32" "length expected = 32"
  shows "verify_sha256 S data expected = Some (if digest S data = expected then 1 else 0)"
proof -
  have "store_block (replicate 32 (None :: byte option)) 0 (map Some (digest S data)) = Some (map Some (digest S data))"
    using assms(5) by (simp add: store_block_def)
  then have "compute_sha256 S data (replicate SHA256_DIGEST_LENGTH None) = Some (map Some (digest S data))"
    using assms by (simp add: compute_sha256_def SHA256_DIGEST_LENGTH_def)
  moreover have "load_block (map Some (digest S data)) 0 (int SHA256_DIGEST_LENGTH) = Some (map Some (digest S data))"
    "load_block expected 0 (int SHA256_DIGEST_LENGTH) = Some expected"
    using assms(5,6) by (simp_all add: load_block_def SHA256_DIGEST_LENGTH_def)
  moreover have "map the (map Some xs) = xs" for xs :: bytes by (induction xs) simp_all
  ultimately show ?thesis by (simp add: verify_sha256_def image_iff)
qed

text \<open>When a call of OpenSSL fails, the comparison reads the array that was never written.\<close>

theorem verify_sha256_failure_undefined:
  assumes "new_ok S" "init_answer S \<noteq> 1 \<or> update_answer S \<noteq> 1 \<or> final_answer S \<noteq> 1" "length expected = 32"
  shows "verify_sha256 S data expected = None"
proof -
  have "compute_sha256 S data (replicate SHA256_DIGEST_LENGTH None) = Some (replicate SHA256_DIGEST_LENGTH None)"
    using assms(1,2) by (auto simp: compute_sha256_def)
  then show ?thesis using assms(3) by (simp add: verify_sha256_def load_block_def SHA256_DIGEST_LENGTH_def)
qed

end
