(* ===== verification/Spec2Isabelle.thy ===== *)
theory Spec2Isabelle
  imports Sds RingBuf DList Dict Util Robj Resp Db Ae Client Conf Commands Requests Transactions Rdb Repli
    Server Connections Tables Safety Lifecycle Replication Aof Rio Net Prompt Logger Crypto
begin

text \<open>
  A verification library of \<open>fedis\<close>, a Redis-like key-value server in C with master-replica replication.

  \<^bold>\<open>The program and its theories.\<close>  Every theory models the source file it names; a \<open>struct\<close> is a
  \<open>record\<close>, an \<open>enum\<close> a \<open>datatype\<close> or its numbers, an operation a function with the name it has in C
  (a suffix where the name is taken).  Memory accesses are checked: an operation is \<open>None\<close> where the C
  program reads or writes outside an object, follows a null or dangling pointer, fails an assertion or
  calls \<open>exit\<close>; \<open>Some\<close> is a defined run.

    \<^item> \<open>Prelude\<close>, \<open>CText\<close>: checked reads and writes of byte blocks, C strings, the parsing functions of the C
      library (\<open>strtol\<close>, \<open>sscanf\<close>, \<open>atoi\<close>, \<open>strcasecmp\<close>) and printing of decimals.
    \<^item> \<open>Sds\<close> (\<open>src/sds.c\<close>), \<open>RingBuf\<close> (\<open>src/ringbuffer.c\<close>), \<open>DList\<close> (\<open>src/list.c\<close>, nodes on an explicit heap),
      \<open>Dict\<close> (\<open>src/dict.c\<close>, two tables and incremental rehashing), \<open>Util\<close>, \<open>Robj\<close> (\<open>src/robj.c\<close>), \<open>Rio\<close> (\<open>src/rio.c\<close>).
    \<^item> \<open>Resp\<close> (\<open>src/resp.c\<close>): encoders, decoder, recogniser and printer of the protocol; \<open>Net\<close> (\<open>src/net.c\<close>): the
      second recogniser, sockets and the poll; \<open>Cli\<close> (\<open>client/client.c\<close>): the interactive client.
    \<^item> \<open>LineHistory\<close>, \<open>LineRefresh\<close>, \<open>LineEdit\<close>, \<open>LineFeed\<close> (\<open>src/linenoise.c\<close>): the line editor, from the history
      and its file over the refreshes and the editing operations on the buffer to the keys, the escape sequences
      and the loop, with the terminal as a state: what the next reads answer and what was written.
      \<open>LineSession\<close> and \<open>LineType\<close> hold the invariant of an edit and what typed keys come to; \<open>Prompt\<close> is the main
      loop of the client over the line editor.
    \<^item> \<open>Logger\<close> (\<open>src/log.c\<close>): the logger; \<open>Crypto\<close> (\<open>src/crypto.c\<close>): the checksum over the answers of OpenSSL.
    \<^item> \<open>Db\<close> (\<open>src/db.c\<close>): keys, expiry times and watchers over three dictionaries; \<open>Ae\<close> (\<open>src/ae.c\<close>): the event
      loop against the interest set of the kernel; \<open>Conf\<close> (\<open>src/conf.c\<close>): the settings file.
    \<^item> \<open>Client\<close> (\<open>src/client.c\<close>), \<open>Commands\<close> (\<open>src/redis.c\<close>): clients, the command table, the procedures,
      \<open>processCommand\<close> and \<open>processClientQueryBuf\<close> over the state \<open>redisServer\<close> (clients are identifiers in the map
      \<open>cheap\<close>, so a freed client is an identifier that maps to nothing).  \<open>Requests\<close> and \<open>Transactions\<close> hold
      what one request, a transaction, a replica and the backlog do.
    \<^item> \<open>Rdb\<close> (\<open>src/rdb.c\<close>): snapshots; \<open>Repli\<close> (\<open>src/repli.c\<close>, \<open>aof_load\<close>): the replica; \<open>Aof\<close> (\<open>src/aof.c\<close>): the
      append-only file and its thread; \<open>Server\<close> (\<open>src/redis.c\<close>): event handlers, periodic jobs, set-up.
    \<^item> \<open>Replication\<close>: a master and a replica side by side, and replaying through the fake client.
    \<^item> \<open>Connections\<close>, \<open>Tables\<close>, \<open>Safety\<close>, \<open>Lifecycle\<close>: the whole server.  \<open>holds m P\<close> says that every defined run of
      \<open>m\<close> ends in \<open>P\<close>; the collection \<open>wp\<close> has such a rule for every operation and handler; \<open>server_step\<close> is the
      transition relation of the handlers, fired as the event table says, and the jobs, \<open>reachable\<close> its
      closure from a start of the server.

  \<^bold>\<open>How the parts interact.\<close>  The event loop calls \<open>readFromClient\<close>, which appends to \<open>readBuf\<close> and runs
  \<open>processClientQueryBuf\<close>: decode, queue inside \<open>MULTI\<close>, else look the command up and run its procedure on the
  database; a write is appended to the backlog (\<open>addRepliBuf\<close>) and to the write buffers of the replicas
  (\<open>commandPropagate\<close>), or on a replica advances its offset.  Replies wait in \<open>writeBuf\<close> for \<open>sendToClient\<close>.  A
  replica goes through \<open>PING\<close>, \<open>REPLCONF\<close>, \<open>SYNC\<close> and a full or partial resynchronisation.  Clients to close are
  marked and freed by the periodic job.

  \<^bold>\<open>What is shown.\<close>  Data structures: the dictionary is a finite map (add, replace, fetch, delete, rehash step
  unseen), the list on the heap a list, the ring a queue; well-formedness is kept.  Round trips: requests,
  snapshots, settings, lines of the client.  The composed server: what a write does to the database, the
  backlog and the replicas; that a replica stays equal to its master over any sequence of writes; what a
  transaction does; what a replica refuses; both resynchronisations; that
  the handshake ends \<open>CONNECTED\<close> only behind a synchronisation.  In every reachable state no event, list or
  master pointer dangles and all databases are well formed; closing frees exactly the marked clients and
  a silent replica is dropped.  The client: the line editor refines an editor of two lists (the text in front of
  and behind the cursor), never leaves its buffer or its history whatever is typed, and returns; a typed line
  reaches the server as its words and comes back with the next session's history.  The append-only file keeps every request unless the two threads race.
  Where the code does not do what it means to, the theorem states what it does (transactions that stay
  refused, a guard that \<open>EXEC\<close> lifts, lost propagation, overruns of fixed arrays, values that change in a
  snapshot).

  \<^bold>\<open>Interfaces.\<close>  Locales state what a client of a component relies on (the map laws of a dictionary, a sink
  that appends what is written, and the others in their theories); each is interpreted on the model.

  \<^bold>\<open>Bounds.\<close>  \<open>query_fuel\<close> has two levels: a request runs queued requests through \<open>EXEC\<close> once, and \<open>EXEC\<close> itself
  is never queued; the queue has ten places.  Loops over tables and files take their length plus one.
  \<open>replay\<close> and \<open>show_replies\<close> take the length of the buffer plus one, since each round consumes a message.
  The recognisers nest at most as deep as the message is long.  Loops that may not end (\<open>repli_read_loop\<close>,
  reconnecting, the window of \<open>refreshSingleLine\<close>, \<open>edit_loop\<close>, \<open>key_codes\<close>) are \<open>partial_function\<close>s: \<open>None\<close> includes
  not returning.  That \<open>edit_loop\<close> returns is proved: every key uses up input, and the end of the input ends it.

  \<^bold>\<open>Environment.\<close>  The clock, descriptors, what reads, writes, \<open>fork\<close>, \<open>epoll\<close> and name lookup answer, what is in
  uninitialised memory, what is typed, the size of the terminal, and the answers of OpenSSL are arguments (\<open>env\<close> and parameters).  The server process
  is single-threaded but for the thread of the append-only file, whose interleaving is explicit.

  \<^bold>\<open>Not modelled.\<close>  What the server itself writes to its log, \<open>main.c\<close> (calls the set-up and the loop), the
  terminal attributes behind raw mode, the freeing of completions and hints, formatting of addresses in
  \<open>net.c\<close>, file and directory helpers of \<open>util.c\<close>, creating the socket of the client, functions without a
  caller (\<open>readToReadBuf\<close>, \<open>readRespFromClient\<close>, \<open>dbFree\<close>, \<open>dbClear\<close>, \<open>dbPrint\<close>), empty files and headers without
  an implementation.
\<close>

end
